(* ===== verification/JsPrelude.thy ===== *)
theory JsPrelude
  imports Complex_Main "HOL-Library.AList" "HOL-Library.List_Lexorder" "HOL-Library.Char_ord"
    "HOL-Library.Multiset"
begin

section \<open>What the model uses of JavaScript\<close>

text \<open>
  The part of the language and its standard library the modelled code relies on: decimal
  rendering, \<open>Array.prototype.join\<close>, truthiness of optional strings, insertion-ordered
  \<open>Set\<close>, and the stable \<open>Array.prototype.sort\<close>. A \<open>Map\<close> is an association list updated
  with \<^const>\<open>AList.update\<close>, which overwrites in place and appends a new key at the end, as
  the JavaScript one does. Strings are lists of code units below 256.
\<close>

named_theorems js_simps \<open>rewriting the JavaScript helpers away\<close>

subsection \<open>Numbers and strings\<close>

fun nat_str :: "nat \<Rightarrow> string" where
  "nat_str n = (if n < 10 then [char_of (48 + n)] else nat_str (n div 10) @ [char_of (48 + n mod 10)])"

declare nat_str.simps [simp del]

definition int_str :: "int \<Rightarrow> string" where
  "int_str i = (if i < 0 then CHR ''-'' # nat_str (nat (- i)) else nat_str (nat i))"

definition len_str :: "'a list \<Rightarrow> string" where
  "len_str xs = nat_str (length xs)"

fun join :: "string \<Rightarrow> string list \<Rightarrow> string" where
  "join sep [] = []"
| "join sep [s] = s"
| "join sep (s # t # ss) = s @ sep @ join sep (t # ss)"

definition comma :: "string list \<Rightarrow> string" where
  "comma = join '', ''"

text \<open>An optional string in a condition: \<open>undefined\<close>, \<open>null\<close> and the empty string are falsy.\<close>

definition truthy :: "string option \<Rightarrow> bool" where
  "truthy s \<longleftrightarrow> s \<noteq> None \<and> s \<noteq> Some []"

lemma truthy_simps [simp, js_simps]:
  "\<not> truthy None" "\<not> truthy (Some [])" "truthy (Some (c # cs))"
  by (simp_all add: truthy_def)

lemma truthyE: "truthy s \<Longrightarrow> (\<And>v. s = Some v \<Longrightarrow> v \<noteq> [] \<Longrightarrow> P) \<Longrightarrow> P"
  by (cases s) (auto simp: truthy_def)

definition is_digit :: "char \<Rightarrow> bool" where
  "is_digit c \<longleftrightarrow> 48 \<le> (of_char c :: nat) \<and> (of_char c :: nat) \<le> 57"

definition digit_val :: "char \<Rightarrow> nat" where
  "digit_val c = of_char c - 48"

lemma of_char_digit: "n < 10 \<Longrightarrow> (of_char (char_of (48 + n) :: char) :: nat) = 48 + n"
  by simp

lemma is_digit_char [simp]: "n < (10 :: nat) \<Longrightarrow> is_digit (char_of (48 + n))"
  by (simp add: is_digit_def)

lemma digit_val_char [simp]: "n < (10 :: nat) \<Longrightarrow> digit_val (char_of (48 + n)) = n"
  by (simp add: digit_val_def)

definition digits_val :: "string \<Rightarrow> nat" where
  "digits_val ds = foldl (\<lambda>v c. 10 * v + digit_val c) 0 ds"

lemma digits_val_snoc: "digits_val (ds @ [c]) = 10 * digits_val ds + digit_val c"
  by (simp add: digits_val_def)

lemma digits_val_nat_str [simp]: "digits_val (nat_str n) = n"
proof (induction n rule: nat_str.induct)
  case (1 n)
  show ?case
  proof (cases "n < 10")
    case True
    then show ?thesis by (simp add: nat_str.simps [of n] digits_val_def)
  next
    case False
    with 1 show ?thesis by (simp add: nat_str.simps [of n] digits_val_snoc)
  qed
qed

lemma nat_str_digits: "c \<in> set (nat_str n) \<Longrightarrow> is_digit c"
proof (induction n rule: nat_str.induct)
  case (1 n)
  show ?case
  proof (cases "n < 10")
    case True
    with 1 show ?thesis by (simp add: nat_str.simps [of n])
  next
    case False
    with 1 show ?thesis by (auto simp: nat_str.simps [of n])
  qed
qed

lemma nat_str_not_Nil [simp]: "nat_str n \<noteq> []"
  by (simp add: nat_str.simps [of n])

lemma nat_str_inj: "nat_str m = nat_str n \<longleftrightarrow> m = n"
  by (metis digits_val_nat_str)

subsection \<open>Sets that keep insertion order\<close>

text \<open>\<open>[...new Set(xs)]\<close>: the first occurrence of every element, in order.\<close>

definition js_set :: "'a list \<Rightarrow> 'a list" where
  "js_set xs = rev (remdups (rev xs))"

lemma set_js_set [simp, js_simps]: "set (js_set xs) = set xs"
  by (simp add: js_set_def)

lemma distinct_js_set [simp]: "distinct (js_set xs)"
  by (simp add: js_set_def)

lemma js_set_Nil [simp]: "js_set [] = []"
  by (simp add: js_set_def)

lemma length_js_set: "length (js_set xs) = card (set xs)"
  by (simp add: js_set_def length_remdups_card_conv)

lemma js_set_distinct: "distinct xs \<Longrightarrow> js_set xs = xs"
  by (simp add: js_set_def distinct_remdups_id)

subsection \<open>Maps that keep insertion order\<close>

lemma map_of_map_key: "map_of (map (\<lambda>(k, v). (k, f k v)) m) x = map_option (f x) (map_of m x)"
  by (induction m) auto

lemma map_of_AList_update [simp, js_simps]: "map_of (AList.update k v m) x = (if x = k then Some v else map_of m x)"
  by (simp add: update_conv')

subsection \<open>Stable sorting with a comparator\<close>

text \<open>
  \<open>xs.sort(cmp)\<close> is stable; \<open>le a b\<close> stands for \<open>cmp(a, b) <= 0\<close> (or \<open>NaN\<close>, which the
  standard reads as 0). On a consistent comparator the result is determined, so an insertion
  sort computes it.
\<close>

fun insert_by :: "('a \<Rightarrow> 'a \<Rightarrow> bool) \<Rightarrow> 'a \<Rightarrow> 'a list \<Rightarrow> 'a list" where
  "insert_by le x [] = [x]"
| "insert_by le x (y # ys) = (if le x y then x # y # ys else y # insert_by le x ys)"

fun sort_by :: "('a \<Rightarrow> 'a \<Rightarrow> bool) \<Rightarrow> 'a list \<Rightarrow> 'a list" where
  "sort_by le [] = []"
| "sort_by le (x # xs) = insert_by le x (sort_by le xs)"

lemma mset_insert_by [simp]: "mset (insert_by le x xs) = add_mset x (mset xs)"
  by (induction xs) auto

lemma mset_sort_by [simp]: "mset (sort_by le xs) = mset xs"
  by (induction xs) auto

lemma set_sort_by [simp]: "set (sort_by le xs) = set xs"
  by (metis mset_sort_by set_mset_mset)

lemma length_sort_by [simp]: "length (sort_by le xs) = length xs"
  by (metis mset_sort_by size_mset)

lemma distinct_sort_by [simp]: "distinct (sort_by le xs) = distinct xs"
  by (metis mset_sort_by mset_eq_imp_distinct_iff)

lemma insert_by_cong:
  "(\<And>y. y \<in> set xs \<Longrightarrow> le x y = le' x y) \<Longrightarrow> insert_by le x xs = insert_by le' x xs"
  by (induction xs) auto

lemma sort_by_cong:
  "(\<And>x y. x \<in> set xs \<Longrightarrow> y \<in> set xs \<Longrightarrow> le x y = le' x y) \<Longrightarrow> sort_by le xs = sort_by le' xs"
proof (induction xs)
  case (Cons x xs)
  then have "insert_by le x (sort_by le' xs) = insert_by le' x (sort_by le' xs)"
    by (intro insert_by_cong) simp
  with Cons show ?case by simp
qed simp

text \<open>The contract of a comparator: \<open>le\<close> is a total preorder.\<close>

locale comparator =
  fixes le :: "'a \<Rightarrow> 'a \<Rightarrow> bool"
  assumes total: "le x y \<or> le y x"
    and trans: "le x y \<Longrightarrow> le y z \<Longrightarrow> le x z"
begin

lemma refl: "le x x"
  using total [of x x] by simp

lemma sorted_insert_by: "sorted_wrt le xs \<Longrightarrow> sorted_wrt le (insert_by le x xs)"
proof (induction xs)
  case (Cons y ys)
  have "set (insert_by le x ys) = insert x (set ys)"
    by (metis mset_insert_by set_mset_add_mset_insert set_mset_mset)
  with Cons show ?case using total [of x y] by (auto intro: trans)
qed simp

lemma sorted_sort_by: "sorted_wrt le (sort_by le xs)"
  by (induction xs) (auto intro: sorted_insert_by)

lemma insert_by_head: "(\<And>y. y \<in> set ys \<Longrightarrow> le x y) \<Longrightarrow> insert_by le x ys = x # ys"
  by (cases ys) auto

lemma filter_insert_by_pos:
  "sorted_wrt le xs \<Longrightarrow> P x \<Longrightarrow> filter P (insert_by le x xs) = insert_by le x (filter P xs)"
proof (induction xs)
  case (Cons y ys)
  show ?case
  proof (cases "le x y")
    case True
    have "le x z" if "z \<in> set (filter P (y # ys))" for z
      using that True Cons.prems(1) trans [of x y z] by (auto split: if_splits)
    from insert_by_head [OF this] True Cons.prems show ?thesis by simp
  next
    case False
    with Cons show ?thesis by simp
  qed
qed simp

lemma filter_insert_by_neg: "\<not> P x \<Longrightarrow> filter P (insert_by le x xs) = filter P xs"
  by (induction xs) auto

text \<open>Stability: the elements equivalent to one another keep their order.\<close>

lemma sort_by_stable: "filter (\<lambda>y. le y k \<and> le k y) (sort_by le xs) = filter (\<lambda>y. le y k \<and> le k y) xs"
proof (induction xs)
  case (Cons x xs)
  let ?P = "\<lambda>y. le y k \<and> le k y"
  show ?case
  proof (cases "?P x")
    case True
    then have "le x y" if "y \<in> set (filter ?P xs)" for y
      using that trans [of x k y] by simp
    note head = insert_by_head [of "filter ?P xs", OF this]
    have "filter ?P (sort_by le (x # xs)) = insert_by le x (filter ?P (sort_by le xs))"
      using True by (simp add: filter_insert_by_pos [OF sorted_sort_by])
    with head True Cons.IH show ?thesis by simp
  next
    case False
    from filter_insert_by_neg [of ?P, OF False] False Cons.IH show ?thesis by simp
  qed
qed simp

text \<open>Where the comparator decides every pair, the input order does not matter.\<close>

lemma sort_by_permute:
  assumes "mset xs = mset ys"
    and anti: "\<And>x y. x \<in> set xs \<Longrightarrow> y \<in> set xs \<Longrightarrow> le x y \<Longrightarrow> le y x \<Longrightarrow> x = y"
  shows "sort_by le xs = sort_by le ys"
proof -
  have unique: "us = vs" if "sorted_wrt le us" "sorted_wrt le vs" "mset us = mset vs" "set us \<subseteq> set xs"
    for us vs
    using that
  proof (induction us arbitrary: vs)
    case (Cons u us)
    then obtain v vs' where vs: "vs = v # vs'" by (cases vs) auto
    have sets: "set (u # us) = set (v # vs')"
      using Cons.prems(3) vs by (metis set_mset_mset)
    have "le u v" using Cons.prems(1) sets refl by (metis list.set_intros(1) set_ConsD sorted_wrt.simps(2))
    moreover have "le v u" using Cons.prems(2) sets vs refl
      by (metis list.set_intros(1) set_ConsD sorted_wrt.simps(2))
    ultimately have "u = v" using anti Cons.prems(4) sets by (metis list.set_intros(1) subsetD)
    with Cons vs show ?case by simp
  qed simp
  show ?thesis
    by (rule unique) (auto simp: sorted_sort_by assms(1))
qed

end

text \<open>
  A comparator written as a chain of keys: compare by \<open>f\<close>, and on equal keys by \<open>le\<close>. The
  engine's comparators are all of this shape.
\<close>

definition then_by :: "('a \<Rightarrow> 'k::linorder) \<Rightarrow> ('a \<Rightarrow> 'a \<Rightarrow> bool) \<Rightarrow> 'a \<Rightarrow> 'a \<Rightarrow> bool" where
  "then_by f le x y \<longleftrightarrow> f x < f y \<or> (f x = f y \<and> le x y)"

lemma comparator_then_by:
  assumes "comparator le"
  shows "comparator (then_by f le)"
proof
  fix x y z
  show "then_by f le x y \<or> then_by f le y x"
    using comparator.total [OF assms, of x y] less_linear [of "f x" "f y"] by (auto simp: then_by_def)
  show "then_by f le x z" if "then_by f le x y" "then_by f le y z"
    using that comparator.trans [OF assms, of x y z] by (auto simp: then_by_def)
qed

lemma comparator_key: "comparator (\<lambda>x y. f x \<le> (f y :: 'k::linorder))"
  unfolding comparator_def by auto

lemma comparator_inv: "comparator le \<Longrightarrow> comparator (\<lambda>x y. le (f x) (f y))"
  unfolding comparator_def by blast

interpretation linorder_cmp: comparator "(\<le>) :: 'k::linorder \<Rightarrow> 'k \<Rightarrow> bool"
  by unfold_locales auto

text \<open>\<open>xs.sort()\<close> on strings: code unit order.\<close>

abbreviation str_sort :: "string list \<Rightarrow> string list" where
  "str_sort \<equiv> sort_by (\<le>)"

text \<open>\<open>s.split(c)\<close> for a one-character separator.\<close>

fun split_on :: "char \<Rightarrow> string \<Rightarrow> string list" where
  "split_on c [] = [[]]"
| "split_on c (x # xs) =
     (if x = c then [] # split_on c xs
      else case split_on c xs of p # ps \<Rightarrow> (x # p) # ps | [] \<Rightarrow> [[x]])"

lemma split_on_not_Nil [simp]: "split_on c s \<noteq> []"
  by (induction s) (auto split: list.splits)

lemma split_on_id: "c \<notin> set s \<Longrightarrow> split_on c s = [s]"
  by (induction s) auto

lemma split_on_append: "c \<notin> set s \<Longrightarrow> split_on c (s @ c # t) = s # split_on c t"
  by (induction s) auto

lemma split_on_join:
  "ss \<noteq> [] \<Longrightarrow> (\<And>s. s \<in> set ss \<Longrightarrow> c \<notin> set s) \<Longrightarrow> split_on c (join [c] ss) = ss"
proof (induction "[c]" ss rule: join.induct)
  case (3 s t ss)
  then show ?case using split_on_append [of c s] by simp
qed (simp_all add: split_on_id)

lemma split_on_lines: "list_all (\<lambda>l. c \<notin> set l) ls \<Longrightarrow> ls \<noteq> [] \<Longrightarrow> split_on c (join [c] ls) = ls"
  by (rule split_on_join) (auto simp: list_all_iff)

end
