(* ===== verification/JsDouble.thy ===== *)
theory JsDouble
  imports JsPrelude
begin

section \<open>JavaScript numbers\<close>

text \<open>
  Integers below \<open>2^53\<close> are exact, so counts, generations and milliseconds are \<open>int\<close> or
  \<open>nat\<close>; amounts of money are only compared and copied, so a finite double is the rational it
  denotes. Where the code divides, the rounding matters: \<open>fl\<close> is round-to-nearest-even to 53
  significant bits for a value in \<open>[0, 2^52)\<close> (fuel 1074 reaches every positive double, and the
  quotients divided here are at least \<open>1 / 2^53\<close>), and \<open>math_round\<close> is \<open>Math.round\<close>.
  \<open>to_fixed2\<close> is \<open>Number.prototype.toFixed(2)\<close> below \<open>10^21\<close>.
\<close>

definition round_even :: "rat \<Rightarrow> int" where
  "round_even x =
     (let f = \<lfloor>x\<rfloor>; r = x - of_int f
      in if r < 1 / 2 then f else if r > 1 / 2 then f + 1 else if even f then f else f + 1)"

fun scale_up :: "nat \<Rightarrow> rat \<Rightarrow> nat" where
  "scale_up 0 x = 0"
| "scale_up (Suc n) x = (if 4503599627370496 \<le> x then 0 else Suc (scale_up n (2 * x)))"

definition fl :: "rat \<Rightarrow> rat" where
  "fl x = (if x \<le> 0 then 0 else let k = scale_up 1074 x in of_int (round_even (x * 2 ^ k)) / 2 ^ k)"

definition math_round :: "rat \<Rightarrow> int" where
  "math_round x = \<lfloor>x + 1 / 2\<rfloor>"

definition to_fixed2 :: "rat \<Rightarrow> string" where
  "to_fixed2 x =
     (let n = nat \<lfloor>\<bar>x\<bar> * 100 + 1 / 2\<rfloor>; c = n mod 100
      in (if x < 0 then ''-'' else []) @ nat_str (n div 100) @ ''.''
         @ (if c < 10 then ''0'' else []) @ nat_str c)"

lemma round_even_le: "x \<le> of_int n \<Longrightarrow> round_even x \<le> n"
  unfolding round_even_def Let_def by (cases "\<lfloor>x\<rfloor> < n") (auto simp: not_less floor_less_iff le_less)

lemma round_even_nonneg: "0 \<le> x \<Longrightarrow> 0 \<le> round_even x"
  by (auto simp: round_even_def Let_def)

lemma fl_nonneg: "0 \<le> fl x"
  by (auto simp: fl_def Let_def round_even_nonneg)

lemma fl_le: "x \<le> of_nat n \<Longrightarrow> fl x \<le> of_nat n"
proof (cases "x \<le> 0")
  case False
  assume "x \<le> of_nat n"
  then have "x * 2 ^ k \<le> of_int (int n * 2 ^ k)" for k
    using mult_right_mono [of x "of_nat n" "2 ^ k"] by simp
  from round_even_le [OF this] have "of_int (round_even (x * 2 ^ k)) \<le> (of_int (int n * 2 ^ k) :: rat)" for k
    by (simp only: of_int_le_iff)
  with False show ?thesis by (simp add: fl_def Let_def divide_le_eq)
qed (simp add: fl_def)

lemma math_round_bounds: "0 \<le> x \<Longrightarrow> x \<le> of_nat n \<Longrightarrow> 0 \<le> math_round x \<and> math_round x \<le> int n"
  unfolding math_round_def by (simp add: floor_le_iff)

subsection \<open>Numbers with infinities, as comparators return them\<close>

datatype js_num = Fin int | Pos_Inf | Neg_Inf | NaN

fun js_sub :: "js_num \<Rightarrow> js_num \<Rightarrow> js_num" where
  "js_sub (Fin a) (Fin b) = Fin (a - b)"
| "js_sub NaN _ = NaN"
| "js_sub _ NaN = NaN"
| "js_sub Pos_Inf Pos_Inf = NaN"
| "js_sub Neg_Inf Neg_Inf = NaN"
| "js_sub Pos_Inf _ = Pos_Inf"
| "js_sub Neg_Inf _ = Neg_Inf"
| "js_sub (Fin a) Pos_Inf = Neg_Inf"
| "js_sub (Fin a) Neg_Inf = Pos_Inf"

text \<open>\<open>k !== 0\<close> holds of \<open>NaN\<close>; \<open>sort\<close> reads a comparator's \<open>NaN\<close> as 0.\<close>

definition js_nonzero :: "js_num \<Rightarrow> bool" where
  "js_nonzero k \<longleftrightarrow> k \<noteq> Fin 0"

fun sort_le :: "js_num \<Rightarrow> bool" where
  "sort_le (Fin k) \<longleftrightarrow> k \<le> 0"
| "sort_le Neg_Inf \<longleftrightarrow> True"
| "sort_le Pos_Inf \<longleftrightarrow> False"
| "sort_le NaN \<longleftrightarrow> True"

subsection \<open>Numbers read from text\<close>

text \<open>
  \<open>Number(s)\<close>: surrounding white space is ignored, the empty text is 0, then a decimal literal
  with an optional sign, fraction and exponent, or an unsigned hexadecimal, octal or binary one.
  \<open>None\<close> is \<open>NaN\<close> or an infinity. The exact value is kept, without the rounding past \<open>2^53\<close>.
\<close>

definition is_space :: "char \<Rightarrow> bool" where
  "is_space c \<longleftrightarrow> c = CHR '' '' \<or> (of_char c :: nat) \<in> {9, 10, 11, 12, 13, 160}"

definition trim :: "string \<Rightarrow> string" where
  "trim s = rev (dropWhile is_space (rev (dropWhile is_space s)))"

fun hex_val :: "char \<Rightarrow> nat" where
  "hex_val c =
     (let n = of_char c
      in if is_digit c then n - 48 else if 97 \<le> n \<and> n \<le> 102 then n - 87
         else if 65 \<le> n \<and> n \<le> 70 then n - 55 else 99)"

definition radix_number :: "nat \<Rightarrow> string \<Rightarrow> rat option" where
  "radix_number b ds =
     (if ds \<noteq> [] \<and> list_all (\<lambda>c. hex_val c < b) ds
      then Some (of_nat (foldl (\<lambda>v c. b * v + hex_val c) 0 ds)) else None)"

definition read_sign :: "string \<Rightarrow> int \<times> string" where
  "read_sign s =
     (case s of c # r \<Rightarrow> (if c = CHR ''-'' then (-1, r) else if c = CHR ''+'' then (1, r) else (1, s)) | [] \<Rightarrow> (1, s))"

definition read_exponent :: "string \<Rightarrow> int option" where
  "read_exponent s =
     (case s of
        [] \<Rightarrow> Some 0
      | c # r \<Rightarrow>
         (case read_sign r of (sg, ds) \<Rightarrow>
            if (c = CHR ''e'' \<or> c = CHR ''E'') \<and> ds \<noteq> [] \<and> list_all is_digit ds
            then Some (sg * int (digits_val ds)) else None))"

definition scale10 :: "rat \<Rightarrow> int \<Rightarrow> rat" where
  "scale10 x e = (if 0 \<le> e then x * 10 ^ nat e else x / 10 ^ nat (- e))"

definition decimal_number :: "string \<Rightarrow> rat option" where
  "decimal_number s =
     (case read_sign s of (sg, s) \<Rightarrow>
        let ip = takeWhile is_digit s; r = dropWhile is_digit s;
            (fp, r) = (case r of c # t \<Rightarrow>
                (if c = CHR ''.'' then (takeWhile is_digit t, dropWhile is_digit t) else ([], r)) | [] \<Rightarrow> ([], r))
        in if ip = [] \<and> fp = [] then None
           else case read_exponent r of
             None \<Rightarrow> None
           | Some e \<Rightarrow> Some (of_int sg * scale10 (of_nat (digits_val (ip @ fp))) (e - int (length fp))))"

definition js_number :: "string \<Rightarrow> rat option" where
  "js_number s =
     (let t = trim s
      in if t = [] then Some 0
         else if take 2 t \<in> {''0x'', ''0X''} then radix_number 16 (drop 2 t)
         else if take 2 t \<in> {''0o'', ''0O''} then radix_number 8 (drop 2 t)
         else if take 2 t \<in> {''0b'', ''0B''} then radix_number 2 (drop 2 t)
         else decimal_number t)"

lemma dropWhile_hd: "s = [] \<or> \<not> P (hd s) \<Longrightarrow> dropWhile P s = s"
  by (cases s) auto

lemma trim_id: "s = [] \<or> (\<not> is_space (hd s) \<and> \<not> is_space (last s)) \<Longrightarrow> trim s = s"
  by (auto simp: trim_def dropWhile_hd hd_rev)

lemma digit_not_space: "is_digit c \<Longrightarrow> \<not> is_space c"
  by (auto simp: is_digit_def is_space_def)

lemma trim_digits: "list_all is_digit ds \<Longrightarrow> trim ds = ds"
  by (cases ds) (auto intro!: trim_id simp: digit_not_space list_all_iff)

lemma decimal_digits:
  assumes "list_all is_digit ds" "ds \<noteq> []"
  shows "decimal_number ds = Some (of_nat (digits_val ds))"
proof -
  have tw: "takeWhile is_digit ds = ds" "dropWhile is_digit ds = []"
    using assms(1) by (auto simp: list_all_iff)
  obtain c cs where "ds = c # cs" "is_digit c" using assms by (cases ds) auto
  then have "read_sign ds = (1, ds)" by (auto simp: read_sign_def is_digit_def)
  with assms(2) show ?thesis by (simp add: decimal_number_def read_exponent_def scale10_def Let_def tw)
qed

lemma digits_not_radix: "list_all is_digit ds \<Longrightarrow> \<not> is_digit x \<Longrightarrow> take 2 ds \<noteq> [CHR ''0'', x]"
  by (cases ds; cases "tl ds") auto

lemma js_number_digits:
  assumes "list_all is_digit ds" "ds \<noteq> []"
  shows "js_number ds = Some (of_nat (digits_val ds))"
  using assms digits_not_radix [OF assms(1)]
  by (simp add: js_number_def Let_def trim_digits decimal_digits is_digit_def)

lemma list_all_nat_str [simp]: "list_all is_digit (nat_str n)"
  by (auto simp: list_all_iff dest: nat_str_digits)

lemma js_number_nat_str [simp]: "js_number (nat_str n) = Some (of_nat n)"
  by (simp add: js_number_digits)

lemma nat_str_no: "\<not> is_digit c \<Longrightarrow> c \<notin> set (nat_str n)"
  by (auto dest: nat_str_digits)

end
