(* ===== verification/EpicCards.thy ===== *)
theory EpicCards
  imports JsDouble
begin

section \<open>Board cards and the epic rollup\<close>

text \<open>
  \<open>src/shared/project-task-types.ts\<close>, \<open>task-statuses.ts\<close> and \<open>epic-cards.ts\<close>: a board card, the
  lane-to-bucket mapping, the projection of a card into the readiness fold's unit, and the fold of
  a whole board into one rollup per epic.
\<close>

subsection \<open>Cards\<close>

datatype task_status = Inbox | Open | In_Progress | In_Review | Done | Archived

datatype priority = Low | Medium | High

record project_task_meta =
  slug :: string
  card_status :: task_status
  card_title :: string
  priority :: "priority option"
  tags :: "string list"
  refs :: "string list"
  quest :: "string option"
  epic :: "string option"
  color :: "string option"
  depends_on :: "string list option"
  wall_pinned :: "bool option"
  relates_to :: "string list option"
  renamed_from :: "string list option"
  archived_reason :: "string option"
  archived_by :: "string option"
  delete_at :: "string option"
  requires_deploy :: "string list option"
  card_model :: "string option"
  card_created :: string
  mtime :: int
  body_preview :: string

type_synonym card = project_task_meta

subsection \<open>Buckets\<close>

datatype card_bucket = Not_Started | Bucket_In_Progress | Bucket_Done | Dropped

fun epic_bucket :: "task_status \<Rightarrow> card_bucket" where
  "epic_bucket Inbox = Not_Started"
| "epic_bucket Open = Not_Started"
| "epic_bucket In_Progress = Bucket_In_Progress"
| "epic_bucket In_Review = Bucket_In_Progress"
| "epic_bucket Done = Bucket_Done"
| "epic_bucket Archived = Dropped"

definition terminal_bucket :: "card_bucket \<Rightarrow> bool" where
  "terminal_bucket b \<longleftrightarrow> b = Bucket_Done \<or> b = Dropped"

lemma epic_bucket_simps [simp]:
  "epic_bucket s = Not_Started \<longleftrightarrow> s = Inbox \<or> s = Open"
  "epic_bucket s = Bucket_In_Progress \<longleftrightarrow> s = In_Progress \<or> s = In_Review"
  "epic_bucket s = Bucket_Done \<longleftrightarrow> s = Done"
  "epic_bucket s = Dropped \<longleftrightarrow> s = Archived"
  by (cases s; simp)+

record epic_child =
  child_card :: card
  bucket :: card_bucket
  waiting_on :: "string list"

record epic_rollup =
  rollup_epic_id :: string
  rollup_card :: "card option"
  children :: "epic_child list"
  not_started :: nat
  in_progress :: nat
  done_count :: nat
  dropped :: nat
  rollup_total :: nat
  pct :: "int option"
  rollup_complete :: bool

definition EPIC_TAG :: string where
  "EPIC_TAG = ''epic''"

definition is_epic_card :: "card \<Rightarrow> nat \<Rightarrow> bool" where
  "is_epic_card c child_count \<longleftrightarrow> 0 < child_count \<or> EPIC_TAG \<in> set (tags c)"

subsection \<open>One card, one child\<close>

text \<open>\<open>card.dependsOn ?? []\<close>.\<close>

definition deps :: "card \<Rightarrow> string list" where
  "deps c = (case depends_on c of None \<Rightarrow> [] | Some ds \<Rightarrow> ds)"

definition done_card_ids :: "card list \<Rightarrow> string set" where
  "done_card_ids cards = set (map slug (filter (\<lambda>c. card_status c = Done) cards))"

definition to_epic_child :: "card \<Rightarrow> string set \<Rightarrow> epic_child" where
  "to_epic_child c done_ids =
     \<lparr>child_card = c, bucket = epic_bucket (card_status c), waiting_on = filter (\<lambda>d. d \<notin> done_ids) (deps c)\<rparr>"

definition children_complete :: "epic_child list \<Rightarrow> bool" where
  "children_complete cs \<longleftrightarrow> cs \<noteq> [] \<and> list_all (\<lambda>c. bucket c = Bucket_Done \<or> bucket c = Dropped) cs"

definition count_bucket :: "epic_child list \<Rightarrow> card_bucket \<Rightarrow> nat" where
  "count_bucket cs b = length (filter (\<lambda>c. bucket c = b) cs)"

text \<open>\<open>Math.round((done / total) * 100)\<close>, with both roundings of the double arithmetic.\<close>

definition percent :: "nat \<Rightarrow> nat \<Rightarrow> int" where
  "percent d t = math_round (fl (100 * fl (of_nat d / of_nat t)))"

definition roll_up :: "string \<Rightarrow> card option \<Rightarrow> epic_child list \<Rightarrow> epic_rollup" where
  "roll_up epic_id c cs =
     (let d = count_bucket cs Bucket_Done; x = count_bucket cs Dropped; t = length cs - x
      in \<lparr>rollup_epic_id = epic_id, rollup_card = c, children = cs,
          not_started = count_bucket cs Not_Started, in_progress = count_bucket cs Bucket_In_Progress,
          done_count = d, dropped = x, rollup_total = t,
          pct = (if t > 0 then Some (percent d t) else None), rollup_complete = children_complete cs\<rparr>)"

subsection \<open>The order of children\<close>

fun bucket_order :: "card_bucket \<Rightarrow> int" where
  "bucket_order Not_Started = 0"
| "bucket_order Bucket_In_Progress = 1"
| "bucket_order Bucket_Done = 2"
| "bucket_order Dropped = 3"

fun priority_order :: "priority \<Rightarrow> int" where
  "priority_order High = 0"
| "priority_order Medium = 1"
| "priority_order Low = 2"

definition card_priority_rank :: "card \<Rightarrow> int" where
  "card_priority_rank c = priority_order (case priority c of None \<Rightarrow> Medium | Some p \<Rightarrow> p)"

definition by_bucket_order :: "epic_child \<Rightarrow> epic_child \<Rightarrow> int" where
  "by_bucket_order a b =
     (let k = bucket_order (bucket a) - bucket_order (bucket b)
      in if k \<noteq> 0 then k else card_priority_rank (child_card a) - card_priority_rank (child_card b))"

definition bucket_le :: "epic_child \<Rightarrow> epic_child \<Rightarrow> bool" where
  "bucket_le a b \<longleftrightarrow> by_bucket_order a b \<le> 0"

lemma bucket_le_keys:
  "bucket_le = then_by (\<lambda>c. bucket_order (bucket c))
     (\<lambda>a b. card_priority_rank (child_card a) \<le> card_priority_rank (child_card b))"
  by (auto simp: fun_eq_iff bucket_le_def by_bucket_order_def then_by_def Let_def)

interpretation bucket_cmp: comparator bucket_le
  unfolding bucket_le_keys by (intro comparator_then_by comparator_key)

subsection \<open>The index\<close>

fun children_by_epic :: "string set \<Rightarrow> card list \<Rightarrow> (string \<times> epic_child list) list
    \<Rightarrow> (string \<times> epic_child list) list" where
  "children_by_epic done_ids [] m = m"
| "children_by_epic done_ids (c # cs) m =
     children_by_epic done_ids cs
       (if truthy (epic c) then
          let e = the (epic c); ch = to_epic_child c done_ids
          in AList.update e ((case map_of m e of None \<Rightarrow> [] | Some l \<Rightarrow> l) @ [ch]) m
        else m)"

definition cards_by_id :: "card list \<Rightarrow> (string \<times> card) list" where
  "cards_by_id cards = foldl (\<lambda>m c. AList.update (slug c) c m) [] cards"

fun childless_epics :: "card list \<Rightarrow> (string \<times> epic_rollup) list \<Rightarrow> (string \<times> epic_rollup) list" where
  "childless_epics [] index = index"
| "childless_epics (c # cs) index =
     childless_epics cs
       (if map_of index (slug c) \<noteq> None \<or> EPIC_TAG \<notin> set (tags c) then index
        else AList.update (slug c) (roll_up (slug c) (Some c) []) index)"

definition build_epic_index :: "card list \<Rightarrow> (string \<times> epic_rollup) list" where
  "build_epic_index cards =
     (let by_id = cards_by_id cards;
          index = map (\<lambda>(e, cs). (e, roll_up e (map_of by_id e) (sort_by bucket_le cs)))
                    (children_by_epic (done_card_ids cards) cards [])
      in childless_epics cards index)"

definition unparented_cards :: "card list \<Rightarrow> (string \<times> epic_rollup) list \<Rightarrow> card list" where
  "unparented_cards cards index = filter (\<lambda>c. \<not> truthy (epic c) \<and> map_of index (slug c) = None) cards"

text \<open>\<open>splitUnparented\<close>: the live cards and the finished ones.\<close>

definition split_unparented :: "card list \<Rightarrow> (string \<times> epic_rollup) list \<Rightarrow> card list \<times> card list" where
  "split_unparented cards index =
     (let us = unparented_cards cards index; over = (\<lambda>c. terminal_bucket (epic_bucket (card_status c)))
      in (filter (\<lambda>c. \<not> over c) us, filter over us))"

definition not_started_children :: "epic_rollup \<Rightarrow> card list" where
  "not_started_children r = map child_card (filter (\<lambda>c. bucket c = Not_Started) (children r))"

subsection \<open>Projection\<close>

lemma to_epic_child_sel [simp]:
  "child_card (to_epic_child c D) = c"
  "bucket (to_epic_child c D) = epic_bucket (card_status c)"
  "waiting_on (to_epic_child c D) = filter (\<lambda>d. d \<notin> D) (deps c)"
  by (simp_all add: to_epic_child_def)

lemma roll_up_sel [simp]:
  "children (roll_up e c cs) = cs" "rollup_epic_id (roll_up e c cs) = e" "rollup_card (roll_up e c cs) = c"
  "rollup_complete (roll_up e c cs) = children_complete cs"
  by (simp_all add: roll_up_def Let_def)

lemma count_buckets:
  "count_bucket cs Not_Started + count_bucket cs Bucket_In_Progress + count_bucket cs Bucket_Done
     + count_bucket cs Dropped = length cs"
proof (induction cs)
  case (Cons c cs)
  then show ?case by (cases "bucket c") (simp_all add: count_bucket_def)
qed (simp add: count_bucket_def)

subsection \<open>What the index holds\<close>

text \<open>The children one epic gets from a list of cards.\<close>

definition claimed :: "string set \<Rightarrow> card list \<Rightarrow> string \<Rightarrow> epic_child list" where
  "claimed D cards e = map (\<lambda>c. to_epic_child c D) (filter (\<lambda>c. epic c = Some e \<and> e \<noteq> []) cards)"

lemma claimed_simps [simp]:
  "claimed D [] e = []"
  "claimed D (c # cs) e =
     (if epic c = Some e \<and> e \<noteq> [] then to_epic_child c D # claimed D cs e else claimed D cs e)"
  by (simp_all add: claimed_def)

lemma children_by_epic_lookup:
  "map_of (children_by_epic D cards m) e =
     (case map_of m e of
        None \<Rightarrow> (if claimed D cards e = [] then None else Some (claimed D cards e))
      | Some l \<Rightarrow> Some (l @ claimed D cards e))"
proof (induction cards arbitrary: m)
  case Nil
  then show ?case by (simp split: option.split)
next
  case (Cons c cards)
  show ?case
  proof (cases "truthy (epic c)")
    case False
    then have "claimed D (c # cards) e = claimed D cards e" by (auto simp: truthy_def)
    with False Cons.IH [of m] show ?thesis by (simp only: children_by_epic.simps if_False)
  next
    case True
    then obtain e' where e': "epic c = Some e'" "e' \<noteq> []" by (auto elim: truthyE)
    with True Cons.IH show ?thesis
      by (auto simp: Let_def split: option.split)
  qed
qed

lemma childless_epics_lookup:
  "map_of (childless_epics cards m) e =
     (case map_of m e of
        Some r \<Rightarrow> Some r
      | None \<Rightarrow> map_option (\<lambda>c. roll_up e (Some c) []) (find (\<lambda>c. slug c = e \<and> EPIC_TAG \<in> set (tags c)) cards))"
  by (induction cards arbitrary: m) (auto split: option.splits)

lemma build_epic_index_lookup:
  "map_of (build_epic_index cards) e =
     (let cs = claimed (done_card_ids cards) cards e
      in if cs \<noteq> [] then Some (roll_up e (map_of (cards_by_id cards) e) (sort_by bucket_le cs))
         else map_option (\<lambda>c. roll_up e (Some c) []) (find (\<lambda>c. slug c = e \<and> EPIC_TAG \<in> set (tags c)) cards))"
  by (simp add: build_epic_index_def childless_epics_lookup map_of_map_key children_by_epic_lookup Let_def)

lemma index_children:
  assumes "map_of (build_epic_index cards) e = Some r"
  shows "children r = sort_by bucket_le (claimed (done_card_ids cards) cards e)"
  using assms by (auto simp: build_epic_index_lookup Let_def split: if_splits)

lemma percent_bounds: "d \<le> t \<Longrightarrow> 0 \<le> percent d t \<and> percent d t \<le> 100"
proof -
  assume "d \<le> t"
  then have "(of_nat d / of_nat t :: rat) \<le> of_nat 1" by (simp add: divide_le_eq)
  from fl_le [OF this] have "100 * fl (of_nat d / of_nat t) \<le> of_nat 100" by simp
  from fl_le [OF this] show ?thesis
    unfolding percent_def using math_round_bounds [OF fl_nonneg, of _ 100] by simp
qed

lemma roll_up_counts:
  fixes e c cs
  defines "r \<equiv> roll_up e c cs"
  shows "not_started r + in_progress r + done_count r = rollup_total r"
    and "rollup_total r + dropped r = length cs"
    and "pct r = None \<longleftrightarrow> rollup_total r = 0"
    and "pct r = Some p \<Longrightarrow> 0 \<le> p \<and> p \<le> 100"
  using count_buckets [of cs] percent_bounds [of "count_bucket cs Bucket_Done" "length cs - count_bucket cs Dropped"]
  by (auto simp: r_def roll_up_def Let_def split: if_splits)

lemma index_is_roll_up:
  "map_of (build_epic_index cards) e = Some r \<Longrightarrow> \<exists>c. r = roll_up e c (children r)"
  by (auto simp: build_epic_index_lookup Let_def split: if_splits)

text \<open>
  The rollup the index holds for an epic has exactly the cards that claim the epic as its
  children, each once, ordered by bucket and then by priority; its counts partition them, archived
  children leave the denominator, and the percentage (with the double rounding) stays in 0..100.
\<close>

theorem epic_index_rollup:
  assumes "map_of (build_epic_index cards) e = Some r"
  shows "mset (children r) =
      mset (map (\<lambda>c. to_epic_child c (done_card_ids cards)) (filter (\<lambda>c. epic c = Some e \<and> e \<noteq> []) cards))
    \<and> sorted_wrt (\<lambda>a b. by_bucket_order a b \<le> 0) (children r)
    \<and> not_started r + in_progress r + done_count r = rollup_total r
    \<and> rollup_total r + dropped r = length (children r)
    \<and> (rollup_complete r \<longleftrightarrow> children r \<noteq> [] \<and> not_started r = 0 \<and> in_progress r = 0)
    \<and> (\<forall>p. pct r = Some p \<longrightarrow> 0 \<le> p \<and> p \<le> 100)"
proof -
  obtain c where r: "r = roll_up e c (children r)" using index_is_roll_up [OF assms] by auto
  have "sorted_wrt bucket_le (children r)"
    by (simp add: index_children [OF assms] bucket_cmp.sorted_sort_by)
  moreover have "children_complete cs \<longleftrightarrow>
      cs \<noteq> [] \<and> count_bucket cs Not_Started = 0 \<and> count_bucket cs Bucket_In_Progress = 0" for cs
    by (auto simp: children_complete_def count_bucket_def list_all_iff filter_empty_conv)
      (metis card_bucket.exhaust)
  then have "rollup_complete r \<longleftrightarrow> children r \<noteq> [] \<and> not_started r = 0 \<and> in_progress r = 0"
    by (subst r, subst (2) r, subst (3) r) (simp add: roll_up_def Let_def)
  moreover note roll_up_counts [of e c "children r", folded r]
  ultimately show ?thesis
    by (auto simp: index_children [OF assms] claimed_def bucket_le_def [abs_def])
qed

subsection \<open>A small board\<close>

text \<open>A card with nothing set but its slug and lane, for concrete instances.\<close>

definition blank_card :: "string \<Rightarrow> task_status \<Rightarrow> card" where
  "blank_card s st =
     \<lparr>slug = s, card_status = st, card_title = [], priority = None, tags = [], refs = [], quest = None,
      epic = None, color = None, depends_on = None, wall_pinned = None, relates_to = None,
      renamed_from = None, archived_reason = None, archived_by = None, delete_at = None,
      requires_deploy = None, card_model = None, card_created = ''2026-08-22T02:00:00.000Z'', mtime = 0,
      body_preview = []\<rparr>"

definition sample_board :: "card list" where
  "sample_board =
     [(blank_card ''a'' Open)\<lparr>epic := Some ''e'', depends_on := Some [''b'']\<rparr>,
      (blank_card ''b'' Done)\<lparr>epic := Some ''e''\<rparr>,
      (blank_card ''c'' Archived)\<lparr>epic := Some ''e''\<rparr>,
      (blank_card ''e'' Open)\<lparr>tags := [''epic'']\<rparr>]"

theorem epic_index_rollup_witness:
  "\<exists>r. map_of (build_epic_index sample_board) ''e'' = Some r \<and> rollup_total r + dropped r = length (children r)"
proof -
  have "map_of (build_epic_index sample_board) ''e'' \<noteq> None" by code_simp
  then obtain r where "map_of (build_epic_index sample_board) ''e'' = Some r" by blast
  with epic_index_rollup [of sample_board "''e''" r] show ?thesis by blast
qed

end
