(* ===== verification/JsDate.thy ===== *)
theory JsDate
  imports JsPrelude
begin

section \<open>JavaScript time values\<close>

text \<open>
  The two operations of \<open>Date\<close> the engine is built on: \<open>Date.parse\<close> (here \<open>date_parse\<close>, with
  \<open>None\<close> for \<open>NaN\<close>) and \<open>new Date(ms).toISOString()\<close> (here \<open>to_iso\<close>). Time values are integer
  milliseconds since the epoch. \<open>date_parse\<close> reads exactly the date-time string format of the
  ECMAScript standard: date-only and date-time forms, an optional zone, \<open>24:00\<close> as the end of a
  day, six-digit signed years; everything else is \<open>None\<close>. A date-time without a zone is local
  time, and the host is taken to run in UTC, as the broker container does. The non-standard
  spellings some engines also accept are not modelled. The result of this theory is that
  \<open>date_parse\<close> reads every stamp \<open>to_iso\<close> writes exactly.
\<close>

subsection \<open>The proleptic Gregorian calendar\<close>

definition leap :: "int \<Rightarrow> bool" where
  "leap y \<longleftrightarrow> y mod 4 = 0 \<and> (y mod 100 \<noteq> 0 \<or> y mod 400 = 0)"

definition days_in_month :: "int \<Rightarrow> int \<Rightarrow> int" where
  "days_in_month y m =
     (if m = 2 then (if leap y then 29 else 28)
      else if m = 4 \<or> m = 6 \<or> m = 9 \<or> m = 11 then 30 else 31)"

text \<open>Days since 1970-01-01. Years are counted from March, so that the leap day comes last.\<close>

definition days_of_civil :: "int \<Rightarrow> int \<Rightarrow> int \<Rightarrow> int" where
  "days_of_civil y m d =
     (let y' = (if m \<le> 2 then y - 1 else y); mp = (m + 9) mod 12
      in 365 * y' + y' div 4 - y' div 100 + y' div 400 + (153 * mp + 2) div 5 + d - 1 - 719468)"

definition civil_of_days :: "int \<Rightarrow> int \<times> int \<times> int" where
  "civil_of_days n =
     (let z = n + 719468; era = z div 146097; doe = z mod 146097;
          c = min 3 (doe div 36524); doc = doe - 36524 * c;
          q = min 24 (doc div 1461); doq = doc - 1461 * q;
          a = min 3 (doq div 365); doy = doq - 365 * a;
          y' = 400 * era + 100 * c + 4 * q + a;
          mp = (5 * doy + 2) div 153; d = doy - (153 * mp + 2) div 5 + 1;
          m = (if mp < 10 then mp + 3 else mp - 9)
      in (if m \<le> 2 then y' + 1 else y', m, d))"

text \<open>The day of a March-based year, split into month and day.\<close>

lemma int_upto_11:
  fixes k :: int
  assumes "0 \<le> k" "k \<le> 11"
  shows "k \<in> {0, 1, 2, 3, 4, 5, 6, 7, 8, 9, 10, 11}"
  unfolding insert_iff empty_iff using assms by presburger

lemma month_of_day_of_year:
  assumes "0 \<le> doy" "doy \<le> 365" and mp: "mp = (5 * doy + 2) div (153 :: int)"
    and d: "d = doy - (153 * mp + 2) div 5 + 1"
  shows "0 \<le> mp" "mp \<le> 11" "1 \<le> d"
    and "d \<le> (if mp = 11 then 29 else if mp \<in> {1, 3, 6, 8} then 30 else 31)"
    and "mp = 11 \<Longrightarrow> d = 29 \<longleftrightarrow> doy = 365"
proof -
  have lo: "153 * mp \<le> 5 * doy + 2" and hi: "5 * doy + 2 < 153 * mp + 153"
    using mp by linarith+
  from lo hi assms(1,2) show mp0: "0 \<le> mp" and mp11: "mp \<le> 11" by linarith+
  have "1 \<le> d \<and> d \<le> (if mp = 11 then 29 else if mp \<in> {1, 3, 6, 8} then 30 else 31)
    \<and> (mp = 11 \<longrightarrow> (d = 29 \<longleftrightarrow> doy = 365))"
    using int_upto_11 [OF mp0 mp11] lo hi assms(1,2) d
    by (elim insertE emptyE) simp_all
  then show "1 \<le> d" "d \<le> (if mp = 11 then 29 else if mp \<in> {1, 3, 6, 8} then 30 else 31)"
    "mp = 11 \<Longrightarrow> d = 29 \<longleftrightarrow> doy = 365" by auto
qed

lemma era_arith:
  fixes era c q a :: int
  assumes "0 \<le> c" "c \<le> 3" "0 \<le> q" "q \<le> 24" "0 \<le> a" "a \<le> 3" and y: "y = 400 * era + 100 * c + 4 * q + a"
  shows "y div 4 = 100 * era + 25 * c + q" "y div 100 = 4 * era + c" "y div 400 = era"
  using assms
  by (auto intro: int_div_pos_eq [where r = a] int_div_pos_eq [where r = "4 * q + a"]
      int_div_pos_eq [where r = "100 * c + 4 * q + a"])

lemma leap_next:
  fixes era c q :: int
  assumes "0 \<le> c" "c \<le> 3" "0 \<le> q" "q \<le> 24" and y: "y = 400 * era + 100 * c + 4 * q + 3"
    and "q < 24 \<or> c = 3"
  shows "leap (y + 1)"
proof (cases "q < 24")
  case True
  have "(y + 1) mod 100 = 4 * q + 4"
    by (rule int_mod_pos_eq [where q = "4 * era + c"]) (use True assms in auto)
  moreover have "(y + 1) mod 4 = 0"
    by (rule int_mod_pos_eq [where q = "100 * era + 25 * c + q + 1"]) (use assms in auto)
  ultimately show ?thesis using assms by (simp add: leap_def)
next
  case False
  then have "y + 1 = 400 * (era + 1)" using assms by simp
  then show ?thesis by (simp add: leap_def)
qed

text \<open>A quotient cut off at \<open>k\<close>, for a dividend that reaches the cut by at most one.\<close>

lemma clamp_div:
  fixes x b k :: int
  assumes "0 \<le> x" "x \<le> b * (k + 1)" "0 < b" "0 \<le> k" and c: "c = min k (x div b)"
  shows "0 \<le> c" "c \<le> k" "0 \<le> x - b * c" "x - b * c \<le> b" "c < k \<Longrightarrow> x - b * c < b"
proof -
  have md: "x - b * (x div b) = x mod b" "0 \<le> x mod b" "x mod b < b"
    using assms(3) by (simp_all add: minus_mult_div_eq_mod)
  show "0 \<le> c" "c \<le> k" using assms by (simp_all add: pos_imp_zdiv_nonneg_iff)
  have "0 \<le> x - b * c \<and> x - b * c \<le> b \<and> (c < k \<longrightarrow> x - b * c < b)"
  proof (cases "x div b \<le> k")
    case True
    then show ?thesis using md c by (simp add: min_def)
  next
    case False
    then have "b * k \<le> b * (x div b)" using assms(3) by simp
    then have "b * k \<le> x" using md by linarith
    with False md c assms(2) show ?thesis by (simp add: min_def distrib_left)
  qed
  then show "0 \<le> x - b * c" "x - b * c \<le> b" "c < k \<Longrightarrow> x - b * c < b" by auto
qed

text \<open>Every day number is a valid civil date that maps to it again.\<close>

lemma civil_of_days_props:
  assumes civil: "civil_of_days n = (y, m, d)"
  shows "days_of_civil y m d = n" (is ?recovered)
    and "1 \<le> m" "m \<le> 12" "1 \<le> d" "d \<le> days_in_month y m" (is "d \<le> ?dim")
    and "- 100000001 \<le> n \<Longrightarrow> n \<le> 100000001 \<Longrightarrow> - 999999 \<le> y \<and> y \<le> 999999"
proof -
  define z era doe where "z = n + 719468" and "era = z div 146097" and "doe = z mod 146097"
  define c doc q where "c = min 3 (doe div 36524)" and "doc = doe - 36524 * c" and "q = min 24 (doc div 1461)"
  define doq a doy where "doq = doc - 1461 * q" and "a = min 3 (doq div 365)" and "doy = doq - 365 * a"
  define y' mp where "y' = 400 * era + 100 * c + 4 * q + a" and "mp = (5 * doy + 2) div 153"
  have res: "m = (if mp < 10 then mp + 3 else mp - 9)" "y = (if m \<le> 2 then y' + 1 else y')"
    "d = doy - (153 * mp + 2) div 5 + 1"
    using civil unfolding civil_of_days_def Let_def
    unfolding z_def [symmetric] era_def [symmetric] doe_def [symmetric]
    unfolding c_def [symmetric] doc_def [symmetric] q_def [symmetric]
    unfolding doq_def [symmetric] a_def [symmetric] doy_def [symmetric]
    unfolding y'_def [symmetric] mp_def [symmetric] by (auto split del: if_split)
  have z: "z = 146097 * era + doe" and doe: "0 \<le> doe" "doe < 146097"
    by (simp_all add: era_def doe_def)
  note C = clamp_div [of doe 36524 3 c, OF _ _ _ _ c_def, folded doc_def]
  have c: "0 \<le> c" "c \<le> 3" and doc: "0 \<le> doc" "doc \<le> 36524" "c < 3 \<Longrightarrow> doc < 36524"
    using C doe by simp_all
  note Q = clamp_div [of doc 1461 24 q, OF _ _ _ _ q_def, folded doq_def]
  have q: "0 \<le> q" "q \<le> 24" and doq0: "0 \<le> doq" "q < 24 \<Longrightarrow> doq < 1461" "doq \<le> 1461"
    using Q doc by simp_all
  have doq: "0 \<le> doq" "doq \<le> 1460" "q = 24 \<Longrightarrow> c < 3 \<Longrightarrow> doq < 1460"
    using doq0 doc q doq_def by (cases "q < 24"; simp)+
  note A = clamp_div [of doq 365 3 a, OF _ _ _ _ a_def, folded doy_def]
  have a: "0 \<le> a" "a \<le> 3" and doy: "0 \<le> doy" "doy \<le> 365" "a < 3 \<Longrightarrow> doy < 365"
    using A doq by simp_all
  note arith = era_arith [OF c q a y'_def]
  note mon = month_of_day_of_year [OF doy(1,2) mp_def res(3)]
  have n: "n = 365 * y' + y' div 4 - y' div 100 + y' div 400 + doy - 719468"
    unfolding arith unfolding y'_def using z by (simp add: z_def doy_def doq_def doc_def)
  have mp_back: "(m + 9) mod 12 = mp" "m \<le> 2 \<longleftrightarrow> 10 \<le> mp" and m: "1 \<le> m" "m \<le> 12"
    using mon(1,2) res(1) by (auto split: if_splits)
  then show "1 \<le> m" "m \<le> 12" "1 \<le> d" using mon(3) by auto
  have "(if m \<le> 2 then y - 1 else y) = y'" using res(2) by simp
  then show ?recovered
    unfolding days_of_civil_def Let_def mp_back(1) using n res(3) by simp
  show "d \<le> ?dim"
  proof (cases "mp = 11")
    case False
    have "d \<le> (if mp \<in> {1, 3, 6, 8} then 30 else 31)" using mon(4) False by simp
    with int_upto_11 [OF mon(1,2)] False res(1) show ?thesis
      by (elim insertE emptyE) (simp_all add: days_in_month_def)
  next
    case True
    have "leap (y' + 1)" if "doy = 365"
    proof -
      have "a = 3" using that doy a by fastforce
      moreover have "q < 24 \<or> c = 3"
      proof -
        have "doq = 1460" using that \<open>a = 3\<close> doq(2) by (simp add: doy_def)
        then show ?thesis using doq(3) q c by fastforce
      qed
      ultimately show ?thesis using leap_next [OF c q, of y' era] y'_def by simp
    qed
    then show ?thesis using True mon(4,5) res(1,2) by (auto simp: days_in_month_def split: if_splits)
  qed
  show "- 999999 \<le> y \<and> y \<le> 999999" if "- 100000001 \<le> n" "n \<le> 100000001"
  proof -
    have "- 690 \<le> era" "era \<le> 690" using that z doe z_def by linarith+
    then have "- 276000 \<le> y'" "y' \<le> 276400" using c q a y'_def by linarith+
    then show ?thesis using res(2) by (auto split: if_splits)
  qed
qed

subsection \<open>Writing a stamp\<close>

definition pad :: "nat \<Rightarrow> int \<Rightarrow> string" where
  "pad w i = (let s = nat_str (nat i) in replicate (w - length s) (CHR ''0'') @ s)"

definition year_str :: "int \<Rightarrow> string" where
  "year_str y =
     (if 0 \<le> y \<and> y \<le> 9999 then pad 4 y
      else if y < 0 then CHR ''-'' # pad 6 (- y) else CHR ''+'' # pad 6 y)"

definition to_iso :: "int \<Rightarrow> string" where
  "to_iso ms =
     (let t = ms mod 86400000
      in case civil_of_days (ms div 86400000) of (y, m, d) \<Rightarrow>
        year_str y @ ''-'' @ pad 2 m @ ''-'' @ pad 2 d @ ''T'' @ pad 2 (t div 3600000) @ '':''
          @ pad 2 (t div 60000 mod 60) @ '':'' @ pad 2 (t div 1000 mod 60) @ ''.'' @ pad 3 (t mod 1000) @ ''Z'')"

subsection \<open>Reading a stamp\<close>

definition take_digits :: "nat \<Rightarrow> string \<Rightarrow> (int \<times> string) option" where
  "take_digits w s =
     (let ds = take w s
      in if length ds = w \<and> list_all is_digit ds then Some (int (digits_val ds), drop w s) else None)"

definition read_year :: "string \<Rightarrow> (int \<times> string) option" where
  "read_year s =
     (case s of
        [] \<Rightarrow> None
      | c # cs \<Rightarrow>
         (if c = CHR ''+'' then take_digits 6 cs
          else if c = CHR ''-'' then
            (case take_digits 6 cs of
               None \<Rightarrow> None
             | Some (v, r) \<Rightarrow> (if v = 0 then None else Some (- v, r)))
          else take_digits 4 s))"

text \<open>A two-digit field behind a separator, if it is there.\<close>

definition read_field :: "char \<Rightarrow> nat \<Rightarrow> string \<Rightarrow> (int \<times> string) option" where
  "read_field c w s =
     (case s of [] \<Rightarrow> None | x # xs \<Rightarrow> (if x = c then take_digits w xs else None))"

definition read_date :: "string \<Rightarrow> (int \<times> int \<times> int \<times> string) option" where
  "read_date s =
     (case read_year s of
        None \<Rightarrow> None
      | Some (y, r) \<Rightarrow>
         (case read_field (CHR ''-'') 2 r of
            None \<Rightarrow> Some (y, 1, 1, r)
          | Some (m, r) \<Rightarrow>
             (case read_field (CHR ''-'') 2 r of
                None \<Rightarrow> Some (y, m, 1, r)
              | Some (d, r) \<Rightarrow> Some (y, m, d, r))))"

definition read_time :: "string \<Rightarrow> (int \<times> int \<times> int \<times> int \<times> string) option" where
  "read_time s =
     (case read_field (CHR ''T'') 2 s of
        None \<Rightarrow> None
      | Some (h, r) \<Rightarrow>
         (case read_field (CHR '':'') 2 r of
            None \<Rightarrow> None
          | Some (mi, r) \<Rightarrow>
             (case read_field (CHR '':'') 2 r of
                None \<Rightarrow> Some (h, mi, 0, 0, r)
              | Some (sec, r) \<Rightarrow>
                 (case read_field (CHR ''.'') 3 r of
                    None \<Rightarrow> Some (h, mi, sec, 0, r)
                  | Some (ms, r) \<Rightarrow> Some (h, mi, sec, ms, r)))))"

text \<open>The zone, in minutes east of UTC; no zone is the host's, UTC.\<close>

definition read_zone :: "string \<Rightarrow> int option" where
  "read_zone s =
     (if s = [] \<or> s = ''Z'' then Some 0
      else case s of
        c # r \<Rightarrow>
         (if c = CHR ''+'' \<or> c = CHR ''-'' then
            (case take_digits 2 r of
               None \<Rightarrow> None
             | Some (h, r) \<Rightarrow>
                (case read_field (CHR '':'') 2 r of
                   None \<Rightarrow> None
                 | Some (mi, r) \<Rightarrow>
                    (if r = [] \<and> h \<le> 23 \<and> mi \<le> 59
                     then Some ((if c = CHR ''-'' then -1 else 1) * (60 * h + mi)) else None)))
          else None)
      | [] \<Rightarrow> None)"

definition valid_date :: "int \<Rightarrow> int \<Rightarrow> int \<Rightarrow> bool" where
  "valid_date y m d \<longleftrightarrow> 1 \<le> m \<and> m \<le> 12 \<and> 1 \<le> d \<and> d \<le> days_in_month y m"

definition valid_time :: "int \<Rightarrow> int \<Rightarrow> int \<Rightarrow> int \<Rightarrow> bool" where
  "valid_time h mi sec ms \<longleftrightarrow>
     (h \<le> 23 \<and> mi \<le> 59 \<and> sec \<le> 59) \<or> (h = 24 \<and> mi = 0 \<and> sec = 0 \<and> ms = 0)"

definition time_clip :: "int \<Rightarrow> int option" where
  "time_clip t = (if \<bar>t\<bar> \<le> 8640000000000000 then Some t else None)"

definition date_parse :: "string \<Rightarrow> int option" where
  "date_parse s =
     (case read_date s of
        None \<Rightarrow> None
      | Some (y, m, d, r) \<Rightarrow>
         (if \<not> valid_date y m d then None
          else if r = [] then time_clip (86400000 * days_of_civil y m d)
          else case read_time r of
            None \<Rightarrow> None
          | Some (h, mi, sec, ms, z) \<Rightarrow>
             (if \<not> valid_time h mi sec ms then None
              else case read_zone z of
                None \<Rightarrow> None
              | Some off \<Rightarrow>
                 time_clip (86400000 * days_of_civil y m d + 3600000 * h + 60000 * mi + 1000 * sec + ms
                   - 60000 * off))))"

subsection \<open>Round trip\<close>

lemma digits_val_replicate [simp]: "digits_val (replicate k (CHR ''0'') @ s) = digits_val s"
  by (induction k) (auto simp: digits_val_def digit_val_def)

lemma length_nat_str: "n < 10 ^ w \<Longrightarrow> 0 < w \<Longrightarrow> length (nat_str n) \<le> w"
proof (induction n arbitrary: w rule: nat_str.induct)
  case (1 n)
  show ?case
  proof (cases "n < 10")
    case True
    with 1 show ?thesis by (simp add: nat_str.simps [of n])
  next
    case False
    with "1.prems" obtain w' where w: "w = Suc w'" "0 < w'"
      by (cases w; cases "w - 1") auto
    have "n div 10 < 10 ^ w'" using "1.prems" w by (simp add: less_mult_imp_div_less)
    from "1.IH" [OF False this w(2)] False w show ?thesis by (simp add: nat_str.simps [of n])
  qed
qed

lemma length_pad: "0 < w \<Longrightarrow> 0 \<le> i \<Longrightarrow> i < 10 ^ w \<Longrightarrow> length (pad w i) = w"
  using length_nat_str [of "nat i" w] by (simp add: pad_def Let_def nat_less_iff)

lemma digits_pad: "list_all is_digit (pad w i)"
  by (auto simp: pad_def Let_def list_all_iff is_digit_def dest: nat_str_digits)

lemma take_digits_pad:
  assumes "0 < w" "0 \<le> i" "i < 10 ^ w"
  shows "take_digits w (pad w i @ r) = Some (i, r)"
proof -
  have "digits_val (pad w i) = nat i" by (simp add: pad_def Let_def)
  with length_pad [OF assms] digits_pad [of w i] assms show ?thesis
    by (simp add: take_digits_def Let_def)
qed

lemma read_field_pad [simp]:
  "0 < w \<Longrightarrow> 0 \<le> i \<Longrightarrow> i < 10 ^ w \<Longrightarrow> read_field c w (c # pad w i @ r) = Some (i, r)"
  by (simp add: read_field_def take_digits_pad)

lemma read_field_empty [simp]: "read_field c w [] = None"
  by (simp add: read_field_def)

lemma is_digit_hd_pad: "0 < w \<Longrightarrow> 0 \<le> i \<Longrightarrow> i < 10 ^ w \<Longrightarrow> \<exists>c cs. pad w i = c # cs \<and> is_digit c"
  using length_pad [of w i] digits_pad [of w i] by (cases "pad w i") auto

lemma read_year_str:
  assumes "- 999999 \<le> y" "y \<le> 999999"
  shows "read_year (year_str y @ r) = Some (y, r)"
proof (cases "0 \<le> y \<and> y \<le> 9999")
  case True
  then obtain c cs where c: "pad 4 y = c # cs" "is_digit c" using is_digit_hd_pad [of 4 y] by auto
  then have "c \<noteq> CHR ''+''" "c \<noteq> CHR ''-''" by (auto simp: is_digit_def)
  with True take_digits_pad [of 4 y r] c show ?thesis by (simp add: read_year_def year_str_def)
next
  case False
  with assms take_digits_pad [of 6 y r] take_digits_pad [of 6 "- y" r] show ?thesis
    by (auto simp: read_year_def year_str_def)
qed

text \<open>A stamp up to its seconds, and what is needed of its fields.\<close>

definition iso_stem :: "int \<Rightarrow> int \<Rightarrow> int \<Rightarrow> int \<Rightarrow> int \<Rightarrow> int \<Rightarrow> string" where
  "iso_stem y m d h mi sec =
     year_str y @ ''-'' @ pad 2 m @ ''-'' @ pad 2 d @ ''T'' @ pad 2 h @ '':'' @ pad 2 mi @ '':'' @ pad 2 sec"

definition iso_fields :: "int \<Rightarrow> int \<Rightarrow> int \<Rightarrow> int \<Rightarrow> int \<Rightarrow> int \<Rightarrow> int \<Rightarrow> bool" where
  "iso_fields y m d h mi sec ms \<longleftrightarrow>
     - 999999 \<le> y \<and> y \<le> 999999 \<and> valid_date y m d \<and> 0 \<le> h \<and> h < 24 \<and> 0 \<le> mi \<and> mi < 60
     \<and> 0 \<le> sec \<and> sec < 60 \<and> 0 \<le> ms \<and> ms < 1000"

lemma to_iso_parts:
  assumes "\<bar>t\<bar> \<le> 8640000000000000"
  obtains y m d h mi sec ms where "iso_fields y m d h mi sec ms"
    "to_iso t = iso_stem y m d h mi sec @ ''.'' @ pad 3 ms @ ''Z''"
    "86400000 * days_of_civil y m d + 3600000 * h + 60000 * mi + 1000 * sec + ms = t"
proof -
  define n u where "n = t div 86400000" and "u = t mod 86400000"
  obtain y m d where civil: "civil_of_days n = (y, m, d)" by (cases "civil_of_days n") auto
  note props = civil_of_days_props [OF civil]
  have "- 100000001 \<le> n" "n \<le> 100000001" using assms n_def by linarith+
  then have y: "- 999999 \<le> y" "y \<le> 999999" using props(6) by auto
  have md: "valid_date y m d" using props(2-5) by (simp add: valid_date_def)
  define h mi sec ms where "h = u div 3600000" and "mi = u div 60000 mod 60" and "sec = u div 1000 mod 60"
    and "ms = u mod 1000"
  have u: "0 \<le> u" "u < 86400000" by (simp_all add: u_def)
  have hms: "0 \<le> h" "h < 24" "0 \<le> mi" "mi < 60" "0 \<le> sec" "sec < 60" "0 \<le> ms" "ms < 1000"
    using u by (auto simp: h_def mi_def sec_def ms_def)
  have "3600000 * h + 60000 * mi + 1000 * sec + ms = u"
  proof -
    have "u div 3600000 = u div 60000 div 60" "u div 60000 = u div 1000 div 60"
      by (simp_all flip: zdiv_zmult2_eq)
    then show ?thesis
      using div_mult_mod_eq [of u 1000] div_mult_mod_eq [of "u div 1000" 60] div_mult_mod_eq [of "u div 60000" 60]
      unfolding h_def mi_def sec_def ms_def by linarith
  qed
  moreover have "86400000 * n + u = t" by (simp add: n_def u_def)
  moreover have "to_iso t = iso_stem y m d h mi sec @ ''.'' @ pad 3 ms @ ''Z''"
    using civil by (simp add: to_iso_def iso_stem_def Let_def n_def u_def h_def mi_def sec_def ms_def)
  ultimately show thesis
    using that [of y m d h mi sec ms] y md hms props(1) by (simp add: iso_fields_def)
qed

lemma iso_fields_digits:
  assumes "iso_fields y m d h mi sec ms"
  shows "0 \<le> m" "m < 10 ^ 2" "0 \<le> d" "d < 10 ^ 2" "0 \<le> h" "h < 10 ^ 2" "0 \<le> mi" "mi < 10 ^ 2"
    "0 \<le> sec" "sec < 10 ^ 2" "0 \<le> ms" "ms < 10 ^ 3"
  using assms by (auto simp: iso_fields_def valid_date_def days_in_month_def split: if_splits)

lemma date_parse_stem:
  assumes f: "iso_fields y m d h mi sec ms"
  shows "date_parse (iso_stem y m d h mi sec @ CHR ''.'' # pad 3 ms @ z) =
      (case read_zone z of None \<Rightarrow> None
       | Some off \<Rightarrow> time_clip (86400000 * days_of_civil y m d + 3600000 * h + 60000 * mi + 1000 * sec + ms - 60000 * off))"
    and "ms = 0 \<Longrightarrow> read_field (CHR ''.'') 3 z = None \<Longrightarrow> date_parse (iso_stem y m d h mi sec @ z) =
      (case read_zone z of None \<Rightarrow> None
       | Some off \<Rightarrow> time_clip (86400000 * days_of_civil y m d + 3600000 * h + 60000 * mi + 1000 * sec + ms - 60000 * off))"
proof -
  have y: "- 999999 \<le> y" "y \<le> 999999" "valid_date y m d" "valid_time h mi sec ms"
    using f by (simp_all add: iso_fields_def valid_time_def)
  have date: "read_date (iso_stem y m d h mi sec @ r) =
      Some (y, m, d, CHR ''T'' # pad 2 h @ CHR '':'' # pad 2 mi @ CHR '':'' # pad 2 sec @ r)" for r
    using read_year_str [OF y(1,2)] iso_fields_digits [OF f] by (simp add: read_date_def iso_stem_def)
  show "date_parse (iso_stem y m d h mi sec @ CHR ''.'' # pad 3 ms @ z) =
      (case read_zone z of None \<Rightarrow> None
       | Some off \<Rightarrow> time_clip (86400000 * days_of_civil y m d + 3600000 * h + 60000 * mi + 1000 * sec + ms - 60000 * off))"
    using y iso_fields_digits [OF f] by (simp add: date_parse_def date read_time_def)
  show "date_parse (iso_stem y m d h mi sec @ z) =
      (case read_zone z of None \<Rightarrow> None
       | Some off \<Rightarrow> time_clip (86400000 * days_of_civil y m d + 3600000 * h + 60000 * mi + 1000 * sec + ms - 60000 * off))"
    if "ms = 0" "read_field (CHR ''.'') 3 z = None"
    unfolding that(1) using that(2) y iso_fields_digits [OF f] by (simp add: date_parse_def date read_time_def that(1))
qed

theorem date_parse_to_iso:
  assumes "\<bar>t\<bar> \<le> 8640000000000000"
  shows "date_parse (to_iso t) = Some t"
proof -
  obtain y m d h mi sec ms where "iso_fields y m d h mi sec ms"
    and "to_iso t = iso_stem y m d h mi sec @ ''.'' @ pad 3 ms @ ''Z''"
    and "86400000 * days_of_civil y m d + 3600000 * h + 60000 * mi + 1000 * sec + ms = t"
    by (rule to_iso_parts [OF assms])
  with assms show ?thesis by (simp add: date_parse_stem(1) read_zone_def time_clip_def)
qed

lemma date_parse_Nil [simp]: "date_parse [] = None"
  by (simp add: date_parse_def read_date_def read_year_def)

subsection \<open>The zone at the end of a stamp\<close>

lemma take_digits_Some:
  "take_digits w s = Some (v, r) \<Longrightarrow> \<exists>ds. s = ds @ r \<and> length ds = w \<and> list_all is_digit ds"
  by (auto simp: take_digits_def Let_def split: if_splits intro!: exI [of _ "take w s"])

lemma read_field_Some:
  "read_field c w s = Some (v, r) \<Longrightarrow> \<exists>ds. s = c # ds @ r \<and> length ds = w \<and> list_all is_digit ds"
  by (auto simp: read_field_def dest: take_digits_Some split: list.splits if_splits)

text \<open>A text without a colon.\<close>

lemma read_date_no_colon:
  assumes "read_date s = Some (y, m, d, r)"
  shows "\<exists>ds. s = ds @ r \<and> CHR '':'' \<notin> set ds"
proof -
  have digits: "CHR '':'' \<notin> set ds" if "list_all is_digit ds" for ds
    using that by (auto simp: list_all_iff is_digit_def)
  have some: "\<exists>ds. cs = ds @ r \<and> CHR '':'' \<notin> set ds" if "take_digits w cs = Some (v, r)" for w cs v r
    using take_digits_Some [OF that] digits by blast
  have year: "\<exists>ds. s = ds @ r \<and> CHR '':'' \<notin> set ds" if read: "read_year s = Some (v, r)" for v r
  proof (cases s)
    case (Cons c cs)
    show ?thesis
    proof (cases "c = CHR ''+'' \<or> c = CHR ''-''")
      case True
      with read Cons obtain v' where "take_digits 6 cs = Some (v', r)"
        by (auto simp: read_year_def split: if_splits option.splits prod.splits)
      then obtain ds where "cs = ds @ r" "CHR '':'' \<notin> set ds" using some by blast
      with True Cons show ?thesis by (intro exI [of _ "c # ds"]) auto
    next
      case False
      with read Cons have "take_digits 4 s = Some (v, r)" by (simp add: read_year_def)
      then show ?thesis by (rule some)
    qed
  qed (use read in \<open>simp add: read_year_def\<close>)
  have field: "\<exists>ds. s = ds @ r \<and> CHR '':'' \<notin> set ds" if "read_field (CHR ''-'') 2 s = Some (v, r)" for v s r
  proof -
    from read_field_Some [OF that] digits obtain ds where "s = CHR ''-'' # ds @ r" "CHR '':'' \<notin> set ds" by blast
    then show ?thesis by (intro exI [of _ "CHR ''-'' # ds"]) auto
  qed
  have join: "\<exists>ds. s = ds @ r \<and> CHR '':'' \<notin> set ds"
    if "s = us @ q" "CHR '':'' \<notin> set us" "\<exists>ds. q = ds @ r \<and> CHR '':'' \<notin> set ds" for us q
    using that by (metis Un_iff append.assoc set_append)
  obtain v1 r1 where 1: "read_year s = Some (v1, r1)"
    using assms by (auto simp: read_date_def split: option.splits)
  then obtain us where us: "s = us @ r1" "CHR '':'' \<notin> set us" using year by blast
  show ?thesis
  proof (cases "read_field (CHR ''-'') 2 r1")
    case None
    with assms 1 us show ?thesis by (auto simp: read_date_def)
  next
    case (Some x)
    obtain v2 r2 where x: "x = (v2, r2)" by (cases x)
    with Some field obtain vs where vs: "r1 = vs @ r2" "CHR '':'' \<notin> set vs" by blast
    show ?thesis
    proof (cases "read_field (CHR ''-'') 2 r2")
      case None
      with assms 1 Some x have "r = r2" by (simp add: read_date_def)
      with us vs show ?thesis by (intro join [OF us]) blast
    next
      case (Some y)
      obtain v3 where "y = (v3, r)" using assms 1 Some \<open>read_field _ 2 r1 = _\<close> x by (cases y) (auto simp: read_date_def)
      with Some field have "\<exists>ds. r2 = ds @ r \<and> CHR '':'' \<notin> set ds" by blast
      then have "\<exists>ds. r1 = ds @ r \<and> CHR '':'' \<notin> set ds" using vs by (metis Un_iff append.assoc set_append)
      then show ?thesis by (rule join [OF us])
    qed
  qed
qed

lemma read_time_ends:
  assumes "read_time s = Some (h, mi, sec, ms, r)"
  shows "\<exists>ds x a b c d e. s = ds @ [x, a, b, c, d, e] @ r \<and> is_digit e \<and> \<not> (c = CHR '':'' \<and> (x = CHR ''+'' \<or> x = CHR ''-''))"
proof -
  have two: "\<exists>a b. s = c # a # b # r \<and> is_digit a \<and> is_digit b" if "read_field c 2 s = Some (v, r)" for c s v r
    using read_field_Some [OF that] by (auto simp: length_Suc_conv numeral_2_eq_2)
  have three: "\<exists>a b e. s = c # a # b # e # r \<and> is_digit a \<and> is_digit b \<and> is_digit e" if "read_field c 3 s = Some (v, r)" for c s v r
    using read_field_Some [OF that] by (auto simp: length_Suc_conv numeral_3_eq_3)
  obtain v1 r1 where 1: "read_field (CHR ''T'') 2 s = Some (v1, r1)"
    using assms by (auto simp: read_time_def split: option.splits)
  obtain v2 r2 where 2: "read_field (CHR '':'') 2 r1 = Some (v2, r2)"
    using assms 1 by (auto simp: read_time_def split: option.splits)
  obtain a b c d where s: "s = CHR ''T'' # a # b # CHR '':'' # c # d # r2" "is_digit d" "is_digit b" "is_digit c"
    using two [OF 1] two [OF 2] by auto
  show ?thesis
  proof (cases "read_field (CHR '':'') 2 r2")
    case None
    with assms 1 2 have "r = r2" by (simp add: read_time_def)
    with s show ?thesis by (intro exI [of _ "[]"]) auto
  next
    case (Some x)
    obtain v3 r3 where x: "x = (v3, r3)" by (cases x)
    with two Some obtain e f where r2: "r2 = CHR '':'' # e # f # r3" "is_digit e" "is_digit f" by blast
    show ?thesis
    proof (cases "read_field (CHR ''.'') 3 r3")
      case None
      with assms 1 2 Some x have "r = r3" by (simp add: read_time_def)
      with s r2 show ?thesis by (intro exI [of _ "[CHR ''T'', a, b]"]) auto
    next
      case (Some y)
      obtain v4 where "y = (v4, r)" using assms 1 2 Some \<open>read_field _ 2 r2 = _\<close> x by (auto simp: read_time_def)
      with three Some obtain g k l where r3: "r3 = CHR ''.'' # g # k # l # r" "is_digit g" "is_digit l" by blast
      then have "g \<noteq> CHR '':''" by (auto simp: is_digit_def)
      with s r2 r3 show ?thesis
        by (intro exI [of _ "[CHR ''T'', a, b, CHR '':'', c, d, CHR '':'']"]) (auto simp: is_digit_def)
    qed
  qed
qed

lemma read_zone_Some:
  assumes "read_zone z = Some off"
  shows "z = [] \<or> z = ''Z'' \<or> length z = 6"
proof (cases "z = [] \<or> z = ''Z''")
  case False
  then obtain c r where z: "z = c # r" by (cases z) auto
  with False assms obtain h r1 where 1: "take_digits 2 r = Some (h, r1)"
    by (auto simp: read_zone_def split: option.splits if_splits)
  with False assms z obtain mi r2 where 2: "read_field (CHR '':'') 2 r1 = Some (mi, r2)" "r2 = []"
    by (auto simp: read_zone_def split: option.splits if_splits)
  from take_digits_Some [OF 1] read_field_Some [OF 2(1)] z 2(2) show ?thesis by auto
qed blast

text \<open>A stamp that reads and ends in a signed zone has that zone read.\<close>

lemma date_parse_signed_zone:
  assumes "date_parse (s @ [p, a, b, CHR '':'', c, d]) = Some t" "p = CHR ''+'' \<or> p = CHR ''-''" "is_digit d"
  shows "read_zone [p, a, b, CHR '':'', c, d] \<noteq> None"
proof -
  let ?z = "[p, a, b, CHR '':'', c, d]"
  obtain y m dd r where date: "read_date (s @ ?z) = Some (y, m, dd, r)"
    using assms(1) by (auto simp: date_parse_def split: option.splits)
  from read_date_no_colon [OF date] obtain ds where ds: "s @ ?z = ds @ r" "CHR '':'' \<notin> set ds" by blast
  have "r \<noteq> []"
  proof
    assume "r = []"
    with ds(1) have "set ds = set (s @ ?z)" by simp
    with ds(2) show False by simp
  qed
  then obtain h mi sec ms z off where time: "read_time r = Some (h, mi, sec, ms, z)" and zone: "read_zone z = Some off"
    using assms(1) date by (auto simp: date_parse_def split: option.splits if_splits)
  obtain us x a' b' c' d' e where r: "r = us @ [x, a', b', c', d', e] @ z" "is_digit e" "\<not> (c' = CHR '':'' \<and> (x = CHR ''+'' \<or> x = CHR ''-''))"
    using read_time_ends [OF time] by blast
  have whole: "s @ ?z = (ds @ us @ [x, a', b', c', d', e]) @ z" using ds(1) r(1) by simp
  consider "z = []" | "z = ''Z''" | "length z = 6" using read_zone_Some [OF zone] by blast
  then show ?thesis
  proof cases
    case 1
    with whole have "s @ ?z = (ds @ us) @ [x, a', b', c', d', e]" by simp
    then have "?z = [x, a', b', c', d', e]" by (subst (asm) append_eq_append_conv) auto
    with r(3) assms(2) show ?thesis by auto
  next
    case 2
    with whole have "last (s @ ?z) = CHR ''Z''" by simp
    with assms(3) show ?thesis by (simp add: is_digit_def)
  next
    case 3
    with whole have "?z = z" by (subst (asm) append_eq_append_conv) auto
    with zone show ?thesis by simp
  qed
qed

end
