(* ===== verification/JsIntl.thy ===== *)
theory JsIntl
  imports JsPrelude
begin

section \<open>Locale-dependent services\<close>

text \<open>
  \<open>String.prototype.localeCompare\<close> and \<open>Intl.RelativeTimeFormat\<close> answer from the ICU data of the
  runtime, which is no part of the repository: they are a parameter of every definition that uses
  them. What the code relies on is that \<open>localeCompare\<close> is a consistent comparator, and, for its
  orders to be total, that it separates distinct identifiers.
\<close>

record intl =
  locale_compare :: "string \<Rightarrow> string \<Rightarrow> int"
  relative_format :: "int \<Rightarrow> string \<Rightarrow> string"

definition consistent_collation :: "intl \<Rightarrow> bool" where
  "consistent_collation i \<longleftrightarrow>
     comparator (\<lambda>a b. locale_compare i a b \<le> 0)
     \<and> (\<forall>a b. 0 < locale_compare i a b \<longleftrightarrow> locale_compare i b a < 0)"

definition separating_collation :: "intl \<Rightarrow> bool" where
  "separating_collation i \<longleftrightarrow> consistent_collation i \<and> (\<forall>a b. locale_compare i a b = 0 \<longleftrightarrow> a = b)"

text \<open>A concrete runtime: code unit order and a plain English rendering.\<close>

definition plain_intl :: intl where
  "plain_intl =
     \<lparr>locale_compare = (\<lambda>a b. if a < b then -1 else if a = b then 0 else 1),
      relative_format = (\<lambda>n u. ''in '' @ int_str n @ '' '' @ u)\<rparr>"

lemma plain_intl_separating: "separating_collation plain_intl"
  unfolding separating_collation_def consistent_collation_def plain_intl_def
  by (auto simp: comparator_def split: if_splits)

lemma collation_swap:
  assumes "consistent_collation i"
  shows "0 < locale_compare i a b \<longleftrightarrow> locale_compare i b a < 0"
    and "locale_compare i a b = 0 \<longleftrightarrow> locale_compare i b a = 0"
  using assms unfolding consistent_collation_def by (auto simp: less_le not_less) (metis less_le not_less)+

end
