(* ===== verification/EpicReadyOrder.thy ===== *)
theory EpicReadyOrder
  imports EpicCards JsDate JsIntl
begin

section \<open>Which ready card goes out first\<close>

text \<open>
  \<open>src/shared/epic-ready-order.ts\<close>: the reversed dependency graph of the live cards, the
  breadth-first count of transitive dependents, and the comparator chain behind the dispatch
  order. The walk is shown to count exactly the cards reachable along live dependency edges; the
  order is shown to be the documented one, and to be independent of the board's read order as long
  as every \<open>created\<close> stamp parses.
\<close>

definition is_live :: "card \<Rightarrow> bool" where
  "is_live c \<longleftrightarrow> epic_bucket (card_status c) \<noteq> Bucket_Done \<and> epic_bucket (card_status c) \<noteq> Dropped"

type_synonym edge_map = "(string \<times> string list) list"

definition nexts :: "edge_map \<Rightarrow> string \<Rightarrow> string list" where
  "nexts edges x = (case map_of edges x of None \<Rightarrow> [] | Some ys \<Rightarrow> ys)"

definition add_edge :: "string \<Rightarrow> edge_map \<Rightarrow> string \<Rightarrow> edge_map" where
  "add_edge s m d = AList.update d (nexts m d @ [s]) m"

definition dependent_edges :: "card list \<Rightarrow> edge_map" where
  "dependent_edges board =
     foldl (\<lambda>m c. if is_live c then foldl (add_edge (slug c)) m (deps c) else m) [] board"

text \<open>The unseen neighbours, in order, each marked as seen when it is met.\<close>

fun fresh_nexts :: "string list \<Rightarrow> string list \<Rightarrow> string list" where
  "fresh_nexts seen [] = []"
| "fresh_nexts seen (n # ns) =
     (if n \<in> set seen then fresh_nexts seen ns else n # fresh_nexts (seen @ [n]) ns)"

lemma fresh_nexts_props:
  "set (fresh_nexts seen ns) = set ns - set seen" "distinct (fresh_nexts seen ns)"
  by (induction seen ns rule: fresh_nexts.induct) auto

definition edge_nodes :: "edge_map \<Rightarrow> string set" where
  "edge_nodes edges = set (concat (map snd edges))"

lemma nexts_nodes: "set (nexts edges x) \<subseteq> edge_nodes edges"
proof (cases "map_of edges x")
  case (Some ys)
  then have "(x, ys) \<in> set edges" by (rule map_of_SomeD)
  then show ?thesis using Some by (force simp: nexts_def edge_nodes_def)
qed (simp add: nexts_def)

lemma fresh_shrinks:
  assumes "new = fresh_nexts seen (nexts edges x)"
  shows "card (edge_nodes edges - set (seen @ new)) + length new = card (edge_nodes edges - set seen)"
proof -
  have new: "set new \<subseteq> edge_nodes edges - set seen" "length new = card (set new)"
    unfolding assms using nexts_nodes [of edges x] fresh_nexts_props [of seen "nexts edges x"]
    by (auto simp: distinct_card [symmetric])
  have fin: "finite (edge_nodes edges)" by (simp add: edge_nodes_def)
  have "edge_nodes edges - set (seen @ new) = (edge_nodes edges - set seen) - set new" by auto
  with new fin show ?thesis
    by (simp add: card_Diff_subset card_mono)
qed

text \<open>The walk: \<open>todo\<close> is the part of the queue past the loop index.\<close>

function walk :: "edge_map \<Rightarrow> string list \<Rightarrow> string list \<Rightarrow> string list" where
  "walk edges seen [] = seen"
| "walk edges seen (x # todo) =
     (let new = fresh_nexts seen (nexts edges x) in walk edges (seen @ new) (todo @ new))"
  by pat_completeness auto
termination
proof (relation "measure (\<lambda>(edges, seen, todo). 2 * card (edge_nodes edges - set seen) + length todo)")
  fix edges x new and seen todo :: "string list"
  assume "new = fresh_nexts seen (nexts edges x)"
  from fresh_shrinks [OF this]
  show "((edges, seen @ new, todo @ new), edges, seen, x # todo)
      \<in> measure (\<lambda>(edges, seen, todo). 2 * card (edge_nodes edges - set seen) + length todo)"
    by simp
qed simp

declare walk.simps [simp del]

definition reachable_from :: "string \<Rightarrow> edge_map \<Rightarrow> nat" where
  "reachable_from x edges = length (walk edges [x] [x]) - 1"

definition unblock_counts :: "card list \<Rightarrow> card list \<Rightarrow> (string \<times> nat) list" where
  "unblock_counts ready board =
     (let edges = dependent_edges board
      in foldl (\<lambda>m c. AList.update (slug c) (reachable_from (slug c) edges) m) [] ready)"

definition created_at :: "card \<Rightarrow> js_num" where
  "created_at c = (case date_parse (card_created c) of None \<Rightarrow> Pos_Inf | Some ms \<Rightarrow> Fin ms)"

definition unblocks_of :: "(string \<times> nat) list \<Rightarrow> card \<Rightarrow> int" where
  "unblocks_of u c = (case map_of u (slug c) of None \<Rightarrow> 0 | Some n \<Rightarrow> int n)"

definition ready_compare :: "intl \<Rightarrow> (string \<times> nat) list \<Rightarrow> card \<Rightarrow> card \<Rightarrow> js_num" where
  "ready_compare i u a b =
     (let by_unblocks = unblocks_of u b - unblocks_of u a
      in if by_unblocks \<noteq> 0 then Fin by_unblocks
         else let by_priority = card_priority_rank a - card_priority_rank b
      in if by_priority \<noteq> 0 then Fin by_priority
         else let by_created = js_sub (created_at a) (created_at b)
      in if js_nonzero by_created then by_created
         else Fin (locale_compare i (slug a) (slug b)))"

definition ready_le :: "intl \<Rightarrow> (string \<times> nat) list \<Rightarrow> card \<Rightarrow> card \<Rightarrow> bool" where
  "ready_le i u a b \<longleftrightarrow> sort_le (ready_compare i u a b)"

definition order_ready :: "intl \<Rightarrow> card list \<Rightarrow> card list \<Rightarrow> card list" where
  "order_ready i ready board = sort_by (ready_le i (unblock_counts ready board)) ready"

subsection \<open>The edges\<close>

lemma nexts_Nil [simp]: "nexts [] x = []"
  by (simp add: nexts_def)

lemma nexts_add_edge [simp]: "nexts (add_edge s m d) x = (if x = d then nexts m x @ [s] else nexts m x)"
  by (simp add: nexts_def add_edge_def)

lemma nexts_add_edges: "set (nexts (foldl (add_edge s) m ds) x) = set (nexts m x) \<union> (if x \<in> set ds then {s} else {})"
  by (induction ds arbitrary: m) auto

lemma set_nexts_dependent_edges:
  "set (nexts (dependent_edges board) x) = {slug c |c. c \<in> set board \<and> is_live c \<and> x \<in> set (deps c)}"
proof -
  have "set (nexts (foldl (\<lambda>m c. if is_live c then foldl (add_edge (slug c)) m (deps c) else m) m board) x)
      = set (nexts m x) \<union> {slug c |c. c \<in> set board \<and> is_live c \<and> x \<in> set (deps c)}" for m
  proof (induction board arbitrary: m)
    case (Cons c board)
    show ?case unfolding foldl_Cons Cons.IH by (cases "is_live c") (auto simp: nexts_add_edges)
  qed simp
  from this [of "[]"] show ?thesis by (simp add: dependent_edges_def)
qed

subsection \<open>The walk visits exactly the reachable cards\<close>

definition edge_rel :: "edge_map \<Rightarrow> (string \<times> string) set" where
  "edge_rel edges = {(x, y). y \<in> set (nexts edges x)}"

lemma walk_distinct: "distinct seen \<Longrightarrow> distinct (walk edges seen todo)"
proof (induction edges seen todo rule: walk.induct)
  case (2 edges seen x todo)
  then show ?case using fresh_nexts_props [of seen "nexts edges x"] by (simp add: walk.simps Let_def)
qed (simp add: walk.simps)

lemma walk_sound:
  "set todo \<subseteq> set seen \<Longrightarrow> set (walk edges seen todo) \<subseteq> (edge_rel edges)\<^sup>* `` set seen"
proof (induction edges seen todo rule: walk.induct)
  case (2 edges seen x todo)
  let ?new = "fresh_nexts seen (nexts edges x)"
  have new: "set ?new \<subseteq> (edge_rel edges)\<^sup>* `` set seen"
    using "2.prems" fresh_nexts_props(1) [of seen "nexts edges x"] by (auto simp: edge_rel_def)
  have "set (walk edges seen (x # todo)) \<subseteq> (edge_rel edges)\<^sup>* `` set (seen @ ?new)"
    using 2 by (auto simp: walk.simps Let_def)
  also have "\<dots> \<subseteq> (edge_rel edges)\<^sup>* `` set seen"
    using new by auto (meson Image_iff rtrancl_trans subsetD)
  finally show ?case .
qed (auto simp: walk.simps)

lemma walk_complete:
  assumes "set todo \<subseteq> set seen" and "\<And>x. x \<in> set seen - set todo \<Longrightarrow> set (nexts edges x) \<subseteq> set seen"
  shows "set seen \<subseteq> set (walk edges seen todo)
    \<and> (\<forall>x \<in> set (walk edges seen todo). set (nexts edges x) \<subseteq> set (walk edges seen todo))"
  using assms
proof (induction edges seen todo rule: walk.induct)
  case (2 edges seen x todo)
  let ?new = "fresh_nexts seen (nexts edges x)"
  note new = fresh_nexts_props(1) [of seen "nexts edges x"]
  have "set (seen @ ?new) \<subseteq> set (walk edges (seen @ ?new) (todo @ ?new))
    \<and> (\<forall>y \<in> set (walk edges (seen @ ?new) (todo @ ?new)).
         set (nexts edges y) \<subseteq> set (walk edges (seen @ ?new) (todo @ ?new)))"
  proof (rule "2.IH" [OF HOL.refl])
    show "set (todo @ ?new) \<subseteq> set (seen @ ?new)" using "2.prems"(1) by auto
    show "set (nexts edges y) \<subseteq> set (seen @ ?new)" if "y \<in> set (seen @ ?new) - set (todo @ ?new)" for y
      using that "2.prems"(2) [of y] new by (cases "y = x") auto
  qed
  then show ?case by (simp add: walk.simps Let_def)
qed (auto simp: walk.simps)

lemma set_walk: "set (walk edges [x] [x]) = (edge_rel edges)\<^sup>* `` {x}"
proof
  show "set (walk edges [x] [x]) \<subseteq> (edge_rel edges)\<^sup>* `` {x}" using walk_sound [of "[x]" "[x]"] by simp
  have closed: "x \<in> set (walk edges [x] [x])"
    "\<And>y z. y \<in> set (walk edges [x] [x]) \<Longrightarrow> (y, z) \<in> edge_rel edges \<Longrightarrow> z \<in> set (walk edges [x] [x])"
    using walk_complete [of "[x]" "[x]" edges] by (auto simp: edge_rel_def)
  show "(edge_rel edges)\<^sup>* `` {x} \<subseteq> set (walk edges [x] [x])"
  proof
    fix y
    assume "y \<in> (edge_rel edges)\<^sup>* `` {x}"
    then have "(x, y) \<in> (edge_rel edges)\<^sup>*" by simp
    then show "y \<in> set (walk edges [x] [x])" by induction (auto intro: closed)
  qed
qed

lemma reachable_from_card: "reachable_from x edges = card ((edge_rel edges)\<^sup>* `` {x} - {x})"
proof -
  have "length (walk edges [x] [x]) = card ((edge_rel edges)\<^sup>* `` {x})"
    using distinct_card [OF walk_distinct [of "[x]" edges "[x]"]] by (simp add: set_walk)
  moreover have "finite ((edge_rel edges)\<^sup>* `` {x})" by (metis set_walk List.finite_set)
  ultimately show ?thesis by (simp add: reachable_from_def card_Diff_singleton)
qed

lemma unblock_counts_lookup:
  assumes "c \<in> set ready"
  shows "map_of (unblock_counts ready board) (slug c) = Some (reachable_from (slug c) (dependent_edges board))"
proof -
  have "map_of (foldl (\<lambda>m c. AList.update (slug c) (g (slug c)) m) m ready) s
      = (if s \<in> slug ` set ready then Some (g s) else map_of m s)" for g :: "string \<Rightarrow> nat" and m s
    by (induction ready arbitrary: m) auto
  from this [of "\<lambda>s. reachable_from s (dependent_edges board)"] assms show ?thesis
    by (simp add: unblock_counts_def Let_def)
qed

text \<open>
  The primary dispatch key of a ready card is the number of other board ids that wait on it
  along a chain of live cards: each step of the chain is a live card of the board naming the
  previous id in its \<open>depends_on\<close>. Cycles and repeated edges do not change the count, and the walk
  always ends.
\<close>

theorem unblock_counts_transitive:
  assumes "c \<in> set ready"
  shows "map_of (unblock_counts ready board) (slug c) =
    Some (card ({(d, slug k) |d k. k \<in> set board \<and> is_live k \<and> d \<in> set (deps k)}\<^sup>* `` {slug c} - {slug c}))"
proof -
  have "edge_rel (dependent_edges board) = {(d, slug k) |d k. k \<in> set board \<and> is_live k \<and> d \<in> set (deps k)}"
    by (auto simp: edge_rel_def set_nexts_dependent_edges)
  with unblock_counts_lookup [OF assms] show ?thesis by (simp add: reachable_from_card)
qed

theorem unblock_counts_transitive_witness:
  "map_of (unblock_counts sample_board sample_board) ''b'' = Some 1"
proof -
  have "{(d, slug k) |d k. k \<in> set sample_board \<and> is_live k \<and> d \<in> set (deps k)} = {(''b'', ''a'')}"
  proof -
    have edges: "{(d, slug k) |d k. k \<in> set b \<and> is_live k \<and> d \<in> set (deps k)}
        = (\<Union>k \<in> set b. if is_live k then (\<lambda>d. (d, slug k)) ` set (deps k) else {})" for b
      by auto
    show ?thesis unfolding edges by (simp add: sample_board_def blank_card_def deps_def is_live_def)
  qed
  moreover have "{(''b'', ''a'')}\<^sup>* `` {''b''} - {''b''} = {''a''}"
    by (auto elim: rtranclE)
  moreover have "blank_card ''b'' Done\<lparr>epic := Some ''e''\<rparr> \<in> set sample_board" by (simp add: sample_board_def)
  ultimately show ?thesis
    using unblock_counts_transitive [of "blank_card ''b'' Done\<lparr>epic := Some ''e''\<rparr>" sample_board sample_board]
    by (simp add: blank_card_def)
qed

subsection \<open>The order\<close>

definition created_le :: "intl \<Rightarrow> card \<Rightarrow> card \<Rightarrow> bool" where
  "created_le i a b \<longleftrightarrow>
     (case (date_parse (card_created a), date_parse (card_created b)) of
        (Some x, Some y) \<Rightarrow> x < y \<or> (x = y \<and> locale_compare i (slug a) (slug b) \<le> 0)
      | (Some _, None) \<Rightarrow> True
      | (None, Some _) \<Rightarrow> False
      | (None, None) \<Rightarrow> True)"

lemma ready_le_keys:
  "ready_le i u = then_by (\<lambda>c. - unblocks_of u c) (then_by card_priority_rank (created_le i))"
  by (auto simp: fun_eq_iff ready_le_def ready_compare_def then_by_def created_le_def created_at_def js_nonzero_def
      Let_def split: option.split)

lemma comparator_created_le: "consistent_collation i \<Longrightarrow> comparator (created_le i)"
proof
  fix x y z
  assume "consistent_collation i"
  then have c: "comparator (\<lambda>a b. locale_compare i a b \<le> 0)" by (simp add: consistent_collation_def)
  show "created_le i x y \<or> created_le i y x"
    using comparator.total [OF c, of "slug x" "slug y"] by (auto simp: created_le_def split: option.split)
  show "created_le i x z" if "created_le i x y" "created_le i y z"
    using that comparator.trans [OF c, of "slug x" "slug y" "slug z"]
    by (auto simp: created_le_def split: option.splits)
qed

lemma comparator_ready_le: "consistent_collation i \<Longrightarrow> comparator (ready_le i u)"
  unfolding ready_le_keys by (intro comparator_then_by comparator_created_le)

lemma set_order_ready [simp]: "set (order_ready i ready board) = set ready"
  and mset_order_ready [simp]: "mset (order_ready i ready board) = mset ready"
  and length_order_ready [simp]: "length (order_ready i ready board) = length ready"
  by (simp_all add: order_ready_def)

text \<open>
  The ready cards keep exactly their members and go out in the documented order: more transitive
  dependents first, then higher priority, then the older \<open>created\<close> stamp (a stamp that does not
  parse sorts last), then the slug as the runtime collates it.
\<close>

theorem order_ready_sorted:
  fixes i ready board
  assumes "consistent_collation i"
  defines "n \<equiv> unblocks_of (unblock_counts ready board)"
  shows "mset (order_ready i ready board) = mset ready
    \<and> sorted_wrt (\<lambda>a b. n b < n a \<or> n a = n b \<and>
        (card_priority_rank a < card_priority_rank b \<or> card_priority_rank a = card_priority_rank b \<and> created_le i a b))
        (order_ready i ready board)"
proof -
  have "sorted_wrt (ready_le i (unblock_counts ready board)) (order_ready i ready board)"
    unfolding order_ready_def by (rule comparator.sorted_sort_by [OF comparator_ready_le [OF assms(1)]])
  then show ?thesis by (simp add: ready_le_keys then_by_def [abs_def] n_def)
qed

theorem order_ready_sorted_witness: "mset (order_ready plain_intl sample_board sample_board) = mset sample_board"
  using order_ready_sorted [of plain_intl sample_board sample_board] plain_intl_separating
  by (simp add: separating_collation_def)

text \<open>
  The dispatch order is a function of the cards alone: when every stamp parses, slugs are
  unique and the collation separates them, any two enumerations of the same ready cards are ordered
  the same way.
\<close>

theorem order_ready_deterministic:
  assumes "separating_collation i" and "mset ready' = mset ready" and "inj_on slug (set ready)"
    and parse: "list_all (\<lambda>c. date_parse (card_created c) \<noteq> None) ready"
  shows "order_ready i ready' board = order_ready i ready board"
proof -
  let ?le = "\<lambda>r. ready_le i (unblock_counts r board)"
  have c: "consistent_collation i" and sep: "\<And>a b. locale_compare i a b = 0 \<longleftrightarrow> a = b"
    using assms(1) by (auto simp: separating_collation_def)
  have same: "set ready' = set ready" using assms(2) by (metis set_mset_mset)
  have agree: "?le ready' a b = ?le ready a b" if "a \<in> set ready" "b \<in> set ready" for a b
    using that same by (simp add: ready_le_keys then_by_def unblocks_of_def unblock_counts_lookup)
  have "a = b" if "a \<in> set ready" "b \<in> set ready" "?le ready a b" "?le ready b a" for a b
  proof -
    have "created_le i a b" "created_le i b a" using that by (auto simp: ready_le_keys then_by_def)
    moreover from parse that obtain x y
      where "date_parse (card_created a) = Some x" "date_parse (card_created b) = Some y"
      unfolding list_all_iff by (metis not_Some_eq)
    ultimately have "locale_compare i (slug a) (slug b) \<le> 0" "locale_compare i (slug b) (slug a) \<le> 0"
      by (auto simp: created_le_def)
    then have "slug a = slug b" using collation_swap(1) [OF c] sep by (metis less_le not_less)
    with assms(3) that show ?thesis by (auto dest: inj_onD)
  qed
  with comparator.sort_by_permute [OF comparator_ready_le [OF c] assms(2) [symmetric], of "unblock_counts ready board"]
  have "sort_by (?le ready) ready' = sort_by (?le ready) ready" by simp
  moreover have "sort_by (?le ready') ready' = sort_by (?le ready) ready'"
    by (rule sort_by_cong) (simp add: agree same)
  ultimately show ?thesis by (simp add: order_ready_def)
qed

theorem order_ready_deterministic_witness:
  "order_ready plain_intl [blank_card ''b'' Open, blank_card ''a'' Open] []
     = order_ready plain_intl [blank_card ''a'' Open, blank_card ''b'' Open] []"
proof -
  have "list_all (\<lambda>c. date_parse (card_created c) \<noteq> None) [blank_card ''a'' Open, blank_card ''b'' Open]"
    by code_simp
  moreover have "inj_on slug (set [blank_card ''a'' Open, blank_card ''b'' Open])"
    by (simp add: blank_card_def)
  ultimately show ?thesis
    by (intro order_ready_deterministic plain_intl_separating) auto
qed

text \<open>
  The slug tiebreak is never reached between two cards whose \<open>created\<close> stamps both fail to
  parse: the difference of two infinities is \<open>NaN\<close>, which is not 0 and is returned to \<open>sort\<close>, so
  such cards keep the board's read order and the dispatch order is not total.
\<close>

theorem unparsable_created_keeps_read_order:
  assumes "date_parse (card_created a) = None" "date_parse (card_created b) = None"
    and "card_priority_rank a = card_priority_rank b"
    and "reachable_from (slug a) (dependent_edges board) = reachable_from (slug b) (dependent_edges board)"
  shows "order_ready i [a, b] board = [a, b] \<and> order_ready i [b, a] board = [b, a]"
proof -
  have "ready_le i (unblock_counts r board) x y" if "set r = {a, b}" "{x, y} = {a, b}" for r x y
  proof -
    from that have "x \<in> set r" "y \<in> set r" by auto
    from this [THEN unblock_counts_lookup] that assms show ?thesis
      by (auto simp: ready_le_keys then_by_def created_le_def unblocks_of_def doubleton_eq_iff)
  qed
  then show ?thesis by (simp add: order_ready_def insert_commute)
qed

theorem unparsable_created_keeps_read_order_witness:
  defines "a \<equiv> (blank_card ''a'' Open)\<lparr>card_created := ''soon''\<rparr>"
    and "b \<equiv> (blank_card ''b'' Open)\<lparr>card_created := ''later''\<rparr>"
  shows "order_ready plain_intl [a, b] [a, b] = [a, b] \<and> order_ready plain_intl [b, a] [a, b] = [b, a]"
proof (rule unparsable_created_keeps_read_order)
  show "date_parse (card_created a) = None" "date_parse (card_created b) = None"
    unfolding a_def b_def by code_simp+
  show "card_priority_rank a = card_priority_rank b"
    by (simp add: a_def b_def blank_card_def card_priority_rank_def)
  show "reachable_from (slug a) (dependent_edges [a, b]) = reachable_from (slug b) (dependent_edges [a, b])"
    unfolding a_def b_def by code_simp
qed

end
