(* ===== verification/EpicLanding.thy ===== *)
theory EpicLanding
  imports JsDouble
begin

section \<open>Landing and deployment\<close>

text \<open>
  \<open>src/shared/epic-landing.ts\<close> and \<open>deployed-capabilities.ts\<close>: where a \<open>done\<close> card's work really
  is, which verdicts hold dependents and which refuse completion, the one persisted scalar of
  escalations with its parser and printer, and the capability tokens of the running build.
\<close>

datatype epic_run_target = Target_Pr | Target_Merged | Target_Shipped

datatype landing_evidence = Gone | Merged | Ahead | Unscanned

datatype landing_verdict = Landed | Unmerged | Standing | Unknown_Landing

record card_landing =
  landing_card_id :: string
  landing_branch :: string
  verdict :: landing_verdict
  evidence :: landing_evidence

record landing_facts =
  fact_evidence :: landing_evidence
  fact_target :: epic_run_target

definition landing_verdict_of :: "landing_facts \<Rightarrow> landing_verdict" where
  "landing_verdict_of f =
     (if fact_evidence f = Unscanned then Unknown_Landing
      else if fact_target f = Target_Pr \<or> fact_evidence f = Gone then Landed
      else if fact_evidence f = Merged then Standing else Unmerged)"

definition holds_dependents :: "landing_verdict \<Rightarrow> bool" where
  "holds_dependents v \<longleftrightarrow> v = Unmerged"

definition blocks_resolution :: "landing_verdict \<Rightarrow> bool" where
  "blocks_resolution v \<longleftrightarrow> v = Unmerged \<or> v = Standing"

definition unresolved_landings :: "card_landing list \<Rightarrow> card_landing list" where
  "unresolved_landings ls = filter (\<lambda>l. blocks_resolution (verdict l)) ls"

definition describe_landing :: "card_landing \<Rightarrow> string" where
  "describe_landing l =
     (if verdict l = Standing
      then landing_card_id l @ '' -- `'' @ landing_branch l
        @ ''` IS on main, but the branch and its worktree are still standing; run `scripts/worktree-remove.sh`, which fast-forwards first and REFUSES while anything is unmerged''
      else landing_card_id l @ '' -- `'' @ landing_branch l
        @ ''` has commits that are NOT on main; the card says `done` and the work is not delivered'')"

subsection \<open>Deployed capabilities\<close>

definition DEPLOYED_CAPABILITIES :: "string list" where
  "DEPLOYED_CAPABILITIES = [''needs-werk-master-tag'']"

definition missing_capabilities :: "string list option \<Rightarrow> string set \<Rightarrow> string list" where
  "missing_capabilities required provided =
     (case required of None \<Rightarrow> [] | Some ts \<Rightarrow> filter (\<lambda>t. t \<notin> provided) ts)"

subsection \<open>The escalation ledger\<close>

text \<open>
  The text before and after the last \<open>c\<close>: \<open>s.slice(0, i)\<close> and \<open>s.slice(i + 1)\<close> for
  \<open>i = s.lastIndexOf(c)\<close>, or \<open>None\<close> when that is -1.
\<close>

fun split_last :: "char \<Rightarrow> string \<Rightarrow> (string \<times> string) option" where
  "split_last c [] = None"
| "split_last c (x # xs) =
     (case split_last c xs of
        Some (a, b) \<Rightarrow> Some (x # a, b)
      | None \<Rightarrow> (if x = c then Some ([], xs) else None))"

text \<open>\<open>Number(s)\<close> where \<open>Number.isInteger(gen) && gen >= 0\<close> holds of it.\<close>

definition read_generation :: "string \<Rightarrow> nat option" where
  "read_generation s =
     (case js_number s of
        None \<Rightarrow> None
      | Some x \<Rightarrow> (if x = of_int \<lfloor>x\<rfloor> \<and> 0 \<le> x then Some (nat \<lfloor>x\<rfloor>) else None))"

definition parse_escalation :: "string \<Rightarrow> (string \<times> nat) option" where
  "parse_escalation entry =
     (case split_last (CHR ''@'') entry of
        None \<Rightarrow> None
      | Some (a, g) \<Rightarrow>
         (if a = [] then None
          else case read_generation g of None \<Rightarrow> None | Some n \<Rightarrow> Some (trim a, n)))"

definition parse_escalations :: "string option \<Rightarrow> (string \<times> nat) list" where
  "parse_escalations raw =
     foldl (\<lambda>m e. case parse_escalation e of None \<Rightarrow> m | Some (k, n) \<Rightarrow> AList.update k n m) []
       (split_on (CHR '','') (case raw of None \<Rightarrow> [] | Some s \<Rightarrow> s))"

definition escalation_entry :: "string \<times> nat \<Rightarrow> string" where
  "escalation_entry = (\<lambda>(card_id, gen). card_id @ ''@'' @ nat_str gen)"

definition format_escalations :: "(string \<times> nat) list \<Rightarrow> string" where
  "format_escalations m = join '','' (str_sort (map escalation_entry m))"

subsection \<open>Facts about the verdict\<close>

lemma landing_verdict_cases:
  "landing_verdict_of f = Unknown_Landing \<longleftrightarrow> fact_evidence f = Unscanned"
  "landing_verdict_of f = Unmerged \<longleftrightarrow> fact_evidence f = Ahead \<and> fact_target f \<noteq> Target_Pr"
  "landing_verdict_of f = Standing \<longleftrightarrow> fact_evidence f = Merged \<and> fact_target f \<noteq> Target_Pr"
  by (cases "fact_evidence f"; auto simp: landing_verdict_of_def)+

lemma holds_blocks: "holds_dependents v \<Longrightarrow> blocks_resolution v"
  by (simp add: holds_dependents_def blocks_resolution_def)

lemma set_unresolved_landings [simp]:
  "set (unresolved_landings ls) = {l \<in> set ls. blocks_resolution (verdict l)}"
  by (simp add: unresolved_landings_def)

lemma missing_capabilities_Nil_iff:
  "missing_capabilities req prov = [] \<longleftrightarrow> (\<forall>ts. req = Some ts \<longrightarrow> set ts \<subseteq> prov)"
  by (auto simp: missing_capabilities_def filter_empty_conv split: option.splits)

subsection \<open>The escalation ledger survives its own spelling\<close>

text \<open>A card id the ledger can carry: not empty, no separator, nothing to trim off its ends.\<close>

definition ledger_id :: "string \<Rightarrow> bool" where
  "ledger_id k \<longleftrightarrow> k \<noteq> [] \<and> CHR '','' \<notin> set k \<and> \<not> is_space (hd k) \<and> \<not> is_space (last k)"

lemma split_last_append: "c \<notin> set b \<Longrightarrow> split_last c (a @ c # b) = Some (a, b)"
proof (induction a)
  case Nil
  have "c \<notin> set b \<Longrightarrow> split_last c b = None" by (induction b) auto
  with Nil show ?case by simp
qed simp

lemma read_generation_nat_str [simp]: "read_generation (nat_str n) = Some n"
  by (simp add: read_generation_def)

lemma parse_escalation_entry:
  assumes "ledger_id k"
  shows "parse_escalation (escalation_entry (k, n)) = Some (k, n)"
proof -
  have "CHR ''@'' \<notin> set (nat_str n)" by (rule nat_str_no) (simp add: is_digit_def)
  from split_last_append [OF this, of k] assms show ?thesis
    by (simp add: parse_escalation_def escalation_entry_def ledger_id_def trim_id)
qed

lemma foldl_update_distinct:
  "distinct (map fst m @ map fst ps) \<Longrightarrow> foldl (\<lambda>m p. AList.update (fst p) (snd p) m) m ps = m @ ps"
proof (induction ps arbitrary: m)
  case (Cons p ps)
  have "AList.update k v m = m @ [(k, v)]" if "k \<notin> fst ` set m" for k v and m :: "('a \<times> 'b) list"
    using that by (induction m) auto
  with Cons show ?case by (cases p) (simp add: Cons.IH [of "m @ [p]"])
qed simp

lemma parse_formatted:
  "m \<noteq> [] \<Longrightarrow> (\<And>p. p \<in> set m \<Longrightarrow> ledger_id (fst p)) \<Longrightarrow>
   parse_escalations (Some (join '','' (map escalation_entry m))) = foldl (\<lambda>m p. AList.update (fst p) (snd p) m) [] m"
proof -
  assume m: "m \<noteq> []" "\<And>p. p \<in> set m \<Longrightarrow> ledger_id (fst p)"
  have "CHR '','' \<notin> set (escalation_entry p)" if "p \<in> set m" for p
    using m(2) [OF that] nat_str_no [of "CHR '',''"]
    by (cases p) (auto simp: escalation_entry_def ledger_id_def is_digit_def)
  with m(1) have split: "split_on (CHR '','') (join '','' (map escalation_entry m)) = map escalation_entry m"
    by (intro split_on_join) auto
  have "foldl (\<lambda>m e. case parse_escalation e of None \<Rightarrow> m | Some (k, n) \<Rightarrow> AList.update k n m) acc (map escalation_entry m)
    = foldl (\<lambda>m p. AList.update (fst p) (snd p) m) acc m" for acc
    using m(2)
  proof (induction m arbitrary: acc)
    case (Cons p ps)
    from Cons.prems have "parse_escalation (escalation_entry p) = Some p"
      using parse_escalation_entry [of "fst p" "snd p"] by simp
    with Cons show ?case by (simp add: case_prod_beta)
  qed simp
  with split show ?thesis by (simp add: parse_escalations_def)
qed

lemma sort_map_mset:
  obtains m' where "mset m' = mset m" "map f m' = sort_by le (map f m)"
proof -
  have "\<exists>m'. mset m' = mset m \<and> map f m' = ys" if "mset ys = mset (map f m)" for ys
    using that
  proof (induction m arbitrary: ys)
    case (Cons x m)
    then have "f x \<in> set ys" by (metis list.set_intros(1) list.simps(9) set_mset_mset)
    then obtain us vs where ys: "ys = us @ f x # vs" by (auto dest: split_list)
    with Cons.prems have "mset (us @ vs) = mset (map f m)" by simp
    from Cons.IH [OF this] obtain m' where m': "mset m' = mset m" "map f m' = us @ vs" by auto
    then obtain m1 m2 where "m' = m1 @ m2" "map f m1 = us" "map f m2 = vs" by (auto simp: map_eq_append_conv)
    with m' ys show ?case by (intro exI [of _ "m1 @ x # m2"]) auto
  qed simp
  from this [of "sort_by le (map f m)"] that show thesis by auto
qed

lemma parse_format_lookup:
  assumes "distinct (map fst m)" and ids: "list_all (\<lambda>p. ledger_id (fst p)) m"
  obtains s where "parse_escalations (Some (format_escalations m)) = s" "mset s = mset m" "map_of s = map_of m"
proof -
  obtain s where s: "mset s = mset m" "map escalation_entry s = str_sort (map escalation_entry m)"
    by (rule sort_map_mset)
  have "mset (map fst s) = mset (map fst m)" using s(1) by simp
  then have keys: "distinct (map fst s)" "set s = set m"
    using assms(1) mset_eq_imp_distinct_iff mset_eq_setD [OF s(1)] by blast+
  have "parse_escalations (Some (format_escalations m)) = s"
  proof (cases "m = []")
    case True
    with s(1) show ?thesis by (simp add: format_escalations_def parse_escalations_def parse_escalation_def)
  next
    case False
    with s(1) have "s \<noteq> []" by auto
    moreover have "ledger_id (fst p)" if "p \<in> set s" for p
      using that keys(2) ids by (simp add: list_all_iff)
    ultimately show ?thesis
      using parse_formatted [of s] foldl_update_distinct [of "[]" s] keys(1) by (simp add: format_escalations_def s(2))
  qed
  moreover have "map_of s = map_of m" using keys assms(1) by (simp add: map_of_inject_set)
  ultimately show thesis using s(1) that by blast
qed

lemma format_escalations_mset: "mset m' = mset m \<Longrightarrow> format_escalations m' = format_escalations m"
proof -
  have "str_sort xs = str_sort ys" if "mset xs = mset ys" for xs ys :: "string list"
    by (rule linorder_cmp.sort_by_permute [OF that]) (rule order_antisym)
  then show "mset m' = mset m \<Longrightarrow> format_escalations m' = format_escalations m"
    by (metis format_escalations_def mset_map)
qed

text \<open>
  The escalation ledger survives being written and read: for card ids without separators or
  surrounding blanks, \<open>parseEscalations(formatEscalations(m))\<close> holds the same entries as \<open>m\<close>, and
  two ledgers with the same entries are written as the same bytes.
\<close>

theorem escalations_roundtrip:
  assumes "distinct (map fst m)" and "list_all (\<lambda>p. ledger_id (fst p)) m"
  shows "map_of (parse_escalations (Some (format_escalations m))) = map_of m
    \<and> (\<forall>m'. mset m' = mset m \<longrightarrow> format_escalations m' = format_escalations m)"
  using parse_format_lookup [OF assms] format_escalations_mset by metis

theorem escalations_roundtrip_witness:
  "map_of (parse_escalations (Some (format_escalations [(''b'', 7), (''a'', 3)]))) = map_of [(''b'', 7), (''a'', 3)]"
proof -
  have "list_all (\<lambda>p. ledger_id (fst p)) [(''b'', 7 :: nat), (''a'', 3)]"
    by (simp add: ledger_id_def is_space_def)
  moreover have "distinct (map fst [(''b'', 7 :: nat), (''a'', 3)])" by simp
  ultimately show ?thesis using escalations_roundtrip [of "[(''b'', 7), (''a'', 3)]"] by blast
qed

end
