(* ===== verification/EpicReady.thy ===== *)
theory EpicReady
  imports EpicReadyOrder EpicLanding
begin

section \<open>What an epic should do next\<close>

text \<open>
  \<open>src/shared/epic-ready.ts\<close>: the readiness fold. A cohort is selected by epic or by tag, the
  landing gate rewrites its dependencies, the withholding table triages the dispatch lane, the
  ordered ready cards are cut at the concurrency ceiling, and the idle table says why nothing
  moves. The lemmas give each lane in closed form; the properties say what a dispatched card is
  guaranteed, that no live card goes missing between the lanes, and what completion means.
\<close>

definition NEEDS_REFINE_TAG :: string where
  "NEEDS_REFINE_TAG = ''needs-refine''"

definition NEEDS_WERK_MASTER_TAG :: string where
  "NEEDS_WERK_MASTER_TAG = ''needs-werk-master''"

definition MAX_CARD_SEATS :: nat where
  "MAX_CARD_SEATS = 6"

text \<open>The optional fields keep their own default: \<open>None\<close> is an omitted field.\<close>

record plan_cohort_input =
  board_cards :: "card list"
  concurrency :: int
  in_flight :: "string list"
  in_verify :: "string list"
  unspawnable_ids :: "string list option"
  dispatch_counts :: "(string \<rightharpoonup> nat) option"
  settled_ids :: "string list option"
  capabilities :: "string list option"
  landings :: "card_landing list option"

record epic_plan_input = plan_cohort_input +
  plan_epic_id :: string

record tagged_plan_input = plan_cohort_input +
  cohort_tag :: string
  exclude :: "string set option"

record epic_plan =
  plan_rollup :: "epic_rollup option"
  dispatch :: "card list"
  verify :: "card list"
  questions :: "card list"
  held_back :: "card list"
  waiting_on_deps :: "(card \<times> string list) list"
  unspawnable :: "card list"
  needs_refine :: "card list"
  exhausted :: "card list"
  already_run :: "card list"
  awaiting_deploy :: "(card \<times> string list) list"
  unlanded :: "card_landing list"
  plan_complete :: bool
  idle_reason :: "string option"

subsection \<open>Predicates on one card\<close>

definition needs_verdict :: "card \<Rightarrow> bool" where
  "needs_verdict c \<longleftrightarrow> card_status c = In_Review"

definition is_bounced :: "card \<Rightarrow> bool" where
  "is_bounced c \<longleftrightarrow> card_status c = In_Progress"

definition in_dispatch_lane :: "epic_child \<Rightarrow> bool \<Rightarrow> bool" where
  "in_dispatch_lane c bounce \<longleftrightarrow> bucket c = Not_Started \<or> (bounce \<and> is_bounced (child_card c))"

definition over_seat_ceiling :: "epic_child \<Rightarrow> (string \<rightharpoonup> nat) \<Rightarrow> bool" where
  "over_seat_ceiling c dispatches \<longleftrightarrow>
     (case dispatches (slug (child_card c)) of None \<Rightarrow> 0 | Some n \<Rightarrow> n) \<ge> MAX_CARD_SEATS"

definition already_ran :: "epic_child \<Rightarrow> string set \<Rightarrow> bool" where
  "already_ran c settled \<longleftrightarrow> bucket c = Not_Started \<and> slug (child_card c) \<in> settled"

definition is_question :: "card \<Rightarrow> bool" where
  "is_question c \<longleftrightarrow> NEEDS_WERK_MASTER_TAG \<in> set (tags c)"

definition is_rough :: "card \<Rightarrow> bool" where
  "is_rough c \<longleftrightarrow> NEEDS_REFINE_TAG \<in> set (tags c)"

definition undeployed :: "card \<Rightarrow> string set \<Rightarrow> string list" where
  "undeployed c caps = missing_capabilities (requires_deploy c) caps"

definition is_terminal :: "epic_child \<Rightarrow> bool" where
  "is_terminal c \<longleftrightarrow> bucket c = Bucket_Done \<or> bucket c = Dropped"

record cohort =
  cohort_rollup :: "epic_rollup option"
  cohort_children :: "epic_child list"
  empty_detail :: string
  bounce_lane :: bool

definition with_unlanded_deps :: "epic_child list \<Rightarrow> string set \<Rightarrow> epic_child list" where
  "with_unlanded_deps cs holds =
     (if holds = {} then cs
      else map (\<lambda>c. let extra = filter (\<lambda>d. d \<in> holds \<and> d \<notin> set (waiting_on c)) (deps (child_card c))
                   in if extra = [] then c else c\<lparr>waiting_on := waiting_on c @ extra\<rparr>) cs)"

record attention_lanes =
  lane_verify :: "card list"
  lane_questions :: "card list"
  lane_unspawnable :: "card list"
  lane_needs_refine :: "card list"

definition attention_lanes :: "epic_child list \<Rightarrow> string set \<Rightarrow> string set \<Rightarrow> attention_lanes" where
  "attention_lanes cs verifying dead =
     \<lparr>lane_verify = map child_card (filter (\<lambda>c. needs_verdict (child_card c)
        \<and> slug (child_card c) \<notin> verifying \<and> slug (child_card c) \<notin> dead) cs),
      lane_questions = map child_card (filter (\<lambda>c. \<not> is_terminal c \<and> is_question (child_card c)) cs),
      lane_unspawnable = map child_card (filter (\<lambda>c. slug (child_card c) \<in> dead) cs),
      lane_needs_refine = map child_card (filter (\<lambda>c. \<not> is_terminal c \<and> is_rough (child_card c)
        \<and> \<not> is_question (child_card c)) cs)\<rparr>"

subsection \<open>The dispatch triage\<close>

record dispatch_gates =
  gate_in_flight :: "string set"
  gate_dead :: "string set"
  gate_settled :: "string set"
  gate_dispatches :: "string \<rightharpoonup> nat"
  gate_bounce_lane :: bool
  gate_capabilities :: "string set"

record dispatch_triage =
  ready :: "card list"
  triage_waiting :: "(card \<times> string list) list"
  triage_exhausted :: "card list"
  triage_already_run :: "card list"
  triage_awaiting :: "(card \<times> string list) list"

datatype withhold_lane = Lane_Already_Run | Lane_Exhausted | Lane_Awaiting_Deploy

definition WITHHOLD_RULES :: "((epic_child \<Rightarrow> dispatch_gates \<Rightarrow> bool) \<times> withhold_lane option) list" where
  "WITHHOLD_RULES =
     [(\<lambda>c g. slug (child_card c) \<in> gate_in_flight g, None),
      (\<lambda>c g. \<not> in_dispatch_lane c (gate_bounce_lane g), None),
      (\<lambda>c g. is_question (child_card c), None),
      (\<lambda>c g. undeployed (child_card c) (gate_capabilities g) \<noteq> [], Some Lane_Awaiting_Deploy),
      (\<lambda>c g. is_rough (child_card c), None),
      (\<lambda>c g. slug (child_card c) \<in> gate_dead g, None),
      (\<lambda>c g. already_ran c (gate_settled g), Some Lane_Already_Run),
      (\<lambda>c g. over_seat_ceiling c (gate_dispatches g), Some Lane_Exhausted)]"

fun record_withheld :: "dispatch_triage \<Rightarrow> withhold_lane \<Rightarrow> epic_child \<Rightarrow> dispatch_gates \<Rightarrow> dispatch_triage" where
  "record_withheld out Lane_Awaiting_Deploy c g =
     out\<lparr>triage_awaiting := triage_awaiting out
       @ [(child_card c, undeployed (child_card c) (gate_capabilities g))]\<rparr>"
| "record_withheld out Lane_Already_Run c g =
     out\<lparr>triage_already_run := triage_already_run out @ [child_card c]\<rparr>"
| "record_withheld out Lane_Exhausted c g =
     out\<lparr>triage_exhausted := triage_exhausted out @ [child_card c]\<rparr>"

definition triage_step :: "dispatch_gates \<Rightarrow> dispatch_triage \<Rightarrow> epic_child \<Rightarrow> dispatch_triage" where
  "triage_step g out c =
     (case find (\<lambda>(claims, lane). claims c g) WITHHOLD_RULES of
        Some (_, Some lane) \<Rightarrow> record_withheld out lane c g
      | Some (_, None) \<Rightarrow> out
      | None \<Rightarrow>
          if waiting_on c \<noteq> []
          then out\<lparr>triage_waiting := triage_waiting out @ [(child_card c, waiting_on c)]\<rparr>
          else out\<lparr>ready := ready out @ [child_card c]\<rparr>)"

definition empty_triage :: dispatch_triage where
  "empty_triage = \<lparr>ready = [], triage_waiting = [], triage_exhausted = [], triage_already_run = [], triage_awaiting = []\<rparr>"

definition triage_dispatch_lane :: "epic_child list \<Rightarrow> dispatch_gates \<Rightarrow> dispatch_triage" where
  "triage_dispatch_lane cs g = foldl (triage_step g) empty_triage cs"

subsection \<open>Why nothing moves\<close>

record idle_input =
  idle_complete :: bool
  cohort_size :: nat
  idle_empty_detail :: string
  idle_ready :: "card list"
  slots :: int
  idle_verify :: "card list"
  idle_questions :: "card list"
  idle_waiting :: "(card \<times> string list) list"
  idle_unspawnable :: "card list"
  idle_needs_refine :: "card list"
  idle_exhausted :: "card list"
  idle_already_run :: "card list"
  idle_awaiting :: "(card \<times> string list) list"
  idle_unlanded :: "card_landing list"
  idle_in_flight :: "string list"

definition slugs :: "card list \<Rightarrow> string" where
  "slugs cs = comma (map slug cs)"

definition arrows :: "(card \<times> string list) list \<Rightarrow> string" where
  "arrows ws = join ''; '' (map (\<lambda>(c, ds). slug c @ '' <- '' @ comma ds) ws)"

definition IDLE_RULES :: "((idle_input \<Rightarrow> bool) \<times> (idle_input \<Rightarrow> string)) list" where
  "IDLE_RULES =
     [(\<lambda>i. idle_unlanded i \<noteq> [],
       \<lambda>i. len_str (idle_unlanded i) @ '' card(s) the board calls `done` whose work is NOT delivered: ''
         @ join ''; '' (map describe_landing (idle_unlanded i))
         @ '' -- the run cannot complete and their dependents cannot dispatch until it is''),
      (\<lambda>i. idle_unspawnable i \<noteq> [],
       \<lambda>i. len_str (idle_unspawnable i)
         @ '' card(s) whose seats keep dying before producing anything, no longer retried: ''
         @ slugs (idle_unspawnable i) @ '' -- grep the broker log for `Spawn FAILED stderr:`''),
      (\<lambda>i. idle_exhausted i \<noteq> [],
       \<lambda>i. len_str (idle_exhausted i) @ '' card(s) back in `in-progress` that have already cost ''
         @ nat_str MAX_CARD_SEATS @ '' or more seats, no longer re-dispatched: '' @ slugs (idle_exhausted i)
         @ '' -- read the `## Guard Findings` on the card and decide whether it is one card or two''),
      (\<lambda>i. idle_already_run i \<noteq> [],
       \<lambda>i. len_str (idle_already_run i)
         @ '' card(s) a seat already ran and finished for without moving them, no longer re-dispatched: ''
         @ slugs (idle_already_run i)
         @ '' -- move each to `in-review` if the work landed, or to `in-progress` to send another werk-worker''),
      (\<lambda>i. idle_awaiting i \<noteq> [],
       \<lambda>i. len_str (idle_awaiting i) @ '' card(s) whose `requires_deploy:` this build does not satisfy: ''
         @ arrows (idle_awaiting i)
         @ '' -- ship and deploy that code first, or drop the token from the card if it is retired''),
      (\<lambda>i. idle_questions i \<noteq> [],
       \<lambda>i. len_str (idle_questions i) @ '' open question(s) for the werk-master: '' @ slugs (idle_questions i)),
      (\<lambda>i. idle_needs_refine i \<noteq> [],
       \<lambda>i. len_str (idle_needs_refine i) @ '' card(s) too rough to build, still tagged `'' @ NEEDS_REFINE_TAG
         @ ''`: '' @ slugs (idle_needs_refine i) @ '' -- a werk-refiner drains the tag''),
      (\<lambda>i. idle_verify i \<noteq> [],
       \<lambda>i. len_str (idle_verify i) @ '' card(s) awaiting an independent verdict''),
      (\<lambda>i. idle_complete i, \<lambda>i. ''every child is terminal''),
      (\<lambda>i. idle_ready i \<noteq> [] \<and> slots i = 0,
       \<lambda>i. len_str (idle_ready i) @ '' card(s) ready but '' @ len_str (idle_in_flight i)
         @ '' already in flight (concurrency ceiling): '' @ comma (idle_in_flight i)),
      (\<lambda>i. idle_waiting i \<noteq> [], \<lambda>i. ''nothing ready: '' @ arrows (idle_waiting i)),
      (\<lambda>i. idle_in_flight i \<noteq> [],
       \<lambda>i. len_str (idle_in_flight i) @ '' card(s) still in flight: '' @ comma (idle_in_flight i)),
      (\<lambda>i. cohort_size i = 0, idle_empty_detail)]"

definition IDLE_FALLBACK :: string where
  "IDLE_FALLBACK = ''nothing ready and nothing in flight -- the board may need replanning''"

definition idle_reason_of :: "idle_input \<Rightarrow> string option" where
  "idle_reason_of i =
     (if idle_ready i \<noteq> [] \<and> slots i > 0 then None
      else case find (\<lambda>(when, say). when i) IDLE_RULES of
          Some (_, say) \<Rightarrow> Some (say i)
        | None \<Rightarrow> Some IDLE_FALLBACK)"

subsection \<open>The fold\<close>

text \<open>\<open>new Set(x ?? [])\<close> and \<open>x ?? {}\<close>.\<close>

definition set_or_empty :: "string list option \<Rightarrow> string set" where
  "set_or_empty xs = (case xs of None \<Rightarrow> {} | Some ys \<Rightarrow> set ys)"

definition landings_of :: "'a plan_cohort_input_scheme \<Rightarrow> card_landing list" where
  "landings_of input = (case landings input of None \<Rightarrow> [] | Some ls \<Rightarrow> ls)"

definition holds_of :: "'a plan_cohort_input_scheme \<Rightarrow> string set" where
  "holds_of input =
     set (map landing_card_id (filter (\<lambda>l. holds_dependents (verdict l)) (unresolved_landings (landings_of input))))"

definition gates_of :: "cohort \<Rightarrow> 'a plan_cohort_input_scheme \<Rightarrow> dispatch_gates" where
  "gates_of co input =
     \<lparr>gate_in_flight = set (in_flight input), gate_dead = set_or_empty (unspawnable_ids input),
      gate_settled = set_or_empty (settled_ids input),
      gate_dispatches = (case dispatch_counts input of None \<Rightarrow> Map.empty | Some m \<Rightarrow> m),
      gate_bounce_lane = bounce_lane co,
      gate_capabilities = set (case capabilities input of None \<Rightarrow> DEPLOYED_CAPABILITIES | Some cs \<Rightarrow> cs)\<rparr>"

definition fold_cohort :: "intl \<Rightarrow> cohort \<Rightarrow> 'a plan_cohort_input_scheme \<Rightarrow> epic_plan" where
  "fold_cohort i co input =
     (let flying = js_set (in_flight input);
          open_landings = unresolved_landings (landings_of input);
          kids = with_unlanded_deps (cohort_children co) (holds_of input);
          lanes = attention_lanes kids (set (in_verify input)) (set_or_empty (unspawnable_ids input));
          triaged = triage_dispatch_lane kids (gates_of co input);
          ordered = order_ready i (ready triaged) (board_cards input);
          free = max 0 (concurrency input - int (length flying));
          done_all = children_complete kids \<and> open_landings = []
      in \<lparr>plan_rollup = cohort_rollup co, dispatch = take (nat free) ordered, verify = lane_verify lanes,
          questions = lane_questions lanes, held_back = drop (nat free) ordered,
          waiting_on_deps = triage_waiting triaged, unspawnable = lane_unspawnable lanes,
          needs_refine = lane_needs_refine lanes, exhausted = triage_exhausted triaged,
          already_run = triage_already_run triaged, awaiting_deploy = triage_awaiting triaged,
          unlanded = open_landings, plan_complete = done_all,
          idle_reason = idle_reason_of
            \<lparr>idle_complete = done_all, cohort_size = length kids, idle_empty_detail = empty_detail co,
             idle_ready = ordered, slots = free, idle_verify = lane_verify lanes,
             idle_questions = lane_questions lanes, idle_waiting = triage_waiting triaged,
             idle_unspawnable = lane_unspawnable lanes, idle_needs_refine = lane_needs_refine lanes,
             idle_exhausted = triage_exhausted triaged, idle_already_run = triage_already_run triaged,
             idle_awaiting = triage_awaiting triaged, idle_unlanded = open_landings,
             idle_in_flight = str_sort flying\<rparr>\<rparr>)"

definition empty_plan :: epic_plan where
  "empty_plan =
     \<lparr>plan_rollup = None, dispatch = [], verify = [], questions = [], held_back = [], waiting_on_deps = [],
      unspawnable = [], needs_refine = [], exhausted = [], already_run = [], awaiting_deploy = [],
      unlanded = [], plan_complete = False, idle_reason = None\<rparr>"

definition plan_epic :: "intl \<Rightarrow> epic_plan_input \<Rightarrow> epic_plan" where
  "plan_epic i input =
     (case map_of (build_epic_index (board_cards input)) (plan_epic_id input) of
        None \<Rightarrow> empty_plan\<lparr>idle_reason := Some (''no epic `'' @ plan_epic_id input
          @ ''` on the board (no card carries it and no card claims it as a parent)'')\<rparr>
      | Some r \<Rightarrow> fold_cohort i
          \<lparr>cohort_rollup = Some r, cohort_children = children r,
           empty_detail = ''the epic has no children yet'', bounce_lane = True\<rparr> input)"

definition empty_tag_detail :: "string \<Rightarrow> nat \<Rightarrow> string" where
  "empty_tag_detail tag n =
     (if n = 0 then ''no card carries `'' @ tag @ ''`''
      else ''all '' @ nat_str n @ '' card(s) carrying `'' @ tag @ ''` were excluded from the cohort by the caller'')"

definition plan_tagged :: "intl \<Rightarrow> tagged_plan_input \<Rightarrow> epic_plan" where
  "plan_tagged i input =
     (let done_ids = done_card_ids (board_cards input);
          tagged = filter (\<lambda>c. cohort_tag input \<in> set (tags c)) (board_cards input);
          kids = map (\<lambda>c. to_epic_child c done_ids)
                   (filter (\<lambda>c. \<not> (case exclude input of None \<Rightarrow> False | Some x \<Rightarrow> slug c \<in> x)) tagged)
      in fold_cohort i
           \<lparr>cohort_rollup = None, cohort_children = kids,
            empty_detail = empty_tag_detail (cohort_tag input) (length tagged), bounce_lane = False\<rparr> input)"

subsection \<open>The lanes in closed form\<close>

text \<open>Not claimed by the first three rules, and not claimed by any of them.\<close>

definition candidate :: "epic_child \<Rightarrow> dispatch_gates \<Rightarrow> bool" where
  "candidate c g \<longleftrightarrow> slug (child_card c) \<notin> gate_in_flight g \<and> in_dispatch_lane c (gate_bounce_lane g)
     \<and> \<not> is_question (child_card c)"

definition launchable :: "epic_child \<Rightarrow> dispatch_gates \<Rightarrow> bool" where
  "launchable c g \<longleftrightarrow> candidate c g \<and> undeployed (child_card c) (gate_capabilities g) = []
     \<and> \<not> is_rough (child_card c) \<and> slug (child_card c) \<notin> gate_dead g"

definition clear_of_rules :: "epic_child \<Rightarrow> dispatch_gates \<Rightarrow> bool" where
  "clear_of_rules c g \<longleftrightarrow> launchable c g \<and> \<not> already_ran c (gate_settled g)
     \<and> \<not> over_seat_ceiling c (gate_dispatches g)"

named_theorems triage_defs \<open>the predicates of the withholding table\<close>

lemmas [triage_defs] = candidate_def launchable_def clear_of_rules_def

lemma triage_step_lanes:
  "ready (triage_step g out c) = ready out @ (if clear_of_rules c g \<and> waiting_on c = [] then [child_card c] else [])"
  "triage_waiting (triage_step g out c) =
     triage_waiting out @ (if clear_of_rules c g \<and> waiting_on c \<noteq> [] then [(child_card c, waiting_on c)] else [])"
  "triage_exhausted (triage_step g out c) =
     triage_exhausted out @ (if launchable c g \<and> \<not> already_ran c (gate_settled g)
       \<and> over_seat_ceiling c (gate_dispatches g) then [child_card c] else [])"
  "triage_already_run (triage_step g out c) =
     triage_already_run out @ (if launchable c g \<and> already_ran c (gate_settled g) then [child_card c] else [])"
  "triage_awaiting (triage_step g out c) =
     triage_awaiting out @ (if candidate c g \<and> undeployed (child_card c) (gate_capabilities g) \<noteq> []
       then [(child_card c, undeployed (child_card c) (gate_capabilities g))] else [])"
  by (simp_all add: triage_step_def WITHHOLD_RULES_def triage_defs)

lemma triage_lanes:
  "ready (triage_dispatch_lane cs g) = map child_card (filter (\<lambda>c. clear_of_rules c g \<and> waiting_on c = []) cs)"
  "triage_waiting (triage_dispatch_lane cs g) =
     map (\<lambda>c. (child_card c, waiting_on c)) (filter (\<lambda>c. clear_of_rules c g \<and> waiting_on c \<noteq> []) cs)"
  "triage_exhausted (triage_dispatch_lane cs g) =
     map child_card (filter (\<lambda>c. launchable c g \<and> \<not> already_ran c (gate_settled g)
       \<and> over_seat_ceiling c (gate_dispatches g)) cs)"
  "triage_already_run (triage_dispatch_lane cs g) =
     map child_card (filter (\<lambda>c. launchable c g \<and> already_ran c (gate_settled g)) cs)"
  "triage_awaiting (triage_dispatch_lane cs g) =
     map (\<lambda>c. (child_card c, undeployed (child_card c) (gate_capabilities g)))
       (filter (\<lambda>c. candidate c g \<and> undeployed (child_card c) (gate_capabilities g) \<noteq> []) cs)"
  unfolding triage_dispatch_lane_def
  by (induction cs rule: rev_induct) (simp_all add: triage_step_lanes empty_triage_def)

text \<open>The landing gate on one child.\<close>

definition hold_child :: "string set \<Rightarrow> epic_child \<Rightarrow> epic_child" where
  "hold_child H c =
     c\<lparr>waiting_on := waiting_on c @ filter (\<lambda>d. d \<in> H \<and> d \<notin> set (waiting_on c)) (deps (child_card c))\<rparr>"

lemma hold_child_sel [simp]:
  "child_card (hold_child H c) = child_card c" "bucket (hold_child H c) = bucket c"
  "set (waiting_on (hold_child H c)) = set (waiting_on c) \<union> (H \<inter> set (deps (child_card c)))"
  by (auto simp: hold_child_def)

lemma hold_child_nothing: "hold_child {} c = c"
  by (simp add: hold_child_def)

lemma hold_child_waits [simp]:
  "waiting_on (hold_child H c) = [] \<longleftrightarrow> waiting_on c = [] \<and> H \<inter> set (deps (child_card c)) = {}"
  unfolding set_empty [symmetric] hold_child_sel by auto

lemma with_unlanded_deps_map: "with_unlanded_deps cs H = map (hold_child H) cs"
proof (cases "H = {}")
  case True
  then show ?thesis by (simp add: with_unlanded_deps_def hold_child_nothing cong: map_cong)
qed (simp add: with_unlanded_deps_def hold_child_def Let_def)

lemma hold_child_rules [simp]:
  "candidate (hold_child H c) g = candidate c g" "launchable (hold_child H c) g = launchable c g"
  "clear_of_rules (hold_child H c) g = clear_of_rules c g"
  "already_ran (hold_child H c) S = already_ran c S"
  "over_seat_ceiling (hold_child H c) D = over_seat_ceiling c D"
  "is_terminal (hold_child H c) = is_terminal c"
  by (simp_all add: triage_defs in_dispatch_lane_def already_ran_def over_seat_ceiling_def is_terminal_def)

lemma children_complete_hold [simp]: "children_complete (map (hold_child H) cs) = children_complete cs"
  by (simp add: children_complete_def list_all_iff)

lemma hold_child_lane:
  "map child_card (filter P (map (hold_child H) cs)) = map child_card (filter (P \<circ> hold_child H) cs)"
  by (simp add: filter_map)

lemma holds_of_iff:
  "d \<in> holds_of input \<longleftrightarrow> (\<exists>l \<in> set (landings_of input). landing_card_id l = d \<and> verdict l = Unmerged)"
  by (auto simp: holds_of_def unresolved_landings_def holds_dependents_def blocks_resolution_def)

subsection \<open>The lanes of a fold\<close>

lemma fold_lanes:
  fixes i co input
  defines "p \<equiv> fold_cohort i co input" and "g \<equiv> gates_of co input" and "H \<equiv> holds_of input"
    and "dead \<equiv> set_or_empty (unspawnable_ids input)" and "cs \<equiv> cohort_children co"
  shows "verify p = map child_card (filter (\<lambda>c. needs_verdict (child_card c)
        \<and> slug (child_card c) \<notin> set (in_verify input) \<and> slug (child_card c) \<notin> dead) cs)"
    and "questions p = map child_card (filter (\<lambda>c. \<not> is_terminal c \<and> is_question (child_card c)) cs)"
    and "unspawnable p = map child_card (filter (\<lambda>c. slug (child_card c) \<in> dead) cs)"
    and "needs_refine p = map child_card (filter (\<lambda>c. \<not> is_terminal c \<and> is_rough (child_card c)
        \<and> \<not> is_question (child_card c)) cs)"
    and "exhausted p = map child_card (filter (\<lambda>c. launchable c g \<and> \<not> already_ran c (gate_settled g)
        \<and> over_seat_ceiling c (gate_dispatches g)) cs)"
    and "already_run p = map child_card (filter (\<lambda>c. launchable c g \<and> already_ran c (gate_settled g)) cs)"
    and "awaiting_deploy p = map (\<lambda>c. (child_card c, undeployed (child_card c) (gate_capabilities g)))
        (filter (\<lambda>c. candidate c g \<and> undeployed (child_card c) (gate_capabilities g) \<noteq> []) cs)"
    and "waiting_on_deps p = map (\<lambda>c. (child_card c, waiting_on (hold_child H c)))
        (filter (\<lambda>c. clear_of_rules c g \<and> \<not> (waiting_on c = [] \<and> H \<inter> set (deps (child_card c)) = {})) cs)"
    and "dispatch p @ held_back p = order_ready i (map child_card (filter (\<lambda>c. clear_of_rules c g
        \<and> waiting_on c = [] \<and> H \<inter> set (deps (child_card c)) = {}) cs)) (board_cards input)"
  unfolding assms
  by (simp_all add: fold_cohort_def attention_lanes_def Let_def with_unlanded_deps_map triage_lanes filter_map
      comp_def)

lemma fold_rest:
  fixes i co input
  defines "p \<equiv> fold_cohort i co input"
  shows "unlanded p = unresolved_landings (landings_of input)" and "plan_rollup p = cohort_rollup co"
    and "plan_complete p \<longleftrightarrow>
      children_complete (cohort_children co) \<and> unresolved_landings (landings_of input) = []"
    and "length (dispatch p) =
      min (length (dispatch p @ held_back p)) (nat (concurrency input - int (card (set (in_flight input)))))"
  unfolding assms
  by (simp_all add: fold_cohort_def Let_def with_unlanded_deps_map length_js_set)

lemma idle_reason_of_None: "idle_reason_of i = None \<longleftrightarrow> idle_ready i \<noteq> [] \<and> slots i > 0"
  by (auto simp: idle_reason_of_def split: option.split)

lemma fold_idle: "idle_reason (fold_cohort i co input) = None \<longleftrightarrow> dispatch (fold_cohort i co input) \<noteq> []"
  by (auto simp: fold_cohort_def Let_def idle_reason_of_None)

subsection \<open>Plans over the board\<close>

text \<open>
  What the fold promises of a card it sends out, said on the board alone: nobody works it, it is
  launchable, it is neither a question nor rough, the build provides what it requires, it has seats
  left, its dependencies are \<open>done\<close> and none of them is unmerged.
\<close>

definition seats_spent :: "'a plan_cohort_input_scheme \<Rightarrow> string \<Rightarrow> nat" where
  "seats_spent input s =
     (case dispatch_counts input of None \<Rightarrow> 0 | Some m \<Rightarrow> (case m s of None \<Rightarrow> 0 | Some n \<Rightarrow> n))"

definition provided :: "'a plan_cohort_input_scheme \<Rightarrow> string set" where
  "provided input = set (case capabilities input of None \<Rightarrow> DEPLOYED_CAPABILITIES | Some cs \<Rightarrow> cs)"

definition deps_done :: "'a plan_cohort_input_scheme \<Rightarrow> card \<Rightarrow> bool" where
  "deps_done input c \<longleftrightarrow> (\<forall>d \<in> set (deps c). \<exists>k \<in> set (board_cards input). slug k = d \<and> card_status k = Done)"

definition deps_merged :: "'a plan_cohort_input_scheme \<Rightarrow> card \<Rightarrow> bool" where
  "deps_merged input c \<longleftrightarrow>
     (\<forall>l \<in> set (landings_of input). verdict l = Unmerged \<longrightarrow> landing_card_id l \<notin> set (deps c))"

definition clear_to_build :: "'a plan_cohort_input_scheme \<Rightarrow> card \<Rightarrow> bool" where
  "clear_to_build input c \<longleftrightarrow>
     slug c \<notin> set (in_flight input) \<and> slug c \<notin> set_or_empty (unspawnable_ids input)
     \<and> ''needs-werk-master'' \<notin> set (tags c) \<and> ''needs-refine'' \<notin> set (tags c)
     \<and> set (case requires_deploy c of None \<Rightarrow> [] | Some ts \<Rightarrow> ts) \<subseteq> provided input
     \<and> seats_spent input (slug c) < 6 \<and> deps_done input c \<and> deps_merged input c"

definition first_attempt :: "'a plan_cohort_input_scheme \<Rightarrow> card \<Rightarrow> bool" where
  "first_attempt input c \<longleftrightarrow>
     (card_status c = Inbox \<or> card_status c = Open) \<and> slug c \<notin> set_or_empty (settled_ids input)"

lemma clear_of_rules_board:
  assumes "gates = gates_of co input"
  shows "(clear_of_rules (to_epic_child c (done_card_ids (board_cards input))) gates
      \<and> filter (\<lambda>d. d \<notin> done_card_ids (board_cards input)) (deps c) = []
      \<and> holds_of input \<inter> set (deps c) = {})
    \<longleftrightarrow> clear_to_build input c \<and> (first_attempt input c \<or> bounce_lane co \<and> card_status c = In_Progress)"
proof -
  have "filter (\<lambda>d. d \<notin> done_card_ids (board_cards input)) (deps c) = [] \<longleftrightarrow> deps_done input c"
    by (auto simp: filter_empty_conv done_card_ids_def deps_done_def)
  moreover have "holds_of input \<inter> set (deps c) = {} \<longleftrightarrow> deps_merged input c"
    unfolding disjoint_iff deps_merged_def holds_of_iff by auto
  moreover have "undeployed c (gate_capabilities gates) = []
      \<longleftrightarrow> set (case requires_deploy c of None \<Rightarrow> [] | Some ts \<Rightarrow> ts) \<subseteq> provided input"
    by (cases "requires_deploy c")
      (simp_all add: assms gates_of_def undeployed_def missing_capabilities_Nil_iff provided_def)
  moreover have "over_seat_ceiling (to_epic_child c D) (gate_dispatches gates) \<longleftrightarrow> \<not> seats_spent input (slug c) < 6" for D
    by (auto simp: assms gates_of_def over_seat_ceiling_def MAX_CARD_SEATS_def seats_spent_def split: option.splits)
  ultimately show ?thesis
    by (auto simp: assms triage_defs clear_to_build_def first_attempt_def in_dispatch_lane_def already_ran_def
        is_bounced_def is_question_def is_rough_def NEEDS_WERK_MASTER_TAG_def NEEDS_REFINE_TAG_def gates_of_def)
qed

text \<open>The children of either selector, as a filter of the board.\<close>

definition epic_cohort :: "string \<Rightarrow> card \<Rightarrow> bool" where
  "epic_cohort e c \<longleftrightarrow> epic c = Some e \<and> e \<noteq> []"

definition tag_cohort :: "tagged_plan_input \<Rightarrow> card \<Rightarrow> bool" where
  "tag_cohort input c \<longleftrightarrow> cohort_tag input \<in> set (tags c)
     \<and> \<not> (case exclude input of None \<Rightarrow> False | Some x \<Rightarrow> slug c \<in> x)"

definition epic_children :: "card list \<Rightarrow> string \<Rightarrow> epic_child list" where
  "epic_children cards e = sort_by bucket_le (claimed (done_card_ids cards) cards e)"

definition epic_cohort_of :: "epic_plan_input \<Rightarrow> epic_rollup \<Rightarrow> cohort" where
  "epic_cohort_of input r =
     \<lparr>cohort_rollup = Some r, cohort_children = epic_children (board_cards input) (plan_epic_id input),
      empty_detail = ''the epic has no children yet'', bounce_lane = True\<rparr>"

lemma plan_epic_cases:
  obtains (none) "map_of (build_epic_index (board_cards input)) (plan_epic_id input) = None"
      "epic_children (board_cards input) (plan_epic_id input) = []"
      "\<exists>why. plan_epic i input = empty_plan\<lparr>idle_reason := Some why\<rparr>"
  | (some) r where "map_of (build_epic_index (board_cards input)) (plan_epic_id input) = Some r"
      "plan_epic i input = fold_cohort i (epic_cohort_of input r) input"
proof (cases "map_of (build_epic_index (board_cards input)) (plan_epic_id input)")
  case None
  then have "claimed (done_card_ids (board_cards input)) (board_cards input) (plan_epic_id input) = []"
    by (auto simp: build_epic_index_lookup Let_def split: if_splits)
  then show ?thesis using None by (intro none) (auto simp: plan_epic_def epic_children_def)
next
  case (Some r)
  with index_children [OF Some] show ?thesis
    by (intro some) (auto simp: plan_epic_def epic_cohort_of_def epic_children_def)
qed

lemma mset_epic_lane:
  "mset (map child_card (filter P (epic_children cards e)))
     = mset (filter (\<lambda>c. epic_cohort e c \<and> P (to_epic_child c (done_card_ids cards))) cards)"
proof -
  have "mset (filter P (epic_children cards e)) = filter_mset P (mset (claimed (done_card_ids cards) cards e))"
    by (simp add: epic_children_def)
  also have "\<dots> = mset (filter P (claimed (done_card_ids cards) cards e))" by simp
  finally have "mset (map child_card (filter P (epic_children cards e)))
      = mset (map child_card (filter P (claimed (done_card_ids cards) cards e)))"
    by (simp only: mset_map)
  then show ?thesis
    by (simp add: claimed_def epic_cohort_def filter_map comp_def conj_ac)
qed

lemma mset_tag_lane:
  fixes input :: tagged_plan_input
  shows "mset (map child_card (filter P (map (\<lambda>c. to_epic_child c D) (filter Q (filter R cards)))))
    = mset (filter (\<lambda>c. R c \<and> Q c \<and> P (to_epic_child c D)) cards)"
  by (simp add: filter_map comp_def conj_ac)

text \<open>
  C1: the dispatch contract of the epic selector. The cards the engine may send out (\<open>dispatch\<close>
  and \<open>heldBack\<close> together) are exactly the epic's cards that are clear to build (nobody on them,
  launchable, no question, not rough, deployable, fewer than six seats spent, every dependency done
  on the board and none known unmerged) and that are either on their first attempt or bounced to
  \<open>in-progress\<close>; each occurs as often as on the board.
\<close>

theorem epic_dispatch_contract:
  "mset (dispatch (plan_epic i input) @ held_back (plan_epic i input)) =
     mset (filter (\<lambda>c. epic c = Some (plan_epic_id input) \<and> plan_epic_id input \<noteq> []
       \<and> clear_to_build input c \<and> (first_attempt input c \<or> card_status c = In_Progress)) (board_cards input))"
proof -
  let ?g = "\<lambda>r. gates_of (epic_cohort_of input r) input"
  have lane: "mset (map child_card (filter (\<lambda>c. clear_of_rules c (?g r) \<and> waiting_on c = []
        \<and> holds_of input \<inter> set (deps (child_card c)) = {}) (epic_children (board_cards input) (plan_epic_id input))))
      = mset (filter (\<lambda>c. epic_cohort (plan_epic_id input) c \<and> clear_to_build input c
        \<and> (first_attempt input c \<or> card_status c = In_Progress)) (board_cards input))" for r
    unfolding mset_epic_lane to_epic_child_sel clear_of_rules_board [OF HOL.refl]
    by (simp add: epic_cohort_of_def)
  show ?thesis
  proof (cases rule: plan_epic_cases [where input = input and i = i])
    case none
    with lane [of undefined] show ?thesis by (auto simp: empty_plan_def epic_cohort_def)
  next
    case (some r)
    with lane [of r] show ?thesis by (simp add: fold_lanes del: mset_append)
       (simp add: epic_cohort_def epic_cohort_of_def)
  qed
qed

text \<open>
  The dispatch contract of the tag selector: the same readiness over the cards carrying the
  tag and not excluded, without the bounce lane, so only first attempts go out.
\<close>

theorem tagged_dispatch_contract:
  "mset (dispatch (plan_tagged i input) @ held_back (plan_tagged i input)) =
     mset (filter (\<lambda>c. tag_cohort input c \<and> clear_to_build input c \<and> first_attempt input c) (board_cards input))"
  unfolding plan_tagged_def Let_def fold_lanes mset_order_ready cohort.simps mset_tag_lane to_epic_child_sel
    clear_of_rules_board [OF HOL.refl]
  by (simp add: tag_cohort_def)

text \<open>
  Dispatch and held-back cards are one list in the documented order, cut at the concurrency
  ceiling: never more seats than the ceiling leaves free, and nothing is held back while one is.
\<close>

theorem epic_dispatch_ceiling:
  fixes i input
  defines "p \<equiv> plan_epic i input" and "free \<equiv> max 0 (concurrency input - int (card (set (in_flight input))))"
  shows "(\<exists>ready. dispatch p @ held_back p = order_ready i ready (board_cards input))
    \<and> int (length (dispatch p)) \<le> free \<and> (held_back p = [] \<or> int (length (dispatch p)) = free)"
proof (cases rule: plan_epic_cases [where input = input and i = i])
  case none
  then show ?thesis by (auto simp: p_def free_def empty_plan_def order_ready_def intro: exI [of _ "[]"])
next
  case (some r)
  from some(2) have p: "p = fold_cohort i (epic_cohort_of input r) input" by (simp add: p_def)
  have "length (dispatch p) = min (length (dispatch p @ held_back p)) (nat free)"
    using fold_rest(4) [of i "epic_cohort_of input r" input] by (simp add: p free_def)
  then have "int (length (dispatch p)) = min (int (length (dispatch p)) + int (length (held_back p))) free"
    by (simp add: free_def)
  moreover have "\<exists>ready. dispatch p @ held_back p = order_ready i ready (board_cards input)"
    unfolding p fold_lanes by blast
  ultimately show ?thesis by (auto simp: min_def split: if_splits)
qed

text \<open>
  C18: no live card goes missing. Every non-terminal child of the epic is in a named lane of the
  plan, or somebody is alive on it (a seat in flight, or a verifier on its verdict).
\<close>

theorem epic_no_silent_withholding:
  fixes i input
  defines "p \<equiv> plan_epic i input"
  assumes "map_of (build_epic_index (board_cards input)) (plan_epic_id input) = Some r"
    and "k \<in> set (children r)" and "\<not> is_terminal k"
  shows "child_card k \<in> set (dispatch p @ held_back p @ map fst (waiting_on_deps p) @ exhausted p @ already_run p
      @ map fst (awaiting_deploy p) @ questions p @ needs_refine p @ unspawnable p @ verify p)
    \<or> slug (child_card k) \<in> set (in_flight input) \<or> slug (child_card k) \<in> set (in_verify input)"
proof (cases rule: plan_epic_cases [where input = input and i = i])
  case (some r')
  have k: "k \<in> set (cohort_children (epic_cohort_of input r'))"
    using index_children [OF assms(2)] assms(3) by (simp add: epic_cohort_of_def epic_children_def)
  have bucket: "bucket k = epic_bucket (card_status (child_card k))"
    using index_children [OF assms(2)] assms(3) by (auto simp: claimed_def)
  let ?g = "gates_of (epic_cohort_of input r') input"
  have lane: "in_dispatch_lane k (gate_bounce_lane ?g) \<or> needs_verdict (child_card k)"
    using assms(4) bucket by (cases "card_status (child_card k)")
      (auto simp: in_dispatch_lane_def needs_verdict_def is_terminal_def is_bounced_def gates_of_def epic_cohort_of_def)
  have sets: "gate_in_flight ?g = set (in_flight input)" "gate_dead ?g = set_or_empty (unspawnable_ids input)"
    by (simp_all add: gates_of_def)
  have "child_card k \<in> set (dispatch p @ held_back p)"
    if "clear_of_rules k ?g" "waiting_on k = []" "holds_of input \<inter> set (deps (child_card k)) = {}"
    using that k unfolding p_def some(2) fold_lanes by auto
  then have ready: "child_card k \<in> set (dispatch p @ held_back p @ map fst (waiting_on_deps p))"
    if "clear_of_rules k ?g"
    using that k unfolding p_def some(2) set_append Un_assoc fold_lanes(8) by auto
  let ?c = "child_card k" and ?dead = "set_or_empty (unspawnable_ids input)"
  have lanes: "is_question ?c \<Longrightarrow> ?c \<in> set (questions p)"
    "is_rough ?c \<Longrightarrow> \<not> is_question ?c \<Longrightarrow> ?c \<in> set (needs_refine p)"
    "slug ?c \<in> ?dead \<Longrightarrow> ?c \<in> set (unspawnable p)"
    "candidate k ?g \<Longrightarrow> undeployed ?c (gate_capabilities ?g) \<noteq> [] \<Longrightarrow> ?c \<in> set (map fst (awaiting_deploy p))"
    "launchable k ?g \<Longrightarrow> already_ran k (gate_settled ?g) \<Longrightarrow> ?c \<in> set (already_run p)"
    "launchable k ?g \<Longrightarrow> \<not> already_ran k (gate_settled ?g) \<Longrightarrow> over_seat_ceiling k (gate_dispatches ?g)
      \<Longrightarrow> ?c \<in> set (exhausted p)"
    "needs_verdict ?c \<Longrightarrow> slug ?c \<notin> set (in_verify input) \<Longrightarrow> slug ?c \<notin> ?dead \<Longrightarrow> ?c \<in> set (verify p)"
    unfolding p_def some(2) fold_lanes using k assms(4) by force+
  show ?thesis
  proof (cases "clear_of_rules k ?g")
    case True
    from ready [OF True] show ?thesis by auto
  next
    case False
    then consider "slug ?c \<in> set (in_flight input)" | "needs_verdict ?c" | "is_question ?c"
      | "candidate k ?g" "undeployed ?c (gate_capabilities ?g) \<noteq> []" | "is_rough ?c" "\<not> is_question ?c"
      | "slug ?c \<in> ?dead" | "launchable k ?g" "already_ran k (gate_settled ?g)"
      | "launchable k ?g" "\<not> already_ran k (gate_settled ?g)" "over_seat_ceiling k (gate_dispatches ?g)"
      using lane unfolding triage_defs sets by blast
    then show ?thesis using lanes by cases auto
  qed
qed (use assms in simp)

text \<open>A concrete input over the sample board.\<close>

definition sample_plan_input :: "card_landing list option \<Rightarrow> epic_plan_input" where
  "sample_plan_input ls =
     \<lparr>board_cards = sample_board, concurrency = 3, in_flight = [], in_verify = [], unspawnable_ids = None,
      dispatch_counts = None, settled_ids = None, capabilities = None, landings = ls, plan_epic_id = ''e''\<rparr>"

theorem epic_no_silent_withholding_witness:
  defines "p \<equiv> plan_epic plain_intl (sample_plan_input None)"
    and "c \<equiv> child_card (hd (children (the (map_of (build_epic_index sample_board) ''e''))))"
  shows "c \<in> set (dispatch p @ held_back p @ map fst (waiting_on_deps p) @ exhausted p @ already_run p
      @ map fst (awaiting_deploy p) @ questions p @ needs_refine p @ unspawnable p @ verify p)"
proof -
  let ?r = "the (map_of (build_epic_index sample_board) ''e'')" and ?i = "sample_plan_input None"
  have sel: "board_cards ?i = sample_board" "plan_epic_id ?i = ''e''" "in_flight ?i = []" "in_verify ?i = []"
    by (simp_all add: sample_plan_input_def)
  have "map_of (build_epic_index sample_board) ''e'' \<noteq> None \<and> children ?r \<noteq> []
    \<and> \<not> is_terminal (hd (children ?r))" by code_simp
  then show ?thesis
    using epic_no_silent_withholding [of ?i ?r "hd (children ?r)" plain_intl]
    unfolding p_def c_def sel by simp
qed

text \<open>
  Completion. The plan is complete exactly when the epic has children, every one of them is
  done or archived, and no landing is unmerged or left standing; and a complete plan sends nobody
  out and keeps nobody waiting.
\<close>

theorem epic_complete_iff:
  fixes i input
  defines "p \<equiv> plan_epic i input" and "e \<equiv> plan_epic_id input"
  shows "(plan_complete p \<longleftrightarrow>
      e \<noteq> [] \<and> Some e \<in> epic ` set (board_cards input)
      \<and> {card_status c |c. c \<in> set (board_cards input) \<and> epic c = Some e} \<subseteq> {Done, Archived}
      \<and> {l \<in> set (landings_of input). verdict l = Unmerged \<or> verdict l = Standing} = {})
    \<and> (plan_complete p \<longrightarrow> dispatch p = [] \<and> held_back p = [] \<and> waiting_on_deps p = [])"
proof -
  let ?cs = "epic_children (board_cards input) e"
  have kids: "set ?cs = (\<lambda>c. to_epic_child c (done_card_ids (board_cards input)))
      ` {c \<in> set (board_cards input). epic_cohort e c}"
    by (auto simp: epic_children_def claimed_def epic_cohort_def)
  have nonempty: "?cs \<noteq> [] \<longleftrightarrow> e \<noteq> [] \<and> Some e \<in> epic ` set (board_cards input)"
    unfolding set_empty [symmetric] kids by (force simp: epic_cohort_def)
  have terminal: "children_complete ?cs \<longleftrightarrow> e \<noteq> [] \<and> Some e \<in> epic ` set (board_cards input)
      \<and> {card_status c |c. c \<in> set (board_cards input) \<and> epic c = Some e} \<subseteq> {Done, Archived}"
    unfolding children_complete_def nonempty list_all_iff kids by (auto simp: epic_cohort_def)
  have landed: "unresolved_landings (landings_of input) = [] \<longleftrightarrow>
      {l \<in> set (landings_of input). verdict l = Unmerged \<or> verdict l = Standing} = {}"
    by (auto simp: unresolved_landings_def filter_empty_conv blocks_resolution_def)
  show ?thesis
  proof (cases rule: plan_epic_cases [where input = input and i = i])
    case none
    with terminal show ?thesis by (auto simp: p_def e_def empty_plan_def children_complete_def)
  next
    case (some r)
    have p: "p = fold_cohort i (epic_cohort_of input r) input" by (simp add: p_def some)
    have cs: "cohort_children (epic_cohort_of input r) = ?cs" by (simp add: epic_cohort_of_def e_def)
    have complete: "plan_complete p \<longleftrightarrow> children_complete ?cs \<and> unresolved_landings (landings_of input) = []"
      unfolding p fold_rest cs ..
    have "\<not> clear_of_rules k (gates_of co input)" if "children_complete ?cs" "k \<in> set ?cs" for k co
    proof -
      from that(1,2) have "bucket k = Bucket_Done \<or> bucket k = Dropped"
        by (simp add: children_complete_def list_all_iff)
      moreover from that(2) have "bucket k = epic_bucket (card_status (child_card k))" by (auto simp: kids)
      ultimately show ?thesis by (auto simp: triage_defs in_dispatch_lane_def is_bounced_def)
    qed
    then have "dispatch p @ held_back p = []" "waiting_on_deps p = []" if "children_complete ?cs"
      using that unfolding p fold_lanes cs by (simp_all add: order_ready_def cong: filter_cong)
    with complete terminal landed show ?thesis by simp
  qed
qed

theorem epic_complete_iff_witness:
  defines "p \<equiv> plan_epic plain_intl ((sample_plan_input None)
    \<lparr>board_cards := [(blank_card ''b'' Done)\<lparr>epic := Some ''e''\<rparr>]\<rparr>)"
  shows "plan_complete p \<and> dispatch p = []"
proof -
  let ?i = "(sample_plan_input None)\<lparr>board_cards := [(blank_card ''b'' Done)\<lparr>epic := Some ''e''\<rparr>]\<rparr>"
  have sel: "board_cards ?i = [(blank_card ''b'' Done)\<lparr>epic := Some ''e''\<rparr>]" "plan_epic_id ?i = ''e''"
    "landings_of ?i = []" by (simp_all add: sample_plan_input_def landings_of_def)
  have "{card_status c |c. c \<in> set (board_cards ?i) \<and> epic c = Some (plan_epic_id ?i)} \<subseteq> {Done, Archived}"
    unfolding sel by (auto simp: blank_card_def)
  moreover have "Some (plan_epic_id ?i) \<in> epic ` set (board_cards ?i)" unfolding sel by (simp add: blank_card_def)
  ultimately show ?thesis using epic_complete_iff [of plain_intl ?i] unfolding p_def sel(2,3) by auto
qed

text \<open>
  A plan gives a reason exactly when it sends nobody out, whichever selector chose the cohort.
\<close>

theorem idle_reason_iff_idle:
  "(idle_reason (plan_epic i input) = None \<longleftrightarrow> dispatch (plan_epic i input) \<noteq> [])
    \<and> (idle_reason (plan_tagged i input') = None \<longleftrightarrow> dispatch (plan_tagged i input') \<noteq> [])"
proof
  show "idle_reason (plan_epic i input) = None \<longleftrightarrow> dispatch (plan_epic i input) \<noteq> []"
    by (cases rule: plan_epic_cases [where input = input and i = i]) (auto simp: empty_plan_def fold_idle)
qed (simp add: plan_tagged_def Let_def fold_idle)

text \<open>
  The landing gate holds dependency chains, never the run: adding landing facts to an epic
  plan withdraws exactly the cards that name an unmerged dependency, moves nothing else, and leaves
  every other lane and the rollup as they were.
\<close>

theorem landing_gate_is_local:
  fixes i input ls
  defines "p \<equiv> plan_epic i (input\<lparr>landings := Some ls\<rparr>)" and "q \<equiv> plan_epic i (input\<lparr>landings := None\<rparr>)"
    and "held \<equiv> landing_card_id ` {l \<in> set ls. verdict l = Unmerged}"
  shows "mset (dispatch p @ held_back p) =
      mset (filter (\<lambda>c. set (deps c) \<inter> held = {}) (dispatch q @ held_back q))
    \<and> verify p = verify q \<and> questions p = questions q \<and> needs_refine p = needs_refine q
    \<and> unspawnable p = unspawnable q \<and> exhausted p = exhausted q \<and> already_run p = already_run q
    \<and> awaiting_deploy p = awaiting_deploy q \<and> plan_rollup p = plan_rollup q"
proof -
  have gates: "gates_of co (input\<lparr>landings := x\<rparr>) = gates_of co input"
    and cohorts: "epic_cohort_of (input\<lparr>landings := x\<rparr>) r = epic_cohort_of input r" for co x r
    by (simp_all add: gates_of_def epic_cohort_of_def)
  have holds: "holds_of (input\<lparr>landings := Some ls\<rparr>) = held" "holds_of (input\<lparr>landings := None\<rparr>) = {}"
    by (auto simp: set_eq_iff holds_of_iff held_def landings_of_def)
  have deps: "mset (filter P (order_ready i xs b)) = mset (filter P xs)" for P xs b
    by (metis mset_filter mset_order_ready)
  show ?thesis
  proof (cases "map_of (build_epic_index (board_cards input)) (plan_epic_id input)")
    case None
    then show ?thesis by (simp add: p_def q_def plan_epic_def empty_plan_def)
  next
    case (Some r)
    then have p: "p = fold_cohort i (epic_cohort_of input r) (input\<lparr>landings := Some ls\<rparr>)"
      and q: "q = fold_cohort i (epic_cohort_of input r) (input\<lparr>landings := None\<rparr>)"
      using index_children [OF Some]
      by (simp_all add: p_def q_def plan_epic_def epic_cohort_of_def epic_children_def)
    show ?thesis
      unfolding p q fold_lanes fold_rest gates holds deps mset_order_ready
      by (simp add: filter_map comp_def conj_ac Int_commute)
  qed
qed

text \<open>
  \<open>exclude\<close> narrows the cohort and nothing else: the excluded cards leave the lanes, and every
  other card keeps its readiness, because the board the dependencies are read from is unchanged.
\<close>

theorem exclude_narrows_cohort_only:
  fixes i input xs
  defines "p \<equiv> plan_tagged i (input\<lparr>exclude := Some xs\<rparr>)" and "q \<equiv> plan_tagged i (input\<lparr>exclude := None\<rparr>)"
  shows "mset (dispatch p @ held_back p) = mset (filter (\<lambda>c. slug c \<notin> xs) (dispatch q @ held_back q))
    \<and> verify p = filter (\<lambda>c. slug c \<notin> xs) (verify q)
    \<and> waiting_on_deps p = filter (\<lambda>(c, _). slug c \<notin> xs) (waiting_on_deps q)
    \<and> awaiting_deploy p = filter (\<lambda>(c, _). slug c \<notin> xs) (awaiting_deploy q)
    \<and> already_run p = filter (\<lambda>c. slug c \<notin> xs) (already_run q)"
proof -
  have gates: "gates_of \<lparr>cohort_rollup = r, cohort_children = cs, empty_detail = d, bounce_lane = b\<rparr> (input\<lparr>exclude := x\<rparr>)
      = gates_of \<lparr>cohort_rollup = None, cohort_children = [], empty_detail = [], bounce_lane = b\<rparr> input"
    for r cs d b x by (simp add: gates_of_def)
  have holds: "holds_of (input\<lparr>exclude := x\<rparr>) = holds_of input" for x
    by (simp add: set_eq_iff holds_of_iff landings_of_def)
  have order: "mset (filter P (order_ready i ys b)) = mset (filter P ys)" for P ys b
    by (metis mset_filter mset_order_ready)
  show ?thesis
    unfolding p_def q_def plan_tagged_def Let_def fold_lanes gates holds mset_order_ready order
    by (simp add: filter_map comp_def conj_ac)
qed

text \<open>
  The verify lane. Every card of the epic in \<open>in-review\<close> gets one verdict seat, unless one is
  already alive on it or nothing can launch there; neither the ceiling nor landings delay it.
\<close>

theorem verify_lane_exact:
  "mset (verify (plan_epic i input)) =
     mset (filter (\<lambda>c. epic c = Some (plan_epic_id input) \<and> plan_epic_id input \<noteq> [] \<and> card_status c = In_Review
       \<and> slug c \<notin> set (in_verify input) \<and> slug c \<notin> set_or_empty (unspawnable_ids input)) (board_cards input))"
proof -
  have lane: "mset (map child_card (filter (\<lambda>c. needs_verdict (child_card c) \<and> slug (child_card c) \<notin> set (in_verify input)
        \<and> slug (child_card c) \<notin> set_or_empty (unspawnable_ids input))
          (epic_children (board_cards input) (plan_epic_id input))))
      = mset (filter (\<lambda>c. epic c = Some (plan_epic_id input) \<and> plan_epic_id input \<noteq> [] \<and> card_status c = In_Review
       \<and> slug c \<notin> set (in_verify input) \<and> slug c \<notin> set_or_empty (unspawnable_ids input)) (board_cards input))"
    unfolding mset_epic_lane by (simp add: epic_cohort_def needs_verdict_def)
  show ?thesis
  proof (cases rule: plan_epic_cases [where input = input and i = i])
    case none
    with lane show ?thesis by (auto simp: empty_plan_def)
  next
    case (some r)
    have cs: "cohort_children (epic_cohort_of input r) = epic_children (board_cards input) (plan_epic_id input)"
      by (simp add: epic_cohort_of_def)
    show ?thesis unfolding some(2) fold_lanes cs by (rule lane)
  qed
qed

end
