(* ===== verification/JsValue.thy ===== *)
theory JsValue
  imports JsDouble
begin

section \<open>Untyped values\<close>

text \<open>
  The values of a \<open>Record<string, unknown>\<close>: what card and run frontmatter, and arguments of
  unknown shape, are made of. A missing key is \<open>None\<close> in the record, and \<open>undefined\<close> as an
  argument is \<open>V_Null\<close>, which the code never tells apart. Numbers are integers: the fractional ones
  (money) are read by their own function.
\<close>

datatype js_value =
    V_Str string
  | V_Num int
  | V_Bool bool
  | V_Null
  | V_List "js_value list"
  | V_Object

type_synonym meta = "string \<rightharpoonup> js_value"

text \<open>\<open>String(v)\<close>; a nullish array element renders empty.\<close>

fun to_string :: "js_value \<Rightarrow> string" where
  "to_string (V_Str s) = s"
| "to_string (V_Num n) = int_str n"
| "to_string (V_Bool b) = (if b then ''true'' else ''false'')"
| "to_string V_Null = ''null''"
| "to_string (V_List vs) = join '','' (map (\<lambda>v. case v of V_Null \<Rightarrow> [] | _ \<Rightarrow> to_string v) vs)"
| "to_string V_Object = ''[object Object]''"

text \<open>\<open>Number.parseInt(s, 10)\<close>; \<open>None\<close> is \<open>NaN\<close>.\<close>

definition parse_int10 :: "string \<Rightarrow> int option" where
  "parse_int10 s =
     (case read_sign (dropWhile is_space s) of (sg, r) \<Rightarrow>
        let ds = takeWhile is_digit r in if ds = [] then None else Some (sg * int (digits_val ds)))"

text \<open>\<open>typeof m[k] === 'string' ? m[k] : ''\<close>.\<close>

definition meta_string :: "meta \<Rightarrow> string \<Rightarrow> string" where
  "meta_string m k = (case m k of Some (V_Str s) \<Rightarrow> s | _ \<Rightarrow> [])"

text \<open>A fallible answer: an error text or a value.\<close>

datatype ('e, 'a) result = Err 'e | Ok 'a

lemma takeWhile_nat_str [simp]: "takeWhile is_digit (nat_str n) = nat_str n"
  by (simp add: takeWhile_eq_all_conv nat_str_digits)

lemma parse_int10_int_str [simp]: "parse_int10 (int_str n) = Some n"
proof (cases "n < 0")
  case True
  then show ?thesis
    by (simp add: parse_int10_def int_str_def read_sign_def is_space_def Let_def)
next
  case False
  define ds where "ds = nat_str (nat n)"
  have ds: "list_all is_digit ds" "ds \<noteq> []" "digits_val ds = nat n" by (simp_all add: ds_def)
  then obtain c cs where c: "ds = c # cs" "is_digit c" by (cases ds) auto
  then have "dropWhile is_space ds = ds" "read_sign ds = (1, ds)"
    by (auto simp: digit_not_space read_sign_def is_digit_def)
  moreover have "takeWhile is_digit ds = ds" using ds(1) by (auto simp: list_all_iff)
  ultimately show ?thesis using False ds by (simp add: parse_int10_def int_str_def ds_def Let_def)
qed

end
