(* ===== verification/EpicLease.thy ===== *)
theory EpicLease
  imports JsDate JsValue
begin

section \<open>The lease: one writer per epic, one per seat\<close>

text \<open>
  \<open>src/shared/epic-lease.ts\<close>, \<open>epic-seat-lease.ts\<close>, \<open>sentinel/epic-card-meta.ts\<close> and
  \<open>sentinel/epic-seat-handlers.ts\<close>: the compare-and-swap on a generation, its storage in card
  frontmatter under a key prefix, and the three card-scoped handlers. A card file is represented by
  its parsed frontmatter (a partial map), the directory of cards by a map from card id; the
  read-evaluate-write of a handler is one step, as the synchronous file system makes it. A
  generation read from text is exact (the code's is a double: exact below \<open>2^53\<close>).
\<close>

subsection \<open>The lease and its codec\<close>

record epic_lease =
  conv_id :: string
  gen :: int
  lease_at :: string

record lease_request =
  req_conv_id :: string
  expect_gen :: int
  holder_alive :: bool
  force :: bool
  adopt :: bool

datatype lease_decision = Grant epic_lease "epic_lease option" | Refuse string epic_lease

definition LEASE_STALE_MS :: int where
  "LEASE_STALE_MS = 10 * 60 * 1000"

definition OVERSEER_KEY_PREFIX :: string where
  "OVERSEER_KEY_PREFIX = ''overseer''"

definition read_gen :: "meta \<Rightarrow> string \<Rightarrow> int option" where
  "read_gen m prefix =
     (case m (prefix @ ''_gen'') of
        Some (V_Num n) \<Rightarrow> Some n
      | None \<Rightarrow> parse_int10 []
      | Some V_Null \<Rightarrow> parse_int10 []
      | Some v \<Rightarrow> parse_int10 (to_string v))"

definition read_lease :: "meta \<Rightarrow> string \<Rightarrow> epic_lease option" where
  "read_lease m prefix =
     (let c = meta_string m prefix; g = read_gen m prefix
      in if c = [] \<and> g = None then None
         else Some \<lparr>conv_id = c, gen = (case g of None \<Rightarrow> 0 | Some n \<Rightarrow> n), lease_at = meta_string m (prefix @ ''_at'')\<rparr>)"

definition lease_patch :: "epic_lease \<Rightarrow> string \<Rightarrow> meta" where
  "lease_patch l prefix =
     [prefix \<mapsto> V_Str (conv_id l), prefix @ ''_gen'' \<mapsto> V_Num (gen l), prefix @ ''_at'' \<mapsto> V_Str (lease_at l)]"

definition release_patch :: "string \<Rightarrow> meta" where
  "release_patch prefix = [prefix \<mapsto> V_Str [], prefix @ ''_at'' \<mapsto> V_Str []]"

definition EMPTY_LEASE :: epic_lease where
  "EMPTY_LEASE = \<lparr>conv_id = [], gen = 0, lease_at = []\<rparr>"

definition is_stale :: "epic_lease \<Rightarrow> int \<Rightarrow> bool" where
  "is_stale l now \<longleftrightarrow>
     lease_at l = [] \<or> (case date_parse (lease_at l) of None \<Rightarrow> True | Some taken \<Rightarrow> now - taken > LEASE_STALE_MS)"

definition next_lease :: "lease_request \<Rightarrow> int \<Rightarrow> int \<Rightarrow> epic_lease" where
  "next_lease req now from_gen = \<lparr>conv_id = req_conv_id req, gen = from_gen + 1, lease_at = to_iso now\<rparr>"

definition evaluate_lease :: "epic_lease option \<Rightarrow> lease_request \<Rightarrow> int \<Rightarrow> lease_decision" where
  "evaluate_lease current req now =
     (case current of
        None \<Rightarrow>
          if adopt req then Refuse ''nothing to adopt: the lease was never taken'' EMPTY_LEASE
          else Grant \<lparr>conv_id = req_conv_id req, gen = 1, lease_at = to_iso now\<rparr> None
      | Some l \<Rightarrow>
          if force req then Grant (next_lease req now (gen l)) (Some l)
          else if adopt req then
            if gen l \<noteq> expect_gen req
            then Refuse (''stale adopt: expected gen '' @ int_str (expect_gen req) @ '', epic is at gen '' @ int_str (gen l)) l
            else Grant \<lparr>conv_id = req_conv_id req, gen = gen l, lease_at = lease_at l\<rparr> (Some l)
          else if gen l \<noteq> expect_gen req
            then Refuse (''stale wake: expected gen '' @ int_str (expect_gen req) @ '', epic is at gen '' @ int_str (gen l)) l
          else if conv_id l = [] then Grant (next_lease req now (gen l)) None
          else if holder_alive req \<and> \<not> is_stale l now
            then Refuse (''overseer '' @ take 8 (conv_id l) @ '' is alive at gen '' @ int_str (gen l)) l
          else Grant (next_lease req now (gen l)) (Some l))"

subsection \<open>Cards on disk and the compare-and-swap\<close>

type_synonym board = "string \<rightharpoonup> meta"

definition patch_card_meta :: "board \<Rightarrow> string \<Rightarrow> meta \<Rightarrow> board option" where
  "patch_card_meta b card_id patch =
     (case b card_id of None \<Rightarrow> None | Some m \<Rightarrow> Some (b(card_id \<mapsto> m ++ patch)))"

record lease_outcome =
  granted :: bool
  out_conv_id :: string
  out_gen :: int
  out_at :: string
  out_reason :: "string option"
  replaced :: "epic_lease option"

definition cas_lease_on_card ::
    "board \<Rightarrow> string \<Rightarrow> string \<Rightarrow> meta \<Rightarrow> lease_request \<Rightarrow> int \<Rightarrow> board \<times> lease_outcome" where
  "cas_lease_on_card b card_id prefix m req now =
     (case evaluate_lease (read_lease m prefix) req now of
        Refuse reason h \<Rightarrow>
          (b, \<lparr>granted = False, out_conv_id = conv_id h, out_gen = gen h, out_at = lease_at h,
               out_reason = Some reason, replaced = None\<rparr>)
      | Grant l r \<Rightarrow>
          (case patch_card_meta b card_id (lease_patch l prefix) of None \<Rightarrow> b | Some b' \<Rightarrow> b',
           \<lparr>granted = True, out_conv_id = conv_id l, out_gen = gen l, out_at = lease_at l,
            out_reason = None, replaced = r\<rparr>))"

subsection \<open>Seats\<close>

datatype epic_role = Werk_Master | Werk_Worker | Werk_Verifier

fun role_name :: "epic_role \<Rightarrow> string" where
  "role_name Werk_Master = ''werk-master''"
| "role_name Werk_Worker = ''werk-worker''"
| "role_name Werk_Verifier = ''werk-verifier''"

definition may_ask_human :: "epic_role \<Rightarrow> bool" where
  "may_ask_human r \<longleftrightarrow> r = Werk_Master"

definition seat_lease_key_prefix :: "epic_role \<Rightarrow> string" where
  "seat_lease_key_prefix r = ''seat_'' @ role_name r"

text \<open>\<open>^[a-z0-9][a-z0-9-]*$\<close> and no \<open>..\<close>.\<close>

definition slug_char :: "char \<Rightarrow> bool" where
  "slug_char c \<longleftrightarrow> is_digit c \<or> (97 \<le> (of_char c :: nat) \<and> (of_char c :: nat) \<le> 122)"

definition is_valid_epic_id :: "string \<Rightarrow> bool" where
  "is_valid_epic_id s \<longleftrightarrow>
     (case s of [] \<Rightarrow> False | c # cs \<Rightarrow> slug_char c \<and> list_all (\<lambda>c. slug_char c \<or> c = CHR ''-'') cs)"

record epic_seat_input =
  seat_card_id :: string
  seat_role :: "epic_role option"
  seat_conv_id :: "string option"
  seat_expect_gen :: "int option"
  seat_holder_alive :: "bool option"

record seat_context =
  ctx_meta :: meta
  ctx_prefix :: string

definition seat_context_of :: "board \<Rightarrow> epic_seat_input option \<Rightarrow> bool \<Rightarrow> (string, seat_context) result" where
  "seat_context_of b seat needs_conv =
     (case seat of
        None \<Rightarrow> Err ''seat.cardId required''
      | Some s \<Rightarrow>
          if seat_card_id s = [] then Err ''seat.cardId required''
          else case seat_role s of
            None \<Rightarrow> Err ''seat.role required''
          | Some r \<Rightarrow>
              if needs_conv \<and> \<not> truthy (seat_conv_id s) then Err ''seat.convId required''
              else if \<not> is_valid_epic_id (seat_card_id s) then Err (''invalid card id: '' @ seat_card_id s)
              else case b (seat_card_id s) of
                None \<Rightarrow> Err (''card not found: '' @ seat_card_id s)
              | Some m \<Rightarrow> Ok \<lparr>ctx_meta = m, ctx_prefix = seat_lease_key_prefix r\<rparr>)"

definition seat_get :: "board \<Rightarrow> epic_seat_input option \<Rightarrow> (string, epic_lease option) result" where
  "seat_get b seat =
     (case seat_context_of b seat False of
        Err e \<Rightarrow> Err e
      | Ok ctx \<Rightarrow> Ok (read_lease (ctx_meta ctx) (ctx_prefix ctx)))"

definition seat_claim ::
    "board \<Rightarrow> epic_seat_input option \<Rightarrow> int \<Rightarrow> board \<times> (string, lease_outcome) result" where
  "seat_claim b seat now =
     (case seat_context_of b seat True of
        Err e \<Rightarrow> (b, Err e)
      | Ok ctx \<Rightarrow>
          let s = the seat;
              req = \<lparr>req_conv_id = the (seat_conv_id s),
                     expect_gen = (case seat_expect_gen s of None \<Rightarrow> 0 | Some n \<Rightarrow> n),
                     holder_alive = (case seat_holder_alive s of None \<Rightarrow> False | Some a \<Rightarrow> a),
                     force = False, adopt = False\<rparr>
          in case cas_lease_on_card b (seat_card_id s) (ctx_prefix ctx) (ctx_meta ctx) req now of
               (b', o') \<Rightarrow> (b', Ok o'))"

definition seat_release ::
    "board \<Rightarrow> epic_seat_input option \<Rightarrow> board \<times> (string, epic_lease option) result" where
  "seat_release b seat =
     (case seat_context_of b seat True of
        Err e \<Rightarrow> (b, Err e)
      | Ok ctx \<Rightarrow>
          let s = the seat; held = read_lease (ctx_meta ctx) (ctx_prefix ctx)
          in if held = None \<or> conv_id (the held) = [] then (b, Ok held)
             else if conv_id (the held) \<noteq> the (seat_conv_id s)
             then (b, Err (''seat held by '' @ conv_id (the held) @ '', not '' @ the (seat_conv_id s)
                           @ '' -- only the holder may release it''))
             else let b' = (case patch_card_meta b (seat_card_id s) (release_patch (ctx_prefix ctx)) of
                              None \<Rightarrow> b | Some b' \<Rightarrow> b')
                  in (b', Ok (read_lease (case b' (seat_card_id s) of None \<Rightarrow> Map.empty | Some m \<Rightarrow> m) (ctx_prefix ctx))))"

subsection \<open>What the baton is told\<close>

record seat_lease_key =
  key_epic_id :: string
  key_card_id :: string
  key_role :: epic_role

definition seat_slug :: "seat_lease_key \<Rightarrow> string" where
  "seat_slug k = key_epic_id k @ ''/'' @ key_card_id k @ ''/'' @ role_name (key_role k)"

datatype seat_claim_outcome = Granted | Broke | Refused

record seat_claim_audit =
  audit_key :: seat_lease_key
  audit_conv_id :: string
  outcome :: seat_claim_outcome
  audit_holder :: "epic_lease option"
  audit_reason :: "string option"

definition seat_claim_baton :: "seat_claim_audit \<Rightarrow> string" where
  "seat_claim_baton a =
     (let who = ''`'' @ audit_conv_id a @ ''`'';
          seat = role_name (key_role (audit_key a)) @ '' seat on `'' @ key_card_id (audit_key a) @ ''`'';
          holder = (\<lambda>unnamed. if truthy (map_option conv_id (audit_holder a))
            then ''`'' @ conv_id (the (audit_holder a)) @ ''`'' else unnamed);
          since = (\<lambda>before after. if truthy (map_option lease_at (audit_holder a))
            then before @ lease_at (the (audit_holder a)) @ after else [])
      in case outcome a of
           Refused \<Rightarrow>
             ''SEAT LEASE REFUSED: '' @ who @ '' asked for the '' @ seat @ '' and lost to ''
             @ holder ''a holder it could not name'' @ since '', held since '' [] @ ''. ''
             @ (case audit_reason a of None \<Rightarrow> ''no reason given'' | Some r \<Rightarrow> r)
             @ ''. The loser is exiting; the holder keeps the card. ''
             @ ''TWO SEATS EXISTED FOR ONE CARD -- the guard above this belt has a hole.''
         | Broke \<Rightarrow>
             ''SEAT LEASE TAKEN OVER: '' @ who @ '' claimed the '' @ seat @ '', displacing ''
             @ holder ''an unnamed holder'' @ since '' (taken '' '')''
             @ ''. The previous holder was dead or wedged past the stale window.''
         | Granted \<Rightarrow> ''SEAT LEASE TAKEN: '' @ who @ '' holds the '' @ seat @ ''.'')"

subsection \<open>The codec\<close>

lemma prefix_keys [simp]: "p @ ''_gen'' \<noteq> p" "p @ ''_at'' \<noteq> p" "p \<noteq> p @ ''_gen''" "p \<noteq> p @ ''_at''"
  "p @ ''_gen'' \<noteq> p @ ''_at''" "p @ ''_at'' \<noteq> p @ ''_gen''"
  by auto

lemma read_lease_patch: "read_lease (m ++ lease_patch l p) p = Some l"
  by (simp add: read_lease_def lease_patch_def meta_string_def read_gen_def Let_def)

lemma read_gen_release [simp]: "read_gen (m ++ release_patch p) p = read_gen m p"
  by (simp add: read_gen_def release_patch_def)

lemma read_lease_release:
  "read_gen m p = Some g \<Longrightarrow> read_lease (m ++ release_patch p) p = Some \<lparr>conv_id = [], gen = g, lease_at = []\<rparr>"
  by (simp add: read_lease_def Let_def meta_string_def) (simp add: release_patch_def)

text \<open>The keys of two seats never meet, so a patch under one prefix is invisible to the other.\<close>

definition keys_of :: "string \<Rightarrow> string set" where
  "keys_of p = {p, p @ ''_gen'', p @ ''_at''}"

lemma seat_keys_disjoint: "r \<noteq> r' \<Longrightarrow> keys_of (seat_lease_key_prefix r) \<inter> keys_of (seat_lease_key_prefix r') = {}"
  by (cases r; cases r'; simp add: keys_of_def seat_lease_key_prefix_def)

lemma dom_patches: "dom (lease_patch l p) = keys_of p" "dom (release_patch p) \<subseteq> keys_of p"
  by (auto simp: lease_patch_def release_patch_def keys_of_def)

lemma read_lease_cong:
  assumes "\<And>k. k \<in> keys_of p \<Longrightarrow> m k = m' k"
  shows "read_lease m p = read_lease m' p"
proof -
  have "m p = m' p" "m (p @ ''_gen'') = m' (p @ ''_gen'')" "m (p @ ''_at'') = m' (p @ ''_at'')"
    using assms by (simp_all add: keys_of_def)
  then show ?thesis by (simp only: read_lease_def meta_string_def read_gen_def)
qed

lemma read_lease_other: "dom f \<subseteq> keys_of q \<Longrightarrow> keys_of p \<inter> keys_of q = {} \<Longrightarrow> read_lease (m ++ f) p = read_lease m p"
  by (rule read_lease_cong) (auto simp: map_add_def split: option.split)

text \<open>
  A grip written under a role's keys reads back exactly, the generation survives the release
  that empties the grip, and neither write is visible to a reader of another role's seat.
\<close>

theorem seat_keys_codec:
  assumes "r \<noteq> r'"
  defines "p \<equiv> seat_lease_key_prefix r" and "q \<equiv> seat_lease_key_prefix r'"
  shows "read_lease (m ++ lease_patch l p) p = Some l
    \<and> read_lease (m ++ lease_patch l p ++ release_patch p) p = Some \<lparr>conv_id = [], gen = gen l, lease_at = []\<rparr>
    \<and> read_lease (m ++ lease_patch l p) q = read_lease m q
    \<and> read_lease (m ++ release_patch p) q = read_lease m q"
proof -
  have "keys_of q \<inter> keys_of p = {}" using seat_keys_disjoint [of r' r] assms by auto
  note other = read_lease_other [OF _ this]
  have "read_gen (m ++ lease_patch l p) p = Some (gen l)" by (simp add: read_gen_def lease_patch_def)
  from read_lease_release [OF this] show ?thesis
    by (simp add: read_lease_patch other dom_patches)
qed

theorem seat_keys_codec_witness:
  "read_lease (Map.empty ++ lease_patch \<lparr>conv_id = ''c1'', gen = 4, lease_at = ''t''\<rparr> ''seat_werk-worker'') ''seat_werk-verifier''
     = read_lease Map.empty ''seat_werk-verifier''"
  using seat_keys_codec [of Werk_Worker Werk_Verifier Map.empty "\<lparr>conv_id = ''c1'', gen = 4, lease_at = ''t''\<rparr>"]
  by (simp add: seat_lease_key_prefix_def)

lemma at_most_one_singleton: "distinct xs \<Longrightarrow> set xs \<subseteq> {x} \<Longrightarrow> length xs \<le> 1"
  by (cases xs; cases "tl xs") auto

subsection \<open>One grant per generation\<close>

text \<open>A sequence of wakes against one lease, and the grants it produced, in order.\<close>

fun wake_grants :: "epic_lease option \<Rightarrow> (lease_request \<times> int) list \<Rightarrow> (lease_request \<times> epic_lease) list" where
  "wake_grants cur [] = []"
| "wake_grants cur ((req, now) # rs) =
     (case evaluate_lease cur req now of
        Grant l _ \<Rightarrow> (req, l) # wake_grants (Some l) rs
      | Refuse _ _ \<Rightarrow> wake_grants cur rs)"

text \<open>A wake that takes a generation of its own: forced, or not an adoption.\<close>

definition takes_generation :: "lease_request \<Rightarrow> bool" where
  "takes_generation req \<longleftrightarrow> force req \<or> \<not> adopt req"

lemma wake_grant_gen:
  assumes "evaluate_lease (Some cur) req now = Grant l r"
  shows "gen l = (if takes_generation req then gen cur + 1 else gen cur)" "\<not> force req \<Longrightarrow> expect_gen req = gen cur"
  using assms by (auto simp: evaluate_lease_def next_lease_def takes_generation_def split: if_splits)

lemma wake_grants_above:
  "(req, l) \<in> set (wake_grants (Some cur) rs)
    \<Longrightarrow> gen cur \<le> gen l \<and> (takes_generation req \<longrightarrow> gen cur < gen l) \<and> (\<not> force req \<and> \<not> adopt req \<longrightarrow> gen l = expect_gen req + 1)"
proof (induction rs arbitrary: cur)
  case (Cons w rs)
  obtain q now where w: "w = (q, now)" by fastforce
  show ?case
  proof (cases "evaluate_lease (Some cur) q now")
    case (Grant l' r)
    note g = wake_grant_gen [OF Grant]
    from Cons.prems w Grant consider "req = q" "l = l'" | "(req, l) \<in> set (wake_grants (Some l') rs)"
      by auto
    then show ?thesis
    proof cases
      case 1
      with g show ?thesis by (auto simp: takes_generation_def)
    next
      case 2
      from Cons.IH [OF this] g(1) show ?thesis by (auto split: if_splits)
    qed
  qed (use Cons w in auto)
qed simp

lemma wake_grants_sorted:
  "sorted_wrt (<) (map (gen \<circ> snd) (filter (\<lambda>(req, _). takes_generation req) (wake_grants (Some cur) rs)))"
proof (induction rs arbitrary: cur)
  case (Cons w rs)
  obtain q now where w: "w = (q, now)" by fastforce
  show ?case
  proof (cases "evaluate_lease (Some cur) q now")
    case (Grant l r)
    have "gen l < gen l'" if "(req, l') \<in> set (wake_grants (Some l) rs)" "takes_generation req" for req l'
      using wake_grants_above [OF that(1)] that(2) by simp
    with Grant Cons.IH [of l] w show ?thesis by auto
  qed (use Cons.IH w in auto)
qed simp

text \<open>
  C10: there can only be one. Over any sequence of wakes on a lease that exists, forced, adopting or
  plain, by any conversations and with any beliefs about liveness, the generations granted to all but the
  adoptions strictly increase, and of the plain wakes that quote a given generation at most one is
  granted.
\<close>

theorem one_grant_per_generation:
  "sorted_wrt (<) (map (gen \<circ> snd) (filter (\<lambda>(req, _). takes_generation req) (wake_grants (Some cur) rs)))
    \<and> length (filter (\<lambda>(req, _). \<not> force req \<and> \<not> adopt req \<and> expect_gen req = n) (wake_grants (Some cur) rs)) \<le> 1"
proof
  let ?gs = "wake_grants (Some cur) rs" and ?plain = "\<lambda>(req, _ :: epic_lease). \<not> force req \<and> \<not> adopt req \<and> expect_gen req = n"
  show sorted: "sorted_wrt (<) (map (gen \<circ> snd) (filter (\<lambda>(req, _). takes_generation req) ?gs))" by (rule wake_grants_sorted)
  have e: "filter ?plain ?gs = filter ?plain (filter (\<lambda>(req, _). takes_generation req) ?gs)"
    unfolding filter_filter by (rule filter_cong) (auto simp: takes_generation_def)
  have d: "distinct (map (gen \<circ> snd) (filter (\<lambda>(req, _). takes_generation req) ?gs))"
    using sorted by (simp add: strict_sorted_iff)
  have "distinct (map (gen \<circ> snd) (filter ?plain ?gs))"
    using distinct_map_filter [OF d, of ?plain] unfolding e [symmetric] .
  moreover have "set (map (gen \<circ> snd) (filter ?plain ?gs)) \<subseteq> {n + 1}"
    using wake_grants_above by fastforce
  ultimately have "length (map (gen \<circ> snd) (filter ?plain ?gs)) \<le> 1" by (rule at_most_one_singleton)
  then show "length (filter ?plain ?gs) \<le> 1" by simp
qed

text \<open>
  Which wakes are granted. An unforced, non-adopting wake wins exactly when it quotes the
  current generation and the lease is free, its holder is reported dead, or the grip is older than
  the stale window (or its stamp unreadable), and it then takes the next generation.
\<close>

theorem wake_granted_iff:
  assumes "\<not> adopt req" "\<not> force req"
  shows "(\<exists>l r. evaluate_lease (Some cur) req now = Grant l r)
    \<longleftrightarrow> expect_gen req = gen cur
      \<and> (conv_id cur = [] \<or> \<not> holder_alive req \<or> date_parse (lease_at cur) = None
         \<or> now > the (date_parse (lease_at cur)) + 600000)"
  using assms date_parse_Nil
  by (auto simp: evaluate_lease_def is_stale_def LEASE_STALE_MS_def split: if_splits option.splits)

theorem wake_granted_iff_witness:
  "\<exists>l r. evaluate_lease (Some \<lparr>conv_id = ''c1'', gen = 3, lease_at = []\<rparr>)
     \<lparr>req_conv_id = ''c2'', expect_gen = 3, holder_alive = True, force = False, adopt = False\<rparr> 0 = Grant l r"
  using wake_granted_iff [of "\<lparr>req_conv_id = ''c2'', expect_gen = 3, holder_alive = True, force = False, adopt = False\<rparr>"
      "\<lparr>conv_id = ''c1'', gen = 3, lease_at = []\<rparr>" 0] date_parse_Nil
  by simp

subsection \<open>The seat protocol\<close>

definition same_seat :: "epic_seat_input \<Rightarrow> epic_seat_input \<Rightarrow> bool" where
  "same_seat s s' \<longleftrightarrow> seat_card_id s = seat_card_id s' \<and> seat_role s = seat_role s'"

text \<open>The grip a seat sees on the board.\<close>

definition seat_grip :: "board \<Rightarrow> epic_seat_input \<Rightarrow> epic_lease option" where
  "seat_grip b s = (case (b (seat_card_id s), seat_role s) of
     (Some m, Some r) \<Rightarrow> read_lease m (seat_lease_key_prefix r) | _ \<Rightarrow> None)"

lemma seat_context_Ok:
  "seat_context_of b (Some s) needs = Ok ctx \<longleftrightarrow>
     seat_card_id s \<noteq> [] \<and> (needs \<longrightarrow> truthy (seat_conv_id s)) \<and> is_valid_epic_id (seat_card_id s)
     \<and> (\<exists>r m. seat_role s = Some r \<and> b (seat_card_id s) = Some m
         \<and> ctx = \<lparr>ctx_meta = m, ctx_prefix = seat_lease_key_prefix r\<rparr>)"
  by (auto simp: seat_context_of_def split: option.splits)

definition claim_request :: "epic_seat_input \<Rightarrow> lease_request" where
  "claim_request s =
     \<lparr>req_conv_id = the (seat_conv_id s), expect_gen = (case seat_expect_gen s of None \<Rightarrow> 0 | Some n \<Rightarrow> n),
      holder_alive = (case seat_holder_alive s of None \<Rightarrow> False | Some a \<Rightarrow> a), force = False, adopt = False\<rparr>"

lemma seat_claim_granted:
  assumes "seat_claim b (Some s) now = (b', Ok out)" "granted out"
  obtains m r l where "seat_role s = Some r" "b (seat_card_id s) = Some m" "truthy (seat_conv_id s)"
    "is_valid_epic_id (seat_card_id s)" "seat_card_id s \<noteq> []"
    "\<exists>rep. evaluate_lease (read_lease m (seat_lease_key_prefix r)) (claim_request s) now = Grant l rep"
    "b' = b(seat_card_id s \<mapsto> m ++ lease_patch l (seat_lease_key_prefix r))"
    "conv_id l = the (seat_conv_id s)" "lease_at l = to_iso now" "out_gen out = gen l"
proof -
  from assms(1) obtain ctx where ctx: "seat_context_of b (Some s) True = Ok ctx"
    by (auto simp: seat_claim_def split: result.splits)
  then obtain r m where rm: "seat_role s = Some r" "b (seat_card_id s) = Some m"
    "ctx = \<lparr>ctx_meta = m, ctx_prefix = seat_lease_key_prefix r\<rparr>" by (auto simp: seat_context_Ok)
  have run: "cas_lease_on_card b (seat_card_id s) (seat_lease_key_prefix r) m (claim_request s) now = (b', out)"
    using assms(1) ctx rm by (simp add: seat_claim_def claim_request_def Let_def split: prod.splits)
  with assms(2) obtain l rep where l: "evaluate_lease (read_lease m (seat_lease_key_prefix r)) (claim_request s) now = Grant l rep"
    by (auto simp: cas_lease_on_card_def split: lease_decision.splits)
  moreover from l have "conv_id l = the (seat_conv_id s)" "lease_at l = to_iso now"
    by (auto simp: evaluate_lease_def next_lease_def claim_request_def split: option.splits if_splits)
  ultimately show ?thesis using that [of r m l] ctx rm run
    by (auto simp: seat_context_Ok cas_lease_on_card_def patch_card_meta_def)
qed

lemma seat_claim_live_refused:
  assumes "seat_grip b s = Some l" "conv_id l \<noteq> []" "\<not> is_stale l now" "seat_holder_alive s = Some True"
    and "truthy (seat_conv_id s)" "is_valid_epic_id (seat_card_id s)"
  shows "\<exists>out. seat_claim b (Some s) now = (b, Ok out) \<and> \<not> granted out \<and> out_conv_id out = conv_id l"
proof -
  from assms(1) obtain m r where mr: "b (seat_card_id s) = Some m" "seat_role s = Some r"
    "read_lease m (seat_lease_key_prefix r) = Some l" by (auto simp: seat_grip_def split: option.splits)
  have "seat_card_id s \<noteq> []" using assms(6) by (auto simp: is_valid_epic_id_def)
  then have ctx: "seat_context_of b (Some s) True = Ok \<lparr>ctx_meta = m, ctx_prefix = seat_lease_key_prefix r\<rparr>"
    using mr assms by (simp add: seat_context_Ok)
  have "\<exists>why. evaluate_lease (Some l) (claim_request s) now = Refuse why l"
    using assms by (simp add: evaluate_lease_def claim_request_def)
  with ctx mr show ?thesis
    by (auto simp: seat_claim_def cas_lease_on_card_def claim_request_def Let_def)
qed

lemma seat_grip_after_claim:
  assumes "seat_claim b (Some s) now = (b', Ok out)" "granted out" "same_seat s s'"
  shows "\<exists>l. seat_grip b' s' = Some l \<and> conv_id l = the (seat_conv_id s) \<and> lease_at l = to_iso now
    \<and> gen l = out_gen out \<and> truthy (seat_conv_id s) \<and> is_valid_epic_id (seat_card_id s)"
proof -
  from assms(1,2) obtain m r l where c: "seat_role s = Some r" "truthy (seat_conv_id s)"
    "is_valid_epic_id (seat_card_id s)"
    "b' = b(seat_card_id s \<mapsto> m ++ lease_patch l (seat_lease_key_prefix r))"
    "conv_id l = the (seat_conv_id s)" "lease_at l = to_iso now" "out_gen out = gen l"
    by (rule seat_claim_granted)
  from assms(3) c(1) have "seat_role s' = Some r" "seat_card_id s' = seat_card_id s"
    by (simp_all add: same_seat_def)
  with c(4) have "seat_grip b' s' = Some l" by (simp add: seat_grip_def read_lease_patch)
  with c(2,3,5,6,7) show ?thesis by simp
qed

text \<open>
  C22: a seat is a mutex. Once a claim is granted, then within ten minutes of the grip any claim of
  the same seat that reports the holder alive is refused, names the holder and writes nothing,
  whatever generation it quotes; and a release by anybody but the holder fails and writes nothing.
\<close>

theorem seat_is_exclusive:
  assumes "seat_claim b (Some s) t = (b', Ok out)" "granted out"
    and "same_seat s s'" "truthy (seat_conv_id s')" "\<bar>t\<bar> \<le> 8640000000000000"
  shows "(seat_holder_alive s' = Some True \<and> t' \<le> t + 600000 \<longrightarrow>
      (\<exists>o'. seat_claim b' (Some s') t' = (b', Ok o') \<and> \<not> granted o' \<and> out_conv_id o' = the (seat_conv_id s)))
    \<and> (seat_conv_id s' \<noteq> seat_conv_id s \<longrightarrow> (\<exists>e. seat_release b' (Some s') = (b', Err e)))"
proof -
  obtain l where l: "seat_grip b' s' = Some l" "conv_id l = the (seat_conv_id s)" "lease_at l = to_iso t"
    "truthy (seat_conv_id s)" "is_valid_epic_id (seat_card_id s')"
    using seat_grip_after_claim [OF assms(1,2,3)] assms(3) by (auto simp: same_seat_def)
  have held: "conv_id l \<noteq> []" using l(2,4) by (auto elim: truthyE)
  have fresh: "\<not> is_stale l t'" if "t' \<le> t + 600000"
    using that l(3) date_parse_to_iso [OF assms(5)] date_parse_Nil by (auto simp: is_stale_def LEASE_STALE_MS_def)
  have claim: "seat_holder_alive s' = Some True \<and> t' \<le> t + 600000 \<longrightarrow>
      (\<exists>o'. seat_claim b' (Some s') t' = (b', Ok o') \<and> \<not> granted o' \<and> out_conv_id o' = the (seat_conv_id s))"
    using seat_claim_live_refused [OF l(1) held fresh] assms(4) l by auto
  have "\<exists>e. seat_release b' (Some s') = (b', Err e)" if other: "seat_conv_id s' \<noteq> seat_conv_id s"
  proof -
    from l(1) obtain m r where mr: "b' (seat_card_id s') = Some m" "seat_role s' = Some r"
      "read_lease m (seat_lease_key_prefix r) = Some l" by (auto simp: seat_grip_def split: option.splits)
    have "seat_card_id s' \<noteq> []" using l(5) by (auto simp: is_valid_epic_id_def)
    then have ctx: "seat_context_of b' (Some s') True = Ok \<lparr>ctx_meta = m, ctx_prefix = seat_lease_key_prefix r\<rparr>"
      using mr assms l by (simp add: seat_context_Ok)
    have "conv_id l \<noteq> the (seat_conv_id s')" using other l(2,4) assms(4) by (auto elim!: truthyE)
    with ctx mr held show ?thesis by (simp add: seat_release_def Let_def)
  qed
  with claim show ?thesis by blast
qed

text \<open>A worker and a rival on one card.\<close>

definition sample_seat :: "string \<Rightarrow> epic_seat_input" where
  "sample_seat c = \<lparr>seat_card_id = ''card'', seat_role = Some Werk_Worker, seat_conv_id = Some c,
     seat_expect_gen = Some 0, seat_holder_alive = Some True\<rparr>"

definition sample_cards :: board where
  "sample_cards = [''card'' \<mapsto> Map.empty]"

theorem seat_is_exclusive_witness:
  "\<exists>b'. fst (seat_claim sample_cards (Some (sample_seat ''c1'')) 0) = b'
    \<and> (\<exists>o'. seat_claim b' (Some (sample_seat ''c2'')) 60000 = (b', Ok o') \<and> \<not> granted o')
    \<and> (\<exists>e. seat_release b' (Some (sample_seat ''c2'')) = (b', Err e))"
proof -
  obtain b' out where claim: "seat_claim sample_cards (Some (sample_seat ''c1'')) 0 = (b', Ok out)" "granted out"
    by (simp add: seat_claim_def seat_context_of_def sample_seat_def sample_cards_def is_valid_epic_id_def slug_char_def
        is_digit_def cas_lease_on_card_def read_lease_def meta_string_def read_gen_def parse_int10_def read_sign_def
        evaluate_lease_def patch_card_meta_def Let_def)
  from seat_is_exclusive [OF this, of "sample_seat ''c2''" 60000] claim(1) show ?thesis
    by (auto simp: same_seat_def sample_seat_def)
qed

end
