(* ===== verification/EpicWhen.thy ===== *)
theory EpicWhen
  imports JsDate JsIntl JsValue
begin

section \<open>The \<open>when\<close> axis\<close>

text \<open>
  \<open>src/shared/epic-when.ts\<close> with \<open>formatRelative\<close> of \<open>format-when.ts\<close> and \<open>format-duration.ts\<close>:
  the tokenizer of gate spellings, the canonical gate list, the appointment it carries, and the
  waiting line. The token expression is modelled by a deterministic matcher: each of its optional
  groups is followed only by optional groups, so the greedy choice never has to be undone.
\<close>

subsection \<open>Matching a prefix\<close>

type_synonym matcher = "string \<Rightarrow> nat option"

definition one_of :: "(char \<Rightarrow> bool) \<Rightarrow> matcher" where
  "one_of P s = (case s of [] \<Rightarrow> None | c # _ \<Rightarrow> if P c then Some 1 else None)"

definition digits_n :: "nat \<Rightarrow> matcher" where
  "digits_n n s = (if n \<le> length s \<and> list_all is_digit (take n s) then Some n else None)"

definition many1 :: "(char \<Rightarrow> bool) \<Rightarrow> matcher" where
  "many1 P s = (let k = length (takeWhile P s) in if k = 0 then None else Some k)"

definition followed_by :: "matcher \<Rightarrow> matcher \<Rightarrow> matcher" where
  "followed_by p q s =
     (case p s of None \<Rightarrow> None | Some n \<Rightarrow> (case q (drop n s) of None \<Rightarrow> None | Some k \<Rightarrow> Some (n + k)))"

definition optional :: "matcher \<Rightarrow> matcher" where
  "optional p s = (case p s of None \<Rightarrow> Some 0 | Some n \<Rightarrow> Some n)"

fun in_order :: "matcher list \<Rightarrow> matcher" where
  "in_order [] s = Some 0"
| "in_order (p # ps) s = followed_by p (in_order ps) s"

definition either :: "matcher \<Rightarrow> matcher \<Rightarrow> matcher" where
  "either p q s = (case p s of None \<Rightarrow> q s | Some n \<Rightarrow> Some n)"

definition is_char :: "char \<Rightarrow> char \<Rightarrow> bool" where
  "is_char c x \<longleftrightarrow> x = c"

definition lower :: "char \<Rightarrow> char" where
  "lower c = (let n = of_char c :: nat in if 65 \<le> n \<and> n \<le> 90 then char_of (n + 32) else c)"

definition is_letter :: "char \<Rightarrow> bool" where
  "is_letter c \<longleftrightarrow> 97 \<le> (of_char (lower c) :: nat) \<and> (of_char (lower c) :: nat) \<le> 122"

definition is_sign :: "char \<Rightarrow> bool" where
  "is_sign c \<longleftrightarrow> c = CHR ''+'' \<or> c = CHR ''-''"

subsection \<open>Tokens\<close>

definition AT :: string where
  "AT = ''at:''"

text \<open>\<open>/^at:/i\<close>\<close>

definition at_prefix :: matcher where
  "at_prefix = in_order [one_of (\<lambda>c. lower c = CHR ''a''), one_of (\<lambda>c. lower c = CHR ''t''), one_of (is_char (CHR '':''))]"

definition zone_shape :: matcher where
  "zone_shape = either (one_of (\<lambda>c. lower c = CHR ''z''))
     (in_order [one_of is_sign, digits_n 2, optional (one_of (is_char (CHR '':''))), digits_n 2])"

definition date_shape :: matcher where
  "date_shape = in_order [digits_n 4, one_of (is_char (CHR ''-'')), digits_n 2, one_of (is_char (CHR ''-'')), digits_n 2]"

definition time_shape :: matcher where
  "time_shape =
     in_order [one_of (\<lambda>c. lower c = CHR ''t'' \<or> c = CHR '' ''), digits_n 2, one_of (is_char (CHR '':'')), digits_n 2,
       optional (in_order [one_of (is_char (CHR '':'')), digits_n 2,
         optional (in_order [one_of (is_char (CHR ''.'')), many1 is_digit])])]"

definition instant_shape :: matcher where
  "instant_shape = in_order [date_shape, optional time_shape, optional zone_shape]"

definition token_at :: matcher where
  "token_at = either (in_order [at_prefix, instant_shape]) (either instant_shape (many1 is_letter))"

text \<open>\<open>src.matchAll(TOKEN_RE)\<close>; a token is never empty.\<close>

function tokens :: "string \<Rightarrow> string list" where
  "tokens [] = []"
| "tokens (c # s) =
     (case token_at (c # s) of
        Some n \<Rightarrow> take n (c # s) # tokens (drop (n - 1) s)
      | None \<Rightarrow> tokens s)"
  by pat_completeness auto
termination by (relation "measure length") auto

declare tokens.simps [simp del]

subsection \<open>Instants\<close>

text \<open>\<open>/(z|[+-]\d{2}:?\d{2})$/i\<close>: the length of the zone at the end of a text.\<close>

definition zone_suffix :: "string \<Rightarrow> nat option" where
  "zone_suffix s =
     (if 6 \<le> length s \<and> zone_shape (drop (length s - 6) s) = Some 6 then Some 6
      else if 5 \<le> length s \<and> zone_shape (drop (length s - 5) s) = Some 5 then Some 5
      else if s \<noteq> [] \<and> lower (last s) = CHR ''z'' then Some 1 else None)"

definition remove_first :: "char \<Rightarrow> string \<Rightarrow> string" where
  "remove_first = remove1"

definition normalize_offset :: "string \<Rightarrow> string" where
  "normalize_offset z =
     (let ds = remove_first (CHR '':'') (drop 1 z) in take 1 z @ take 2 ds @ '':'' @ drop 2 ds)"

definition offset_minutes :: "string \<Rightarrow> int" where
  "offset_minutes z =
     (let ds = remove_first (CHR '':'') (drop 1 z)
      in (if take 1 z = ''-'' then -1 else 1) * (int (digits_val (take 2 ds)) * 60 + int (digits_val (drop 2 ds))))"

fun replace_first :: "string \<Rightarrow> string \<Rightarrow> string \<Rightarrow> string" where
  "replace_first sub rep [] = (if sub = [] then rep else [])"
| "replace_first sub rep (c # s) =
     (if take (length sub) (c # s) = sub then rep @ drop (length sub) (c # s) else c # replace_first sub rep s)"

definition trim_millis :: "string \<Rightarrow> string" where
  "trim_millis s = replace_first ''.000'' [] s"

text \<open>\<open>/T\d{2}:/i.test(s)\<close>\<close>

fun has_time :: "string \<Rightarrow> bool" where
  "has_time [] = False"
| "has_time (c # s) \<longleftrightarrow>
     in_order [one_of (\<lambda>c. lower c = CHR ''t''), digits_n 2, one_of (is_char (CHR '':''))] (c # s) \<noteq> None \<or> has_time s"

definition read_instant :: "string \<Rightarrow> (string \<times> int) option" where
  "read_instant token =
     (let t = trim token;
          raw = (case at_prefix t of None \<Rightarrow> t | Some n \<Rightarrow> drop n t);
          k = (case zone_suffix raw of None \<Rightarrow> 0 | Some k \<Rightarrow> k);
          offset = drop (length raw - k) raw;
          body = replace_first '' '' ''T'' (take (length raw - k) raw);
          with_time = (if has_time body then body else body @ ''T00:00:00'');
          zone = (if k \<le> 1 then ''Z'' else normalize_offset offset)
      in case date_parse (with_time @ zone) of
           None \<Rightarrow> None
         | Some ms \<Rightarrow>
             Some (AT @ trim_millis (if zone = ''Z'' then to_iso ms
                     else butlast (to_iso (ms + offset_minutes zone * 60000)) @ zone), ms))"

definition is_when_instant :: "string \<Rightarrow> bool" where
  "is_when_instant gate \<longleftrightarrow> at_prefix gate \<noteq> None"

subsection \<open>The gate list\<close>

definition WHEN_GATES :: "string list" where
  "WHEN_GATES = [''now'', ''window'', ''queue'']"

definition NO_GATE :: string where
  "NO_GATE = ''now''"

text \<open>\<open>Array.isArray(v) ? v.map(String).join(',') : String(v ?? '')\<close>\<close>

definition when_source :: "js_value \<Rightarrow> string" where
  "when_source v = (case v of V_List vs \<Rightarrow> join '','' (map to_string vs) | V_Null \<Rightarrow> [] | _ \<Rightarrow> to_string v)"

definition token_word :: "string \<Rightarrow> string" where
  "token_word t = map lower (trim t)"

definition later :: "(string \<times> int) option \<Rightarrow> string \<Rightarrow> (string \<times> int) option" where
  "later latest t =
     (case read_instant t of
        None \<Rightarrow> latest
      | Some (g, ms) \<Rightarrow>
          (case latest of None \<Rightarrow> Some (g, ms) | Some (g', ms') \<Rightarrow> if ms > ms' then Some (g, ms) else latest))"

definition when_step :: "string set \<times> (string \<times> int) option \<Rightarrow> string \<Rightarrow> string set \<times> (string \<times> int) option" where
  "when_step st t =
     (let w = token_word t
      in if w \<in> set WHEN_GATES then (insert w (fst st), snd st) else (fst st, later (snd st) t))"

definition parse_when :: "js_value \<Rightarrow> string list" where
  "parse_when v =
     (case foldl when_step ({}, None) (tokens (when_source v)) of
        (named, latest) \<Rightarrow>
          let real = filter (\<lambda>g. g \<noteq> NO_GATE \<and> g \<in> named) WHEN_GATES;
              gates = real @ (case latest of None \<Rightarrow> [] | Some (g, _) \<Rightarrow> [g])
          in if gates = [] then [NO_GATE] else gates)"

definition gates_value :: "string list \<Rightarrow> js_value" where
  "gates_value gs = V_List (map V_Str gs)"

definition serialize_when :: "string list \<Rightarrow> js_value" where
  "serialize_when gates =
     (let l = parse_when (gates_value gates) in if length l = 1 then V_Str (hd l) else gates_value l)"

definition gated_by :: "js_value \<Rightarrow> string \<Rightarrow> bool" where
  "gated_by gates gate \<longleftrightarrow> gate \<in> set (parse_when gates)"

record appointment =
  appointment_gate :: string
  appointment_iso :: string
  at_ms :: int

fun first_instant :: "string list \<Rightarrow> appointment option" where
  "first_instant [] = None"
| "first_instant (g # gs) =
     (if \<not> is_when_instant g then first_instant gs
      else case read_instant g of
        None \<Rightarrow> first_instant gs
      | Some (g', ms) \<Rightarrow> Some \<lparr>appointment_gate = g', appointment_iso = drop (length AT) g', at_ms = ms\<rparr>)"

definition when_instant :: "js_value \<Rightarrow> appointment option" where
  "when_instant gates = first_instant (parse_when gates)"

definition when_instant_passed :: "js_value \<Rightarrow> int \<Rightarrow> bool" where
  "when_instant_passed gates now = (case when_instant gates of None \<Rightarrow> True | Some a \<Rightarrow> now \<ge> at_ms a)"

subsection \<open>Saying it\<close>

definition format_relative :: "intl \<Rightarrow> int \<Rightarrow> int \<Rightarrow> string" where
  "format_relative i target now =
     (let diff = target - now; size = \<bar>diff\<bar>;
          say = (\<lambda>per unit. relative_format i (math_round (of_int diff / of_int per)) unit)
      in if size < 5000 then ''now''
         else if size < 60000 then say 1000 ''second''
         else if size < 3600000 then say 60000 ''minute''
         else if size < 86400000 then say 3600000 ''hour''
         else if size < 30 * 86400000 then say 86400000 ''day''
         else say (30 * 86400000) ''month'')"

definition when_waiting_line :: "intl \<Rightarrow> js_value \<Rightarrow> int \<Rightarrow> string option" where
  "when_waiting_line i gates now =
     (case when_instant gates of
        None \<Rightarrow> None
      | Some a \<Rightarrow>
          if now \<ge> at_ms a then None
          else Some (''waiting until '' @ appointment_iso a @ '' ('' @ format_relative i (at_ms a) now @ '')''))"

definition format_gate :: "string \<Rightarrow> string" where
  "format_gate g = (if is_when_instant g then ''not before '' @ drop (length AT) g else g)"

definition format_when :: "js_value \<Rightarrow> string" where
  "format_when gates = join '' + '' (map format_gate (parse_when gates))"

definition format_duration :: "int \<Rightarrow> bool \<Rightarrow> string" where
  "format_duration ms clamp_negative =
     (let seconds = (if clamp_negative then max 0 ms else ms) div 1000;
          minutes = seconds div 60; hours = minutes div 60
      in if seconds < 60 then int_str seconds @ ''s''
         else if minutes < 60 then int_str minutes @ ''m''
         else int_str hours @ ''h '' @ int_str (minutes mod 60) @ ''m'')"

subsection \<open>The shape of a gate list\<close>

definition named_gates :: "js_value \<Rightarrow> string set" where
  "named_gates v = {w \<in> set WHEN_GATES. w \<in> token_word ` set (tokens (when_source v))}"

definition latest_instant :: "js_value \<Rightarrow> (string \<times> int) option" where
  "latest_instant v = foldl later None (filter (\<lambda>t. token_word t \<notin> set WHEN_GATES) (tokens (when_source v)))"

lemma foldl_when_step:
  "foldl when_step (ws, l) ts =
     (ws \<union> {w \<in> set WHEN_GATES. w \<in> token_word ` set ts},
      foldl later l (filter (\<lambda>t. token_word t \<notin> set WHEN_GATES) ts))"
  by (induction ts arbitrary: ws l) (auto simp: when_step_def Let_def)

lemma parse_when_eq:
  "parse_when v =
     (let real = filter (\<lambda>g. g \<noteq> NO_GATE \<and> g \<in> named_gates v) WHEN_GATES;
          gates = real @ (case latest_instant v of None \<Rightarrow> [] | Some (g, _) \<Rightarrow> [g])
      in if gates = [] then [NO_GATE] else gates)"
  by (simp add: parse_when_def foldl_when_step named_gates_def latest_instant_def)

subsection \<open>The canonical spelling of an instant\<close>

text \<open>A zone as \<open>readInstant\<close> leaves it.\<close>

definition signed_zone :: "string \<Rightarrow> bool" where
  "signed_zone z \<longleftrightarrow>
     (\<exists>p a b c d. z = [p, a, b, CHR '':'', c, d] \<and> is_sign p \<and> is_digit a \<and> is_digit b \<and> is_digit c \<and> is_digit d)"

lemma not_colon_digit [simp]: "\<not> is_digit (CHR '':'')"
  by (simp add: is_digit_def)

lemma sign_not_z: "is_sign p \<Longrightarrow> lower p \<noteq> CHR ''z''"
  by (auto simp: is_sign_def lower_def Let_def)

lemma digits_n_2 [simp]:
  "digits_n 2 (x # y # r) = (if is_digit x \<and> is_digit y then Some 2 else None)" "digits_n 2 [x] = None" "digits_n 2 [] = None"
  by (simp_all add: digits_n_def numeral_2_eq_2)

text \<open>A zone expression matches five or six characters only when they are a signed zone.\<close>

lemma zone_shape_sign:
  "1 < n \<Longrightarrow> zone_shape (p # s) = Some n \<longleftrightarrow>
     is_sign p \<and> in_order [digits_n 2, optional (one_of (is_char (CHR '':''))), digits_n 2] s = Some (n - 1)"
  using sign_not_z [of p]
  by (auto simp: zone_shape_def either_def followed_by_def one_of_def split: option.splits)

lemma optional_colon: "optional (one_of (is_char (CHR '':''))) (x # s) = Some (if x = CHR '':'' then 1 else 0)"
  by (simp add: optional_def one_of_def is_char_def)

lemma zone_shape_5:
  "zone_shape [p, a, b, c, d] = Some 5 \<longleftrightarrow> is_sign p \<and> is_digit a \<and> is_digit b \<and> is_digit c \<and> is_digit d"
  by (simp add: zone_shape_sign followed_by_def optional_colon) auto

lemma zone_shape_6:
  "zone_shape [p, a, b, e, c, d] = Some 6 \<longleftrightarrow>
     is_sign p \<and> is_digit a \<and> is_digit b \<and> e = CHR '':'' \<and> is_digit c \<and> is_digit d"
  by (simp add: zone_shape_sign followed_by_def optional_colon) blast

lemma list5: "length s = 5 \<Longrightarrow> \<exists>p a b c d. s = [p, a, b, c, d]"
  by (auto simp: length_Suc_conv numeral_eq_Suc)

lemma list6: "length s = 6 \<Longrightarrow> \<exists>p a b e c d. s = [p, a, b, e, c, d]"
  by (auto simp: length_Suc_conv numeral_eq_Suc)

lemma normalize_offset_signed:
  assumes "zone_suffix raw = Some k" "1 < k"
  shows "signed_zone (normalize_offset (drop (length raw - k) raw))"
proof -
  have "k = 6 \<and> 6 \<le> length raw \<and> zone_shape (drop (length raw - 6) raw) = Some 6
      \<or> k = 5 \<and> 5 \<le> length raw \<and> zone_shape (drop (length raw - 5) raw) = Some 5"
    using assms unfolding zone_suffix_def by (simp split: if_split_asm)
  then consider "k = 6" "6 \<le> length raw" "zone_shape (drop (length raw - 6) raw) = Some 6"
    | "k = 5" "5 \<le> length raw" "zone_shape (drop (length raw - 5) raw) = Some 5"
    by blast
  then show ?thesis
  proof cases
    case 1
    then obtain p a b e c d where z: "drop (length raw - 6) raw = [p, a, b, e, c, d]"
      using list6 [of "drop (length raw - 6) raw"] by auto
    with 1 show ?thesis
      by (auto simp: zone_shape_6 normalize_offset_def remove_first_def signed_zone_def)
  next
    case 2
    then obtain p a b c d where z: "drop (length raw - 5) raw = [p, a, b, c, d]"
      using list5 [of "drop (length raw - 5) raw"] by auto
    with 2 have "is_digit a" "is_digit b" "is_digit c" "is_digit d" "is_sign p" by (auto simp: zone_shape_5)
    moreover from this have "remove_first (CHR '':'') [a, b, c, d] = [a, b, c, d]"
      by (auto simp: remove_first_def)
    ultimately show ?thesis using 2 z by (auto simp: normalize_offset_def signed_zone_def)
  qed
qed

lemma signed_zone_read:
  assumes "signed_zone z" "read_zone z = Some off"
  shows "off = offset_minutes z" "normalize_offset z = z" "zone_suffix (s @ z) = Some 6" "length z = 6"
proof -
  from assms(1) obtain p a b c d where z: "z = [p, a, b, CHR '':'', c, d]" "is_sign p" "is_digit a" "is_digit b"
    "is_digit c" "is_digit d" by (auto simp: signed_zone_def)
  then have ne: "a \<noteq> CHR '':''" "b \<noteq> CHR '':''" by auto
  show "normalize_offset z = z" using z ne by (simp add: normalize_offset_def remove_first_def)
  show "zone_suffix (s @ z) = Some 6" using z by (simp add: zone_suffix_def zone_shape_6)
  show "length z = 6" using z by simp
  have "p = CHR ''+'' \<or> p = CHR ''-''" using z(2) by (simp add: is_sign_def)
  then show "off = offset_minutes z" using assms(2) z ne
    by (auto simp: read_zone_def take_digits_def read_field_def offset_minutes_def remove_first_def numeral_2_eq_2
        split: if_splits)
qed

text \<open>The text of an instant at wall time \<open>w\<close> in zone \<open>z\<close>.\<close>

definition instant_text :: "int \<Rightarrow> string \<Rightarrow> string" where
  "instant_text w z = trim_millis (butlast (to_iso w) @ z)"

lemma to_iso_Z: "butlast (to_iso w) @ ''Z'' = to_iso w"
  by (cases "civil_of_days (w div 86400000)") (simp add: to_iso_def Let_def butlast_append)

text \<open>A zone that is written and read: \<open>Z\<close>, or a signed one the date format accepts.\<close>

definition zone_of :: "string \<Rightarrow> int \<Rightarrow> bool" where
  "zone_of z off \<longleftrightarrow> read_zone z = Some off \<and> (z = ''Z'' \<or> signed_zone z)"

lemma read_instant_text:
  assumes "read_instant t = Some (g, ms)"
  obtains z off where "zone_of z off" "g = AT @ instant_text (ms + 60000 * off) z" "\<bar>ms\<bar> \<le> 8640000000000000"
proof -
  define raw where "raw = (case at_prefix (trim t) of None \<Rightarrow> trim t | Some n \<Rightarrow> drop n (trim t))"
  define k where "k = (case zone_suffix raw of None \<Rightarrow> 0 | Some k \<Rightarrow> k)"
  define zone where "zone = (if k \<le> 1 then ''Z'' else normalize_offset (drop (length raw - k) raw))"
  obtain body where parse: "date_parse (body @ zone) = Some ms"
    and g: "g = AT @ trim_millis (if zone = ''Z'' then to_iso ms else butlast (to_iso (ms + offset_minutes zone * 60000)) @ zone)"
    using assms unfolding read_instant_def Let_def raw_def [symmetric] k_def [symmetric] zone_def [symmetric]
    by (auto split: option.splits)
  have range: "\<bar>ms\<bar> \<le> 8640000000000000"
    using parse by (auto simp: date_parse_def time_clip_def split: option.splits if_splits)
  show thesis
  proof (cases "k \<le> 1")
    case True
    then have "zone = ''Z''" by (simp add: zone_def)
    with g range that [of "''Z''" 0] to_iso_Z show thesis by (simp add: zone_of_def read_zone_def instant_text_def)
  next
    case False
    then have sz: "signed_zone zone"
      using normalize_offset_signed [of raw k] by (auto simp: zone_def k_def split: option.splits)
    then obtain p a b c d where z: "zone = [p, a, b, CHR '':'', c, d]" "is_sign p" "is_digit d" by (auto simp: signed_zone_def)
    with parse date_parse_signed_zone [of body p a b c d ms] obtain off where off: "read_zone zone = Some off"
      by (auto simp: is_sign_def)
    note off_eq = signed_zone_read(1) [OF sz off]
    from z have "zone \<noteq> ''Z''" by simp
    with g off_eq have "g = AT @ instant_text (ms + 60000 * off) zone" by (simp add: instant_text_def mult.commute)
    with that [of zone off] sz off range show thesis by (simp add: zone_of_def)
  qed
qed

text \<open>Replacing what is not there changes nothing, and what comes before it stays.\<close>

lemma replace_first_id: "sub \<noteq> [] \<Longrightarrow> hd sub \<notin> set s \<Longrightarrow> replace_first sub rep s = s"
  by (induction s) (auto simp: neq_Nil_conv)

lemma replace_first_skip:
  "sub \<noteq> [] \<Longrightarrow> hd sub \<notin> set a \<Longrightarrow> replace_first sub rep (a @ b) = a @ replace_first sub rep b"
  by (induction a) (auto simp: neq_Nil_conv)

lemma pad_chars: "set (pad w n) \<subseteq> Collect is_digit"
  using digits_pad [of w n] by (auto simp: list_all_iff)

lemma iso_stem_chars: "set (iso_stem y m d h mi sec) \<subseteq> Collect is_digit \<union> set ''+-T:''"
proof -
  have "set (year_str y) \<subseteq> Collect is_digit \<union> set ''+-T:''"
    using pad_chars unfolding year_str_def by (auto dest!: subsetD [OF pad_chars])
  then show ?thesis unfolding iso_stem_def by (auto dest!: subsetD [OF pad_chars])
qed

lemma stem_free: "c \<in> set (iso_stem y m d h mi sec) \<Longrightarrow> c \<noteq> CHR ''.'' \<and> c \<noteq> CHR '' ''"
  using iso_stem_chars [of y m d h mi sec] by (auto simp: is_digit_def)

lemma zone_of_free: "zone_of z off \<Longrightarrow> CHR ''.'' \<notin> set z \<and> read_field (CHR ''.'') 3 z = None \<and> z \<noteq> [] \<and> \<not> is_space (last z)"
  by (auto simp: zone_of_def signed_zone_def is_sign_def is_digit_def read_field_def is_space_def)

text \<open>The fraction of a stem: nothing at the full second, else three digits.\<close>

definition fraction :: "int \<Rightarrow> string" where
  "fraction ms = (if ms = 0 then [] else CHR ''.'' # pad 3 ms)"

lemma trim_fraction:
  assumes "0 \<le> ms" "ms < 1000" "CHR ''.'' \<notin> set z"
  shows "replace_first ''.000'' [] (CHR ''.'' # pad 3 ms @ z) = fraction ms @ z"
proof (cases "ms = 0")
  case True
  have "pad 3 0 = ''000''" by code_simp
  with True show ?thesis by (simp add: fraction_def)
next
  case False
  have "pad 3 ms \<noteq> ''000''"
  proof
    assume p: "pad 3 ms = ''000''"
    have "take_digits 3 (pad 3 ms @ []) = Some (ms, [])" using assms by (intro take_digits_pad) simp_all
    moreover have "take_digits 3 ''000'' = Some (0, [])" by code_simp
    ultimately show False using p False by simp
  qed
  moreover have "length (pad 3 ms) = 3" using assms by (intro length_pad) simp_all
  moreover have "CHR ''.'' \<notin> set (pad 3 ms)" using pad_chars [of 3 ms] by (auto simp: is_digit_def)
  ultimately show ?thesis using False assms(3)
    by (simp add: fraction_def replace_first_id)
qed

lemma instant_text_stem:
  assumes "\<bar>w\<bar> \<le> 8640000000000000" "CHR ''.'' \<notin> set z"
  obtains y m d h mi sec ms where "iso_fields y m d h mi sec ms"
    "instant_text w z = iso_stem y m d h mi sec @ fraction ms @ z"
    "86400000 * days_of_civil y m d + 3600000 * h + 60000 * mi + 1000 * sec + ms = w"
proof -
  obtain y m d h mi sec ms where f: "iso_fields y m d h mi sec ms"
    and iso: "to_iso w = iso_stem y m d h mi sec @ ''.'' @ pad 3 ms @ ''Z''"
    and w: "86400000 * days_of_civil y m d + 3600000 * h + 60000 * mi + 1000 * sec + ms = w"
    by (rule to_iso_parts [OF assms(1)])
  have "CHR ''.'' \<notin> set (iso_stem y m d h mi sec)" using stem_free by blast
  then have "instant_text w z = iso_stem y m d h mi sec @ fraction ms @ z"
    using iso_fields_digits [OF f] assms(2)
    by (simp add: instant_text_def iso trim_millis_def butlast_append replace_first_skip trim_fraction del: replace_first.simps)
  with f w that show thesis by blast
qed

lemma has_time_append: "has_time b \<Longrightarrow> has_time (a @ b)"
  by (induction a) auto

lemma has_time_stem: "iso_fields y m d h mi sec ms \<Longrightarrow> has_time (iso_stem y m d h mi sec @ r)"
proof -
  assume f: "iso_fields y m d h mi sec ms"
  have "length (pad 2 h) = 2" using iso_fields_digits [OF f] by (intro length_pad) simp_all
  then obtain a b where ab: "pad 2 h = [a, b]" by (auto simp: length_Suc_conv numeral_2_eq_2)
  with digits_pad [of 2 h] have "is_digit a" "is_digit b" by simp_all
  moreover have "lower (CHR ''T'') = CHR ''t''" by code_simp
  ultimately have "has_time (CHR ''T'' # pad 2 h @ CHR '':'' # x)" for x
    unfolding has_time.simps(2) by (intro disjI1) (simp add: ab followed_by_def one_of_def is_char_def)
  moreover have "iso_stem y m d h mi sec @ r = (year_str y @ ''-'' @ pad 2 m @ ''-'' @ pad 2 d)
      @ (CHR ''T'' # pad 2 h @ CHR '':'' # pad 2 mi @ CHR '':'' # pad 2 sec @ r)"
    by (simp add: iso_stem_def)
  ultimately show ?thesis by (metis has_time_append)
qed

lemma zone_suffix_of:
  assumes "zone_of z off"
  shows "zone_suffix (s @ z) = Some (length z)"
proof (cases "z = ''Z''")
  case True
  have no6: "zone_shape (drop (length r - 6) r) \<noteq> Some 6" if "6 \<le> length r" "last r = CHR ''Z''" for r
  proof -
    have "length (drop (length r - 6) r) = 6" using that(1) by simp
    then obtain p a b e c d where r: "drop (length r - 6) r = [p, a, b, e, c, d]" using list6 by blast
    have "last r = last (drop (length r - 6) r)" using that(1) by (intro last_drop [symmetric]) simp
    then have "last r = d" by (simp add: r)
    with that r show ?thesis by (simp add: zone_shape_6 is_digit_def)
  qed
  have no5: "zone_shape (drop (length r - 5) r) \<noteq> Some 5" if "5 \<le> length r" "last r = CHR ''Z''" for r
  proof -
    have "length (drop (length r - 5) r) = 5" using that(1) by simp
    then obtain p a b c d where r: "drop (length r - 5) r = [p, a, b, c, d]" using list5 by blast
    have "last r = last (drop (length r - 5) r)" using that(1) by (intro last_drop [symmetric]) simp
    then have "last r = d" by (simp add: r)
    with that r show ?thesis by (simp add: zone_shape_5 is_digit_def)
  qed
  have "lower (CHR ''Z'') = CHR ''z''" by code_simp
  then have "zone_suffix r = Some 1" if "r \<noteq> []" "last r = CHR ''Z''" for r
    unfolding zone_suffix_def using no6 [of r] no5 [of r] that by simp
  with True show ?thesis by simp
next
  case False
  with assms signed_zone_read(3) [of z off s] signed_zone_read(4) [of z off] show ?thesis by (simp add: zone_of_def)
qed

lemma read_instant_parts:
  assumes "trim t = AT @ body @ z" "zone_suffix (body @ z) = Some (length z)" "replace_first '' '' ''T'' body = body"
    "has_time body" "(if length z \<le> 1 then ''Z'' else normalize_offset z) = z" "date_parse (body @ z) = Some ms"
  shows "read_instant t = Some (AT @ trim_millis (if z = ''Z'' then to_iso ms
      else butlast (to_iso (ms + offset_minutes z * 60000)) @ z), ms)"
proof -
  have "at_prefix (AT @ x) = Some 3" for x
    by (simp add: at_prefix_def AT_def followed_by_def one_of_def is_char_def lower_def)
  moreover have "drop 3 (AT @ x) = x" for x by (simp add: AT_def)
  ultimately have raw: "(case at_prefix (trim t) of None \<Rightarrow> trim t | Some n \<Rightarrow> drop n (trim t)) = body @ z"
    unfolding assms(1) by (simp del: drop_append)
  have split: "take (length (body @ z) - length z) (body @ z) = body" "drop (length (body @ z) - length z) (body @ z) = z"
    by simp_all
  show ?thesis
    unfolding read_instant_def Let_def raw assms(2) option.case split assms(3)
    by (simp only: assms(4) if_True assms(5,6) option.case)
qed

lemma read_instant_canonical:
  assumes z: "zone_of z off" and w: "\<bar>w\<bar> \<le> 8640000000000000" "\<bar>w - 60000 * off\<bar> \<le> 8640000000000000"
  shows "read_instant (AT @ instant_text w z) = Some (AT @ instant_text w z, w - 60000 * off)"
proof -
  note free = zone_of_free [OF z]
  obtain y m d h mi sec ms where f: "iso_fields y m d h mi sec ms"
    and spelt: "instant_text w z = iso_stem y m d h mi sec @ fraction ms @ z"
    and val: "86400000 * days_of_civil y m d + 3600000 * h + 60000 * mi + 1000 * sec + ms = w"
    using instant_text_stem [OF w(1)] free by blast
  let ?body = "iso_stem y m d h mi sec @ fraction ms"
  have trim: "trim (AT @ instant_text w z) = AT @ instant_text w z"
    using free by (intro trim_id) (simp add: AT_def spelt is_space_def)
  have suffix: "zone_suffix (?body @ z) = Some (length z)" by (rule zone_suffix_of [OF z])
  have "CHR '' '' \<notin> set ?body"
    using stem_free [of "CHR '' ''"] subsetD [OF pad_chars, of "CHR '' ''" 3 ms]
    by (auto simp: fraction_def is_digit_def)
  then have space: "replace_first '' '' ''T'' ?body = ?body" by (simp add: replace_first_id)
  have time: "has_time ?body" by (rule has_time_stem [OF f])
  have zone: "(if length z \<le> 1 then ''Z'' else normalize_offset z) = z"
    using z signed_zone_read(2,4) [of z off] by (cases "z = ''Z''") (simp_all add: zone_of_def)
  have "date_parse (?body @ z) = time_clip (w - 60000 * off)"
    using date_parse_stem [OF f, of z] z free val by (cases "ms = 0") (simp_all add: fraction_def zone_of_def)
  with w(2) have parse: "date_parse (?body @ z) = Some (w - 60000 * off)" by (simp add: time_clip_def)
  have "AT @ trim_millis (if z = ''Z'' then to_iso (w - 60000 * off)
      else butlast (to_iso (w - 60000 * off + offset_minutes z * 60000)) @ z) = AT @ instant_text w z"
  proof (cases "z = ''Z''")
    case True
    with z to_iso_Z [of w] show ?thesis by (simp add: zone_of_def read_zone_def instant_text_def)
  next
    case False
    with z have "off = offset_minutes z" using signed_zone_read(1) [of z off] by (auto simp: zone_of_def)
    with False show ?thesis by (simp add: instant_text_def)
  qed
  then show ?thesis
    using read_instant_parts [of "AT @ instant_text w z" ?body z] trim suffix space time zone parse spelt by simp
qed

subsection \<open>What a run waits for\<close>

definition named_words :: "js_value \<Rightarrow> string set" where
  "named_words v = token_word ` set (tokens (when_source v))"

text \<open>The instants a spelling names: of its tokens that are not gate words, those that read as a date.\<close>

definition named_instants :: "js_value \<Rightarrow> (string \<times> int) list" where
  "named_instants v = concat (map (\<lambda>t. case read_instant t of None \<Rightarrow> [] | Some r \<Rightarrow> [r])
     (filter (\<lambda>t. token_word t \<notin> set WHEN_GATES) (tokens (when_source v))))"

definition keep_latest :: "(string \<times> int) option \<Rightarrow> string \<times> int \<Rightarrow> (string \<times> int) option" where
  "keep_latest l r = (case l of None \<Rightarrow> Some r | Some r' \<Rightarrow> if snd r > snd r' then Some r else l)"

lemma keep_latest_max:
  "(foldl keep_latest None rs = None \<longleftrightarrow> rs = [])
   \<and> (\<forall>r. foldl keep_latest None rs = Some r \<longrightarrow> r \<in> set rs \<and> (\<forall>r' \<in> set rs. snd r' \<le> snd r))"
  by (induction rs rule: rev_induct) (force simp: keep_latest_def split: option.splits if_splits)+

lemma latest_eq:
  "latest_instant v = foldl keep_latest None (named_instants v)"
proof -
  have "foldl later l ts = foldl keep_latest l
      (concat (map (\<lambda>t. case read_instant t of None \<Rightarrow> [] | Some r \<Rightarrow> [r]) ts))" for l ts
    by (induction ts arbitrary: l) (auto simp: later_def keep_latest_def split: option.splits)
  then show ?thesis by (simp add: latest_instant_def named_instants_def)
qed

lemma latest_instant_max:
  "(latest_instant v = None \<longleftrightarrow> named_instants v = [])
   \<and> (\<forall>r. latest_instant v = Some r \<longrightarrow> r \<in> set (named_instants v) \<and> (\<forall>r' \<in> set (named_instants v). snd r' \<le> snd r))"
  unfolding latest_eq by (rule keep_latest_max)

lemma named_instants_read: "(g, ms) \<in> set (named_instants v) \<Longrightarrow> \<exists>t. read_instant t = Some (g, ms)"
  by (auto simp: named_instants_def split: option.splits)

lemma is_when_instant_AT: "is_when_instant (AT @ x)"
  by (simp add: is_when_instant_def at_prefix_def AT_def followed_by_def one_of_def is_char_def lower_def)

lemma gate_not_instant: "g \<in> set WHEN_GATES \<Longrightarrow> \<not> is_when_instant g"
proof -
  have "list_all (\<lambda>g. \<not> is_when_instant g) WHEN_GATES" by code_simp
  then show "g \<in> set WHEN_GATES \<Longrightarrow> \<not> is_when_instant g" by (simp add: list_all_iff)
qed

lemma first_instant_skip:
  "list_all (\<lambda>g. \<not> is_when_instant g) gs \<Longrightarrow> first_instant (gs @ hs) = first_instant hs"
  by (induction gs) simp_all

text \<open>An instant within a day of the ends of the date range could leave it when moved to its zone.\<close>

definition far_instant :: "string \<times> int \<Rightarrow> bool" where
  "far_instant r \<longleftrightarrow> \<bar>snd r\<bar> > 8640000000000000 - 86400000"

lemma zone_of_bound: "zone_of z off \<Longrightarrow> \<bar>60000 * off\<bar> \<le> 86400000"
proof (cases "z = ''Z''")
  case False
  assume z: "zone_of z off"
  with False obtain p a b c d where zz: "z = [p, a, b, CHR '':'', c, d]" by (auto simp: zone_of_def signed_zone_def)
  from z show ?thesis unfolding zone_of_def zz
    by (auto simp: read_zone_def take_digits_def read_field_def Let_def split: if_splits)
qed (simp add: zone_of_def read_zone_def)

lemma named_instant_reads_back:
  assumes "(g, ms) \<in> set (named_instants v)" "\<not> far_instant (g, ms)"
  shows "is_when_instant g \<and> read_instant g = Some (g, ms)"
proof -
  obtain t where "read_instant t = Some (g, ms)" using named_instants_read [OF assms(1)] by blast
  then obtain z off where z: "zone_of z off" "g = AT @ instant_text (ms + 60000 * off) z" "\<bar>ms\<bar> \<le> 8640000000000000"
    by (rule read_instant_text)
  have "\<bar>ms + 60000 * off\<bar> \<le> 8640000000000000"
    using assms(2) zone_of_bound [OF z(1)] unfolding far_instant_def snd_conv by linarith
  with read_instant_canonical [OF z(1) this] z show ?thesis by (simp add: is_when_instant_AT)
qed

lemma when_instant_eq:
  assumes "list_all (\<lambda>r. \<not> far_instant r) (named_instants v)"
  shows "when_instant v = map_option (\<lambda>(g, ms). \<lparr>appointment_gate = g, appointment_iso = drop (length AT) g, at_ms = ms\<rparr>)
      (latest_instant v)"
proof -
  define real where "real = filter (\<lambda>g. g \<noteq> NO_GATE \<and> g \<in> named_gates v) WHEN_GATES"
  have real: "list_all (\<lambda>g. \<not> is_when_instant g) real"
    using gate_not_instant by (auto simp: real_def list_all_iff)
  show ?thesis
  proof (cases "latest_instant v")
    case None
    have "\<not> is_when_instant NO_GATE" using gate_not_instant by (simp add: NO_GATE_def WHEN_GATES_def)
    with None real show ?thesis
      using first_instant_skip [OF real, of "[]"] by (simp add: when_instant_def parse_when_eq real_def [symmetric] Let_def)
  next
    case (Some r)
    obtain g ms where r: "r = (g, ms)" by (cases r)
    with Some latest_instant_max [of v] have "(g, ms) \<in> set (named_instants v)" by blast
    with named_instant_reads_back [of g ms v] assms have "is_when_instant g" "read_instant g = Some (g, ms)"
      by (auto simp: list_all_iff)
    with Some r show ?thesis
      by (simp add: when_instant_def parse_when_eq real_def [symmetric] Let_def first_instant_skip [OF real])
  qed
qed

text \<open>
  A run is released exactly when every appointment its \<open>when\<close> spelling names has passed, however
  the spelling mixes gates, lists and instants and whatever zones the instants are written in; and
  the named gates it carries are exactly the gate words of the spelling, \<open>now\<close> standing only alone.
\<close>

theorem released_after_every_appointment:
  assumes "list_all (\<lambda>r. \<not> far_instant r) (named_instants v)"
  shows "(when_instant_passed v now \<longleftrightarrow> (\<forall>r \<in> set (named_instants v). snd r \<le> now))
    \<and> (gated_by v ''window'' \<longleftrightarrow> ''window'' \<in> named_words v)
    \<and> (gated_by v ''queue'' \<longleftrightarrow> ''queue'' \<in> named_words v)
    \<and> (gated_by v ''now'' \<longleftrightarrow> parse_when v = [''now''])"
proof -
  have "when_instant_passed v now \<longleftrightarrow> (\<forall>r \<in> set (named_instants v). snd r \<le> now)"
    using latest_instant_max [of v]
    by (cases "latest_instant v") (auto simp: when_instant_passed_def when_instant_eq [OF assms] split: prod.split)
  moreover have "g \<notin> set WHEN_GATES" if "latest_instant v = Some (g, ms)" for g ms
    using that latest_instant_max [of v] named_instant_reads_back [of g ms v] assms gate_not_instant
    by (auto simp: list_all_iff)
  ultimately show ?thesis
    unfolding gated_by_def parse_when_eq
    by (auto simp: Let_def named_gates_def named_words_def WHEN_GATES_def NO_GATE_def split: option.splits)
qed

theorem released_after_every_appointment_witness:
  "gated_by (V_Str ''queue+2026-08-22T02:00+07:00,2026-08-21'') ''queue''
   \<and> list_all (\<lambda>r. snd r \<le> 1787338800000) (named_instants (V_Str ''queue+2026-08-22T02:00+07:00,2026-08-21''))
   \<and> when_instant_passed (V_Str ''queue+2026-08-22T02:00+07:00,2026-08-21'') 1787338800000"
proof -
  have "list_all (\<lambda>r. \<not> far_instant r \<and> snd r \<le> 1787338800000) (named_instants (V_Str ''queue+2026-08-22T02:00+07:00,2026-08-21''))
    \<and> ''queue'' \<in> named_words (V_Str ''queue+2026-08-22T02:00+07:00,2026-08-21'')" by code_simp
  with released_after_every_appointment [of "V_Str ''queue+2026-08-22T02:00+07:00,2026-08-21''" 1787338800000]
  show ?thesis by (auto simp: list_all_iff)
qed

text \<open>
  An appointment the reader cannot read is no appointment: a month out of range leaves a run
  with no gate at all, and an hour written with one digit leaves it waiting for midnight UTC of that
  day, hours before the moment that was typed.
\<close>

theorem misspelt_appointment_releases_early:
  "parse_when (V_Str ''2026-13-01T09:00Z'') = [''now'']
   \<and> parse_when (V_Str ''2026-08-22T9:30Z'') = [''at:2026-08-22T00:00:00Z'']
   \<and> when_instant_passed (V_Str ''2026-08-22T9:30Z'') 1787356800000"
  by code_simp

end
