(* ===== verification/EpicRun.thy ===== *)
theory EpicRun
  imports EpicWhen EpicReady
begin

section \<open>The run and its ceilings\<close>

text \<open>
  \<open>EpicRunMeta\<close> and \<open>EpicRunReading\<close> of \<open>src/shared/epic-run-types.ts\<close>, and the cap readings of
  \<open>epic-run-caps.ts\<close>. Amounts of money are the rationals their doubles denote; counters are
  integers. The comparison the readings make is the one the beat enforces (\<open>EpicBeat\<close>).
\<close>

datatype epic_run_status = Armed | Running | Paused | Complete | Aborted

fun status_name :: "epic_run_status \<Rightarrow> string" where
  "status_name Armed = ''armed''"
| "status_name Running = ''running''"
| "status_name Paused = ''paused''"
| "status_name Complete = ''complete''"
| "status_name Aborted = ''aborted''"

record epic_run =
  run_epic_id :: string
  run_project :: string
  cadence :: js_value
  run_status :: epic_run_status
  run_target :: epic_run_target
  dry_gens :: int
  unlanded_woken :: string
  max_gens :: int
  max_usd :: rat
  max_wall_clock_minutes :: int
  spent_usd :: rat
  started_at :: "string option"
  run_plan :: bool
  planned :: bool
  plan_baseline :: "string option"
  run_concurrency :: int
  run_created :: string
  run_updated :: string
  abort_reason :: "string option"
  acknowledged_at :: "string option"
  digest :: string

record epic_run_reading = epic_run +
  run_gen :: int

text \<open>\<open>formatUsd\<close>.\<close>

definition format_usd :: "rat \<Rightarrow> string" where
  "format_usd n = ''$'' @ to_fixed2 n"

definition elapsed_run_minutes :: "string option \<Rightarrow> int \<Rightarrow> int option" where
  "elapsed_run_minutes started now =
     (if \<not> truthy started then None
      else case date_parse (the started) of None \<Rightarrow> None | Some ms \<Rightarrow> Some ((now - ms) div 60000))"

record epic_cap_reading =
  cap_label :: string
  used :: string
  cap_limit :: string
  remaining :: "string option"
  over :: bool

definition NO_CAP :: string where
  "NO_CAP = ''no cap''"

definition spend_reading :: "'a epic_run_scheme \<Rightarrow> epic_cap_reading" where
  "spend_reading run =
     (let capped = max_usd run > 0
      in \<lparr>cap_label = ''spend'', used = format_usd (spent_usd run),
          cap_limit = (if capped then format_usd (max_usd run) else NO_CAP),
          remaining = (if capped then Some (format_usd (max 0 (max_usd run - spent_usd run))) else None),
          over = (capped \<and> spent_usd run \<ge> max_usd run)\<rparr>)"

definition wall_clock_reading :: "'a epic_run_scheme \<Rightarrow> int \<Rightarrow> epic_cap_reading" where
  "wall_clock_reading run now =
     (let capped = max_wall_clock_minutes run > 0; minutes = elapsed_run_minutes (started_at run) now
      in \<lparr>cap_label = ''wall clock'',
          used = (case minutes of None \<Rightarrow> ''not started'' | Some n \<Rightarrow> int_str n @ '' min''),
          cap_limit = (if capped then int_str (max_wall_clock_minutes run) @ '' min'' else NO_CAP),
          remaining = (case minutes of
            Some n \<Rightarrow> (if capped then Some (int_str (max 0 (max_wall_clock_minutes run - n)) @ '' min'') else None)
          | None \<Rightarrow> None),
          over = (capped \<and> (case minutes of None \<Rightarrow> False | Some n \<Rightarrow> n \<ge> max_wall_clock_minutes run))\<rparr>)"

definition generation_reading :: "epic_run_reading \<Rightarrow> epic_cap_reading" where
  "generation_reading run =
     (let capped = max_gens run > 0
      in \<lparr>cap_label = ''generations'', used = int_str (run_gen run),
          cap_limit = (if capped then int_str (max_gens run) else NO_CAP),
          remaining = (if capped then Some (int_str (max 0 (max_gens run - run_gen run))) else None),
          over = (capped \<and> run_gen run \<ge> max_gens run)\<rparr>)"

definition epic_run_caps :: "epic_run_reading \<Rightarrow> int \<Rightarrow> epic_cap_reading list" where
  "epic_run_caps run now = [spend_reading run, wall_clock_reading run now, generation_reading run]"

definition format_cap :: "epic_cap_reading \<Rightarrow> string" where
  "format_cap c =
     cap_label c @ '' '' @ used c @ ''/'' @ cap_limit c
     @ (case remaining c of None \<Rightarrow> [] | Some r \<Rightarrow> '' ('' @ r @ '' left)'')
     @ (if over c then '' OVER'' else [])"

definition format_epic_run_caps :: "intl \<Rightarrow> epic_run_reading \<Rightarrow> int \<Rightarrow> string" where
  "format_epic_run_caps i run now =
     (let caps = join '' . '' (map format_cap (epic_run_caps run now))
      in case when_waiting_line i (cadence run) now of None \<Rightarrow> caps | Some w \<Rightarrow> caps @ '' . '' @ w)"

text \<open>A fresh run with the documented defaults.\<close>

definition EPIC_RUN_DEFAULT_MAX_GENS :: int where "EPIC_RUN_DEFAULT_MAX_GENS = 40"
definition EPIC_RUN_DEFAULT_MAX_USD :: rat where "EPIC_RUN_DEFAULT_MAX_USD = 100"
definition EPIC_RUN_DEFAULT_MAX_WALL_CLOCK :: int where "EPIC_RUN_DEFAULT_MAX_WALL_CLOCK = 480"
definition EPIC_RUN_DEFAULT_CONCURRENCY :: int where "EPIC_RUN_DEFAULT_CONCURRENCY = 3"

end
