(* ===== verification/SectionLog.thy ===== *)
theory SectionLog
  imports JsDouble
begin

section \<open>The append-only section log\<close>

text \<open>
  \<open>src/shared/md-section-log.ts\<close> and \<open>appendFileGuarded\<close> of \<open>src/shared/atomic-write.ts\<close>: the
  markdown file of header lines and bodies every baton is stored as. A file is its content, \<open>None\<close>
  when it does not exist. An append is one write past the end, so what a crash can leave behind is
  the old content, the new one, or the old one with a prefix of what was appended.
\<close>

subsection \<open>Cutting at headings\<close>

definition newline :: string where "newline = [CHR 0x0A]"

text \<open>The line terminators of a multiline \<open>^\<close>; the two outside the character range are left out.\<close>

definition is_eol :: "char \<Rightarrow> bool" where
  "is_eol c \<longleftrightarrow> c = CHR 0x0A \<or> c = CHR 0x0D"

text \<open>\<open>content.split(/^### /m)\<close>, from a position that is or is not at the start of a line.\<close>

function cut_at :: "bool \<Rightarrow> string \<Rightarrow> string list" where
  "cut_at b [] = [[]]"
| "cut_at b (c # s) =
     (if b \<and> take 4 (c # s) = ''### '' then [] # cut_at False (drop 3 s)
      else case cut_at (is_eol c) s of [] \<Rightarrow> [] | p # ps \<Rightarrow> (c # p) # ps)"
  by pat_completeness auto
termination by (relation "measure (length \<circ> snd)") auto

definition sections :: "string \<Rightarrow> string list" where
  "sections content = tl (cut_at True content)"

subsection \<open>One section\<close>

record raw_section =
  sec_ts :: string
  sec_kind :: string
  sec_conv :: string
  sec_tag :: "string option"
  sec_body :: string

abbreviation word_of :: "string \<Rightarrow> string" where
  "word_of \<equiv> takeWhile (\<lambda>c. \<not> is_space c)"

abbreviation after_word :: "string \<Rightarrow> string" where
  "after_word s \<equiv> dropWhile is_space (dropWhile (\<lambda>c. \<not> is_space c) s)"

text \<open>
  The header expression: two runs of non-blanks, a bracket, and an optional further run. Each part is
  maximal, because the character after a shorter match could not begin the next part.
\<close>

definition HEADER :: "string \<Rightarrow> (string \<times> string \<times> string \<times> string option) option" where
  "HEADER h =
     (let ts = word_of h; k = after_word h; kind = word_of k; r = after_word k
      in if ts = [] \<or> kind = [] then None
         else case r of
           [] \<Rightarrow> None
         | x # xs \<Rightarrow>
             if x \<noteq> CHR ''['' then None
             else case dropWhile (\<lambda>c. c \<noteq> CHR '']'') xs of
               [] \<Rightarrow> None
             | _ # t \<Rightarrow>
                 let w = word_of (dropWhile is_space t)
                 in Some (ts, kind, takeWhile (\<lambda>c. c \<noteq> CHR '']'') xs,
                      if takeWhile is_space t \<noteq> [] \<and> w \<noteq> [] then Some w else None))"

definition EMPTY_BODY :: string where "EMPTY_BODY = ''_no body_''"

definition render_log_section :: "raw_section \<Rightarrow> string" where
  "render_log_section s =
     join newline
       [''### '' @ sec_ts s @ '' '' @ sec_kind s @ '' ['' @ sec_conv s @ '']''
          @ (if truthy (sec_tag s) then '' '' @ the (sec_tag s) else []),
        [], if trim (sec_body s) \<noteq> [] then trim (sec_body s) else EMPTY_BODY, []]"

definition parse_section :: "string \<Rightarrow> raw_section option" where
  "parse_section sec =
     (case HEADER (takeWhile (\<lambda>c. c \<noteq> CHR 0x0A) sec) of
        None \<Rightarrow> None
      | Some (ts, kind, conv, tag) \<Rightarrow>
          let body = trim (drop 1 (dropWhile (\<lambda>c. c \<noteq> CHR 0x0A) sec))
          in Some \<lparr>sec_ts = ts, sec_kind = kind, sec_conv = conv, sec_tag = tag,
                sec_body = (if body = EMPTY_BODY then [] else body)\<rparr>)"

definition parse_section_log :: "string \<Rightarrow> raw_section list" where
  "parse_section_log content = List.map_filter parse_section (sections content)"

text \<open>A missing file is an empty log.\<close>

definition read_section_log :: "string option \<Rightarrow> raw_section list" where
  "read_section_log file = (case file of None \<Rightarrow> [] | Some content \<Rightarrow> parse_section_log content)"

subsection \<open>Appending\<close>

definition ends_with_newline :: "string option \<Rightarrow> bool" where
  "ends_with_newline file \<longleftrightarrow> (case file of None \<Rightarrow> True | Some s \<Rightarrow> s = [] \<or> last s = CHR 0x0A)"

definition append_file_guarded :: "string option \<Rightarrow> string \<Rightarrow> string" where
  "append_file_guarded file content =
     (case file of None \<Rightarrow> [] | Some s \<Rightarrow> s) @ (if ends_with_newline file then [] else newline) @ content"

definition append_section_log :: "string option \<Rightarrow> string \<Rightarrow> raw_section \<Rightarrow> string" where
  "append_section_log file header s =
     append_file_guarded (case file of None \<Rightarrow> Some header | Some c \<Rightarrow> Some c) (render_log_section s @ newline)"

subsection \<open>How a cut_at behaves under concatenation\<close>

lemma cut_not_Nil [simp]: "cut_at b s \<noteq> []"
  by (induction b s rule: cut_at.induct) (auto split: list.split)

declare cut_at.simps(2) [simp del]

lemma cut_heading: "cut_at True (''### '' @ s) = [] # cut_at False s"
  by (simp add: cut_at.simps(2))

lemma cut_plain: "\<not> (b \<and> take 4 (c # s) = ''### '') \<Longrightarrow> cut_at b (c # s) = (c # hd (cut_at (is_eol c) s)) # tl (cut_at (is_eol c) s)"
  by (cases "cut_at (is_eol c) s") (auto simp: cut_at.simps(2))

lemma is_eol_hash [simp]: "\<not> is_eol (CHR ''#'')" "\<not> is_eol (CHR '' '')" "\<not> is_eol (CHR ''['')" "\<not> is_eol (CHR '']'')"
  by (simp_all add: is_eol_def)

text \<open>Text that ends a line is cut for itself, and what follows starts on a line of its own.\<close>

lemma take4_eol:
  assumes "take 4 (a @ r) = ''### ''" "a \<noteq> []" "is_eol (last a)"
  shows "take 4 a = ''### '' \<and> 4 < length a"
proof -
  have four: "x = CHR ''#'' \<or> x = CHR '' ''" if "x \<in> set (take 4 (a @ r))" for x
    using that unfolding assms(1) by auto
  have "4 < length a"
  proof (rule ccontr)
    assume "\<not> 4 < length a"
    then have "last a \<in> set (take 4 (a @ r))" using assms(2) by simp
    from four [OF this] assms(3) show False by auto
  qed
  with assms(1) show ?thesis by simp
qed

lemma cut_append:
  "(a = [] \<and> b) \<or> (a \<noteq> [] \<and> is_eol (last a)) \<Longrightarrow>
     cut_at b (a @ r) = butlast (cut_at b a) @ (last (cut_at b a) @ hd (cut_at True r)) # tl (cut_at True r)"
proof (induction b a rule: cut_at.induct)
  case (1 b)
  then show ?case by simp
next
  case (2 b c s)
  have eol: "is_eol (last (c # s))" using 2(3) by simp
  show ?case
  proof (cases "b \<and> take 4 (c # s) = ''### ''")
    case True
    then obtain u where s: "c # s = ''### '' @ u" by (metis append_take_drop_id)
    then have u: "u \<noteq> [] \<and> is_eol (last u)" "drop 3 s = u" using eol by (cases "u = []", auto)
    from True 2(1) u have "cut_at False (u @ r) = butlast (cut_at False u) @ (last (cut_at False u) @ hd (cut_at True r)) # tl (cut_at True r)"
      by simp
    moreover from s True have "cut_at b (c # s) = [] # cut_at False u" "cut_at b ((c # s) @ r) = [] # cut_at False (u @ r)"
      by (simp_all only: append_assoc cut_heading)
    ultimately show ?thesis by simp
  next
    case False
    then have not: "\<not> (b \<and> take 4 (c # s @ r) = ''### '')"
      using take4_eol [of "c # s" r] eol by auto
    have "cut_at (is_eol c) (s @ r) = butlast (cut_at (is_eol c) s) @ (last (cut_at (is_eol c) s) @ hd (cut_at True r)) # tl (cut_at True r)"
      by (rule 2(2) [OF False]) (use eol in \<open>cases "s = []"; simp\<close>)
    then show ?thesis
      using cut_plain [OF not] cut_plain [OF False] by (cases "cut_at (is_eol c) s") (auto split: if_splits)
  qed
qed

lemma cut_newline: "cut_at b (a @ newline) = butlast (cut_at b a) @ [last (cut_at b a) @ newline]"
proof (induction b a rule: cut_at.induct)
  case (1 b)
  then show ?case by (simp add: newline_def cut_at.simps is_eol_def)
next
  case (2 b c s)
  show ?case
  proof (cases "b \<and> take 4 (c # s) = ''### ''")
    case True
    then obtain u where s: "c # s = ''### '' @ u" by (metis append_take_drop_id)
    then have u: "drop 3 s = u" by auto
    from True 2(1) u have "cut_at False (u @ newline) = butlast (cut_at False u) @ [last (cut_at False u) @ newline]" by simp
    moreover from s True have "cut_at b (c # s) = [] # cut_at False u" "cut_at b ((c # s) @ newline) = [] # cut_at False (u @ newline)"
      by (simp_all only: append_assoc cut_heading)
    ultimately show ?thesis by simp
  next
    case False
    then have not: "\<not> (b \<and> take 4 (c # s @ newline) = ''### '')"
      using take4_eol [of "c # s @ newline" "[]"] by (auto simp: newline_def is_eol_def)
    from 2(2) False have "cut_at (is_eol c) (s @ newline) = butlast (cut_at (is_eol c) s) @ [last (cut_at (is_eol c) s) @ newline]" by simp
    then show ?thesis
      using cut_plain [OF not] cut_plain [OF False] by (cases "cut_at (is_eol c) s") (auto split: if_splits)
  qed
qed

lemma cut_no_eol: "list_all (\<lambda>c. \<not> is_eol c) s \<Longrightarrow> cut_at False s = [s]"
  by (induction s) (auto simp: cut_at.simps)

lemma cut_line_start: "base = [] \<or> is_eol (last base) \<Longrightarrow> cut_at True (base @ ''### '' @ s) = cut_at True base @ cut_at False s"
proof -
  assume b: "base = [] \<or> is_eol (last base)"
  define r where "r = ''### '' @ s"
  have "cut_at True r = [] # cut_at False s" unfolding r_def by (rule cut_heading)
  with cut_append [of base True r] b show ?thesis unfolding r_def [symmetric] by auto
qed

subsection \<open>A section that reads back\<close>

text \<open>
  What a section must avoid to be read back: blanks in its words, brackets and line ends in its
  conversation id, and a body with a line that looks like the header of a section.
\<close>

definition one_word :: "string \<Rightarrow> bool" where
  "one_word s \<longleftrightarrow> s \<noteq> [] \<and> list_all (\<lambda>c. \<not> is_space c) s"

definition heading_free :: "string \<Rightarrow> bool" where
  "heading_free s \<longleftrightarrow> cut_at True s = [s]"

definition plain_section :: "raw_section \<Rightarrow> bool" where
  "plain_section s \<longleftrightarrow>
     one_word (sec_ts s) \<and> one_word (sec_kind s) \<and> list_all (\<lambda>c. c \<noteq> CHR '']'' \<and> \<not> is_eol c) (sec_conv s)
     \<and> (case sec_tag s of None \<Rightarrow> True | Some t \<Rightarrow> one_word t) \<and> heading_free (trim (sec_body s))"

text \<open>The body as it comes back.\<close>

definition stored :: "raw_section \<Rightarrow> raw_section" where
  "stored s = s\<lparr>sec_body := if trim (sec_body s) = EMPTY_BODY then [] else trim (sec_body s)\<rparr>"

lemma one_word_take: "one_word w \<Longrightarrow> takeWhile (\<lambda>c. \<not> is_space c) (w @ CHR '' '' # r) = w"
  "one_word w \<Longrightarrow> dropWhile (\<lambda>c. \<not> is_space c) (w @ CHR '' '' # r) = CHR '' '' # r"
  by (auto simp: one_word_def list_all_iff takeWhile_append2 dropWhile_append2 is_space_def)

lemma one_word_hd: "one_word w \<Longrightarrow> dropWhile is_space (w @ r) = w @ r"
  by (cases w) (auto simp: one_word_def)

lemma is_space_blank [simp]: "is_space (CHR '' '')" "\<not> is_space (CHR ''['')"
  by (simp_all add: is_space_def)

lemma HEADER_render:
  assumes "one_word ts" "one_word kind" "CHR '']'' \<notin> set conv" "case tag of None \<Rightarrow> True | Some t \<Rightarrow> one_word t"
  shows "HEADER (ts @ '' '' @ kind @ '' ['' @ conv @ '']'' @ (if truthy tag then '' '' @ the tag else [])) = Some (ts, kind, conv, tag)"
proof -
  define t where "t = (if truthy tag then '' '' @ the tag else [])"
  have free: "\<And>x. x \<in> set conv \<Longrightarrow> x \<noteq> CHR '']''" using assms(3) by blast
  have conv: "takeWhile (\<lambda>c. c \<noteq> CHR '']'') (conv @ CHR '']'' # t) = conv" "dropWhile (\<lambda>c. c \<noteq> CHR '']'') (conv @ CHR '']'' # t) = CHR '']'' # t"
    using free by (auto simp: takeWhile_append2 dropWhile_append2)
  have tag: "(if takeWhile is_space t \<noteq> [] \<and> word_of (dropWhile is_space t) \<noteq> [] then Some (word_of (dropWhile is_space t)) else None) = tag"
  proof (cases tag)
    case (Some w)
    with assms(4) have "one_word w" by simp
    with Some show ?thesis
      by (cases w) (auto simp: t_def truthy_def one_word_def list_all_iff takeWhile_eq_all_conv)
  qed (simp add: t_def)
  from assms(1, 2) have "ts \<noteq> []" "kind \<noteq> []" by (simp_all add: one_word_def)
  then show ?thesis unfolding t_def [symmetric]
    using one_word_hd [OF assms(2)] tag by (simp add: HEADER_def Let_def one_word_take assms conv)
qed

lemma line_break: "list_all (\<lambda>c. \<not> is_eol c) h \<Longrightarrow> takeWhile (\<lambda>c. c \<noteq> CHR 0x0A) (h @ CHR 0x0A # r) = h"
  "list_all (\<lambda>c. \<not> is_eol c) h \<Longrightarrow> dropWhile (\<lambda>c. c \<noteq> CHR 0x0A) (h @ CHR 0x0A # r) = CHR 0x0A # r"
  by (auto simp: list_all_iff is_eol_def takeWhile_append2 dropWhile_append2)

lemma no_space_no_eol: "\<not> is_space c \<Longrightarrow> \<not> is_eol c"
  by (auto simp: is_space_def is_eol_def)

lemma one_word_no_eol: "one_word w \<Longrightarrow> list_all (\<lambda>c. \<not> is_eol c) w"
  by (simp add: one_word_def list_all_iff no_space_no_eol)

lemma list_all_conj: "list_all (\<lambda>c. P c \<and> Q c) s \<longleftrightarrow> list_all P s \<and> list_all Q s"
  by (auto simp: list_all_iff)

lemma trim_newline: "trim (s @ [CHR 0x0A]) = trim s"
proof -
  have n: "is_space (CHR 0x0A)" by (simp add: is_space_def)
  show ?thesis
  proof (cases "list_all is_space s")
    case True
    then have "dropWhile is_space s = []" by (simp only: dropWhile_eq_Nil_conv list_all_iff)
    moreover from True n have "dropWhile is_space (s @ [CHR 0x0A]) = []"
      by (simp only: dropWhile_eq_Nil_conv list_all_iff) auto
    ultimately show ?thesis by (simp only: trim_def)
  next
    case False
    then have "dropWhile is_space (s @ [CHR 0x0A]) = dropWhile is_space s @ [CHR 0x0A]"
      by (auto simp: list_all_iff dropWhile_append1)
    with n show ?thesis by (simp add: trim_def)
  qed
qed

lemma trim_newlines: "trim (s @ [CHR 0x0A, CHR 0x0A]) = trim s"
  using trim_newline [of "s @ [CHR 0x0A]"] by (simp add: trim_newline)

lemma trim_ends: "trim s = [] \<or> (\<not> is_space (hd (trim s)) \<and> \<not> is_space (last (trim s)))"
proof -
  have l: "u = [] \<or> \<not> is_space (hd u)" if "u = dropWhile is_space v" for u v
    using that hd_dropWhile [of is_space v] by (cases "u = []") auto
  show ?thesis
  proof (cases "trim s = []")
    case False
    define a where "a = dropWhile is_space s"
    have t: "trim s = rev (dropWhile is_space (rev a))" by (simp add: trim_def a_def)
    from False t have ne: "dropWhile is_space (rev a) \<noteq> []" by auto
    have "\<not> is_space (last (trim s))" unfolding t last_rev by (rule hd_dropWhile [OF ne])
    moreover have "\<exists>z. a = trim s @ z"
      by (metis t rev_append rev_rev_ident takeWhile_dropWhile_id)
    then have "hd (trim s) = hd a" "a \<noteq> []" using False by auto
    then have "\<not> is_space (hd (trim s))" using l [OF a_def] by simp
    ultimately show ?thesis by simp
  qed simp
qed

lemma trim_twice [simp]: "trim (trim s) = trim s"
  by (rule trim_id [OF trim_ends])

lemma parse_section_newline: "parse_section (s @ newline) = parse_section s"
proof (cases "CHR 0x0A \<in> set s")
  case True
  then obtain u v where s: "s = u @ CHR 0x0A # v" "CHR 0x0A \<notin> set u" by (auto dest: split_list_first)
  then have "\<And>x. x \<in> set u \<Longrightarrow> x \<noteq> CHR 0x0A" by blast
  then have "takeWhile (\<lambda>c. c \<noteq> CHR 0x0A) (u @ CHR 0x0A # w) = u" "dropWhile (\<lambda>c. c \<noteq> CHR 0x0A) (u @ CHR 0x0A # w) = CHR 0x0A # w" for w
    by (simp_all add: takeWhile_append2 dropWhile_append2)
  then show ?thesis by (simp add: parse_section_def newline_def s(1) trim_newline split: option.split)
next
  case False
  then have free: "\<And>x. x \<in> set s \<Longrightarrow> x \<noteq> CHR 0x0A" by blast
  then have eqs: "takeWhile (\<lambda>c. c \<noteq> CHR 0x0A) (s @ newline) = s" "takeWhile (\<lambda>c. c \<noteq> CHR 0x0A) s = s"
    "dropWhile (\<lambda>c. c \<noteq> CHR 0x0A) (s @ newline) = newline" "dropWhile (\<lambda>c. c \<noteq> CHR 0x0A) s = []"
    by (auto simp: newline_def takeWhile_append2 dropWhile_append2 takeWhile_eq_all_conv dropWhile_eq_Nil_conv)
  show ?thesis unfolding parse_section_def eqs by (simp add: newline_def split: option.split)
qed

text \<open>The text of a rendered section behind its heading marks.\<close>

definition header_text :: "raw_section \<Rightarrow> string" where
  "header_text s = sec_ts s @ '' '' @ sec_kind s @ '' ['' @ sec_conv s @ '']'' @ (if truthy (sec_tag s) then '' '' @ the (sec_tag s) else [])"

definition body_text :: "raw_section \<Rightarrow> string" where
  "body_text s = (if trim (sec_body s) \<noteq> [] then trim (sec_body s) else EMPTY_BODY)"

lemma render_parts: "render_log_section s @ newline = ''### '' @ header_text s @ newline @ newline @ body_text s @ newline @ newline"
  by (simp add: render_log_section_def header_text_def body_text_def newline_def)

lemma header_text_line: "plain_section s \<Longrightarrow> list_all (\<lambda>c. \<not> is_eol c) (header_text s)"
  by (cases "sec_tag s")
    (simp_all add: plain_section_def header_text_def one_word_no_eol truthy_def list_all_conj)

lemma body_heading_free:
  assumes "plain_section s"
  shows "cut_at True (body_text s) = [body_text s]"
proof -
  have "cut_at True EMPTY_BODY = [EMPTY_BODY]" by code_simp
  with assms show ?thesis by (simp add: body_text_def plain_section_def heading_free_def)
qed

lemma rendered_is_one_section:
  assumes "plain_section s"
  shows "cut_at False (header_text s @ newline @ newline @ body_text s @ newline @ newline)
    = [header_text s @ newline @ newline @ body_text s @ newline @ newline]"
proof -
  let ?h = "header_text s @ newline @ newline"
  have "cut_at False ((header_text s @ newline) @ newline) = [?h]"
    by (simp only: cut_newline cut_no_eol [OF header_text_line [OF assms]]) simp
  moreover have "cut_at True ((body_text s @ newline) @ newline) = [body_text s @ newline @ newline]"
    by (simp only: cut_newline body_heading_free [OF assms]) simp
  moreover have "is_eol (last ?h)" "?h \<noteq> []" by (simp_all add: newline_def is_eol_def)
  ultimately show ?thesis using cut_append [of ?h False "body_text s @ newline @ newline"] by simp
qed

lemma parse_rendered:
  assumes "plain_section s"
  shows "parse_section (header_text s @ newline @ newline @ body_text s @ newline @ newline) = Some (stored s)"
proof -
  let ?r = "newline @ body_text s @ newline @ newline"
  have "HEADER (header_text s) = Some (sec_ts s, sec_kind s, sec_conv s, sec_tag s)"
    using assms unfolding header_text_def plain_section_def
    by (intro HEADER_render) (auto simp: list_all_iff split: option.splits)
  moreover have "trim ?r = trim (body_text s)"
  proof -
    have "trim (newline @ x) = trim x" for x by (simp add: trim_def newline_def is_space_def)
    then show ?thesis by (simp add: newline_def trim_newlines)
  qed
  moreover have "trim EMPTY_BODY = EMPTY_BODY" by code_simp
  then have "(if trim (body_text s) = EMPTY_BODY then [] else trim (body_text s)) = sec_body (stored s)"
    by (auto simp: body_text_def stored_def)
  ultimately show ?thesis
    using line_break [OF header_text_line [OF assms], of ?r]
    by (simp add: parse_section_def newline_def Let_def stored_def)
qed

text \<open>What is in the file before the section goes in, and how it is cut.\<close>

definition before_append :: "string option \<Rightarrow> string \<Rightarrow> string" where
  "before_append file header =
     (let c = (case file of None \<Rightarrow> header | Some c \<Rightarrow> c) in if c = [] \<or> last c = CHR 0x0A then c else c @ newline)"

lemma append_section_log_parts:
  "append_section_log file header s = before_append file header @ render_log_section s @ newline"
  by (simp add: append_section_log_def append_file_guarded_def before_append_def ends_with_newline_def Let_def split: option.split)

lemma map_filter_snoc: "List.map_filter f (xs @ [x]) = List.map_filter f xs @ (case f x of None \<Rightarrow> [] | Some y \<Rightarrow> [y])"
  by (simp add: List.map_filter_def split: option.split)

lemma parse_before_append:
  "parse_section_log (before_append file header) = read_section_log (Some (case file of None \<Rightarrow> header | Some c \<Rightarrow> c))"
proof -
  have "parse_section_log (c @ newline) = parse_section_log c" for c
  proof -
    obtain ps p where c: "cut_at True c = ps @ [p]" by (metis cut_not_Nil rev_exhaust)
    show ?thesis
      by (cases ps) (simp_all add: parse_section_log_def sections_def cut_newline c map_filter_snoc parse_section_newline)
  qed
  then show ?thesis by (simp add: before_append_def read_section_log_def Let_def split: option.split)
qed

lemma append_reads_back:
  assumes "plain_section s"
  shows "parse_section_log (append_section_log file header s)
    = read_section_log (Some (case file of None \<Rightarrow> header | Some c \<Rightarrow> c)) @ [stored s]"
proof -
  have "is_eol (last (before_append file header)) \<or> before_append file header = []"
    by (auto simp: before_append_def Let_def newline_def is_eol_def)
  then have "cut_at True (append_section_log file header s) = cut_at True (before_append file header)
      @ [header_text s @ newline @ newline @ body_text s @ newline @ newline]"
    unfolding append_section_log_parts render_parts by (subst cut_line_start) (auto simp: rendered_is_one_section [OF assms])
  then have "sections (append_section_log file header s)
      = sections (before_append file header) @ [header_text s @ newline @ newline @ body_text s @ newline @ newline]"
    by (simp add: sections_def)
  then show ?thesis
    by (simp add: parse_section_log_def map_filter_snoc parse_rendered [OF assms] flip: parse_before_append)
qed

lemma LOG_is_empty: "cut_at True header = [header] \<Longrightarrow> parse_section_log header = []"
  by (simp add: parse_section_log_def sections_def map_filter_simps)

subsection \<open>The log is a list\<close>

text \<open>
  What is appended is what is read: whatever is in the file, plain sections appended to it read
  back in order behind everything that could be read before, with their bodies trimmed.
\<close>

theorem section_log_roundtrip:
  assumes "list_all plain_section ss"
  shows "parse_section_log (foldl (\<lambda>c s. append_section_log (Some c) header s) content ss)
    = parse_section_log content @ map stored ss"
  using assms
proof (induction ss arbitrary: content)
  case (Cons s ss)
  then show ?case using append_reads_back [of s "Some content" header] by (simp add: read_section_log_def)
qed simp

definition sample_section :: "string \<Rightarrow> raw_section" where
  "sample_section body =
     \<lparr>sec_ts = ''2026-08-22T02:00:00.000Z'', sec_kind = ''verdict'', sec_conv = ''conv'', sec_tag = Some ''e/c'', sec_body = body\<rparr>"

theorem section_log_roundtrip_witness:
  "parse_section_log (foldl (\<lambda>c s. append_section_log (Some c) [] s) ''torn'' [sample_section ''one'', sample_section '' two ''])
     = parse_section_log ''torn'' @ [sample_section ''one'', sample_section ''two'']"
proof -
  have plain: "list_all plain_section [sample_section ''one'', sample_section '' two '']" by code_simp
  have "map stored [sample_section ''one'', sample_section '' two ''] = [sample_section ''one'', sample_section ''two'']" by code_simp
  then show ?thesis using section_log_roundtrip [OF plain, of "[]" "''torn''"] by simp
qed

lemma cut_prefix: "cut_at b (u @ v) = [u @ v] \<Longrightarrow> cut_at b u = [u]"
proof (induction u arbitrary: b)
  case (Cons c u)
  have not: "\<not> (b \<and> take 4 (c # u @ v) = ''### '')"
  proof
    assume h: "b \<and> take 4 (c # u @ v) = ''### ''"
    then have "cut_at b (c # u @ v) = [] # cut_at False (drop 3 (u @ v))" by (simp add: cut_at.simps(2))
    with Cons.prems show False by simp
  qed
  then have "cut_at b (c # u @ v) = (c # hd (cut_at (is_eol c) (u @ v))) # tl (cut_at (is_eol c) (u @ v))" by (rule cut_plain)
  with Cons.prems have "hd (cut_at (is_eol c) (u @ v)) = u @ v" "tl (cut_at (is_eol c) (u @ v)) = []" by simp_all
  then have "cut_at (is_eol c) (u @ v) = [u @ v]" by (metis cut_not_Nil list.collapse)
  then have rest: "cut_at (is_eol c) u = [u]" by (rule Cons.IH)
  have "\<not> (b \<and> take 4 (c # u) = ''### '')"
  proof
    assume h: "b \<and> take 4 (c # u) = ''### ''"
    then have "take 4 (c # u) = ''### ''" by (rule conjunct2)
    from arg_cong [OF this, of length] have "4 \<le> length (c # u)" by simp
    with h have "take 4 ((c # u) @ v) = ''### ''" unfolding take_append by simp
    with h not show False by simp
  qed
  from cut_plain [OF this] rest show ?case by simp
qed simp

text \<open>
  C32: a torn append costs one entry: if a crash leaves any prefix of an append of at least the four
  heading characters at the end of the file, all entries before it still read as they did, the torn
  one is lost or cut short, and the next append reads back whole.
\<close>

theorem torn_append_costs_one_entry:
  assumes "plain_section torn" "plain_section s" "4 \<le> n"
  shows "\<exists>lost. parse_section_log (append_section_log (Some (before_append file header @ take n (render_log_section torn @ newline))) header s)
      = parse_section_log (before_append file header) @ lost @ [stored s] \<and> length lost \<le> 1"
proof -
  define rest where "rest = header_text torn @ newline @ newline @ body_text torn @ newline @ newline"
  have "take n (''### '' @ rest) = ''### '' @ take (n - 4) rest"
  proof -
    from assms(3) obtain m where "n = 4 + m" by (metis le_Suc_ex)
    then show ?thesis by (simp add: eval_nat_numeral)
  qed
  then have cutoff: "take n (render_log_section torn @ newline) = ''### '' @ take (n - 4) rest"
    unfolding render_parts rest_def [symmetric] .
  have "cut_at False rest = [rest]" unfolding rest_def by (rule rendered_is_one_section [OF assms(1)])
  then have "cut_at False (take (n - 4) rest) = [take (n - 4) rest]" using cut_prefix [of False "take (n - 4) rest" "drop (n - 4) rest"] by simp
  moreover have "before_append file header = [] \<or> is_eol (last (before_append file header))"
    by (auto simp: before_append_def Let_def newline_def is_eol_def)
  ultimately have "cut_at True (before_append file header @ ''### '' @ take (n - 4) rest) = cut_at True (before_append file header) @ [take (n - 4) rest]"
    using cut_line_start by simp
  then have "parse_section_log (before_append file header @ ''### '' @ take (n - 4) rest)
      = parse_section_log (before_append file header) @ (case parse_section (take (n - 4) rest) of None \<Rightarrow> [] | Some y \<Rightarrow> [y])"
    by (simp add: parse_section_log_def sections_def map_filter_snoc)
  with append_reads_back [OF assms(2), of "Some (before_append file header @ take n (render_log_section torn @ newline))" header]
  show ?thesis unfolding cutoff by (intro exI conjI) (auto simp: read_section_log_def split: option.split)
qed

theorem torn_append_costs_one_entry_witness:
  "\<exists>lost. parse_section_log (append_section_log (Some (before_append None ''# Log'' @ take 20 (render_log_section (sample_section ''a'') @ newline))) ''# Log'' (sample_section ''b''))
      = parse_section_log (before_append None ''# Log'') @ lost @ [stored (sample_section ''b'')] \<and> length lost \<le> 1"
proof -
  have "plain_section (sample_section ''a'')" "plain_section (sample_section ''b'')" by code_simp+
  then show ?thesis by (rule torn_append_costs_one_entry) simp
qed

end
