(* ===== verification/EpicLog.thy ===== *)
theory EpicLog
  imports JsDate EpicCards EpicLease SectionLog
begin

section \<open>The baton\<close>

text \<open>
  The append-only log of a run: \<open>src/shared/epic-log.ts\<close>, its tag slot \<open>epic-log-tag.ts\<close>, the seats
  that were sent out and have not attached yet (\<open>epic-pending-seats.ts\<close>), and the two questions
  \<open>broker/epic-sweep.ts\<close> asks of it. The file is the section log of \<open>SectionLog\<close>; \<open>baton_append\<close> says
  on the list of entries what an append is meant to do, and the file is proved to do it.
\<close>

datatype log_kind =
    K_Intent | K_Dispatch | K_Dispatch_Failed | K_Completion | K_Verdict | K_Blocked | K_Merge | K_Steering
  | K_Checkpoint | K_Werk_Master_Lost | K_Record | K_Friction

fun kind_word :: "log_kind \<Rightarrow> string" where
  "kind_word K_Intent = ''intent''"
| "kind_word K_Dispatch = ''dispatch''"
| "kind_word K_Dispatch_Failed = ''dispatch-failed''"
| "kind_word K_Completion = ''completion''"
| "kind_word K_Verdict = ''verdict''"
| "kind_word K_Blocked = ''blocked''"
| "kind_word K_Merge = ''merge''"
| "kind_word K_Steering = ''steering''"
| "kind_word K_Checkpoint = ''checkpoint''"
| "kind_word K_Werk_Master_Lost = ''werk-master-lost''"
| "kind_word K_Record = ''record''"
| "kind_word K_Friction = ''friction''"

definition KINDS :: "log_kind list" where
  "KINDS = [K_Intent, K_Dispatch, K_Dispatch_Failed, K_Completion, K_Verdict, K_Blocked, K_Merge, K_Steering,
     K_Checkpoint, K_Werk_Master_Lost, K_Record, K_Friction]"

definition as_epic_log_kind :: "string \<Rightarrow> log_kind" where
  "as_epic_log_kind w = (case find (\<lambda>k. kind_word k = w) KINDS of Some k \<Rightarrow> k | None \<Rightarrow> K_Intent)"

record log_entry =
  entry_ts :: string
  entry_kind :: log_kind
  entry_conv :: string
  entry_epic :: "string option"
  entry_card :: "string option"
  entry_body :: string

subsection \<open>The tag slot\<close>

record baton_tag =
  tag_epic :: string
  tag_card :: "string option"

definition compose_baton_tag :: "string option \<Rightarrow> string option \<Rightarrow> string option" where
  "compose_baton_tag e c =
     (if \<not> truthy e then (if truthy c then c else None)
      else if truthy c then Some (the e @ ''/'' @ the c) else Some (the e @ ''/''))"

definition parse_baton_tag :: "string option \<Rightarrow> string \<Rightarrow> baton_tag" where
  "parse_baton_tag tag log_epic =
     (if \<not> truthy tag then \<lparr>tag_epic = log_epic, tag_card = None\<rparr>
      else
        let t = the tag; before = takeWhile (\<lambda>c. c \<noteq> CHR ''/'') t; after = drop 1 (dropWhile (\<lambda>c. c \<noteq> CHR ''/'') t)
        in if CHR ''/'' \<notin> set t then \<lparr>tag_epic = log_epic, tag_card = Some t\<rparr>
           else \<lparr>tag_epic = (if before \<noteq> [] then before else log_epic),
                 tag_card = (if after \<noteq> [] then Some after else None)\<rparr>)"

subsection \<open>Appending\<close>

definition is_machine_acknowledgement :: "log_entry \<Rightarrow> bool" where
  "is_machine_acknowledgement e \<longleftrightarrow> entry_kind e = K_Completion \<and> entry_conv e = ''broker'' \<and> truthy (entry_card e)"

definition same_settle :: "log_entry \<Rightarrow> log_entry \<Rightarrow> bool" where
  "same_settle a b \<longleftrightarrow> entry_card a = entry_card b \<and> entry_epic a = entry_epic b"

record log_append =
  append_kind :: log_kind
  append_conv :: string
  append_body :: string
  append_epic :: "string option"
  append_card :: "string option"
  append_ts :: "string option"

definition entry_of :: "string \<Rightarrow> log_append \<Rightarrow> int \<Rightarrow> log_entry" where
  "entry_of epic_id a now =
     \<lparr>entry_ts = (case append_ts a of None \<Rightarrow> to_iso now | Some t \<Rightarrow> t), entry_kind = append_kind a,
      entry_conv = (if append_conv a = [] then ''unknown'' else append_conv a),
      entry_epic = Some (if truthy (append_epic a) then the (append_epic a) else epic_id),
      entry_card = (if truthy (append_card a) then append_card a else None), entry_body = append_body a\<rparr>"

definition to_section :: "log_entry \<Rightarrow> raw_section" where
  "to_section e =
     \<lparr>sec_ts = entry_ts e, sec_kind = kind_word (entry_kind e), sec_conv = entry_conv e,
      sec_tag = compose_baton_tag (entry_epic e) (entry_card e), sec_body = entry_body e\<rparr>"

definition of_section :: "string \<Rightarrow> raw_section \<Rightarrow> log_entry" where
  "of_section epic_id s =
     (let t = parse_baton_tag (sec_tag s) epic_id
      in \<lparr>entry_ts = sec_ts s, entry_kind = as_epic_log_kind (sec_kind s), entry_conv = sec_conv s,
          entry_epic = Some (tag_epic t), entry_card = (if truthy (tag_card t) then tag_card t else None),
          entry_body = sec_body s\<rparr>)"

definition read_epic_log :: "string option \<Rightarrow> string \<Rightarrow> log_entry list" where
  "read_epic_log file epic_id = map (of_section epic_id) (read_section_log file)"

definition LOG_HEADER :: string where
  "LOG_HEADER = ''# Epic Baton'' @ newline @ newline
     @ ''Append-only. Every werk-master generation reads this and nothing else about the past.'' @ newline @ newline"

text \<open>The file after the append, and the entry the caller is told.\<close>

definition append_epic_log :: "string \<Rightarrow> log_append \<Rightarrow> int \<Rightarrow> string option \<Rightarrow> string option \<times> log_entry" where
  "append_epic_log epic_id a now file =
     (let e = entry_of epic_id a now; write = Some (append_section_log file LOG_HEADER (to_section e))
      in if is_machine_acknowledgement e then
           (case find (\<lambda>x. is_machine_acknowledgement x \<and> same_settle x e) (read_epic_log file epic_id) of
              Some x \<Rightarrow> (file, x) | None \<Rightarrow> (write, e))
         else (write, e))"

text \<open>The same on the list of entries: what an append is meant to do.\<close>

definition baton_append :: "string \<Rightarrow> log_append \<Rightarrow> int \<Rightarrow> log_entry list \<Rightarrow> log_entry list \<times> log_entry" where
  "baton_append epic_id a now baton =
     (let e = entry_of epic_id a now
      in if is_machine_acknowledgement e then
           (case find (\<lambda>x. is_machine_acknowledgement x \<and> same_settle x e) baton of
              Some x \<Rightarrow> (baton, x) | None \<Rightarrow> (baton @ [e], e))
         else (baton @ [e], e))"

subsection \<open>Reading\<close>

record baton_query =
  query_limit :: "int option"
  query_kinds :: "log_kind list option"
  query_card :: "string option"

definition slice_epic_log :: "log_entry list \<Rightarrow> baton_query \<Rightarrow> log_entry list" where
  "slice_epic_log entries q =
     (let kinds = (case query_kinds q of None \<Rightarrow> [] | Some ks \<Rightarrow> ks);
          matched = filter (\<lambda>e. (kinds = [] \<or> entry_kind e \<in> set kinds)
            \<and> (\<not> truthy (query_card q) \<or> entry_card e = query_card q)) entries;
          n = (case query_limit q of None \<Rightarrow> 20 | Some k \<Rightarrow> if k > 0 then nat k else 20)
      in if n \<ge> length matched then matched else drop (length matched - n) matched)"

definition ACKNOWLEDGING_KINDS :: "log_kind list" where
  "ACKNOWLEDGING_KINDS = [K_Completion, K_Verdict]"

definition acknowledged_card_ids :: "log_entry list \<Rightarrow> string list" where
  "acknowledged_card_ids entries =
     js_set (map (\<lambda>e. the (entry_card e))
       (filter (\<lambda>e. entry_kind e \<in> set ACKNOWLEDGING_KINDS \<and> truthy (entry_card e)) entries))"

definition dispatch_counts_by_card :: "log_entry list \<Rightarrow> string \<rightharpoonup> nat" where
  "dispatch_counts_by_card entries =
     foldl (\<lambda>m e. if entry_kind e \<noteq> K_Dispatch \<or> \<not> truthy (entry_card e) then m
         else m(the (entry_card e) \<mapsto> (case m (the (entry_card e)) of None \<Rightarrow> 0 | Some n \<Rightarrow> n) + 1))
       Map.empty entries"

subsection \<open>Seats that have not attached\<close>

definition SEAT_ATTACH_GRACE_MS :: int where
  "SEAT_ATTACH_GRACE_MS = 5 * 60 * 1000"

definition RESOLVING_KINDS :: "log_kind list" where
  "RESOLVING_KINDS = [K_Completion, K_Verdict]"

record pending_seat_input =
  pending_baton :: "log_entry list"
  known_conv_ids :: "string list"
  pending_now :: int
  grace_ms :: "int option"

definition pending_step :: "string list \<Rightarrow> int \<Rightarrow> int \<Rightarrow> string list \<Rightarrow> log_entry \<Rightarrow> string list" where
  "pending_step known now grace cards e =
     (if entry_kind e \<in> set RESOLVING_KINDS \<and> truthy (entry_card e)
      then filter (\<lambda>c. Some c \<noteq> entry_card e) cards
      else if entry_kind e \<noteq> K_Dispatch \<or> \<not> truthy (entry_card e) \<or> entry_conv e = [] then cards
      else if entry_conv e \<in> set known then cards
      else case date_parse (entry_ts e) of
        None \<Rightarrow> cards
      | Some t \<Rightarrow> if now - t < grace then (if the (entry_card e) \<in> set cards then cards else cards @ [the (entry_card e)]) else cards)"

definition pending_seat_cards :: "pending_seat_input \<Rightarrow> string list" where
  "pending_seat_cards inp =
     str_sort (foldl (pending_step (known_conv_ids inp) (pending_now inp)
       (case grace_ms inp of None \<Rightarrow> SEAT_ATTACH_GRACE_MS | Some g \<Rightarrow> g)) [] (pending_baton inp))"

definition with_pending_seats :: "string list \<Rightarrow> string list \<Rightarrow> string list" where
  "with_pending_seats lane pending = str_sort (js_set (lane @ pending))"

subsection \<open>What the sweep asks\<close>

record failed_leg =
  leg_card :: string
  leg_conv :: string
  leg_role :: epic_role
  leg_gen :: int

definition unacknowledged_cards :: "string list \<Rightarrow> string list \<Rightarrow> string list" where
  "unacknowledged_cards settled acknowledged = filter (\<lambda>c. c \<notin> set acknowledged) settled"

definition unacknowledged_failed_legs :: "failed_leg list \<Rightarrow> log_entry list \<Rightarrow> failed_leg list" where
  "unacknowledged_failed_legs legs baton =
     filter (\<lambda>l. leg_conv l \<notin> entry_conv ` set (filter (\<lambda>e. entry_kind e = K_Dispatch_Failed) baton)) legs"

subsection \<open>The tag slot\<close>

lemma tag_reads_back:
  assumes "e \<noteq> []" "CHR ''/'' \<notin> set e"
  shows "parse_baton_tag (compose_baton_tag (Some e) c) other = \<lparr>tag_epic = e, tag_card = (if truthy c then c else None)\<rparr>"
proof -
  have cut: "takeWhile (\<lambda>x. x \<noteq> CHR ''/'') (e @ CHR ''/'' # r) = e" "dropWhile (\<lambda>x. x \<noteq> CHR ''/'') (e @ CHR ''/'' # r) = CHR ''/'' # r" for r
    using assms(2) by (induction e) auto
  from assms(1) show ?thesis
    by (cases c) (auto simp: compose_baton_tag_def parse_baton_tag_def cut Let_def truthy_def)
qed

text \<open>
  A tag reads back as what was composed: for an epic id without a separator the epic and the card
  return, a card with separators of its own included; a bare tag of an older log is a card of the
  epic whose log it is in.
\<close>

theorem baton_tag_roundtrip:
  assumes "e \<noteq> []" "CHR ''/'' \<notin> set e"
  shows "parse_baton_tag (compose_baton_tag (Some e) c) other = \<lparr>tag_epic = e, tag_card = (if truthy c then c else None)\<rparr>
    \<and> (if truthy c \<and> CHR ''/'' \<notin> set (the c)
       then parse_baton_tag (compose_baton_tag None c) other = \<lparr>tag_epic = other, tag_card = c\<rparr> else True)"
  using tag_reads_back [OF assms] by (cases c) (simp_all add: compose_baton_tag_def parse_baton_tag_def truthy_def Let_def)

theorem baton_tag_roundtrip_witness:
  "parse_baton_tag (compose_baton_tag (Some ''e'') (Some ''a/b'')) ''f'' = \<lparr>tag_epic = ''e'', tag_card = Some ''a/b''\<rparr>"
  using baton_tag_roundtrip [of "''e''" "Some ''a/b''" "''f''"] by (simp add: truthy_def)

subsection \<open>Append only, and one machine acknowledgement\<close>

definition machine_keys :: "log_entry list \<Rightarrow> (string option \<times> string option) list" where
  "machine_keys baton = map (\<lambda>e. (entry_card e, entry_epic e)) (filter is_machine_acknowledgement baton)"

lemma baton_append_cases:
  obtains (same) x where "baton_append e a now baton = (baton, x)" "x \<in> set baton"
  | (new) "baton_append e a now baton = (baton @ [entry_of e a now], entry_of e a now)"
      "is_machine_acknowledgement (entry_of e a now) \<Longrightarrow>
         (entry_card (entry_of e a now), entry_epic (entry_of e a now)) \<notin> set (machine_keys baton)"
proof (cases "is_machine_acknowledgement (entry_of e a now)
    \<and> find (\<lambda>x. is_machine_acknowledgement x \<and> same_settle x (entry_of e a now)) baton \<noteq> None")
  case True
  then obtain x where "find (\<lambda>x. is_machine_acknowledgement x \<and> same_settle x (entry_of e a now)) baton = Some x" by auto
  moreover from this have "x \<in> set baton" by (auto simp: find_Some_iff)
  ultimately show thesis using True by (intro same [of x]) (simp_all add: baton_append_def Let_def)
next
  case False
  show thesis
  proof (cases "is_machine_acknowledgement (entry_of e a now)")
    case True
    with False have None: "find (\<lambda>x. is_machine_acknowledgement x \<and> same_settle x (entry_of e a now)) baton = None" by simp
    from None have "baton_append e a now baton = (baton @ [entry_of e a now], entry_of e a now)"
      by (simp add: baton_append_def Let_def)
    moreover from None have "\<not> (\<exists>x \<in> set baton. is_machine_acknowledgement x \<and> same_settle x (entry_of e a now))"
      by (auto simp: find_None_iff)
    ultimately show thesis by (intro new) (auto simp: machine_keys_def same_settle_def)
  next
    case noack: False
    then show thesis by (intro new) (simp_all add: baton_append_def Let_def)
  qed
qed

fun append_all :: "string \<Rightarrow> (log_append \<times> int) list \<Rightarrow> log_entry list \<Rightarrow> log_entry list" where
  "append_all e [] baton = baton"
| "append_all e ((a, now) # as) baton = append_all e as (fst (baton_append e a now baton))"

lemma append_all_keeps:
  "take (length baton) (append_all e as baton) = baton
    \<and> (if distinct (machine_keys baton) then distinct (machine_keys (append_all e as baton)) else True)"
proof (induction as arbitrary: baton)
  case (Cons x as)
  obtain a now where x: "x = (a, now)" by (cases x)
  show ?case
  proof (cases rule: baton_append_cases [of e a now baton])
    case (same y)
    with Cons.IH [of baton] x show ?thesis by simp
  next
    case new
    let ?b = "baton @ [entry_of e a now]"
    from Cons.IH [of ?b] have "take (length ?b) (append_all e as ?b) = ?b" by blast
    then have "take (length baton) (take (length ?b) (append_all e as ?b)) = take (length baton) ?b" by simp
    then have "take (length baton) (append_all e as ?b) = baton" by simp
    moreover have "distinct (machine_keys ?b)" if "distinct (machine_keys baton)"
      using that new(2) by (auto simp: machine_keys_def)
    ultimately show ?thesis using Cons.IH [of ?b] x new(1) by auto
  qed
qed simp

subsection \<open>The file does it\<close>

definition plain_append :: "string \<Rightarrow> log_append \<Rightarrow> bool" where
  "plain_append epic_id a \<longleftrightarrow>
     (case append_ts a of None \<Rightarrow> True | Some t \<Rightarrow> one_word t)
     \<and> list_all (\<lambda>c. c \<noteq> CHR '']'' \<and> \<not> is_eol c) (append_conv a)
     \<and> one_word (if truthy (append_epic a) then the (append_epic a) else epic_id)
     \<and> CHR ''/'' \<notin> set (if truthy (append_epic a) then the (append_epic a) else epic_id)
     \<and> (if truthy (append_card a) then one_word (the (append_card a)) else True)
     \<and> heading_free (append_body a) \<and> trim (append_body a) = append_body a \<and> append_body a \<noteq> EMPTY_BODY"

lemma kind_word_reads_back: "as_epic_log_kind (kind_word k) = k"
  by (cases k) (simp_all add: as_epic_log_kind_def KINDS_def)

lemma kind_one_word: "one_word (kind_word k)"
  by (cases k) (simp_all add: one_word_def is_space_def)

lemma one_word_append: "one_word a \<Longrightarrow> list_all (\<lambda>c. \<not> is_space c) b \<Longrightarrow> one_word (a @ b)"
  by (simp add: one_word_def)

lemma pad_word: "list_all (\<lambda>c. \<not> is_space c) (pad w n)"
  using digits_pad [of w n] by (auto simp: list_all_iff digit_not_space)

lemma to_iso_word: "one_word (to_iso now)"
proof -
  have "\<not> is_space (CHR ''-'')" "\<not> is_space (CHR ''+'')" "\<not> is_space (CHR ''T'')" "\<not> is_space (CHR '':'')"
    "\<not> is_space (CHR ''.'')" "\<not> is_space (CHR ''Z'')"
    by (simp_all add: is_space_def)
  then show ?thesis by (auto simp: to_iso_def one_word_def year_str_def pad_word Let_def split: prod.splits)
qed

lemma entry_reads_back:
  assumes "plain_append e a"
  shows "of_section e (stored (to_section (entry_of e a now))) = entry_of e a now"
    and "plain_section (to_section (entry_of e a now))"
proof -
  let ?e = "if truthy (append_epic a) then the (append_epic a) else e"
  let ?c = "if truthy (append_card a) then append_card a else None"
  have e: "?e \<noteq> []" "CHR ''/'' \<notin> set ?e" "one_word ?e"
    and body: "heading_free (append_body a)" "trim (append_body a) = append_body a" "append_body a \<noteq> EMPTY_BODY"
    and conv: "list_all (\<lambda>c. c \<noteq> CHR '']'' \<and> \<not> is_eol c) (append_conv a)"
    using assms by (simp_all add: plain_append_def one_word_def)
  have c: "(if truthy ?c then ?c else None) = ?c" by simp
  show "of_section e (stored (to_section (entry_of e a now))) = entry_of e a now"
    using tag_reads_back [OF e(1, 2), of ?c e] body
    by (simp add: of_section_def to_section_def entry_of_def stored_def kind_word_reads_back Let_def)
  have "one_word (the (compose_baton_tag (Some ?e) ?c))" "compose_baton_tag (Some ?e) ?c \<noteq> None"
  proof -
    show "compose_baton_tag (Some ?e) ?c \<noteq> None" using e(1) by (simp add: compose_baton_tag_def truthy_def)
    have "one_word (?e @ ''/'' @ x)" if "list_all (\<lambda>c. \<not> is_space c) x" for x
      using e(3) that by (intro one_word_append) (simp_all add: is_space_def)
    moreover have "list_all (\<lambda>c. \<not> is_space c) (the ?c)" if "truthy ?c"
      using assms that by (auto simp: plain_append_def one_word_def split: if_split_asm)
    ultimately show "one_word (the (compose_baton_tag (Some ?e) ?c))" using e(1)
      by (auto simp: compose_baton_tag_def truthy_def dest: spec [of _ "[]"])
  qed
  moreover have "list_all (\<lambda>c. c \<noteq> CHR '']'' \<and> \<not> is_eol c) ''unknown''" by (simp add: is_eol_def)
  moreover have "one_word (case append_ts a of None \<Rightarrow> to_iso now | Some t \<Rightarrow> t)"
    using assms to_iso_word by (auto simp: plain_append_def split: option.splits)
  ultimately show "plain_section (to_section (entry_of e a now))"
    using body conv unfolding plain_section_def to_section_def entry_of_def
    by (auto simp: kind_one_word split: option.split)
qed

lemma read_header: "read_section_log (Some LOG_HEADER) = []"
proof -
  have "cut_at True LOG_HEADER = [LOG_HEADER]" by code_simp
  then show ?thesis by (simp add: read_section_log_def LOG_is_empty)
qed

lemma append_refines:
  assumes "plain_append e a"
  shows "read_epic_log (fst (append_epic_log e a now baton_file)) e = fst (baton_append e a now (read_epic_log baton_file e))"
    and "snd (append_epic_log e a now baton_file) = snd (baton_append e a now (read_epic_log baton_file e))"
proof -
  have "read_section_log (Some (case baton_file of None \<Rightarrow> LOG_HEADER | Some c \<Rightarrow> c)) = read_section_log baton_file"
    by (cases baton_file) (simp_all add: read_header, simp add: read_section_log_def)
  then have written: "read_epic_log (Some (append_section_log baton_file LOG_HEADER (to_section (entry_of e a now)))) e
      = read_epic_log baton_file e @ [entry_of e a now]"
    using append_reads_back [OF entry_reads_back(2) [OF assms], of baton_file LOG_HEADER] entry_reads_back(1) [OF assms]
    by (simp add: read_epic_log_def read_section_log_def [of "Some (append_section_log _ _ _)"])
  show "read_epic_log (fst (append_epic_log e a now baton_file)) e = fst (baton_append e a now (read_epic_log baton_file e))"
    "snd (append_epic_log e a now baton_file) = snd (baton_append e a now (read_epic_log baton_file e))"
    by (simp_all add: append_epic_log_def baton_append_def Let_def written split: option.split)
qed

fun append_files :: "string \<Rightarrow> (log_append \<times> int) list \<Rightarrow> string option \<Rightarrow> string option" where
  "append_files e [] baton_file = baton_file"
| "append_files e ((a, now) # as) baton_file = append_files e as (fst (append_epic_log e a now baton_file))"

text \<open>
  C29: the file is an append-only list: any sequence of plain appends leaves a file that reads as the
  list of entries would be; what it read as before is a prefix of it, and a settle that had one
  machine acknowledgement still has one.
\<close>

theorem baton_file_is_append_only:
  assumes "list_all (\<lambda>x. plain_append e (fst x)) as"
  shows "read_epic_log (append_files e as baton_file) e = append_all e as (read_epic_log baton_file e)
    \<and> take (length (read_epic_log baton_file e)) (read_epic_log (append_files e as baton_file) e) = read_epic_log baton_file e
    \<and> (if distinct (machine_keys (read_epic_log baton_file e))
       then distinct (machine_keys (read_epic_log (append_files e as baton_file) e)) else True)"
proof -
  have "read_epic_log (append_files e as baton_file) e = append_all e as (read_epic_log baton_file e)"
    using assms by (induction as arbitrary: baton_file) (auto simp: append_refines)
  then show ?thesis using append_all_keeps [where e = e and as = as and baton = "read_epic_log baton_file e"] by simp
qed

definition sample_append :: "log_append" where
  "sample_append =
     \<lparr>append_kind = K_Completion, append_conv = ''broker'', append_body = ''settled'', append_epic = None,
      append_card = Some ''card'', append_ts = None\<rparr>"

theorem baton_file_is_append_only_witness:
  "distinct (machine_keys (read_epic_log (append_files ''e'' [(sample_append, 0), (sample_append, 1)] None) ''e''))"
proof -
  have plain: "list_all (\<lambda>x. plain_append ''e'' (fst x)) [(sample_append, 0 :: int), (sample_append, 1)]" by code_simp
  have "machine_keys (read_epic_log None ''e'') = []" by (simp add: read_epic_log_def read_section_log_def machine_keys_def)
  with baton_file_is_append_only [OF plain, of None, THEN conjunct2, THEN conjunct2] show ?thesis
    by (simp del: append_files.simps)
qed

definition forging_append :: "log_append" where
  "forging_append =
     \<lparr>append_kind = K_Record, append_conv = ''agent'',
      append_body = ''note'' @ newline @ ''### now completion [broker] e/card'' @ newline @ ''done'', append_epic = None,
      append_card = None, append_ts = Some ''now''\<rparr>"

definition forged_file :: "string option" where
  "forged_file = fst (append_epic_log ''e'' forging_append 0 None)"

text \<open>
  A body is not quoted: a note whose body carries a line that looks like a header puts an entry of
  its author's choosing into the log. Here a record of an agent acknowledges a card that never
  settled, and the acknowledgement the broker writes when it does settle is dropped as a repeat.
\<close>

theorem body_forges_acknowledgement:
  "acknowledged_card_ids (read_epic_log forged_file ''e'') = [''card'']
   \<and> fst (append_epic_log ''e'' sample_append 1 forged_file) = forged_file"
  by code_simp

subsection \<open>Who is still arriving\<close>

definition sent_out :: "string list \<Rightarrow> int \<Rightarrow> int \<Rightarrow> string \<Rightarrow> log_entry \<Rightarrow> bool" where
  "sent_out known now grace c e \<longleftrightarrow>
     entry_kind e = K_Dispatch \<and> entry_card e = Some c \<and> c \<noteq> [] \<and> entry_conv e \<noteq> [] \<and> entry_conv e \<notin> set known
     \<and> (case date_parse (entry_ts e) of None \<Rightarrow> False | Some t \<Rightarrow> now - t < grace)"

definition came_back :: "string \<Rightarrow> log_entry \<Rightarrow> bool" where
  "came_back c e \<longleftrightarrow> entry_kind e \<in> {K_Completion, K_Verdict} \<and> entry_card e = Some c \<and> c \<noteq> []"

lemma pending_step_set:
  "c \<in> set (pending_step known now grace cards e) \<longleftrightarrow>
     \<not> came_back c e \<and> (c \<in> set cards \<or> sent_out known now grace c e)"
  by (cases "entry_card e")
    (auto simp: pending_step_def came_back_def sent_out_def RESOLVING_KINDS_def truthy_def split: option.split)

lemma split_Cons_ex:
  "(\<exists>pre e post. x # xs = pre @ e # post \<and> P e \<and> Q post) \<longleftrightarrow> (P x \<and> Q xs) \<or> (\<exists>pre e post. xs = pre @ e # post \<and> P e \<and> Q post)"
proof (rule iffI; elim exE conjE disjE)
  fix pre e post
  assume a: "x # xs = pre @ e # post" "P e" "Q post"
  then show "(P x \<and> Q xs) \<or> (\<exists>pre e post. xs = pre @ e # post \<and> P e \<and> Q post)"
    by (cases pre) auto
next
  assume "P x" "Q xs"
  then have "x # xs = [] @ x # xs \<and> P x \<and> Q xs" by simp
  then show "\<exists>pre e post. x # xs = pre @ e # post \<and> P e \<and> Q post" by blast
next
  fix pre e post
  assume "xs = pre @ e # post" "P e" "Q post"
  then have "x # xs = (x # pre) @ e # post \<and> P e \<and> Q post" by simp
  then show "\<exists>pre e post. x # xs = pre @ e # post \<and> P e \<and> Q post" by blast
qed

lemma pending_fold:
  "c \<in> set (foldl (pending_step known now grace) cards baton) \<longleftrightarrow>
     (c \<in> set cards \<and> list_all (\<lambda>e. \<not> came_back c e) baton)
     \<or> (\<exists>pre e post. baton = pre @ e # post \<and> sent_out known now grace c e \<and> list_all (\<lambda>e. \<not> came_back c e) post)"
proof (induction baton arbitrary: cards)
  case (Cons x baton)
  let ?R = "\<lambda>b. \<exists>pre e post. b = pre @ e # post \<and> sent_out known now grace c e \<and> list_all (\<lambda>e. \<not> came_back c e) post"
  have ex: "?R (x # baton) \<longleftrightarrow> (sent_out known now grace c x \<and> list_all (\<lambda>e. \<not> came_back c e) baton) \<or> ?R baton"
    by (simp only: split_Cons_ex)
  have excl: "\<not> (came_back c x \<and> sent_out known now grace c x)" by (auto simp: came_back_def sent_out_def)
  show ?case unfolding foldl_Cons Cons.IH pending_step_set ex list.pred_inject using excl by argo
qed simp

text \<open>
  A card is held for a seat that has not attached exactly when the log has a dispatch of it within
  the grace, whose conversation the registry has not seen, and no completion or verdict of the card
  after that dispatch.
\<close>

theorem pending_seat_iff:
  "c \<in> set (pending_seat_cards inp) \<longleftrightarrow>
     (\<exists>pre e post. pending_baton inp = pre @ e # post
       \<and> sent_out (known_conv_ids inp) (pending_now inp) (case grace_ms inp of None \<Rightarrow> 300000 | Some g \<Rightarrow> g) c e
       \<and> filter (came_back c) post = [])"
  by (simp add: pending_seat_cards_def pending_fold SEAT_ATTACH_GRACE_MS_def filter_empty_conv list_all_iff
      cong: option.case_cong)

subsection \<open>The tail is not the log\<close>

definition default_query :: baton_query where
  "default_query = \<lparr>query_limit = Some 20, query_kinds = None, query_card = None\<rparr>"

lemma slice_default: "slice_epic_log baton default_query = drop (length baton - 20) baton"
  by (simp add: slice_epic_log_def default_query_def)

text \<open>What \<open>noteFailedLaunches\<close> appends for one leg.\<close>

definition failed_append :: "string \<Rightarrow> failed_leg \<Rightarrow> log_append" where
  "failed_append body l =
     \<lparr>append_kind = K_Dispatch_Failed, append_conv = leg_conv l, append_body = body, append_epic = None,
      append_card = Some (leg_card l), append_ts = None\<rparr>"

text \<open>A beat's pass over the failed legs: it reads the slice the run view carries and notes what it misses.\<close>

definition note_failed :: "string \<Rightarrow> string \<Rightarrow> failed_leg list \<Rightarrow> int \<Rightarrow> log_entry list \<Rightarrow> log_entry list" where
  "note_failed e body legs now baton =
     append_all e (map (\<lambda>l. (failed_append body l, now))
       (unacknowledged_failed_legs legs (slice_epic_log baton default_query))) baton"

lemma append_failed:
  "fst (baton_append e (failed_append body l) now baton) = baton @ [entry_of e (failed_append body l) now]"
  by (simp add: baton_append_def is_machine_acknowledgement_def entry_of_def failed_append_def Let_def)

lemma length_note_failed:
  "length (note_failed e body legs now baton)
     = length baton + length (unacknowledged_failed_legs legs (slice_epic_log baton default_query))"
proof -
  have "length (append_all e (map (\<lambda>l. (failed_append body l, now)) ls) b) = length b + length ls" for ls b
    by (induction ls arbitrary: b) (simp_all add: append_failed)
  then show ?thesis by (simp add: note_failed_def)
qed

text \<open>
  Failed launches are noted for ever: once a run has more than twenty failed seats, every beat
  appends at least one more note for a launch the baton already holds, because a beat compares the
  legs with the twenty-entry tail it was handed and not with the log.
\<close>

theorem failed_launches_noted_for_ever:
  assumes "distinct (map leg_conv legs)" "20 < length legs"
  shows "length baton + length stamps \<le> length (foldl (\<lambda>b now. note_failed e body legs now b) baton stamps)"
proof (induction stamps arbitrary: baton)
  case (Cons now stamps)
  let ?tail = "slice_epic_log baton default_query"
  have "unacknowledged_failed_legs legs ?tail \<noteq> []"
  proof
    assume "unacknowledged_failed_legs legs ?tail = []"
    then have "leg_conv ` set legs \<subseteq> entry_conv ` set ?tail"
      by (auto simp: unacknowledged_failed_legs_def filter_empty_conv)
    then have "card (leg_conv ` set legs) \<le> card (entry_conv ` set ?tail)" by (intro card_mono) simp_all
    also have "\<dots> \<le> length ?tail" by (metis card_length length_map list.set_map)
    also have "\<dots> \<le> 20" by (simp add: slice_default)
    finally show False using assms distinct_card [OF assms(1)] by simp
  qed
  then have "length baton + 1 \<le> length (note_failed e body legs now baton)"
    unfolding length_note_failed by (cases "unacknowledged_failed_legs legs ?tail") simp_all
  with Cons.IH [of "note_failed e body legs now baton"] show ?case by simp
qed simp

definition sample_legs :: "failed_leg list" where
  "sample_legs = map (\<lambda>n. \<lparr>leg_card = ''c'', leg_conv = replicate n (CHR ''x''), leg_role = Werk_Worker, leg_gen = 1\<rparr>) [1..<22]"

theorem failed_launches_noted_for_ever_witness:
  "length (foldl (\<lambda>b now. note_failed ''e'' [] sample_legs now b) [] [0, 45000, 90000]) \<ge> 3"
proof -
  have "distinct (map leg_conv sample_legs)" "20 < length sample_legs" by code_simp+
  from failed_launches_noted_for_ever [OF this, of "[]" "[0, 45000, 90000]" "''e''" "[]"] show ?thesis by simp
qed

text \<open>
  A seat scrolls out of the view: with the twenty-entry tail in place of the log, a card whose
  seat went out a minute ago and has not attached is not held, and would be sent out again into the
  same worktree; the whole log holds it.
\<close>

definition sample_baton :: "log_entry list" where
  "sample_baton =
     \<lparr>entry_ts = ''2026-08-22T02:00:00.000Z'', entry_kind = K_Dispatch, entry_conv = ''conv'', entry_epic = Some ''e'',
      entry_card = Some ''b'', entry_body = []\<rparr>
     # replicate 20 \<lparr>entry_ts = ''2026-08-22T02:00:30.000Z'', entry_kind = K_Record, entry_conv = ''x'', entry_epic = Some ''e'',
         entry_card = None, entry_body = []\<rparr>"

theorem tail_forgets_arriving_seat:
  "pending_seat_cards \<lparr>pending_baton = sample_baton, known_conv_ids = [], pending_now = 1787364060000, grace_ms = None\<rparr> = [''b'']
   \<and> pending_seat_cards \<lparr>pending_baton = slice_epic_log sample_baton default_query, known_conv_ids = [],
        pending_now = 1787364060000, grace_ms = None\<rparr> = []"
  by code_simp

end
