(* ===== verification/Frontmatter.thy ===== *)
theory Frontmatter
  imports JsValue SectionLog
begin

section \<open>Frontmatter\<close>

text \<open>
  \<open>src/shared/frontmatter.ts\<close>: the flat subset of YAML every card, run and quest is stored in. A
  file is a block of \<open>key: value\<close> lines between two fences, and a body. Scalars come back as
  strings, inline lists as lists of strings, and what is nested is kept as its lines. A JavaScript
  object is an association list in insertion order.
\<close>

named_theorems fm_simps \<open>rewriting lines and fences\<close>

type_synonym fm_meta = "(string \<times> js_value) list"
type_synonym raw_blocks = "(string \<times> string list) list"

record front_matter =
  fm_meta :: fm_meta
  fm_body :: string
  fm_raw :: raw_blocks
  has_frontmatter :: bool

subsection \<open>Scalars\<close>

fun replace_all :: "string \<Rightarrow> string \<Rightarrow> string \<Rightarrow> string" where
  "replace_all sub rep [] = []"
| "replace_all sub rep (c # s) =
     (if sub \<noteq> [] \<and> take (length sub) (c # s) = sub then rep @ replace_all sub rep (drop (length sub - 1) s)
      else c # replace_all sub rep s)"

abbreviation backslash :: string where "backslash \<equiv> [CHR 0x5C]"
abbreviation dquote :: string where "dquote \<equiv> [CHR 0x22]"

definition unquote :: "string \<Rightarrow> string" where
  "unquote raw =
     (if length raw < 2 then raw
      else
        let q = hd raw; inner = butlast (tl raw)
        in if (q \<noteq> CHR 0x22 \<and> q \<noteq> CHR 0x27) \<or> last raw \<noteq> q then raw
           else if q = CHR 0x22 then replace_all (backslash @ backslash) backslash (replace_all (backslash @ dquote) dquote inner)
           else inner)"

fun contains :: "string \<Rightarrow> string \<Rightarrow> bool" where
  "contains sub [] = (sub = [])"
| "contains sub (c # s) = (take (length sub) (c # s) = sub \<or> contains sub s)"

definition needs_quoting :: "string \<Rightarrow> bool" where
  "needs_quoting s \<longleftrightarrow>
     s = [] \<or> s \<noteq> trim s \<or> contains '': '' s \<or> last s = CHR '':'' \<or> contains '' #'' s
     \<or> hd s \<in> {CHR ''['', CHR ''{'', CHR 0x22, CHR 0x27, CHR ''#''}"

definition quote :: "string \<Rightarrow> string" where
  "quote s = dquote @ replace_all dquote (backslash @ dquote) (replace_all backslash (backslash @ backslash) s) @ dquote"

definition serialize_scalar :: "string \<Rightarrow> string" where
  "serialize_scalar s = (if needs_quoting s then quote s else s)"

fun serialize_value :: "js_value \<Rightarrow> string option" where
  "serialize_value V_Null = None"
| "serialize_value (V_List vs) = Some (''['' @ join '', '' (map (\<lambda>v. serialize_scalar (to_string v)) vs) @ '']'')"
| "serialize_value (V_Bool b) = Some (to_string (V_Bool b))"
| "serialize_value (V_Num n) = Some (to_string (V_Num n))"
| "serialize_value v = Some (serialize_scalar (to_string v))"

subsection \<open>Lines and blocks\<close>

definition OPENS_A_BLOCK :: "string \<Rightarrow> bool" where
  "OPENS_A_BLOCK v \<longleftrightarrow>
     (case v of
        [] \<Rightarrow> True
      | c # s \<Rightarrow> c \<in> {CHR ''|'', CHR ''>''}
          \<and> list_all is_digit (case s of [] \<Rightarrow> [] | d # t \<Rightarrow> if d = CHR ''-'' \<or> d = CHR ''+'' then t else s))"

definition indented :: "string \<Rightarrow> bool" where
  "indented l \<longleftrightarrow> takeWhile is_space l \<noteq> [] \<and> dropWhile is_space l \<noteq> []"

text \<open>How many of the lines behind a head belong to its block: up to the last indented one.\<close>

fun scan_block :: "nat \<Rightarrow> nat \<Rightarrow> string list \<Rightarrow> nat" where
  "scan_block i stop [] = stop"
| "scan_block i stop (l # ls) =
     (if indented l then scan_block (Suc i) (Suc i) ls
      else if trim l = [] then scan_block (Suc i) stop ls else stop)"

definition block_end :: "string list \<Rightarrow> string \<Rightarrow> nat option" where
  "block_end rest v = (if \<not> OPENS_A_BLOCK v then None else let n = scan_block 0 0 rest in if n = 0 then None else Some n)"

definition parse_inline_array :: "string \<Rightarrow> string list" where
  "parse_inline_array raw = filter (\<lambda>s. s \<noteq> []) (map (\<lambda>s. unquote (trim s)) (split_on (CHR '','') (butlast (tl raw))))"

definition value_of_text :: "string \<Rightarrow> js_value" where
  "value_of_text v =
     (if v \<noteq> [] \<and> hd v = CHR ''['' \<and> last v = CHR '']''
      then V_List (map V_Str (parse_inline_array v)) else V_Str (unquote v))"

function parse_lines :: "string list \<Rightarrow> fm_meta \<times> raw_blocks \<Rightarrow> fm_meta \<times> raw_blocks" where
  "parse_lines [] acc = acc"
| "parse_lines (l # ls) acc =
     (if CHR '':'' \<notin> set l then parse_lines ls acc
      else
        let key = trim (takeWhile (\<lambda>c. c \<noteq> CHR '':'') l);
            v = trim (drop 1 (dropWhile (\<lambda>c. c \<noteq> CHR '':'') l))
        in case block_end ls v of
             Some n \<Rightarrow> parse_lines (drop n ls) (fst acc, AList.update key (l # take n ls) (snd acc))
           | None \<Rightarrow> parse_lines ls (AList.update key (value_of_text v) (fst acc), snd acc))"
  by pat_completeness auto
termination by (relation "measure (length \<circ> fst)") auto

text \<open>\<open>^---\n([\s\S]*?)\n---\n?([\s\S]*)$\<close>: the first closing fence, and what is behind it.\<close>

fun until_close :: "string \<Rightarrow> (string \<times> string) option" where
  "until_close [] = None"
| "until_close (c # s) =
     (if take 4 (c # s) = newline @ ''---'' then Some ([], drop 3 s)
      else case until_close s of None \<Rightarrow> None | Some (a, r) \<Rightarrow> Some (c # a, r))"

definition fences :: "string \<Rightarrow> (string \<times> string) option" where
  "fences content =
     (if take 4 content \<noteq> ''---'' @ newline then None
      else case until_close (drop 4 content) of
        None \<Rightarrow> None
      | Some (block, r) \<Rightarrow> Some (block, if r \<noteq> [] \<and> hd r = CHR 0x0A then tl r else r))"

definition parse_frontmatter :: "string \<Rightarrow> front_matter" where
  "parse_frontmatter content =
     (case fences content of
        None \<Rightarrow> \<lparr>fm_meta = [], fm_body = content, fm_raw = [], has_frontmatter = False\<rparr>
      | Some (block, r) \<Rightarrow>
          let p = parse_lines (split_on (CHR 0x0A) block) ([], [])
          in \<lparr>fm_meta = fst p, fm_body = trim r, fm_raw = snd p, has_frontmatter = True\<rparr>)"

definition flat_lines :: "fm_meta \<Rightarrow> raw_blocks \<Rightarrow> string list" where
  "flat_lines meta raw =
     List.map_filter (\<lambda>(k, v). if k \<in> fst ` set raw then None
        else case serialize_value v of None \<Rightarrow> None | Some t \<Rightarrow> Some (k @ '': '' @ t)) meta"

definition serialize_frontmatter :: "fm_meta \<Rightarrow> string \<Rightarrow> raw_blocks \<Rightarrow> string" where
  "serialize_frontmatter meta body raw =
     join newline (''---'' # flat_lines meta raw @ concat (map snd raw) @ [''---'', [], body]) @ newline"

subsection \<open>A block read as a list\<close>

definition SEQUENCE_ITEM :: "string \<Rightarrow> (string \<times> string) option" where
  "SEQUENCE_ITEM l =
     (let ind = takeWhile is_space l; r = dropWhile is_space l
      in case r of
           [] \<Rightarrow> None
         | x # s \<Rightarrow>
             if ind = [] \<or> x \<noteq> CHR ''-'' \<or> takeWhile is_space s = [] \<or> dropWhile is_space s = [] then None
             else if list_ex is_eol (dropWhile is_space s) then None
             else Some (ind, dropWhile is_space s))"

definition item_is_not_scalar :: "string \<Rightarrow> bool" where
  "item_is_not_scalar item \<longleftrightarrow>
     (if item \<noteq> [] \<and> hd item \<in> {CHR 0x22, CHR 0x27} then False
      else contains '': '' item \<or> (item \<noteq> [] \<and> last item = CHR '':'')
        \<or> (case item of [] \<Rightarrow> False | x # s \<Rightarrow> x = CHR ''-'' \<and> (s = [] \<or> is_space (hd s))))"

fun sequence_items :: "string option \<Rightarrow> string list \<Rightarrow> string list option" where
  "sequence_items ind [] = Some []"
| "sequence_items ind (l # ls) =
     (case SEQUENCE_ITEM l of
        None \<Rightarrow> None
      | Some (i, t) \<Rightarrow>
          if ind \<noteq> None \<and> ind \<noteq> Some i \<or> item_is_not_scalar (trim t) then None
          else map_option (\<lambda>r. unquote (trim t) # r) (sequence_items (Some i) ls))"

definition parse_block_sequence :: "string list \<Rightarrow> string list option" where
  "parse_block_sequence block =
     (case block of
        head # rest \<Rightarrow>
          if rest = [] \<or> CHR '':'' \<notin> set head \<or> trim (drop 1 (dropWhile (\<lambda>c. c \<noteq> CHR '':'') head)) \<noteq> [] then None
          else sequence_items None rest
      | [] \<Rightarrow> None)"

subsection \<open>Scalars read back\<close>

definition esc :: "char \<Rightarrow> string" where
  "esc c = (if c = CHR 0x5C then backslash @ backslash else if c = CHR 0x22 then backslash @ dquote else [c])"

lemma replace_all_char: "replace_all [x] rep s = concat (map (\<lambda>c. if c = x then rep else [c]) s)"
  by (induction s) auto

lemma quote_eq: "quote s = dquote @ concat (map esc s) @ dquote"
  unfolding quote_def replace_all_char
  by (induction s) (auto simp: esc_def)

lemma esc_no_quote: "concat (map esc s) = [] \<or> hd (concat (map esc s)) \<noteq> CHR 0x22"
  by (induction s) (auto simp: esc_def)

lemma replace_all_pass:
  "r = [] \<or> hd r \<noteq> CHR 0x22 \<Longrightarrow> replace_all [CHR 0x5C, CHR 0x22] rep (CHR 0x5C # r) = CHR 0x5C # replace_all [CHR 0x5C, CHR 0x22] rep r"
  by (cases r) simp_all

lemma unescape_quotes:
  "replace_all [CHR 0x5C, CHR 0x22] dquote (concat (map esc s))
     = concat (map (\<lambda>c. if c = CHR 0x5C then [c, c] else [c]) s)"
proof (induction s)
  case (Cons c s)
  let ?R = "concat (map esc s)"
  have step: "replace_all [CHR 0x5C, CHR 0x22] dquote (CHR 0x5C # ?R) = CHR 0x5C # replace_all [CHR 0x5C, CHR 0x22] dquote ?R"
    by (rule replace_all_pass [OF esc_no_quote])
  consider "c = CHR 0x5C" | "c = CHR 0x22" | "c \<noteq> CHR 0x5C" "c \<noteq> CHR 0x22" by blast
  then show ?case
  proof cases
    case 1
    have e: "concat (map esc (c # s)) = CHR 0x5C # CHR 0x5C # ?R" by (simp add: esc_def 1)
    have g: "concat (map (\<lambda>c. if c = CHR 0x5C then [c, c] else [c]) (c # s))
      = CHR 0x5C # CHR 0x5C # concat (map (\<lambda>c. if c = CHR 0x5C then [c, c] else [c]) s)" by (simp add: 1)
    have first: "replace_all [CHR 0x5C, CHR 0x22] dquote (CHR 0x5C # CHR 0x5C # ?R) = CHR 0x5C # replace_all [CHR 0x5C, CHR 0x22] dquote (CHR 0x5C # ?R)"
      by (rule replace_all_pass) simp
    show ?thesis unfolding e g first step Cons.IH ..
  next
    case 2
    have e: "concat (map esc (c # s)) = CHR 0x5C # CHR 0x22 # ?R" by (simp add: esc_def 2)
    show ?thesis unfolding e using Cons.IH by (simp add: 2)
  next
    case 3
    then have e: "concat (map esc (c # s)) = c # ?R" by (simp add: esc_def)
    show ?thesis unfolding e using Cons.IH 3 by simp
  qed
qed simp

lemma unescape_backslashes:
  "replace_all [CHR 0x5C, CHR 0x5C] backslash (concat (map (\<lambda>c. if c = CHR 0x5C then [c, c] else [c]) s)) = s"
  by (induction s) auto

lemma unquote_quote: "unquote (quote s) = s"
proof -
  have "butlast (tl (quote s)) = concat (map esc s)" "hd (quote s) = CHR 0x22" "last (quote s) = CHR 0x22" "2 \<le> length (quote s)"
    by (simp_all add: quote_eq butlast_append)
  then show ?thesis by (simp add: unquote_def unescape_quotes unescape_backslashes Let_def)
qed

lemma bare_scalar:
  "\<not> needs_quoting s \<Longrightarrow> s \<noteq> [] \<and> trim s = s \<and> hd s \<noteq> CHR ''['' \<and> hd s \<noteq> CHR 0x22 \<and> hd s \<noteq> CHR 0x27"
  by (simp add: needs_quoting_def)

lemma unquote_scalar [fm_simps]: "unquote (serialize_scalar s) = s"
proof (cases "needs_quoting s")
  case False
  from bare_scalar [OF this] False show ?thesis by (simp add: serialize_scalar_def unquote_def Let_def)
qed (simp add: serialize_scalar_def unquote_quote)

lemma trim_between: "\<not> is_space a \<Longrightarrow> \<not> is_space b \<Longrightarrow> trim (a # s @ [b]) = a # s @ [b]"
  by (rule trim_id) simp

lemma not_space_marks [simp]: "\<not> is_space (CHR 0x22)" "\<not> is_space (CHR '']'')"
  by (simp_all add: is_space_def)

lemma trim_scalar [fm_simps]: "trim (serialize_scalar s) = serialize_scalar s" "serialize_scalar s \<noteq> []"
  using trim_between [of "CHR 0x22" "CHR 0x22" "concat (map esc s)"] bare_scalar [of s]
  by (cases "needs_quoting s"; simp add: serialize_scalar_def quote_eq)+

lemma scalar_not_list: "hd (serialize_scalar s) \<noteq> CHR ''[''"
  using bare_scalar [of s] by (cases "needs_quoting s"; simp add: serialize_scalar_def quote_eq)

lemma value_of_scalar [fm_simps]: "value_of_text (serialize_scalar s) = V_Str s"
  by (simp add: value_of_text_def scalar_not_list unquote_scalar)

lemma set_esc: "set (concat (map esc s)) \<subseteq> set s \<union> {CHR 0x5C, CHR 0x22}"
  by (auto simp: esc_def)

lemma scalar_free: "c \<notin> set s \<Longrightarrow> c \<noteq> CHR 0x5C \<Longrightarrow> c \<noteq> CHR 0x22 \<Longrightarrow> c \<notin> set (serialize_scalar s)"
proof -
  assume c: "c \<notin> set s" "c \<noteq> CHR 0x5C" "c \<noteq> CHR 0x22"
  then have "c \<notin> set (concat (map esc s))" using set_esc [of s] by blast
  with c show ?thesis by (simp add: serialize_scalar_def quote_eq)
qed

lemma comma_in: "CHR '','' \<in> set (serialize_scalar s) \<Longrightarrow> CHR '','' \<in> set s"
  and line_in: "CHR 0x0A \<in> set (serialize_scalar s) \<Longrightarrow> CHR 0x0A \<in> set s"
  using scalar_free [of "CHR '',''" s] scalar_free [of "CHR 0x0A" s] by auto

lemma bare_num: "value_of_text (int_str n) = V_Str (int_str n)" "trim (int_str n) = int_str n" "int_str n \<noteq> []"
proof -
  show "int_str n \<noteq> []" by (simp add: int_str_def)
  have d: "\<not> is_space c \<and> c \<noteq> CHR 0x22 \<and> c \<noteq> CHR 0x27 \<and> c \<noteq> CHR ''[''" if "c \<in> set (int_str n)" for c
    using that nat_str_digits [of c] by (auto simp: int_str_def is_digit_def is_space_def split: if_split_asm)
  have h: "hd (int_str n) \<in> set (int_str n)" "last (int_str n) \<in> set (int_str n)" by (simp_all add: int_str_def)
  from d [OF h(1)] d [OF h(2)] show "value_of_text (int_str n) = V_Str (int_str n)" "trim (int_str n) = int_str n"
    by (simp_all add: value_of_text_def unquote_def Let_def trim_id)
qed

subsection \<open>Values read back\<close>

text \<open>The form a value comes back in, and what a value must avoid.\<close>

fun stored_value :: "js_value \<Rightarrow> js_value" where
  "stored_value (V_List vs) = V_List (map (\<lambda>v. V_Str (to_string v)) vs)"
| "stored_value v = V_Str (to_string v)"

fun plain_value :: "js_value \<Rightarrow> bool" where
  "plain_value (V_List vs) = list_all (\<lambda>v. to_string v \<noteq> [] \<and> CHR '','' \<notin> set (to_string v) \<and> CHR 0x0A \<notin> set (to_string v)) vs"
| "plain_value v = (CHR 0x0A \<notin> set (to_string v))"

lemma split_commas:
  "list_all (\<lambda>l. CHR '','' \<notin> set l) ls \<Longrightarrow> ls \<noteq> [] \<Longrightarrow>
     split_on (CHR '','') (join '', '' ls) = hd ls # map (\<lambda>l. CHR '' '' # l) (tl ls)"
proof (induction "'', ''" ls rule: join.induct)
  case (3 s t ss)
  then have "split_on (CHR '','') (join '', '' (t # ss)) = t # map (\<lambda>l. CHR '' '' # l) ss" by simp
  then have "split_on (CHR '','') (CHR '' '' # join '', '' (t # ss)) = (CHR '' '' # t) # map (\<lambda>l. CHR '' '' # l) ss" by simp
  with 3 show ?case by (simp add: split_on_append)
qed (simp_all add: split_on_id)

lemma trim_blank: "trim (CHR '' '' # s) = trim s"
  by (simp add: trim_def)

lemma parse_inline_list:
  assumes "plain_value (V_List vs)"
  shows "parse_inline_array (''['' @ join '', '' (map (\<lambda>v. serialize_scalar (to_string v)) vs) @ '']'') = map to_string vs"
proof (cases "vs = []")
  case True
  then show ?thesis by (simp add: parse_inline_array_def trim_def unquote_def)
next
  case False
  let ?ls = "map (\<lambda>v. serialize_scalar (to_string v)) vs"
  have "list_all (\<lambda>l. CHR '','' \<notin> set l) ?ls" using assms by (auto simp: list_all_iff dest: comma_in)
  then have "split_on (CHR '','') (join '', '' ?ls) = hd ?ls # map (\<lambda>l. CHR '' '' # l) (tl ?ls)"
    using False by (intro split_commas) auto
  moreover have "map (\<lambda>s. unquote (trim s)) (hd ?ls # map (\<lambda>l. CHR '' '' # l) (tl ?ls)) = map to_string vs"
    using False by (cases vs) (simp_all add: trim_blank fm_simps)
  moreover have "filter (\<lambda>s. s \<noteq> []) (map to_string vs) = map to_string vs"
    using assms by (simp add: list_all_iff)
  ultimately show ?thesis by (simp add: parse_inline_array_def butlast_append)
qed

lemma value_reads_back:
  assumes "serialize_value v = Some t" "plain_value v"
  shows "value_of_text t = stored_value v" "trim t = t" "t \<noteq> []"
proof -
  have list: "trim (''['' @ x @ '']'') = ''['' @ x @ '']''" for x by (rule trim_id) simp
  have bool: "value_of_text (to_string (V_Bool b)) = V_Str (to_string (V_Bool b))"
      "trim (to_string (V_Bool b)) = to_string (V_Bool b)" for b
    by (cases b; simp add: value_of_text_def unquote_def Let_def trim_id is_space_def)+
  have scalar: "value_of_text (serialize_scalar x) = V_Str x \<and> trim (serialize_scalar x) = serialize_scalar x \<and> serialize_scalar x \<noteq> []" for x
    by (simp add: fm_simps)
  have "value_of_text t = stored_value v \<and> trim t = t \<and> t \<noteq> []"
  proof (cases v)
    case (V_List vs)
    let ?t = "''['' @ join '', '' (map (\<lambda>v. serialize_scalar (to_string v)) vs) @ '']''"
    from V_List assms(2) have "parse_inline_array ?t = map to_string vs" by (simp only: parse_inline_list)
    then have "value_of_text ?t = V_List (map V_Str (map to_string vs))" by (simp add: value_of_text_def)
    with V_List assms(1) list [of "join '', '' (map (\<lambda>v. serialize_scalar (to_string v)) vs)"] show ?thesis by auto
  next
    case (V_Bool b)
    with assms(1) bool [of b] show ?thesis by (cases b) auto
  next
    case (V_Num n)
    with assms(1) bare_num [of n] show ?thesis by simp
  qed (use assms(1) in \<open>auto simp: fm_simps\<close>)
  then show "value_of_text t = stored_value v" "trim t = t" "t \<noteq> []" by simp_all
qed

lemma in_join: "x \<in> set (join sep ls) \<Longrightarrow> x \<in> set sep \<or> (\<exists>l \<in> set ls. x \<in> set l)"
  by (induction sep ls rule: join.induct) auto

lemma value_one_line: "serialize_value v = Some t \<Longrightarrow> plain_value v \<Longrightarrow> CHR 0x0A \<notin> set t"
  by (cases v) (auto simp: list_all_iff dest!: in_join line_in split: if_split_asm)

subsection \<open>Lines and blocks read back\<close>

definition plain_key :: "string \<Rightarrow> bool" where
  "plain_key k \<longleftrightarrow> k \<noteq> [] \<and> trim k = k \<and> CHR '':'' \<notin> set k \<and> CHR 0x0A \<notin> set k \<and> take 3 k \<noteq> ''---''"

text \<open>A block as the file has it: a head at the margin that opens it, and lines that belong to it, the last one indented.\<close>

definition plain_block :: "string \<Rightarrow> string list \<Rightarrow> bool" where
  "plain_block k b \<longleftrightarrow>
     (case b of
        [] \<Rightarrow> False
      | h # ls \<Rightarrow>
          CHR '':'' \<in> set h \<and> trim (takeWhile (\<lambda>c. c \<noteq> CHR '':'') h) = k \<and> \<not> is_space (hd h) \<and> take 3 h \<noteq> ''---''
          \<and> OPENS_A_BLOCK (trim (drop 1 (dropWhile (\<lambda>c. c \<noteq> CHR '':'') h)))
          \<and> ls \<noteq> [] \<and> list_all (\<lambda>l. indented l \<or> trim l = []) ls \<and> indented (last ls)
          \<and> list_all (\<lambda>l. CHR 0x0A \<notin> set l) b)"

text \<open>What follows ends a block.\<close>

definition at_margin :: "string list \<Rightarrow> bool" where
  "at_margin ls \<longleftrightarrow> (case ls of [] \<Rightarrow> True | l # _ \<Rightarrow> l \<noteq> [] \<and> \<not> is_space (hd l))"

lemma trim_Nil_iff: "trim l = [] \<longleftrightarrow> list_all is_space l"
proof -
  have "trim l = [] \<longleftrightarrow> dropWhile is_space l = []"
  proof
    assume "trim l = []"
    then have "list_all is_space (dropWhile is_space l)" by (simp add: trim_def dropWhile_eq_Nil_conv list_all_iff)
    then show "dropWhile is_space l = []" using hd_dropWhile [of is_space l] by (cases "dropWhile is_space l") auto
  next
    assume l: "dropWhile is_space l = []"
    show "trim l = []" unfolding trim_def l by simp
  qed
  then show ?thesis by (simp add: dropWhile_eq_Nil_conv list_all_iff)
qed

lemma scan_margin: "at_margin ls \<Longrightarrow> scan_block i stop ls = stop"
  by (cases ls) (auto simp: at_margin_def indented_def trim_Nil_iff neq_Nil_conv)

lemma scan_block_all:
  "list_all (\<lambda>l. indented l \<or> trim l = []) ts \<Longrightarrow> ts \<noteq> [] \<Longrightarrow> indented (last ts) \<Longrightarrow> at_margin ls \<Longrightarrow>
     scan_block i stop (ts @ ls) = i + length ts"
proof (induction ts arbitrary: i stop)
  case (Cons t ts)
  then show ?case by (cases "ts = []") (auto simp: scan_margin)
qed simp

lemma key_line:
  assumes "plain_key k"
  shows "takeWhile (\<lambda>c. c \<noteq> CHR '':'') (k @ '': '' @ t) = k" "drop 1 (dropWhile (\<lambda>c. c \<noteq> CHR '':'') (k @ '': '' @ t)) = CHR '' '' # t"
proof -
  have "\<And>x. x \<in> set k \<Longrightarrow> x \<noteq> CHR '':''" using assms by (auto simp: plain_key_def)
  then show "takeWhile (\<lambda>c. c \<noteq> CHR '':'') (k @ '': '' @ t) = k" "drop 1 (dropWhile (\<lambda>c. c \<noteq> CHR '':'') (k @ '': '' @ t)) = CHR '' '' # t"
    by (simp_all add: takeWhile_append2 dropWhile_append2)
qed

lemma AList_update_new: "k \<notin> fst ` set m \<Longrightarrow> AList.update k v m = m @ [(k, v)]"
  by (induction m) auto

lemma parse_flat_line:
  assumes "plain_key k" "serialize_value v = Some t" "plain_value v" "at_margin ls" "k \<notin> fst ` set m"
  shows "parse_lines ((k @ '': '' @ t) # ls) (m, r) = parse_lines ls (m @ [(k, stored_value v)], r)"
proof -
  have "block_end ls w = None" for w by (simp add: block_end_def scan_margin [OF assms(4)] Let_def)
  moreover have "trim (CHR '' '' # t) = t" using value_reads_back(2) [OF assms(2, 3)] by (simp add: trim_blank)
  moreover have "trim k = k" using assms(1) by (simp add: plain_key_def)
  ultimately show ?thesis
    using key_line [OF assms(1), of t] value_reads_back(1) [OF assms(2, 3)] AList_update_new [OF assms(5)]
    by (simp add: Let_def)
qed

lemma parse_block:
  assumes "plain_block k (h # ts)" "at_margin ls" "k \<notin> fst ` set r"
  shows "parse_lines ((h # ts) @ ls) (m, r) = parse_lines ls (m, r @ [(k, h # ts)])"
proof -
  from assms(1) have b: "CHR '':'' \<in> set h" "trim (takeWhile (\<lambda>c. c \<noteq> CHR '':'') h) = k"
    "OPENS_A_BLOCK (trim (drop 1 (dropWhile (\<lambda>c. c \<noteq> CHR '':'') h)))"
    and s: "list_all (\<lambda>l. indented l \<or> trim l = []) ts" "ts \<noteq> []" "indented (last ts)"
    by (simp_all add: plain_block_def)
  have "scan_block 0 0 (ts @ ls) = length ts" using scan_block_all [OF s assms(2)] by simp
  with b s(2) have "block_end (ts @ ls) (trim (drop 1 (dropWhile (\<lambda>c. c \<noteq> CHR '':'') h))) = Some (length ts)"
    by (simp add: block_end_def Let_def)
  then show ?thesis using b AList_update_new [OF assms(3)] by (simp add: Let_def)
qed

lemma at_margin_append: "at_margin ls \<Longrightarrow> ls \<noteq> [] \<Longrightarrow> at_margin (ls @ ms)"
  by (cases ls) (simp_all add: at_margin_def)

lemma block_at_margin: "plain_block k b \<Longrightarrow> at_margin (b @ ls) \<and> b \<noteq> []"
  by (cases b; cases "hd b") (auto simp: plain_block_def at_margin_def)

lemma parse_blocks:
  assumes "list_all (\<lambda>(k, b). plain_block k b) raw" "distinct (map fst (r @ raw))"
  shows "parse_lines (concat (map snd raw)) (m, r) = (m, r @ raw)"
  using assms
proof (induction raw arbitrary: r)
  case (Cons x raw)
  obtain k b where x: "x = (k, b)" by (cases x)
  then obtain h ts where b: "b = h # ts" using Cons.prems(1) by (cases b) (auto simp: plain_block_def)
  have "at_margin (concat (map snd raw))"
  proof (cases raw)
    case (Cons y ys)
    then show ?thesis using Cons.prems(1) block_at_margin [of "fst y" "snd y"] by (auto simp: case_prod_beta)
  qed (simp add: at_margin_def)
  then have "parse_lines ((h # ts) @ concat (map snd raw)) (m, r) = parse_lines (concat (map snd raw)) (m, r @ [(k, h # ts)])"
    using Cons.prems x b by (intro parse_block) auto
  also have "\<dots> = (m, (r @ [(k, h # ts)]) @ raw)" using Cons.prems x b by (intro Cons.IH) auto
  finally show ?case by (simp add: x b)
qed simp

definition plain_meta :: "fm_meta \<Rightarrow> raw_blocks \<Rightarrow> bool" where
  "plain_meta meta raw \<longleftrightarrow>
     distinct (map fst meta) \<and> list_all (\<lambda>(k, v). plain_key k \<and> plain_value v) meta
     \<and> distinct (map fst raw) \<and> list_all (\<lambda>(k, b). plain_block k b) raw
     \<and> list_all (\<lambda>(k, v). k \<notin> fst ` set raw) meta"

definition stored_meta :: "fm_meta \<Rightarrow> fm_meta" where
  "stored_meta meta = map (\<lambda>(k, v). (k, stored_value v)) (filter (\<lambda>(k, v). v \<noteq> V_Null) meta)"

lemma serialize_value_None: "serialize_value v = None \<longleftrightarrow> v = V_Null"
  by (cases v) simp_all

lemma key_at_margin: "plain_key k \<Longrightarrow> k \<noteq> [] \<and> \<not> is_space (hd k)"
  using trim_ends [of k] by (auto simp: plain_key_def)

lemma flat_lines_Cons:
  "flat_lines ((k, v) # meta) raw
     = (if k \<in> fst ` set raw then [] else case serialize_value v of None \<Rightarrow> [] | Some t \<Rightarrow> [k @ '': '' @ t]) @ flat_lines meta raw"
  by (simp add: flat_lines_def map_filter_simps split: option.split)

lemma lines_at_margin:
  assumes "plain_meta meta raw"
  shows "at_margin (flat_lines meta raw @ concat (map snd raw))"
  using assms
proof (induction meta)
  case Nil
  then show ?case using block_at_margin
    by (cases raw) (auto simp: flat_lines_def map_filter_simps at_margin_def plain_meta_def case_prod_beta)
next
  case (Cons x meta)
  obtain k v where x: "x = (k, v)" by (cases x)
  from Cons.prems x have k: "plain_key k" "k \<notin> fst ` set raw" and rest: "plain_meta meta raw"
    by (simp_all add: plain_meta_def)
  from key_at_margin [OF k(1)] Cons.IH [OF rest] show ?case
    by (cases "serialize_value v") (auto simp: x flat_lines_Cons k(2) at_margin_def)
qed

lemma parse_flat_lines:
  assumes "plain_meta meta raw" "fst ` set m \<inter> fst ` set meta = {}"
  shows "parse_lines (flat_lines meta raw @ concat (map snd raw)) (m, []) = (m @ stored_meta meta, raw)"
  using assms
proof (induction meta arbitrary: m)
  case Nil
  then have "parse_lines (concat (map snd raw)) (m, []) = (m, [] @ raw)"
    by (intro parse_blocks) (simp_all add: plain_meta_def)
  then show ?case by (simp add: flat_lines_def map_filter_simps stored_meta_def)
next
  case (Cons x meta)
  obtain k v where x: "x = (k, v)" by (cases x)
  from Cons.prems(1) x have k: "plain_key k" "k \<notin> fst ` set raw" "plain_value v" "k \<notin> fst ` set meta" and rest: "plain_meta meta raw"
    by (auto simp: plain_meta_def)
  show ?case
  proof (cases "serialize_value v")
    case None
    with Cons.IH [OF rest, of m] Cons.prems(2) show ?thesis
      by (simp add: x flat_lines_Cons stored_meta_def serialize_value_None)
  next
    case (Some t)
    have "parse_lines ((k @ '': '' @ t) # flat_lines meta raw @ concat (map snd raw)) (m, [])
        = parse_lines (flat_lines meta raw @ concat (map snd raw)) (m @ [(k, stored_value v)], [])"
      using Cons.prems(2) x by (intro parse_flat_line [OF k(1) Some k(3) lines_at_margin [OF rest]]) auto
    also have "\<dots> = ((m @ [(k, stored_value v)]) @ stored_meta meta, raw)"
      using Cons.prems(2) x k(4) by (intro Cons.IH [OF rest]) auto
    finally show ?thesis using Some serialize_value_None [of v] by (simp add: x flat_lines_Cons k(2) stored_meta_def)
  qed
qed

subsection \<open>Fences\<close>

lemma until_close_line:
  assumes "CHR 0x0A \<notin> set l" "take 3 r \<noteq> ''---''"
  shows "until_close (l @ CHR 0x0A # r) = map_option (\<lambda>(a, b). (l @ CHR 0x0A # a, b)) (until_close r)"
  using assms(1) by (induction l) (auto simp: newline_def assms(2) split: option.split)

lemma until_close_last:
  assumes "CHR 0x0A \<notin> set l"
  shows "until_close (l @ CHR 0x0A # ''---'' @ r) = Some (l, r)"
  using assms by (induction l) (auto simp: newline_def)

lemma until_close_lines:
  assumes "list_all (\<lambda>l. CHR 0x0A \<notin> set l) ls" "list_all (\<lambda>l. take 3 l \<noteq> ''---'') ls" "ls \<noteq> []"
  shows "until_close (join newline ls @ CHR 0x0A # ''---'' @ r) = Some (join newline ls, r)"
  using assms
proof (induction newline ls rule: join.induct)
  case (2 l)
  then show ?case using until_close_last [of l] by simp
next
  case (3 l l' ls)
  let ?r = "join newline (l' # ls) @ CHR 0x0A # ''---'' @ r"
  have "take 3 ?r \<noteq> ''---''"
  proof -
    have l': "CHR 0x0A \<notin> set l'" "take 3 l' \<noteq> ''---''" using 3(2, 3) by simp_all
    obtain z where z: "?r = l' @ CHR 0x0A # z" by (cases ls) (simp_all add: newline_def)
    show ?thesis
    proof
      assume "take 3 ?r = ''---''"
      then have t: "take 3 (l' @ CHR 0x0A # z) = ''---''" unfolding z .
      have "3 \<le> length l'"
      proof (rule ccontr)
        assume "\<not> 3 \<le> length l'"
        with t have "l' @ CHR 0x0A # take (3 - length l' - 1) z = ''---''" by (simp add: take_Cons')
        then have "CHR 0x0A \<in> set ''---''" by (metis in_set_conv_decomp)
        then show False by simp
      qed
      with t l'(2) show False by simp
    qed
  qed
  moreover have "until_close ?r = Some (join newline (l' # ls), r)" using 3 by simp
  ultimately show ?case using until_close_line [of l ?r] 3(2) by (simp add: newline_def)
qed simp

lemma join_append: "xs \<noteq> [] \<Longrightarrow> ys \<noteq> [] \<Longrightarrow> join sep (xs @ ys) = join sep xs @ sep @ join sep ys"
proof (induction sep xs rule: join.induct)
  case (2 sep s)
  then show ?case by (cases ys) simp_all
qed simp_all

lemma flat_line_shape:
  assumes "plain_meta meta raw" "l \<in> set (flat_lines meta raw @ concat (map snd raw))"
  shows "CHR 0x0A \<notin> set l" "take 3 l \<noteq> ''---''"
proof -
  have "CHR 0x0A \<notin> set l \<and> take 3 l \<noteq> ''---''"
  proof (cases "l \<in> set (flat_lines meta raw)")
    case True
    then obtain k v t where kv: "(k, v) \<in> set meta" "serialize_value v = Some t" "l = k @ '': '' @ t"
      by (auto simp: flat_lines_def List.map_filter_def split: if_split_asm option.splits)
    with assms(1) have k: "plain_key k" "plain_value v" by (auto simp: plain_meta_def list_all_iff)
    have nl: "CHR 0x0A \<notin> set l" using value_one_line [OF kv(2) k(2)] k(1) kv(3) by (simp add: plain_key_def)
    have "take 3 l \<noteq> ''---''"
    proof
      assume "take 3 l = ''---''"
      then have t: "take 3 k @ take (3 - length k) ('': '' @ t) = ''---''" by (simp add: kv(3))
      show False
      proof (cases "3 \<le> length k")
        case True
        with t k(1) show False by (simp add: plain_key_def)
      next
        case False
        then have "CHR '':'' \<in> set (take 3 k @ take (3 - length k) ('': '' @ t))" by (simp add: take_Cons')
        with t show False by simp
      qed
    qed
    with nl show ?thesis ..
  next
    case False
    with assms(2) obtain k b where b: "(k, b) \<in> set raw" "l \<in> set b" by auto
    with assms(1) have p: "plain_block k b" by (auto simp: plain_meta_def list_all_iff)
    then obtain h ts where h: "b = h # ts" by (cases b) (auto simp: plain_block_def)
    show ?thesis
    proof (cases "l = h")
      case True
      with p h show ?thesis by (simp add: plain_block_def)
    next
      case False
      with b h p have "CHR 0x0A \<notin> set l" "indented l \<or> trim l = []" by (auto simp: plain_block_def list_all_iff)
      moreover have "take 3 l \<noteq> ''---''"
        using \<open>indented l \<or> trim l = []\<close> by (cases l) (auto simp: indented_def trim_Nil_iff is_space_def)
      ultimately show ?thesis by blast
    qed
  qed
  then show "CHR 0x0A \<notin> set l" "take 3 l \<noteq> ''---''" by simp_all
qed

lemma fenced_join:
  assumes "ls \<noteq> []"
  shows "join newline (''---'' # ls @ [''---'', [], body]) @ newline
    = ''---'' @ newline @ join newline ls @ CHR 0x0A # ''---'' @ CHR 0x0A # CHR 0x0A # body @ newline"
proof -
  have "join newline (''---'' # ls @ [''---'', [], body]) = ''---'' @ newline @ join newline (ls @ [''---'', [], body])"
    by (cases ls) (use assms in simp_all)
  also have "join newline (ls @ [''---'', [], body]) = join newline ls @ newline @ join newline [''---'', [], body]"
    using assms by (intro join_append) simp_all
  finally show ?thesis by (simp add: newline_def)
qed

lemma fences_serialized:
  assumes "plain_meta meta raw" "flat_lines meta raw @ concat (map snd raw) \<noteq> []"
  shows "fences (serialize_frontmatter meta body raw)
    = Some (join newline (flat_lines meta raw @ concat (map snd raw)), newline @ body @ newline)"
proof -
  let ?ls = "flat_lines meta raw @ concat (map snd raw)"
  have e: "serialize_frontmatter meta body raw
      = ''---'' @ newline @ join newline ?ls @ CHR 0x0A # ''---'' @ CHR 0x0A # CHR 0x0A # body @ newline"
    using fenced_join [OF assms(2), of body] by (simp add: serialize_frontmatter_def)
  have "list_all (\<lambda>l. CHR 0x0A \<notin> set l) ?ls" "list_all (\<lambda>l. take 3 l \<noteq> ''---'') ?ls"
    using flat_line_shape [OF assms(1)] unfolding list_all_iff by blast+
  from until_close_lines [OF this assms(2)] show ?thesis
    unfolding e by (simp add: fences_def newline_def)
qed

lemma frontmatter_reads_back:
  assumes "plain_meta meta raw" "stored_meta meta \<noteq> [] \<or> raw \<noteq> []"
  shows "parse_frontmatter (serialize_frontmatter meta body raw)
    = \<lparr>fm_meta = stored_meta meta, fm_body = trim body, fm_raw = raw, has_frontmatter = True\<rparr>"
proof -
  let ?ls = "flat_lines meta raw @ concat (map snd raw)"
  have parsed: "parse_lines ?ls ([], []) = (stored_meta meta, raw)" using parse_flat_lines [OF assms(1), of "[]"] by simp
  have ne: "?ls \<noteq> []"
  proof
    assume "?ls = []"
    with parsed assms(2) show False by auto
  qed
  have "list_all (\<lambda>l. CHR 0x0A \<notin> set l) ?ls" using flat_line_shape(1) [OF assms(1)] unfolding list_all_iff by blast
  then have "split_on (CHR 0x0A) (join newline ?ls) = ?ls" unfolding newline_def by (rule split_on_lines) (rule ne)
  moreover have "trim (newline @ body @ newline) = trim body"
  proof -
    have "trim (newline @ x) = trim x" for x by (simp add: trim_def newline_def is_space_def)
    then show ?thesis by (simp add: newline_def trim_newline)
  qed
  ultimately show ?thesis using fences_serialized [OF assms(1) ne, of body] parsed
    by (simp add: parse_frontmatter_def Let_def)
qed

text \<open>
  C33: a card survives its file: written and read again, plain metadata, blocks included, comes back
  with its keys in order, its scalars as their text, its lists element by element and its blocks line
  by line, and the body trimmed.
\<close>

theorem frontmatter_roundtrip:
  assumes "plain_meta meta raw" "stored_meta meta \<noteq> [] \<or> raw \<noteq> []"
  shows "parse_frontmatter (serialize_frontmatter meta body raw)
    = \<lparr>fm_meta = stored_meta meta, fm_body = trim body, fm_raw = raw, has_frontmatter = True\<rparr>"
  using assms by (rule frontmatter_reads_back)

definition sample_block :: "string list" where
  "sample_block = [''closes:'', ''  - sha: 1'', ''  - ---'']"

theorem frontmatter_roundtrip_witness:
  "parse_frontmatter (serialize_frontmatter
      [(''title'', V_Str ''EPIC: all \"of\" it''), (''n'', V_Num (- 5)), (''tags'', V_List [V_Str ''a b'', V_Str ''#c''])] '' text '' [(''closes'', sample_block)])
    = \<lparr>fm_meta = [(''title'', V_Str ''EPIC: all \"of\" it''), (''n'', V_Str ''-5''), (''tags'', V_List [V_Str ''a b'', V_Str ''#c''])],
       fm_body = ''text'', fm_raw = [(''closes'', sample_block)], has_frontmatter = True\<rparr>"
proof -
  let ?m = "[(''title'', V_Str ''EPIC: all \"of\" it''), (''n'', V_Num (- 5)), (''tags'', V_List [V_Str ''a b'', V_Str ''#c''])]"
  have p: "plain_meta ?m [(''closes'', sample_block)]" by code_simp
  have s: "stored_meta ?m = [(''title'', V_Str ''EPIC: all \"of\" it''), (''n'', V_Str ''-5''), (''tags'', V_List [V_Str ''a b'', V_Str ''#c''])]"
    "trim '' text '' = ''text''" by code_simp+
  show ?thesis using frontmatter_roundtrip [OF p, of "'' text ''"] by (simp add: s)
qed

subsection \<open>Torn files\<close>

lemma until_close_append: "until_close s = Some (a, r) \<Longrightarrow> until_close (s @ t) = Some (a, r @ t)"
proof (induction s arbitrary: a)
  case (Cons c s)
  show ?case
  proof (cases "take 4 (c # s) = newline @ ''---''")
    case True
    then have "4 \<le> length (c # s)" by (auto dest!: arg_cong [where f = length] simp: newline_def)
    with True Cons.prems show ?thesis by (auto simp: newline_def)
  next
    case False
    with Cons.prems obtain b where b: "until_close s = Some (b, r)" "a = c # b"
      by (auto split: option.splits if_split_asm)
    have "take 4 ((c # s) @ t) \<noteq> newline @ ''---''"
    proof
      assume h: "take 4 ((c # s) @ t) = newline @ ''---''"
      have "s \<noteq> []" using b by auto
      have "length s < 3"
      proof (rule ccontr)
        assume "\<not> length s < 3"
        with h False show False by simp
      qed
      moreover have "3 \<le> length s"
      proof -
        have "until_close u = Some (x, y) \<Longrightarrow> 4 \<le> length u" for u x y
        proof (induction u arbitrary: x)
          case (Cons d u)
          then show ?case
            by (cases "take 4 (d # u) = newline @ ''---''")
              (auto dest!: arg_cong [where f = length] simp: newline_def split: option.splits)
        qed simp
        from this [OF b(1)] show ?thesis by simp
      qed
      ultimately show False by simp
    qed
    then show ?thesis using Cons.IH [OF b(1)] b(2) by simp
  qed
qed simp

text \<open>
  A torn file is not believed: whatever prefix of a file a crash leaves, either it is read as having
  no frontmatter at all, or every key and every block of it reads as in the whole file.
\<close>

theorem torn_file_not_believed:
  "if has_frontmatter (parse_frontmatter (take n content))
   then has_frontmatter (parse_frontmatter content)
     \<and> fm_meta (parse_frontmatter (take n content)) = fm_meta (parse_frontmatter content)
     \<and> fm_raw (parse_frontmatter (take n content)) = fm_raw (parse_frontmatter content)
   else parse_frontmatter (take n content) = \<lparr>fm_meta = [], fm_body = take n content, fm_raw = [], has_frontmatter = False\<rparr>"
proof (cases "fences (take n content)")
  case None
  then show ?thesis by (simp add: parse_frontmatter_def)
next
  case (Some p)
  then obtain block r where f: "take 4 (take n content) = ''---'' @ newline" "until_close (drop 4 (take n content)) = Some (block, r)"
    "fst p = block"
    by (auto simp: fences_def split: if_split_asm option.splits prod.splits)
  then have "4 \<le> n" by (auto dest!: arg_cong [where f = length] simp: newline_def)
  with f have "take 4 content = ''---'' @ newline" by (simp add: min_def)
  moreover have "drop 4 content = drop 4 (take n content) @ drop n content"
    using \<open>4 \<le> n\<close> f(1) by (metis append_take_drop_id drop_append drop_drop drop_take le_add_diff_inverse2)
  then have "until_close (drop 4 content) = Some (block, r @ drop n content)" using until_close_append [OF f(2)] by simp
  ultimately have "\<exists>r. fences content = Some (block, r)" by (simp add: fences_def)
  then obtain r' where "fences content = Some (block, r')" by blast
  with Some f(3) show ?thesis by (cases p) (simp add: parse_frontmatter_def Let_def)
qed

text \<open>
  Two shapes that do not come back: a list element with a comma is read as two, and metadata without
  keys is written as a file that has no frontmatter.
\<close>

lemma list_comma_splits:
  "fm_meta (parse_frontmatter (serialize_frontmatter [(''tags'', V_List [V_Str ''a,b''])] [] []))
     = [(''tags'', V_List [V_Str ''a'', V_Str ''b''])]"
  by code_simp

lemma empty_meta_is_lost: "has_frontmatter (parse_frontmatter (serialize_frontmatter [] ''body'' [])) = False"
  by code_simp

end
