(* ===== verification/EpicCadence.thy ===== *)
theory EpicCadence
  imports EpicWhen Frontmatter
begin

section \<open>The when axis on disk\<close>

text \<open>
  The canonical gate list of \<open>EpicWhen\<close> is its own normal form: written to a run file, as the bare
  scalar or the list that \<open>serializeWhen\<close> makes of it, and parsed again, it is the same list. The
  token expression is followed piece by piece over the text of a canonical instant.
\<close>

named_theorems hit_intros \<open>a matcher consumes a given prefix\<close>

subsection \<open>Matchers over a known prefix\<close>

definition hits :: "matcher \<Rightarrow> string \<Rightarrow> string \<Rightarrow> bool" where
  "hits p a r \<longleftrightarrow> p (a @ r) = Some (length a)"

lemma hits_end: "hits (in_order []) [] r"
  by (simp add: hits_def)

lemma hits_seq: "hits p a (b @ r) \<Longrightarrow> hits (in_order ps) b r \<Longrightarrow> hits (in_order (p # ps)) (a @ b) r"
  by (simp add: hits_def followed_by_def)

lemma hits_one [hit_intros]: "P c \<Longrightarrow> hits (one_of P) [c] r"
  by (simp add: hits_def one_of_def)

lemma hits_char [hit_intros]: "hits (one_of (is_char c)) [c] r"
  by (simp add: hits_def one_of_def is_char_def)

lemma hits_digits [hit_intros]: "length a = n \<Longrightarrow> list_all is_digit a \<Longrightarrow> hits (digits_n n) a r"
  by (auto simp: hits_def digits_n_def)

lemma hits_optional: "hits p a r \<Longrightarrow> hits (optional p) a r"
  by (simp add: hits_def optional_def)

lemma hits_absent: "p r = None \<Longrightarrow> hits (optional p) [] r"
  by (simp add: hits_def optional_def)

lemma hits_many:
  assumes "a \<noteq> []" "list_all P a" "r = [] \<or> \<not> P (hd r)"
  shows "hits (many1 P) a r"
proof -
  have "takeWhile P (a @ r) = a"
    using assms by (cases r) (simp_all add: list_all_iff takeWhile_append)
  with assms(1) show ?thesis by (simp add: hits_def many1_def)
qed

lemma hits_either: "hits p a r \<Longrightarrow> hits (either p q) a r"
  by (simp add: hits_def either_def)

lemma hits_last: "hits p a r \<Longrightarrow> hits (in_order [p]) a r"
  using hits_seq [of p a "[]" r "[]"] hits_end by simp

subsection \<open>A canonical instant is one token\<close>

lemma hits_at: "hits at_prefix AT r"
proof -
  have "lower (CHR ''a'') = CHR ''a''" "lower (CHR ''t'') = CHR ''t''" by code_simp+
  then show ?thesis by (simp add: hits_def at_prefix_def AT_def followed_by_def one_of_def is_char_def)
qed

lemma hits_date:
  "list_all is_digit y \<Longrightarrow> length y = 4 \<Longrightarrow> list_all is_digit m \<Longrightarrow> length m = 2 \<Longrightarrow> list_all is_digit d \<Longrightarrow> length d = 2 \<Longrightarrow>
     hits date_shape (y @ ''-'' @ m @ ''-'' @ d) r"
  unfolding date_shape_def by (intro hits_seq hits_last hit_intros) simp_all

lemma zone_starts:
  assumes "zone_of z off"
  shows "z \<noteq> []" "hd z \<noteq> CHR ''.''" "\<not> is_digit (hd z)"
  using assms by (auto simp: zone_of_def signed_zone_def is_sign_def is_digit_def)

lemma hits_fraction:
  assumes "zone_of z off" "0 \<le> ms" "ms < 1000"
  shows "hits (optional (in_order [one_of (is_char (CHR ''.'')), many1 is_digit])) (fraction ms) z"
proof (cases "ms = 0")
  case True
  have "one_of (is_char (CHR ''.'')) z = None"
    using zone_starts [OF assms(1)] by (cases z) (simp_all add: one_of_def is_char_def)
  with True show ?thesis by (simp add: fraction_def hits_absent followed_by_def)
next
  case False
  have "pad 3 ms \<noteq> []" using length_pad [of 3 ms] assms by auto
  then have "hits (many1 is_digit) (pad 3 ms) z" using zone_starts [OF assms(1)] digits_pad by (intro hits_many) simp_all
  with False show ?thesis
    using hits_seq [OF hits_char hits_last, of "many1 is_digit" "pad 3 ms" z "CHR ''.''"] by (simp add: fraction_def hits_optional)
qed

lemma hits_zone:
  assumes "zone_of z off"
  shows "hits (optional zone_shape) z []"
proof (cases "z = ''Z''")
  case True
  have "lower (CHR ''Z'') = CHR ''z''" by code_simp
  with True show ?thesis by (simp add: hits_def optional_def zone_shape_def either_def one_of_def)
next
  case False
  with assms obtain p a b c d where z: "z = [p, a, b, CHR '':'', c, d]"
    "is_sign p" "is_digit a" "is_digit b" "is_digit c" "is_digit d"
    by (auto simp: zone_of_def signed_zone_def)
  with zone_shape_6 [of p a b "CHR '':''" c d] show ?thesis by (simp add: hits_def optional_def)
qed

lemma hits_time:
  assumes z: "zone_of z off" and f: "iso_fields y m d h mi sec ms"
  shows "hits (optional time_shape) (''T'' @ pad 2 h @ '':'' @ pad 2 mi @ '':'' @ pad 2 sec @ fraction ms) z"
proof -
  note n = iso_fields_digits [OF f]
  have len: "length (pad 2 h) = 2" "length (pad 2 mi) = 2" "length (pad 2 sec) = 2" using n by (simp_all add: length_pad)
  have t: "hits (one_of (\<lambda>c. lower c = CHR ''t'' \<or> c = CHR '' '')) ''T'' r" for r
    by (rule hits_one) code_simp
  have c: "hits (one_of (is_char (CHR '':''))) '':'' r" for r by (rule hits_char)
  have two: "hits (digits_n 2) (pad 2 h) r" "hits (digits_n 2) (pad 2 mi) r" "hits (digits_n 2) (pad 2 sec) r" for r
    by (simp_all add: hits_digits len digits_pad)
  have frac: "hits (optional (in_order [one_of (is_char (CHR ''.'')), many1 is_digit])) (fraction ms) z"
    using hits_fraction [OF z] n by simp
  show ?thesis unfolding time_shape_def
    by (rule hits_optional, rule hits_seq [OF t], rule hits_seq [OF two(1)], rule hits_seq [OF c], rule hits_seq [OF two(2)],
      rule hits_last, rule hits_optional, rule hits_seq [OF c], rule hits_seq [OF two(3)], rule hits_last, rule frac)
qed

lemma token_canonical:
  assumes z: "zone_of z off" and f: "iso_fields y m d h mi sec ms" and y: "0 \<le> y" "y \<le> 9999"
  shows "token_at (AT @ iso_stem y m d h mi sec @ fraction ms @ z) = Some (length (AT @ iso_stem y m d h mi sec @ fraction ms @ z))"
proof -
  note n = iso_fields_digits [OF f]
  have date: "hits date_shape (pad 4 y @ ''-'' @ pad 2 m @ ''-'' @ pad 2 d) r" for r
    using n y by (intro hits_date) (simp_all add: length_pad digits_pad)
  have time: "hits (optional time_shape) (''T'' @ pad 2 h @ '':'' @ pad 2 mi @ '':'' @ pad 2 sec @ fraction ms) (z @ [])"
    using hits_time [OF z f] by simp
  have "hits instant_shape
      ((pad 4 y @ ''-'' @ pad 2 m @ ''-'' @ pad 2 d) @ (''T'' @ pad 2 h @ '':'' @ pad 2 mi @ '':'' @ pad 2 sec @ fraction ms) @ z) []"
    unfolding instant_shape_def by (rule hits_seq [OF date], rule hits_seq [OF time], rule hits_last, rule hits_zone [OF z])
  then have "hits instant_shape (iso_stem y m d h mi sec @ fraction ms @ z) []"
    using y by (simp add: iso_stem_def year_str_def)
  then have "hits (in_order [at_prefix, instant_shape]) (AT @ iso_stem y m d h mi sec @ fraction ms @ z) []"
    by (rule hits_seq [OF hits_at hits_last])
  then have "hits token_at (AT @ iso_stem y m d h mi sec @ fraction ms @ z) []"
    unfolding token_at_def by (rule hits_either)
  then show ?thesis by (simp add: hits_def)
qed

subsection \<open>The tokens of a gate list\<close>

lemma tokens_all: "token_at s = Some (length s) \<Longrightarrow> s \<noteq> [] \<Longrightarrow> tokens s = [s]"
  by (cases s) (simp_all add: tokens.simps)

definition plain_word :: "string \<Rightarrow> bool" where
  "plain_word w \<longleftrightarrow> w \<noteq> [] \<and> list_all is_letter w \<and> lower (hd w) \<noteq> CHR ''a'' \<and> \<not> is_digit (hd w)"

lemma token_word_at:
  assumes "plain_word w" "r = [] \<or> \<not> is_letter (hd r)"
  shows "token_at (w @ r) = Some (length w)"
proof -
  obtain c cs where w: "w = c # cs" using assms(1) by (cases w) (simp_all add: plain_word_def)
  have "at_prefix (w @ r) = None" using assms(1) by (simp add: w plain_word_def at_prefix_def followed_by_def one_of_def)
  moreover have "instant_shape (w @ r) = None"
    using assms(1) by (simp add: w plain_word_def instant_shape_def date_shape_def followed_by_def digits_n_def)
  moreover have "hits (many1 is_letter) w r" using assms by (intro hits_many) (simp_all add: plain_word_def)
  ultimately show ?thesis by (simp add: token_at_def either_def followed_by_def hits_def)
qed

lemma token_at_comma: "token_at (CHR '','' # s) = None"
proof -
  have "lower (CHR '','') = CHR '',''" "\<not> is_letter (CHR '','')" "\<not> is_digit (CHR '','')" by code_simp+
  then show ?thesis
    by (simp add: token_at_def either_def followed_by_def at_prefix_def one_of_def instant_shape_def date_shape_def digits_n_def many1_def)
qed

lemma comma_no_letter: "\<not> is_letter (CHR '','')"
  by code_simp

lemma tokens_word: "plain_word w \<Longrightarrow> tokens w = [w]"
  using token_word_at [of w "[]"] by (intro tokens_all) (simp_all add: plain_word_def)

lemma tokens_word_comma: "plain_word w \<Longrightarrow> tokens (w @ CHR '','' # s) = w # tokens s"
proof -
  assume w: "plain_word w"
  then have t: "token_at (w @ CHR '','' # s) = Some (length w)" using comma_no_letter by (intro token_word_at) simp_all
  from w obtain c cs where c: "w = c # cs" by (cases w) (simp_all add: plain_word_def)
  have "tokens (CHR '','' # s) = tokens s" by (simp add: tokens.simps(2) token_at_comma)
  with t show ?thesis by (simp add: c tokens.simps(2))
qed

lemma tokens_words: "list_all plain_word ws \<Longrightarrow> tokens g = [g] \<Longrightarrow> tokens (join '','' (ws @ [g])) = ws @ [g]"
proof (induction ws)
  case (Cons w ws)
  have "join '','' ((w # ws) @ [g]) = w @ CHR '','' # join '','' (ws @ [g])" by (cases ws) simp_all
  with Cons show ?case by (simp add: tokens_word_comma)
qed simp

lemma gate_words: "g \<in> set WHEN_GATES \<Longrightarrow> plain_word g \<and> token_word g = g"
proof -
  have "list_all (\<lambda>g. plain_word g \<and> token_word g = g) WHEN_GATES" by code_simp
  then show "g \<in> set WHEN_GATES \<Longrightarrow> plain_word g \<and> token_word g = g" by (simp add: list_all_iff)
qed

subsection \<open>Instants within the tokenizer's years\<close>

text \<open>An instant whose canonical text starts with a date of the shape the tokenizer reads.\<close>

definition ordinary_instant :: "string \<times> int \<Rightarrow> bool" where
  "ordinary_instant r \<longleftrightarrow> \<not> far_instant r \<and> date_shape (drop (length AT) (fst r)) \<noteq> None"

lemma year_spelt:
  assumes "date_shape (year_str y @ r) \<noteq> None"
  shows "0 \<le> y" "y \<le> 9999"
proof -
  have "is_digit (hd (year_str y))"
  proof -
    have "year_str y \<noteq> []" using length_pad [of 4 y] by (auto simp: year_str_def)
    then obtain c cs where c: "year_str y = c # cs" by (cases "year_str y") simp_all
    from assms show ?thesis by (simp add: c date_shape_def followed_by_def digits_n_def split: if_splits)
  qed
  then have "0 \<le> y \<and> y \<le> 9999" by (auto simp: year_str_def is_digit_def split: if_splits)
  then show "0 \<le> y" "y \<le> 9999" by simp_all
qed

lemma ordinary_instant_text:
  assumes "(g, ms) \<in> set (named_instants v)" "ordinary_instant (g, ms)"
  shows "tokens g = [g]" "read_instant g = Some (g, ms)" "token_word g \<notin> set WHEN_GATES"
    "g \<noteq> [] \<and> CHR '','' \<notin> set g \<and> CHR 0x0A \<notin> set g"
proof -
  obtain t where "read_instant t = Some (g, ms)" using named_instants_read [OF assms(1)] by blast
  then obtain z off where z: "zone_of z off" "g = AT @ instant_text (ms + 60000 * off) z" "\<bar>ms\<bar> \<le> 8640000000000000"
    by (rule read_instant_text)
  have w: "\<bar>ms + 60000 * off\<bar> \<le> 8640000000000000"
    using assms(2) zone_of_bound [OF z(1)] unfolding ordinary_instant_def far_instant_def snd_conv by linarith
  have dot: "CHR ''.'' \<notin> set z" using zone_of_free [OF z(1)] by simp
  obtain y m d h mi sec k where f: "iso_fields y m d h mi sec k"
    and spelt: "instant_text (ms + 60000 * off) z = iso_stem y m d h mi sec @ fraction k @ z"
    by (rule instant_text_stem [OF w dot])
  have g: "g = AT @ iso_stem y m d h mi sec @ fraction k @ z" using z(2) spelt by simp
  have drop_AT: "drop (length AT) (AT @ x) = x" for x by simp
  have "date_shape (iso_stem y m d h mi sec @ fraction k @ z) \<noteq> None"
    using assms(2) unfolding ordinary_instant_def fst_conv g drop_AT by blast
  then have y: "0 \<le> y" "y \<le> 9999" unfolding iso_stem_def append_assoc by (rule year_spelt)+
  have "g \<noteq> []" by (simp add: g AT_def)
  with token_canonical [OF z(1) f y] show "tokens g = [g]" unfolding g by (rule tokens_all)
  show "read_instant g = Some (g, ms)" using named_instant_reads_back [OF assms(1)] assms(2) by (simp add: ordinary_instant_def)
  have "\<not> is_space (CHR ''a'')" "lower (CHR ''a'') = CHR ''a''" by code_simp+
  moreover from this have "trim g = g" using zone_of_free [OF z(1)] by (intro trim_id) (simp add: g AT_def)
  ultimately have "hd (token_word g) = CHR ''a'' \<and> token_word g \<noteq> []" by (simp add: token_word_def) (simp add: g AT_def)
  then show "token_word g \<notin> set WHEN_GATES" by (auto simp: WHEN_GATES_def)
  have "set z \<subseteq> Collect is_digit \<union> set ''+-:Z''"
    using z(1) by (auto simp: zone_of_def signed_zone_def is_sign_def)
  moreover have "set (fraction k) \<subseteq> Collect is_digit \<union> set ''.''"
    using pad_chars [of 3 k] by (auto simp: fraction_def)
  ultimately have "set g \<subseteq> Collect is_digit \<union> set ''at:+-T.Z''"
    using iso_stem_chars [of y m d h mi sec] unfolding g set_append AT_def by auto
  moreover have "\<not> is_digit (CHR '','')" "\<not> is_digit (CHR 0x0A)" by code_simp+
  ultimately show "g \<noteq> [] \<and> CHR '','' \<notin> set g \<and> CHR 0x0A \<notin> set g" using \<open>g \<noteq> []\<close> by auto
qed

subsection \<open>The normal form\<close>

lemma gates_reads_back:
  assumes ws: "rs = filter (\<lambda>g. g \<noteq> NO_GATE \<and> P g) WHEN_GATES" and v: "tokens (when_source v) = rs @ gs"
    and gs: "gs = [] \<and> rs \<noteq> [] \<or> (\<exists>g ms. gs = [g] \<and> read_instant g = Some (g, ms) \<and> token_word g \<notin> set WHEN_GATES)"
  shows "parse_when v = rs @ gs"
proof -
  have rs: "g \<in> set rs \<Longrightarrow> g \<in> set WHEN_GATES" "token_word ` set rs = set rs" for g
    using gate_words unfolding ws by force+
  have n: "g \<in> named_gates v \<longleftrightarrow> g \<in> set rs" if "g \<in> set WHEN_GATES" for g
    using gs that rs by (auto simp: named_gates_def v image_Un)
  then have "filter (\<lambda>g. g \<noteq> NO_GATE \<and> g \<in> named_gates v) WHEN_GATES = filter (\<lambda>g. g \<noteq> NO_GATE \<and> g \<in> set rs) WHEN_GATES"
    by (intro filter_cong) auto
  also have "\<dots> = rs" unfolding ws by (intro filter_cong) auto
  finally have f: "filter (\<lambda>g. g \<noteq> NO_GATE \<and> g \<in> named_gates v) WHEN_GATES = rs" .
  have "filter (\<lambda>t. token_word t \<notin> set WHEN_GATES) rs = []"
    using gate_words rs(1) by (auto simp: filter_empty_conv)
  then have "latest_instant v = foldl later None (filter (\<lambda>t. token_word t \<notin> set WHEN_GATES) gs)"
    by (simp add: latest_instant_def v)
  with gs have "(case latest_instant v of None \<Rightarrow> [] | Some (g, _) \<Rightarrow> [g]) = gs" "gs = [] \<longrightarrow> rs \<noteq> []"
    by (auto simp: later_def)
  then show ?thesis by (cases gs) (simp_all add: parse_when_eq f Let_def)
qed

lemma now_reads_back: "parse_when (gates_value [NO_GATE]) = [NO_GATE]" "parse_when (V_Str NO_GATE) = [NO_GATE]"
  by code_simp+

lemma source_of_gates:
  "when_source (gates_value gs) = join '','' gs" "length gs = 1 \<Longrightarrow> when_source (V_Str (hd gs)) = join '','' gs"
  by (simp_all add: when_source_def gates_value_def o_def) (cases gs; simp)

definition ordinary :: "js_value \<Rightarrow> bool" where
  "ordinary v \<longleftrightarrow> list_all ordinary_instant (named_instants v)"

lemma parse_when_parts:
  assumes "ordinary v"
  obtains "parse_when v = [NO_GATE]"
  | ws gs P where "parse_when v = ws @ gs" "ws = filter (\<lambda>g. g \<noteq> NO_GATE \<and> P g) WHEN_GATES" "tokens (join '','' (ws @ gs)) = ws @ gs"
    "gs = [] \<and> ws \<noteq> [] \<or> (\<exists>g ms. gs = [g] \<and> read_instant g = Some (g, ms) \<and> token_word g \<notin> set WHEN_GATES \<and> ordinary_instant (g, ms))"
    "\<forall>g \<in> set (ws @ gs). g \<noteq> [] \<and> CHR '','' \<notin> set g \<and> CHR 0x0A \<notin> set g"
proof -
  define P where "P g \<longleftrightarrow> g \<in> named_gates v" for g
  define ws where "ws = filter (\<lambda>g. g \<noteq> NO_GATE \<and> P g) WHEN_GATES"
  have w: "list_all plain_word ws" using gate_words by (auto simp: ws_def list_all_iff)
  have wc: "g \<noteq> [] \<and> CHR '','' \<notin> set g \<and> CHR 0x0A \<notin> set g" if "g \<in> set ws" for g
  proof -
    have "list_all (\<lambda>g. g \<noteq> [] \<and> CHR '','' \<notin> set g \<and> CHR 0x0A \<notin> set g) WHEN_GATES" by code_simp
    with that show ?thesis by (simp add: ws_def list_all_iff)
  qed
  show thesis
  proof (cases "latest_instant v")
    case None
    then have p: "parse_when v = (if ws = [] then [NO_GATE] else ws)" by (simp add: parse_when_eq ws_def P_def Let_def)
    show thesis
    proof (cases "ws = []")
      case False
      then obtain us u where u: "ws = us @ [u]" by (metis rev_exhaust)
      with w tokens_words [of us u] tokens_word [of u] have "tokens (join '','' ws) = ws" by simp
      with False p wc show thesis by (intro that(2) [of ws "[]" P]) (simp_all add: ws_def)
    qed (use p that(1) in simp)
  next
    case (Some r)
    obtain g ms where r: "r = (g, ms)" by (cases r)
    with Some latest_instant_max [of v] have i: "(g, ms) \<in> set (named_instants v)" by blast
    with assms have o: "ordinary_instant (g, ms)" by (auto simp: ordinary_def list_all_iff)
    note t = ordinary_instant_text [OF i o]
    have "parse_when v = ws @ [g]" using Some r by (simp add: parse_when_eq ws_def P_def Let_def)
    then show thesis
      using tokens_words [OF w t(1)] t wc o by (intro that(2) [of ws "[g]" P]) (auto simp: ws_def)
  qed
qed

lemma parse_when_normal:
  assumes "ordinary v"
  shows "parse_when (gates_value (parse_when v)) = parse_when v"
    and "length (parse_when v) = 1 \<Longrightarrow> parse_when (V_Str (hd (parse_when v))) = parse_when v"
proof -
  have "parse_when (gates_value (parse_when v)) = parse_when v
    \<and> (length (parse_when v) = 1 \<longrightarrow> parse_when (V_Str (hd (parse_when v))) = parse_when v)"
    using assms
  proof (cases rule: parse_when_parts)
    case 1
    then show ?thesis using now_reads_back by simp
  next
    case (2 ws gs P)
    have "parse_when u = ws @ gs" if "when_source u = join '','' (ws @ gs)" for u
      using 2(4) by (intro gates_reads_back [OF 2(2)]) (auto simp: that 2(3))
    then show ?thesis using source_of_gates [of "ws @ gs"] 2(1) by simp
  qed
  then show "parse_when (gates_value (parse_when v)) = parse_when v"
    and "length (parse_when v) = 1 \<Longrightarrow> parse_when (V_Str (hd (parse_when v))) = parse_when v" by simp_all
qed

lemma ordinary_normal: "ordinary v \<Longrightarrow> ordinary (gates_value (parse_when v))"
proof -
  assume "ordinary v"
  then show ?thesis
  proof (cases rule: parse_when_parts)
    case 1
    have "named_instants (gates_value [NO_GATE]) = []" by code_simp
    with 1 show ?thesis by (simp add: ordinary_def)
  next
    case (2 ws gs P)
    have "filter (\<lambda>t. token_word t \<notin> set WHEN_GATES) ws = []"
      using gate_words by (auto simp: 2(2) filter_empty_conv)
    with 2 show ?thesis
      by (auto simp: ordinary_def named_instants_def source_of_gates)
  qed
qed

text \<open>What a run file holds for a spelling, and what it reads back as.\<close>

lemma gates_on_disk:
  assumes "ordinary v"
  defines "gs \<equiv> parse_when v"
  shows "plain_value (if length gs = 1 then V_Str (hd gs) else gates_value gs)"
    and "parse_when (stored_value (if length gs = 1 then V_Str (hd gs) else gates_value gs)) = gs"
proof -
  have ok: "\<forall>g \<in> set gs. g \<noteq> [] \<and> CHR '','' \<notin> set g \<and> CHR 0x0A \<notin> set g"
    unfolding gs_def using assms(1) by (cases rule: parse_when_parts) (auto simp: NO_GATE_def)
  note norm = parse_when_normal [OF assms(1), folded gs_def]
  have stored: "stored_value (gates_value us) = gates_value us" for us by (simp add: gates_value_def o_def)
  have "plain_value (gates_value gs)" using ok by (simp add: gates_value_def list_all_iff)
  moreover have "plain_value (V_Str (hd gs))" if "length gs = 1" using ok that by (cases gs) simp_all
  ultimately show "plain_value (if length gs = 1 then V_Str (hd gs) else gates_value gs)" by simp
  show "parse_when (stored_value (if length gs = 1 then V_Str (hd gs) else gates_value gs)) = gs"
    using norm by (simp add: stored)
qed

text \<open>
  C34: the \<open>when\<close> axis survives its file: whatever spelling a caller sends, the gate list made of it,
  written as a bare scalar or an inline list and read again from the run file, is the same gate list,
  and normalising it once more changes nothing. The named instants must lie in the years the
  tokenizer reads.
\<close>

theorem when_axis_survives_its_file:
  assumes "list_all ordinary_instant (named_instants v)"
  shows "parse_when (stored_value (serialize_when (parse_when v))) = parse_when v
    \<and> parse_when (gates_value (parse_when v)) = parse_when v"
proof -
  have "ordinary v" using assms by (simp add: ordinary_def)
  note norm = parse_when_normal [OF this]
  have "stored_value (gates_value us) = gates_value us" for us by (simp add: gates_value_def o_def)
  with norm show ?thesis by (simp add: serialize_when_def Let_def)
qed

theorem when_axis_survives_its_file_witness:
  "parse_when (stored_value (serialize_when (parse_when (V_Str ''queue+2026-08-22T02:00+0700''))))
     = parse_when (V_Str ''queue+2026-08-22T02:00+0700'')"
proof -
  have "list_all ordinary_instant (named_instants (V_Str ''queue+2026-08-22T02:00+0700''))" by code_simp
  with when_axis_survives_its_file [of "V_Str ''queue+2026-08-22T02:00+0700''"] show ?thesis by simp
qed

end
