(* ===== verification/JsDecimal.thy ===== *)
theory JsDecimal
  imports JsValue JsDate
begin

section \<open>Fractional numbers as text\<close>

text \<open>
  \<open>String(x)\<close> and \<open>Number.parseFloat(s)\<close> for amounts of money. A number is printed as the shortest
  decimal of at most 17 digits that rounds back to it, with the placement of the point and the
  exponent of \<open>Number::toString\<close>; a text is read up to the end of its longest decimal prefix and
  rounded with \<^const>\<open>fl\<close>, so amounts are below \<open>2^52\<close>. The fuel of the search for the leading digit
  covers the range of a double.
\<close>

fun decade :: "nat \<Rightarrow> rat \<Rightarrow> int" where
  "decade 0 x = 0"
| "decade (Suc f) x = (if 1 \<le> x then decade f (x / 10) + 1 else if 10 * x < 1 then decade f (10 * x) - 1 else 0)"

text \<open>The digits \<open>s\<close> and the exponent \<open>n\<close> of \<open>Number::toString\<close>.\<close>

definition digits_of :: "rat \<Rightarrow> nat \<Rightarrow> nat" where
  "digits_of x k = nat (round_even (scale10 x (int k - decade 400 x)))"

definition shortest :: "rat \<Rightarrow> nat option" where
  "shortest x =
     map_option (digits_of x)
       (find (\<lambda>k. length (nat_str (digits_of x k)) = k \<and> fl (scale10 (of_nat (digits_of x k)) (decade 400 x - int k)) = x) [1..<18])"

definition place_point :: "string \<Rightarrow> int \<Rightarrow> string" where
  "place_point ds n =
     (let k = int (length ds)
      in if k \<le> n \<and> n \<le> 21 then ds @ replicate (nat (n - k)) (CHR ''0'')
         else if 0 < n \<and> n \<le> 21 then take (nat n) ds @ ''.'' @ drop (nat n) ds
         else if - 6 < n \<and> n \<le> 0 then ''0.'' @ replicate (nat (- n)) (CHR ''0'') @ ds
         else take 1 ds @ (if length ds = 1 then [] else ''.'' @ drop 1 ds) @ ''e''
           @ (if n - 1 < 0 then ''-'' else ''+'') @ nat_str (nat \<bar>n - 1\<bar>))"

definition number_string :: "rat \<Rightarrow> string" where
  "number_string x =
     (if x = 0 then ''0''
      else (if x < 0 then ''-'' else [])
        @ (case shortest \<bar>x\<bar> of None \<Rightarrow> [] | Some s \<Rightarrow> place_point (nat_str s) (decade 400 \<bar>x\<bar>)))"

text \<open>\<open>None\<close> is \<open>NaN\<close> or an infinity.\<close>

definition float_exponent :: "string \<Rightarrow> int" where
  "float_exponent s =
     (case s of
        [] \<Rightarrow> 0
      | c # r \<Rightarrow>
          (case read_sign r of (sg, t) \<Rightarrow>
             if c = CHR ''e'' \<or> c = CHR ''E'' then sg * int (digits_val (takeWhile is_digit t)) else 0))"

definition parse_float :: "string \<Rightarrow> rat option" where
  "parse_float s =
     (case read_sign (dropWhile is_space s) of (sg, t) \<Rightarrow>
        let ip = takeWhile is_digit t; r = dropWhile is_digit t;
            dot = r \<noteq> [] \<and> hd r = CHR ''.'';
            fp = (if dot then takeWhile is_digit (tl r) else []);
            rest = (if dot then dropWhile is_digit (tl r) else r)
        in if ip = [] \<and> fp = [] then None
           else Some (of_int sg * fl (scale10 (of_nat (digits_val (ip @ fp))) (float_exponent rest - int (length fp)))))"

text \<open>The amounts whose text is a plain decimal: not negative, and neither tiny nor huge.\<close>

definition printable :: "rat \<Rightarrow> bool" where
  "printable x \<longleftrightarrow> x = 0 \<or> (0 < x \<and> shortest x \<noteq> None \<and> - 6 < decade 400 x \<and> decade 400 x \<le> 21)"

lemma parse_plain:
  assumes "list_all is_digit ip" "list_all is_digit fp" "ip \<noteq> []"
  shows "parse_float (ip @ (if fp = [] then [] else ''.'' @ fp)) = Some (fl (scale10 (of_nat (digits_val (ip @ fp))) (- int (length fp))))"
proof -
  obtain c cs where ip: "ip = c # cs" "is_digit c" using assms by (cases ip) auto
  have c: "\<not> is_space c" "c \<noteq> CHR ''-''" "c \<noteq> CHR ''+''"
    using ip(2) digit_not_space by (auto simp: is_digit_def)
  have dot: "\<not> is_digit (CHR ''.'')" by (simp add: is_digit_def)
  have e: "float_exponent [] = 0" by (simp add: float_exponent_def)
  have plain: "takeWhile is_digit fp = fp" "dropWhile is_digit fp = []" "takeWhile is_digit ip = ip" "dropWhile is_digit ip = []"
    using assms(1, 2) by (simp_all add: list_all_iff takeWhile_eq_all_conv dropWhile_eq_Nil_conv)
  have point: "takeWhile is_digit (ip @ CHR ''.'' # fp) = ip" "dropWhile is_digit (ip @ CHR ''.'' # fp) = CHR ''.'' # fp"
    using assms(1) dot by (auto simp: list_all_iff takeWhile_append2 dropWhile_append2)
  have sign: "read_sign (dropWhile is_space (ip @ r)) = (1, ip @ r)" for r
    using c ip by (simp add: read_sign_def)
  show ?thesis
  proof (cases "fp = []")
    case True
    have "read_sign (dropWhile is_space ip) = (1, ip)" using sign [of "[]"] by simp
    then show ?thesis using assms(3) by (simp add: True parse_float_def Let_def plain e)
  next
    case False
    have "read_sign (dropWhile is_space (ip @ CHR ''.'' # fp)) = (1, ip @ CHR ''.'' # fp)" by (rule sign)
    then show ?thesis using assms(3) False by (simp add: parse_float_def Let_def plain point e)
  qed
qed

lemma scale10_add: "scale10 (x * 10 ^ a) e = scale10 x (e + int a)"
proof (cases "0 \<le> e")
  case True
  then show ?thesis by (simp add: scale10_def nat_add_distrib power_add mult.assoc mult.commute)
next
  case False
  then show ?thesis
  proof (cases "0 \<le> e + int a")
    case True
    then have "a = nat (- e) + nat (e + int a)" using False by simp
    then have "(10 :: rat) ^ a = 10 ^ nat (- e) * 10 ^ nat (e + int a)" by (metis power_add)
    with True False show ?thesis by (simp add: scale10_def)
  next
    case f: False
    then have "nat (- e) = a + nat (- (e + int a))" using False by simp
    then have "(10 :: rat) ^ nat (- e) = 10 ^ a * 10 ^ nat (- (e + int a))" by (metis power_add)
    with f False show ?thesis by (simp add: scale10_def)
  qed
qed

lemma digits_val_zeros: "digits_val (ds @ replicate n (CHR ''0'')) = digits_val ds * 10 ^ n"
proof (induction n)
  case (Suc n)
  have "ds @ replicate (Suc n) (CHR ''0'') = (ds @ replicate n (CHR ''0'')) @ [CHR ''0'']" by (simp add: replicate_append_same)
  then show ?case using Suc by (simp only: digits_val_snoc) (simp add: digit_val_def)
qed simp

lemma zeros_digits: "list_all is_digit (replicate n (CHR ''0''))"
  by (simp add: list_all_iff is_digit_def)

lemma parse_place_point:
  assumes "- 6 < n" "n \<le> 21"
  shows "parse_float (place_point (nat_str s) n) = Some (fl (scale10 (of_nat s) (n - int (length (nat_str s)))))"
proof -
  let ?ds = "nat_str s" and ?k = "int (length (nat_str s))"
  consider "?k \<le> n" | "0 < n" "n < ?k" | "n \<le> 0" "n < ?k" by linarith
  then show ?thesis
  proof cases
    case 1
    have "parse_float (?ds @ replicate (nat (n - ?k)) (CHR ''0''))
        = Some (fl (scale10 (of_nat (digits_val (?ds @ replicate (nat (n - ?k)) (CHR ''0'')))) 0))"
      using parse_plain [of "?ds @ replicate (nat (n - ?k)) (CHR ''0'')" "[]"] by (simp add: zeros_digits)
    also have "scale10 (of_nat (digits_val (?ds @ replicate (nat (n - ?k)) (CHR ''0'')))) 0 = scale10 (of_nat s) (n - ?k)"
      using 1 scale10_add [of "of_nat s" "nat (n - ?k)" 0] by (simp add: digits_val_zeros)
    finally show ?thesis using 1 assms by (simp add: place_point_def Let_def)
  next
    case 2
    have all: "list_all is_digit (take (nat n) ?ds)" "list_all is_digit (drop (nat n) ?ds)"
      using list_all_nat_str [of s] by (auto simp: list_all_iff dest: in_set_takeD in_set_dropD)
    have "take (nat n) ?ds \<noteq> []" "drop (nat n) ?ds \<noteq> []" using 2 by simp_all
    with parse_plain [OF all] have "parse_float (take (nat n) ?ds @ ''.'' @ drop (nat n) ?ds)
        = Some (fl (scale10 (of_nat (digits_val ?ds)) (- int (length ?ds - nat n))))" by simp
    moreover have "- int (length ?ds - nat n) = n - ?k" using 2 by simp
    ultimately show ?thesis using 2 assms by (simp add: place_point_def Let_def)
  next
    case 3
    let ?z = "replicate (nat (- n)) (CHR ''0'')"
    have "parse_float (''0'' @ (if ?z @ ?ds = [] then [] else ''.'' @ ?z @ ?ds))
        = Some (fl (scale10 (of_nat (digits_val (''0'' @ ?z @ ?ds))) (- int (length (?z @ ?ds)))))"
      by (rule parse_plain) (simp_all add: zeros_digits is_digit_def)
    moreover have "''0'' @ ?z @ ?ds = replicate (Suc (nat (- n))) (CHR ''0'') @ ?ds" by simp
    then have "digits_val (''0'' @ ?z @ ?ds) = s" by (metis digits_val_replicate digits_val_nat_str)
    moreover have "- int (length (?z @ ?ds)) = n - ?k" using 3 by simp
    ultimately show ?thesis using 3 assms by (simp add: place_point_def Let_def)
  qed
qed

lemma number_string_reads_back:
  assumes "printable x"
  shows "parse_float (number_string x) = Some x"
proof (cases "x = 0")
  case True
  then show ?thesis using parse_plain [of "''0''" "[]"] by (simp add: number_string_def is_digit_def digits_val_def digit_val_def scale10_def fl_def)
next
  case False
  with assms obtain s where s: "shortest x = Some s" and x: "0 < x" "- 6 < decade 400 x" "decade 400 x \<le> 21"
    by (auto simp: printable_def)
  then have "length (nat_str s) = length (nat_str s) \<and> fl (scale10 (of_nat s) (decade 400 x - int (length (nat_str s)))) = x"
    by (auto simp: shortest_def find_Some_iff)
  with parse_place_point [OF x(2, 3), of s] s x(1) show ?thesis by (simp add: number_string_def)
qed

subsection \<open>Evaluation\<close>

lemma decade_step:
  "0 < f \<Longrightarrow> decade f x = (if 1 \<le> x then decade (f - 1) (x / 10) + 1 else if 10 * x < 1 then decade (f - 1) (10 * x) - 1 else 0)"
  by (cases f) simp_all

lemma scale_up_step: "0 < n \<Longrightarrow> scale_up n x = (if 4503599627370496 \<le> x then 0 else Suc (scale_up (n - 1) (2 * x)))"
  by (cases n) simp_all

lemmas decimal_eval = decade_step scale_up_step shortest_def digits_of_def scale10_def fl_def round_even_def nat_str.simps
  printable_def upt_rec Let_def

lemma printable_hundred: "printable 100" "printable 0"
  by (simp_all add: decimal_eval)

end
