(* ===== verification/EpicStore.thy ===== *)
theory EpicStore
  imports EpicRun EpicLease EpicLog EpicCadence JsDecimal
begin

section \<open>The run on disk\<close>

text \<open>
  \<open>src/shared/epic-run-store.ts\<close>: the directories of epics, each with three files, \<open>run.md\<close> (scalars),
  \<open>digest.md\<close> (the supervisor's prose) and \<open>log.md\<close> (the baton), and the operations that read and
  write the first two. A file is its text; a directory is present or absent; what the code throws is
  the \<open>Err\<close> branch. The optional keys of a run are written behind the others.
\<close>

record epic_files =
  run_md :: "string option"
  digest_md :: "string option"
  log_md :: "string option"

type_synonym epic_dirs = "string \<rightharpoonup> epic_files"

definition no_files :: epic_files where
  "no_files = \<lparr>run_md = None, digest_md = None, log_md = None\<rparr>"

definition DEFAULT_DIGEST :: string where
  "DEFAULT_DIGEST = ''_No digest yet -- the first werk-master generation writes it._''"

definition RUN_FILE_BANNER :: string where
  "RUN_FILE_BANNER = join newline
     [''<!--'',
      ''MACHINE-OWNED. Written by the epic engine; do not edit this file by hand.'',
      ''The frontmatter above is run state the engine reads every beat -- the ceilings,'',
      ''the spend ledger and the `when` axis -- and an edit that rewrites it is silently'',
      ''clobbered by the next write. The werk-master generation is NOT here: it lives on the'',
      ''epic card as `overseer_gen`, which is the only copy of it there is.'',
      [],
      ''Looking for the digest? It is `digest.md`, beside this file. That one is yours.'',
      ''-->'']"

subsection \<open>Coercions\<close>

definition pick :: "js_value option \<Rightarrow> (string \<times> 'a) list \<Rightarrow> 'a \<Rightarrow> 'a" where
  "pick v allowed fallback =
     (case v of Some (V_Str s) \<Rightarrow> (case map_of allowed s of Some a \<Rightarrow> a | None \<Rightarrow> fallback) | _ \<Rightarrow> fallback)"

definition string_or_empty :: "js_value option \<Rightarrow> string" where
  "string_or_empty v = (case v of None \<Rightarrow> [] | Some V_Null \<Rightarrow> [] | Some w \<Rightarrow> to_string w)"

definition num :: "js_value option \<Rightarrow> int \<Rightarrow> int" where
  "num v fallback =
     (case v of
        Some (V_Num n) \<Rightarrow> n
      | _ \<Rightarrow> (case parse_int10 (string_or_empty v) of Some n \<Rightarrow> n | None \<Rightarrow> fallback))"

definition dec :: "js_value option \<Rightarrow> rat \<Rightarrow> rat" where
  "dec v fallback =
     (case v of
        Some (V_Num n) \<Rightarrow> of_int n
      | _ \<Rightarrow> (case parse_float (string_or_empty v) of Some x \<Rightarrow> x | None \<Rightarrow> fallback))"

definition bool_of :: "js_value option \<Rightarrow> bool \<Rightarrow> bool" where
  "bool_of v fallback =
     (case v of
        Some (V_Bool b) \<Rightarrow> b
      | Some (V_Str s) \<Rightarrow> (if s = ''true'' then True else if s = ''false'' then False else fallback)
      | _ \<Rightarrow> fallback)"

definition text_or :: "js_value option \<Rightarrow> string \<Rightarrow> string" where
  "text_or v fallback = (case v of Some (V_Str s) \<Rightarrow> s | _ \<Rightarrow> fallback)"

definition filled :: "js_value option \<Rightarrow> string option" where
  "filled v = (case v of Some (V_Str s) \<Rightarrow> if s = [] then None else Some s | _ \<Rightarrow> None)"

definition STATUSES :: "(string \<times> epic_run_status) list" where
  "STATUSES = map (\<lambda>s. (status_name s, s)) [Armed, Running, Paused, Complete, Aborted]"

fun target_name :: "epic_run_target \<Rightarrow> string" where
  "target_name Target_Pr = ''pr''"
| "target_name Target_Merged = ''merged''"
| "target_name Target_Shipped = ''shipped''"

definition TARGETS :: "(string \<times> epic_run_target) list" where
  "TARGETS = map (\<lambda>t. (target_name t, t)) [Target_Pr, Target_Merged, Target_Shipped]"

subsection \<open>Reading\<close>

definition run_unreadable :: "string \<Rightarrow> string \<Rightarrow> string" where
  "run_unreadable epic_id why =
     ''epic run artifact for `'' @ epic_id @ ''` is UNREADABLE ('' @ why @ '') -- it is truncated or corrupt. ''
     @ ''Refusing to read it as a fresh run; move run.md aside and re-arm the epic.''"

definition read_run_file :: "string \<Rightarrow> epic_files \<Rightarrow> (string, front_matter option) result" where
  "read_run_file epic_id fs =
     (case run_md fs of
        None \<Rightarrow> Ok None
      | Some content \<Rightarrow>
          let parsed = parse_frontmatter content
          in if has_frontmatter parsed then Ok (Some parsed)
             else Err (run_unreadable epic_id ''run.md carries no frontmatter block''))"

definition read_digest :: "epic_files \<Rightarrow> string \<Rightarrow> string" where
  "read_digest fs run_body =
     (let own = (case digest_md fs of None \<Rightarrow> [] | Some s \<Rightarrow> trim s);
          legacy = trim (replace_first RUN_FILE_BANNER [] run_body)
      in if own \<noteq> [] then own else if legacy \<noteq> [] then legacy else DEFAULT_DIGEST)"

definition run_of_meta :: "string \<Rightarrow> meta \<Rightarrow> string \<Rightarrow> epic_run" where
  "run_of_meta epic_id m d =
     \<lparr>run_epic_id = text_or (m ''epicId'') epic_id,
      run_project = text_or (m ''project'') [],
      cadence = gates_value (parse_when (case m ''cadence'' of None \<Rightarrow> V_Null | Some v \<Rightarrow> v)),
      run_status = pick (m ''status'') STATUSES Armed,
      run_target = pick (m ''target'') TARGETS Target_Merged,
      dry_gens = num (m ''dryGens'') 0,
      unlanded_woken = text_or (m ''unlandedWoken'') [],
      max_gens = num (m ''maxGens'') EPIC_RUN_DEFAULT_MAX_GENS,
      max_usd = dec (m ''maxUsd'') EPIC_RUN_DEFAULT_MAX_USD,
      max_wall_clock_minutes = num (m ''maxWallClockMinutes'') EPIC_RUN_DEFAULT_MAX_WALL_CLOCK,
      spent_usd = dec (m ''spentUsd'') 0,
      started_at = filled (m ''startedAt''),
      run_plan = bool_of (m ''plan'') False,
      planned = bool_of (m ''planned'') True,
      plan_baseline = filled (m ''planBaseline''),
      run_concurrency = num (m ''concurrency'') EPIC_RUN_DEFAULT_CONCURRENCY,
      run_created = text_or (m ''created'') [],
      run_updated = text_or (m ''updated'') [],
      abort_reason = filled (m ''abortReason''),
      acknowledged_at = filled (m ''acknowledgedAt''),
      digest = d\<rparr>"

definition read_epic_run :: "string \<Rightarrow> epic_files \<Rightarrow> (string, epic_run option) result" where
  "read_epic_run epic_id fs =
     (case read_run_file epic_id fs of
        Err e \<Rightarrow> Err e
      | Ok None \<Rightarrow> Ok None
      | Ok (Some parsed) \<Rightarrow> Ok (Some (run_of_meta epic_id (map_of (fm_meta parsed)) (read_digest fs (fm_body parsed)))))"

subsection \<open>Writing\<close>

definition serialize_cadence :: "js_value \<Rightarrow> js_value" where
  "serialize_cadence v = (let l = parse_when v in if length l = 1 then V_Str (hd l) else gates_value l)"

definition optional_text :: "string option \<Rightarrow> js_value" where
  "optional_text s = (case s of None \<Rightarrow> V_Null | Some t \<Rightarrow> V_Str t)"

definition meta_of_run :: "epic_run \<Rightarrow> fm_meta" where
  "meta_of_run r =
     [(''epicId'', V_Str (run_epic_id r)),
      (''project'', V_Str (run_project r)),
      (''cadence'', serialize_cadence (cadence r)),
      (''status'', V_Str (status_name (run_status r))),
      (''target'', V_Str (target_name (run_target r))),
      (''dryGens'', V_Num (dry_gens r)),
      (''unlandedWoken'', V_Str (unlanded_woken r)),
      (''maxGens'', V_Num (max_gens r)),
      (''maxUsd'', V_Str (number_string (max_usd r))),
      (''maxWallClockMinutes'', V_Num (max_wall_clock_minutes r)),
      (''spentUsd'', V_Str (number_string (spent_usd r))),
      (''concurrency'', V_Num (run_concurrency r)),
      (''plan'', V_Bool (run_plan r)),
      (''planned'', V_Bool (planned r)),
      (''created'', V_Str (run_created r)),
      (''updated'', V_Str (run_updated r)),
      (''startedAt'', optional_text (started_at r)),
      (''planBaseline'', optional_text (plan_baseline r)),
      (''abortReason'', optional_text (abort_reason r)),
      (''acknowledgedAt'', optional_text (acknowledged_at r))]"

definition files_of :: "epic_dirs \<Rightarrow> string \<Rightarrow> epic_files" where
  "files_of dirs epic_id = (case dirs epic_id of None \<Rightarrow> no_files | Some fs \<Rightarrow> fs)"

definition written :: "epic_files \<Rightarrow> epic_run \<Rightarrow> string option \<Rightarrow> epic_files" where
  "written fs r d =
     (let prose = (case d of Some p \<Rightarrow> Some p | None \<Rightarrow> if digest_md fs = None then Some (digest r) else None);
          fs = fs\<lparr>run_md := Some (serialize_frontmatter (meta_of_run r) RUN_FILE_BANNER [])\<rparr>
      in case prose of None \<Rightarrow> fs | Some p \<Rightarrow> fs\<lparr>digest_md := Some (trim p @ newline)\<rparr>)"

text \<open>A run is written to the directory it names, which the id in the file decides.\<close>

definition write_run :: "epic_dirs \<Rightarrow> epic_run \<Rightarrow> string option \<Rightarrow> (string, epic_dirs) result" where
  "write_run dirs r d =
     (if \<not> is_valid_epic_id (run_epic_id r) then Err (''invalid epic id: '' @ run_epic_id r)
      else Ok (dirs(run_epic_id r \<mapsto> written (files_of dirs (run_epic_id r)) r d)))"

subsection \<open>Arming and patching\<close>

record start_input =
  start_epic_id :: string
  start_project :: string
  start_cadence :: "js_value option"
  start_target :: "epic_run_target option"
  start_concurrency :: "int option"
  start_max_gens :: "int option"
  start_max_usd :: "rat option"
  start_max_wall_clock :: "int option"
  start_plan :: "bool option"

definition or_else :: "'a option \<Rightarrow> 'a \<Rightarrow> 'a" where
  "or_else x y = (case x of Some v \<Rightarrow> v | None \<Rightarrow> y)"

definition fresh_run :: "start_input \<Rightarrow> string \<Rightarrow> epic_run" where
  "fresh_run s ts =
     (let wants_plan = or_else (start_plan s) True
      in \<lparr>run_epic_id = start_epic_id s, run_project = start_project s, cadence = gates_value [''now''], run_status = Armed,
          run_target = Target_Merged, dry_gens = 0, unlanded_woken = [], max_gens = EPIC_RUN_DEFAULT_MAX_GENS,
          max_usd = EPIC_RUN_DEFAULT_MAX_USD, max_wall_clock_minutes = EPIC_RUN_DEFAULT_MAX_WALL_CLOCK, spent_usd = 0,
          started_at = None, run_plan = wants_plan, planned = (\<not> wants_plan), plan_baseline = None,
          run_concurrency = EPIC_RUN_DEFAULT_CONCURRENCY, run_created = ts, run_updated = ts, abort_reason = None,
          acknowledged_at = None, digest = DEFAULT_DIGEST\<rparr>)"

definition rearmed :: "epic_run \<Rightarrow> start_input \<Rightarrow> string \<Rightarrow> epic_run" where
  "rearmed base s ts =
     base\<lparr>run_project := (if start_project s \<noteq> [] then start_project s else run_project base),
          cadence := (case start_cadence s of None \<Rightarrow> cadence base | Some v \<Rightarrow> gates_value (parse_when v)),
          run_target := or_else (start_target s) (run_target base),
          run_concurrency := or_else (start_concurrency s) (run_concurrency base),
          max_gens := or_else (start_max_gens s) (max_gens base),
          max_usd := or_else (start_max_usd s) (max_usd base),
          max_wall_clock_minutes := or_else (start_max_wall_clock s) (max_wall_clock_minutes base),
          run_status := Armed, dry_gens := 0, unlanded_woken := [], started_at := None, run_updated := ts,
          abort_reason := None, acknowledged_at := None\<rparr>"

definition read_run_of :: "epic_dirs \<Rightarrow> string \<Rightarrow> (string, epic_run option) result" where
  "read_run_of dirs epic_id =
     (if \<not> is_valid_epic_id epic_id then Err (''invalid epic id: '' @ epic_id)
      else read_epic_run epic_id (files_of dirs epic_id))"

definition start_epic_run :: "start_input \<Rightarrow> int \<Rightarrow> epic_dirs \<Rightarrow> (string, epic_dirs \<times> epic_run) result" where
  "start_epic_run s now dirs =
     (case read_run_of dirs (start_epic_id s) of
        Err e \<Rightarrow> Err e
      | Ok existing \<Rightarrow>
          let r = rearmed (case existing of Some b \<Rightarrow> b | None \<Rightarrow> fresh_run s (to_iso now)) s (to_iso now)
          in case write_run dirs r None of Err e \<Rightarrow> Err e | Ok dirs' \<Rightarrow> Ok (dirs', r))"

record run_patch =
  p_project :: "string option"
  p_cadence :: "js_value option"
  p_status :: "epic_run_status option"
  p_target :: "epic_run_target option"
  p_dry_gens :: "int option"
  p_unlanded_woken :: "string option"
  p_max_gens :: "int option"
  p_max_usd :: "rat option"
  p_max_wall_clock :: "int option"
  p_spent_usd :: "rat option"
  p_started_at :: "string option"
  p_plan :: "bool option"
  p_planned :: "bool option"
  p_plan_baseline :: "string option"
  p_concurrency :: "int option"
  p_abort_reason :: "string option"
  p_acknowledged_at :: "string option"
  p_digest :: "string option"

definition no_patch :: run_patch where
  "no_patch =
     \<lparr>p_project = None, p_cadence = None, p_status = None, p_target = None, p_dry_gens = None, p_unlanded_woken = None,
      p_max_gens = None, p_max_usd = None, p_max_wall_clock = None, p_spent_usd = None, p_started_at = None, p_plan = None,
      p_planned = None, p_plan_baseline = None, p_concurrency = None, p_abort_reason = None, p_acknowledged_at = None,
      p_digest = None\<rparr>"

definition or_keep :: "'a option \<Rightarrow> 'a option \<Rightarrow> 'a option" where
  "or_keep x y = (case x of Some v \<Rightarrow> Some v | None \<Rightarrow> y)"

definition patched :: "epic_run \<Rightarrow> run_patch \<Rightarrow> string \<Rightarrow> epic_run" where
  "patched r p ts =
     r\<lparr>run_project := or_else (p_project p) (run_project r), cadence := or_else (p_cadence p) (cadence r),
       run_status := or_else (p_status p) (run_status r), run_target := or_else (p_target p) (run_target r),
       dry_gens := or_else (p_dry_gens p) (dry_gens r), unlanded_woken := or_else (p_unlanded_woken p) (unlanded_woken r),
       max_gens := or_else (p_max_gens p) (max_gens r), max_usd := or_else (p_max_usd p) (max_usd r),
       max_wall_clock_minutes := or_else (p_max_wall_clock p) (max_wall_clock_minutes r),
       spent_usd := or_else (p_spent_usd p) (spent_usd r), started_at := or_keep (p_started_at p) (started_at r),
       run_plan := or_else (p_plan p) (run_plan r), planned := or_else (p_planned p) (planned r),
       plan_baseline := or_keep (p_plan_baseline p) (plan_baseline r),
       run_concurrency := or_else (p_concurrency p) (run_concurrency r),
       abort_reason := or_keep (p_abort_reason p) (abort_reason r),
       acknowledged_at := or_keep (p_acknowledged_at p) (acknowledged_at r),
       digest := or_else (p_digest p) (digest r), run_updated := ts\<rparr>"

definition patch_epic_run :: "string \<Rightarrow> run_patch \<Rightarrow> int \<Rightarrow> epic_dirs \<Rightarrow> (string, (epic_dirs \<times> epic_run) option) result" where
  "patch_epic_run epic_id p now dirs =
     (case read_run_of dirs epic_id of
        Err e \<Rightarrow> Err e
      | Ok None \<Rightarrow> Ok None
      | Ok (Some current) \<Rightarrow>
          let r = patched current p (to_iso now)
          in case write_run dirs r (p_digest p) of Err e \<Rightarrow> Err e | Ok dirs' \<Rightarrow> Ok (Some (dirs', r)))"

text \<open>A delete is a move: the directory goes under a name made of the id and the time.\<close>

definition deleted_epic_dir :: "string \<Rightarrow> int \<Rightarrow> string" where
  "deleted_epic_dir epic_id now = epic_id @ ''-'' @ map (\<lambda>c. if c = CHR '':'' \<or> c = CHR ''.'' then CHR ''-'' else c) (to_iso now)"

definition delete_epic_run ::
    "string \<Rightarrow> int \<Rightarrow> epic_dirs \<Rightarrow> (string \<rightharpoonup> epic_files) \<Rightarrow> (string, (epic_dirs \<times> (string \<rightharpoonup> epic_files) \<times> string) option) result" where
  "delete_epic_run epic_id now dirs tombs =
     (if \<not> is_valid_epic_id epic_id then Err (''invalid epic id: '' @ epic_id)
      else case dirs epic_id of
        None \<Rightarrow> Ok None
      | Some fs \<Rightarrow>
          let to = deleted_epic_dir epic_id now
          in if tombs to \<noteq> None then Err ''ENOTEMPTY''
             else Ok (Some (dirs(epic_id := None), tombs(to \<mapsto> fs), to)))"

subsection \<open>What a run file must avoid\<close>

definition one_line :: "string \<Rightarrow> bool" where
  "one_line s \<longleftrightarrow> CHR 0x0A \<notin> set s"

definition opt_line :: "string option \<Rightarrow> bool" where
  "opt_line s \<longleftrightarrow> (case s of None \<Rightarrow> True | Some t \<Rightarrow> one_line t)"

text \<open>Texts of one line, amounts that print, and appointments in the years of the tokenizer.\<close>

definition plain_run :: "epic_run \<Rightarrow> bool" where
  "plain_run r \<longleftrightarrow>
     one_line (run_epic_id r) \<and> one_line (run_project r) \<and> ordinary (cadence r) \<and> one_line (unlanded_woken r)
     \<and> printable (max_usd r) \<and> printable (spent_usd r) \<and> one_line (run_created r) \<and> one_line (run_updated r)
     \<and> opt_line (started_at r) \<and> opt_line (plan_baseline r) \<and> opt_line (abort_reason r) \<and> opt_line (acknowledged_at r)"

lemma cadence_written:
  "ordinary v \<Longrightarrow> plain_value (serialize_cadence v) \<and> parse_when (stored_value (serialize_cadence v)) = parse_when v"
  using gates_on_disk [of v] by (simp add: serialize_cadence_def Let_def)

lemma map_of_stored:
  "distinct (map fst m) \<Longrightarrow> map_of (stored_meta m) k
     = (case map_of m k of None \<Rightarrow> None | Some v \<Rightarrow> if v = V_Null then None else Some (stored_value v))"
proof (induction m)
  case (Cons x m)
  obtain k' v where x: "x = (k', v)" by (cases x)
  show ?case
  proof (cases "k = k'")
    case True
    with Cons.prems x have "map_of m k = None" by (simp add: map_of_eq_None_iff)
    with Cons True x show ?thesis by (simp add: stored_meta_def)
  qed (use Cons x in \<open>simp add: stored_meta_def\<close>)
qed (simp add: stored_meta_def)

lemma chars_of_number: "CHR 0x0A \<notin> set (number_string x)"
proof -
  have n: "CHR 0x0A \<notin> set (nat_str m)" for m by (rule nat_str_no) (simp add: is_digit_def)
  have "CHR 0x0A \<notin> set (place_point (nat_str s) k)" for s k
    using n by (auto simp: place_point_def Let_def dest: in_set_takeD in_set_dropD)
  then show ?thesis by (auto simp: number_string_def split: option.split)
qed

lemma int_one_line: "CHR 0x0A \<notin> set (int_str n)"
proof -
  have "CHR 0x0A \<notin> set (nat_str m)" for m by (rule nat_str_no) (simp add: is_digit_def)
  then show ?thesis by (simp add: int_str_def)
qed

lemma run_keys: "distinct (map fst (meta_of_run r))" "list_all (\<lambda>(k, v). plain_key k) (meta_of_run r)"
proof -
  show "distinct (map fst (meta_of_run r))" by (simp add: meta_of_run_def)
  show "list_all (\<lambda>(k, v). plain_key k) (meta_of_run r)"
    by (simp add: meta_of_run_def plain_key_def trim_def is_space_def)
qed

lemma plain_names: "one_line (status_name s)" "one_line (target_name t)"
  by (cases s; simp add: one_line_def) (cases t; simp add: one_line_def)

lemma plain_meta_of_run:
  assumes "plain_run r"
  shows "plain_meta (meta_of_run r) []"
proof -
  have opt: "plain_value (optional_text s)" if "opt_line s" for s
    using that by (cases s) (simp_all add: opt_line_def optional_text_def one_line_def)
  have b: "CHR 0x0A \<notin> set (if b then ''true'' else ''false'')" for b by simp
  have "list_all (\<lambda>(k, v). plain_value v) (meta_of_run r)"
    using assms plain_names(1) [of "run_status r"] plain_names(2) [of "run_target r"] opt chars_of_number int_one_line b
    cadence_written [of "cadence r"]
    by (simp add: meta_of_run_def plain_run_def one_line_def)
  with run_keys [of r] show ?thesis
    by (auto simp: plain_meta_def list_all_iff)
qed

subsection \<open>What was written is read\<close>

lemma pick_name: "pick (Some (V_Str (status_name s))) STATUSES f = s" "pick (Some (V_Str (target_name t))) TARGETS g = t"
  by (cases s; simp add: pick_def STATUSES_def) (cases t; simp add: pick_def TARGETS_def)

lemma num_text: "num (Some (V_Str (int_str n))) f = n"
  by (simp add: num_def string_or_empty_def)

lemma dec_text: "printable x \<Longrightarrow> dec (Some (V_Str (number_string x))) f = x"
  by (simp add: dec_def string_or_empty_def number_string_reads_back)

lemma bool_text: "bool_of (Some (V_Str (to_string (V_Bool b)))) f = b"
  by (cases b) (simp_all add: bool_of_def)

definition unless_empty :: "string option \<Rightarrow> string option" where
  "unless_empty s = (if truthy s then s else None)"

text \<open>A run as it is read back: an optional text that is empty is absent, and the gates are in normal form.\<close>

definition as_read :: "epic_run \<Rightarrow> epic_run" where
  "as_read r =
     r\<lparr>cadence := gates_value (parse_when (cadence r)), started_at := unless_empty (started_at r), plan_baseline := unless_empty (plan_baseline r),
       abort_reason := unless_empty (abort_reason r), acknowledged_at := unless_empty (acknowledged_at r)\<rparr>"

lemma filled_optional:
  "filled (if optional_text s = V_Null then None else Some (stored_value (optional_text s))) = unless_empty s"
  by (cases s) (auto simp: filled_def optional_text_def unless_empty_def truthy_def)

definition read_meta :: "epic_run \<Rightarrow> meta" where
  "read_meta r = map_of (stored_meta (meta_of_run r))"

lemma read_meta_at:
  "map_of (meta_of_run r) k = Some v \<Longrightarrow> read_meta r k = (if v = V_Null then None else Some (stored_value v))"
  by (simp add: read_meta_def map_of_stored [OF run_keys(1)])

lemma meta_at [simp]:
  "read_meta r ''epicId'' = Some (V_Str (run_epic_id r))" "read_meta r ''project'' = Some (V_Str (run_project r))"
  "read_meta r ''status'' = Some (V_Str (status_name (run_status r)))" "read_meta r ''target'' = Some (V_Str (target_name (run_target r)))"
  "read_meta r ''dryGens'' = Some (V_Str (int_str (dry_gens r)))" "read_meta r ''unlandedWoken'' = Some (V_Str (unlanded_woken r))"
  "read_meta r ''maxGens'' = Some (V_Str (int_str (max_gens r)))" "read_meta r ''maxUsd'' = Some (V_Str (number_string (max_usd r)))"
  "read_meta r ''maxWallClockMinutes'' = Some (V_Str (int_str (max_wall_clock_minutes r)))"
  "read_meta r ''spentUsd'' = Some (V_Str (number_string (spent_usd r)))"
  "read_meta r ''concurrency'' = Some (V_Str (int_str (run_concurrency r)))"
  "read_meta r ''created'' = Some (V_Str (run_created r))" "read_meta r ''updated'' = Some (V_Str (run_updated r))"
  by (subst read_meta_at, simp add: meta_of_run_def, simp)+

lemma meta_at_rest:
  "read_meta r ''plan'' = Some (V_Str (to_string (V_Bool (run_plan r))))"
  "read_meta r ''planned'' = Some (V_Str (to_string (V_Bool (planned r))))"
  "read_meta r ''startedAt'' = (if optional_text (started_at r) = V_Null then None else Some (stored_value (optional_text (started_at r))))"
  "read_meta r ''planBaseline'' = (if optional_text (plan_baseline r) = V_Null then None else Some (stored_value (optional_text (plan_baseline r))))"
  "read_meta r ''abortReason'' = (if optional_text (abort_reason r) = V_Null then None else Some (stored_value (optional_text (abort_reason r))))"
  "read_meta r ''acknowledgedAt'' = (if optional_text (acknowledged_at r) = V_Null then None else Some (stored_value (optional_text (acknowledged_at r))))"
  by (rule read_meta_at [THEN trans], simp add: meta_of_run_def, simp)+

lemma meta_at_cadence:
  "read_meta r ''cadence'' = Some (stored_value (serialize_cadence (cadence r)))"
proof -
  have "serialize_cadence (cadence r) \<noteq> V_Null" by (simp add: serialize_cadence_def gates_value_def Let_def)
  with read_meta_at [of r "''cadence''" "serialize_cadence (cadence r)"] show ?thesis by (simp add: meta_of_run_def)
qed

lemma run_of_read_meta:
  assumes "plain_run r"
  shows "run_of_meta e (read_meta r) d = (as_read r)\<lparr>digest := d\<rparr>"
proof -
  have p: "printable (max_usd r)" "printable (spent_usd r)"
    and c: "parse_when (stored_value (serialize_cadence (cadence r))) = parse_when (cadence r)"
    using assms cadence_written by (simp_all add: plain_run_def)
  show ?thesis
    by (rule epic_run.equality)
      (simp_all add: run_of_meta_def as_read_def meta_at_rest meta_at_cadence c pick_name num_text dec_text p bool_text filled_optional
        text_or_def del: to_string.simps)
qed

lemma trim_banner: "trim (RUN_FILE_BANNER) = RUN_FILE_BANNER" "replace_first RUN_FILE_BANNER [] RUN_FILE_BANNER = []"
proof -
  obtain c cs where b: "RUN_FILE_BANNER = c # cs" "c = CHR ''<''" by (simp add: RUN_FILE_BANNER_def)
  have ends: "\<not> is_space (last RUN_FILE_BANNER)" "\<not> is_space (hd RUN_FILE_BANNER)"
    by code_simp+
  then show "trim RUN_FILE_BANNER = RUN_FILE_BANNER" by (intro trim_id) simp
  show "replace_first RUN_FILE_BANNER [] RUN_FILE_BANNER = []" unfolding b(1) by simp
qed

lemma parsed_run:
  assumes "plain_run r"
  shows "parse_frontmatter (serialize_frontmatter (meta_of_run r) RUN_FILE_BANNER [])
    = \<lparr>fm_meta = stored_meta (meta_of_run r), fm_body = RUN_FILE_BANNER, fm_raw = [], has_frontmatter = True\<rparr>"
proof -
  have "stored_meta (meta_of_run r) \<noteq> []" by (simp add: stored_meta_def meta_of_run_def)
  with frontmatter_reads_back [OF plain_meta_of_run [OF assms]] show ?thesis by (simp add: trim_banner)
qed

text \<open>The prose after a write: what the write carries, or what the file had.\<close>

definition prose_after :: "epic_files \<Rightarrow> epic_run \<Rightarrow> string option \<Rightarrow> string" where
  "prose_after fs r d =
     (let t = trim (case d of Some p \<Rightarrow> p | None \<Rightarrow> (case digest_md fs of None \<Rightarrow> digest r | Some s \<Rightarrow> s))
      in if t = [] then DEFAULT_DIGEST else t)"

lemma read_written:
  assumes "plain_run r"
  shows "read_epic_run e (written fs r d) = Ok (Some ((as_read r)\<lparr>digest := prose_after fs r d\<rparr>))"
proof -
  have nl: "trim (trim p @ newline) = trim p" for p by (simp add: newline_def trim_newline)
  have "run_md (written fs r d) = Some (serialize_frontmatter (meta_of_run r) RUN_FILE_BANNER [])"
    by (simp add: written_def Let_def split: option.split)
  moreover have "read_digest (written fs r d) RUN_FILE_BANNER = prose_after fs r d"
  proof -
    have e: "trim [] = []" by (simp add: trim_def)
    have rd: "read_digest fs' RUN_FILE_BANNER = (let t = trim (case digest_md fs' of None \<Rightarrow> [] | Some x \<Rightarrow> x) in if t = [] then DEFAULT_DIGEST else t)" for fs'
      by (simp add: read_digest_def trim_banner e Let_def split: option.split)
    show ?thesis
    proof (cases d)
      case None
      then show ?thesis by (cases "digest_md fs") (simp_all add: rd prose_after_def written_def Let_def nl)
    next
      case (Some p)
      then show ?thesis by (simp add: rd prose_after_def written_def Let_def nl)
    qed
  qed
  ultimately show ?thesis
    using run_of_read_meta [OF assms] by (simp add: read_epic_run_def read_run_file_def parsed_run [OF assms] Let_def read_meta_def)
qed

end
