(* ===== verification/EpicHandlers.thy ===== *)
theory EpicHandlers
  imports EpicStore
begin

section \<open>The sentinel's epic operations\<close>

text \<open>
  \<open>src/sentinel/epic-handlers.ts\<close>: one function per operation of \<open>HANDLERS\<close> over everything the
  sentinel owns, the epic directories, the tombstones and the cards. A handler that throws keeps what
  it wrote before, so it returns the store and, apart from it, the reply or the error
  \<open>runGuarded\<close> makes of the exception.
\<close>

record sentinel =
  dirs :: epic_dirs
  tombs :: "string \<rightharpoonup> epic_files"
  cards :: board

record epic_reply =
  reply_run :: "epic_run_reading option"
  reply_lease :: "lease_outcome option"
  reply_current :: "epic_lease option"
  reply_baton :: "log_entry list"
  reply_acks :: "string list"
  reply_counts :: "string \<rightharpoonup> nat"
  reply_entry :: "log_entry option"
  reply_deleted_to :: "string option"

definition ok_reply :: epic_reply where
  "ok_reply =
     \<lparr>reply_run = None, reply_lease = None, reply_current = None, reply_baton = [], reply_acks = [], reply_counts = Map.empty,
      reply_entry = None, reply_deleted_to = None\<rparr>"

type_synonym outcome = "sentinel \<times> (string, epic_reply) result"

definition BATON_TAIL :: int where "BATON_TAIL = 20"

definition DELETABLE :: "epic_run_status list" where
  "DELETABLE = [Paused, Aborted, Complete]"

definition with_lease_gen :: "epic_run \<Rightarrow> epic_lease option \<Rightarrow> epic_run_reading" where
  "with_lease_gen r l = epic_run.extend r \<lparr>run_gen = (case l of None \<Rightarrow> 0 | Some x \<Rightarrow> gen x)\<rparr>"

definition current_lease :: "sentinel \<Rightarrow> string \<Rightarrow> epic_lease option" where
  "current_lease st e = read_lease (case cards st e of None \<Rightarrow> Map.empty | Some m \<Rightarrow> m) OVERSEER_KEY_PREFIX"

definition projected :: "sentinel \<Rightarrow> string \<Rightarrow> epic_run \<Rightarrow> epic_run_reading" where
  "projected st e r = with_lease_gen r (current_lease st e)"

definition snapshot :: "sentinel \<Rightarrow> string \<Rightarrow> (string, epic_run_reading option) result" where
  "snapshot st e =
     (case read_run_of (dirs st) e of Err x \<Rightarrow> Err x | Ok r \<Rightarrow> Ok (map_option (projected st e) r))"

definition not_found :: "string \<Rightarrow> string" where
  "not_found e = ''epic run not found: '' @ e"

definition no_card :: "string \<Rightarrow> string" where
  "no_card e = ''epic card not found: '' @ e"

text \<open>A baton append of the sentinel, and what \<open>patchEpicRun\<close> does to the store.\<close>

definition log_to :: "sentinel \<Rightarrow> string \<Rightarrow> log_append \<Rightarrow> int \<Rightarrow> sentinel \<times> (string, log_entry) result" where
  "log_to st e a now =
     (if \<not> is_valid_epic_id e then (st, Err (''invalid epic id: '' @ e))
      else
        let fs = files_of (dirs st) e; w = append_epic_log e a now (log_md fs)
        in (st\<lparr>dirs := (dirs st)(e \<mapsto> fs\<lparr>log_md := fst w\<rparr>)\<rparr>, Ok (snd w)))"

definition patch_run :: "sentinel \<Rightarrow> string \<Rightarrow> run_patch \<Rightarrow> int \<Rightarrow> (string, (sentinel \<times> epic_run) option) result" where
  "patch_run st e p now =
     (case patch_epic_run e p now (dirs st) of
        Err x \<Rightarrow> Err x
      | Ok None \<Rightarrow> Ok None
      | Ok (Some (d, r)) \<Rightarrow> Ok (Some (st\<lparr>dirs := d\<rparr>, r)))"

definition release_card :: "sentinel \<Rightarrow> string \<Rightarrow> sentinel option" where
  "release_card st e =
     map_option (\<lambda>b. st\<lparr>cards := b\<rparr>) (patch_card_meta (cards st) e (release_patch OVERSEER_KEY_PREFIX))"

definition checkpoint :: "string \<Rightarrow> log_append" where
  "checkpoint body =
     \<lparr>append_kind = K_Checkpoint, append_conv = ''sentinel'', append_body = body, append_epic = None, append_card = None,
      append_ts = None\<rparr>"

definition status_patch :: "epic_run_status \<Rightarrow> run_patch" where
  "status_patch s = no_patch\<lparr>p_status := Some s\<rparr>"

definition reason_or :: "string option \<Rightarrow> string \<Rightarrow> string" where
  "reason_or r d = (if truthy r then the r else d)"

subsection \<open>The handlers\<close>

definition op_start :: "sentinel \<Rightarrow> string \<Rightarrow> string \<Rightarrow> start_input \<Rightarrow> int \<Rightarrow> outcome" where
  "op_start st e project s now =
     (case start_epic_run (s\<lparr>start_epic_id := e, start_project := project\<rparr>) now (dirs st) of
        Err x \<Rightarrow> (st, Err x)
      | Ok (d, r) \<Rightarrow>
          let st' = st\<lparr>dirs := d\<rparr>
          in (st', Ok (ok_reply\<lparr>reply_run := Some (projected st' e r), reply_current := current_lease st' e\<rparr>)))"

definition op_get :: "sentinel \<Rightarrow> string \<Rightarrow> baton_query option \<Rightarrow> outcome" where
  "op_get st e q =
     (if \<not> is_valid_epic_id e then (st, Err (''invalid epic id: '' @ e))
      else
        let entries = read_epic_log (log_md (files_of (dirs st) e)) e;
            query = (case q of
                None \<Rightarrow> \<lparr>query_limit = Some BATON_TAIL, query_kinds = None, query_card = None\<rparr>
              | Some x \<Rightarrow> x\<lparr>query_limit := Some (or_else (query_limit x) BATON_TAIL)\<rparr>)
        in case snapshot st e of
             Err x \<Rightarrow> (st, Err x)
           | Ok r \<Rightarrow>
               (st, Ok (ok_reply\<lparr>reply_run := r, reply_baton := slice_epic_log entries query,
                  reply_acks := acknowledged_card_ids entries, reply_counts := dispatch_counts_by_card entries,
                  reply_current := current_lease st e\<rparr>)))"

definition op_patch :: "sentinel \<Rightarrow> string \<Rightarrow> run_patch \<Rightarrow> int \<Rightarrow> outcome" where
  "op_patch st e p now =
     (case patch_run st e p now of
        Err x \<Rightarrow> (st, Err x)
      | Ok None \<Rightarrow> (st, Err (not_found e))
      | Ok (Some (st', r)) \<Rightarrow> (st', Ok (ok_reply\<lparr>reply_run := Some (projected st' e r)\<rparr>)))"

definition op_log_append :: "sentinel \<Rightarrow> string \<Rightarrow> log_append option \<Rightarrow> int \<Rightarrow> outcome" where
  "op_log_append st e a now =
     (case a of
        None \<Rightarrow> (st, Err ''logAppend.kind required'')
      | Some x \<Rightarrow>
          (case log_to st e x now of
             (st', Err y) \<Rightarrow> (st', Err y)
           | (st', Ok entry) \<Rightarrow> (st', Ok (ok_reply\<lparr>reply_entry := Some entry\<rparr>))))"

definition op_lease :: "sentinel \<Rightarrow> string \<Rightarrow> lease_request option \<Rightarrow> int \<Rightarrow> outcome" where
  "op_lease st e req now =
     (case req of
        None \<Rightarrow> (st, Err ''lease.convId required'')
      | Some q \<Rightarrow>
          if req_conv_id q = [] then (st, Err ''lease.convId required'')
          else case cards st e of
            None \<Rightarrow> (st, Err (no_card e))
          | Some m \<Rightarrow>
              let w = cas_lease_on_card (cards st) e OVERSEER_KEY_PREFIX m q now; st' = st\<lparr>cards := fst w\<rparr>
              in if \<not> granted (snd w) then (st', Ok (ok_reply\<lparr>reply_lease := Some (snd w)\<rparr>))
                 else case patch_run st' e (status_patch Running) now of
                   Err x \<Rightarrow> (st', Err x)
                 | Ok None \<Rightarrow> (st', Ok (ok_reply\<lparr>reply_lease := Some (snd w)\<rparr>))
                 | Ok (Some (st'', r)) \<Rightarrow> (st'', Ok (ok_reply\<lparr>reply_lease := Some (snd w)\<rparr>)))"

definition op_release :: "sentinel \<Rightarrow> string \<Rightarrow> outcome" where
  "op_release st e =
     (case release_card st e of
        None \<Rightarrow> (st, Err (no_card e))
      | Some st' \<Rightarrow>
          (case snapshot st' e of Err x \<Rightarrow> (st', Err x) | Ok r \<Rightarrow> (st', Ok (ok_reply\<lparr>reply_run := r\<rparr>))))"

definition released :: "sentinel \<Rightarrow> string \<Rightarrow> sentinel" where
  "released st e = (case release_card st e of None \<Rightarrow> st | Some st' \<Rightarrow> st')"

definition op_pause :: "sentinel \<Rightarrow> string \<Rightarrow> int \<Rightarrow> outcome" where
  "op_pause st e now =
     (case patch_run st e (status_patch Paused) now of
        Err x \<Rightarrow> (st, Err x)
      | Ok None \<Rightarrow> (st, Err (not_found e))
      | Ok (Some (st', r)) \<Rightarrow> (released st' e, Ok (ok_reply\<lparr>reply_run := Some (projected st' e r)\<rparr>)))"

definition op_abort :: "sentinel \<Rightarrow> string \<Rightarrow> string option \<Rightarrow> int \<Rightarrow> outcome" where
  "op_abort st e reason now =
     (case patch_run st e (status_patch Aborted) now of
        Err x \<Rightarrow> (st, Err x)
      | Ok None \<Rightarrow> (st, Err (not_found e))
      | Ok (Some (st', r)) \<Rightarrow>
          (case log_to (released st' e) e (checkpoint (''Run ABORTED: '' @ reason_or reason ''no reason given'')) now of
             (st'', Err x) \<Rightarrow> (st'', Err x)
           | (st'', Ok _) \<Rightarrow>
               (st'', Ok (ok_reply\<lparr>reply_run := Some ((projected st' e r)
                  \<lparr>abort_reason := Some (reason_or reason ''aborted''), run_updated := to_iso now\<rparr>)\<rparr>))))"

definition op_clear :: "sentinel \<Rightarrow> string \<Rightarrow> int \<Rightarrow> outcome" where
  "op_clear st e now =
     (case read_run_of (dirs st) e of
        Err x \<Rightarrow> (st, Err x)
      | Ok None \<Rightarrow> (st, Err (not_found e))
      | Ok (Some current) \<Rightarrow>
          if run_status current = Armed \<or> run_status current = Running
          then (st, Err (''run is '' @ status_name (run_status current) @ '' -- pause or abort it before clearing''))
          else case patch_run st e (no_patch\<lparr>p_acknowledged_at := Some (to_iso now)\<rparr>) now of
            Err x \<Rightarrow> (st, Err x)
          | Ok None \<Rightarrow> (st, Err (not_found e))
          | Ok (Some (st', r)) \<Rightarrow>
              (case log_to st' e (checkpoint (''Run CLEARED from the wall (status '' @ status_name (run_status current) @ '')'')) now of
                 (st'', Err x) \<Rightarrow> (st'', Err x)
               | (st'', Ok _) \<Rightarrow> (st'', Ok (ok_reply\<lparr>reply_run := Some (projected st'' e r)\<rparr>))))"

definition op_delete :: "sentinel \<Rightarrow> string \<Rightarrow> string option \<Rightarrow> int \<Rightarrow> outcome" where
  "op_delete st e reason now =
     (case read_run_of (dirs st) e of
        Err x \<Rightarrow> (st, Err x)
      | Ok None \<Rightarrow> (st, Err (not_found e))
      | Ok (Some current) \<Rightarrow>
          if run_status current \<notin> set DELETABLE
          then (st, Err (''run is '' @ status_name (run_status current) @ '' -- only a paused, aborted or complete run can be deleted''))
          else case log_to st e (checkpoint (''Run DELETED from the record (status '' @ status_name (run_status current) @ ''): ''
                   @ reason_or reason ''no reason given'')) now of
            (st', Err x) \<Rightarrow> (st', Err x)
          | (st', Ok _) \<Rightarrow>
              (case delete_epic_run e now (dirs st') (tombs st') of
                 Err x \<Rightarrow> (st', Err x)
               | Ok None \<Rightarrow> (st', Err (not_found e))
               | Ok (Some (d, t, to)) \<Rightarrow>
                   let st'' = st'\<lparr>dirs := d, tombs := t\<rparr>
                   in (st'', Ok (ok_reply\<lparr>reply_run := Some (projected st'' e current), reply_deleted_to := Some to\<rparr>))))"

subsection \<open>One envelope in, one result out\<close>

datatype epic_op =
    Op_Start start_input
  | Op_Get "baton_query option"
  | Op_Patch run_patch
  | Op_Log_Append "log_append option"
  | Op_Lease "lease_request option"
  | Op_Release
  | Op_Pause
  | Op_Abort "string option"
  | Op_Clear
  | Op_Delete "string option"
  | Op_Seat_Get "epic_seat_input option"
  | Op_Seat_Claim "epic_seat_input option"
  | Op_Seat_Release "epic_seat_input option"

record epic_msg =
  msg_project :: string
  msg_epic :: string
  msg_op :: epic_op

definition seat_reply :: "(string, epic_lease option) result \<Rightarrow> (string, epic_reply) result" where
  "seat_reply r = (case r of Err x \<Rightarrow> Err x | Ok l \<Rightarrow> Ok (ok_reply\<lparr>reply_current := l\<rparr>))"

fun handle_epic_op :: "sentinel \<Rightarrow> epic_msg \<times> int \<Rightarrow> outcome" where
  "handle_epic_op st (m, now) =
     (case msg_op m of
        Op_Start s \<Rightarrow> op_start st (msg_epic m) (msg_project m) s now
      | Op_Get q \<Rightarrow> op_get st (msg_epic m) q
      | Op_Patch p \<Rightarrow> op_patch st (msg_epic m) p now
      | Op_Log_Append a \<Rightarrow> op_log_append st (msg_epic m) a now
      | Op_Lease r \<Rightarrow> op_lease st (msg_epic m) r now
      | Op_Release \<Rightarrow> op_release st (msg_epic m)
      | Op_Pause \<Rightarrow> op_pause st (msg_epic m) now
      | Op_Abort r \<Rightarrow> op_abort st (msg_epic m) r now
      | Op_Clear \<Rightarrow> op_clear st (msg_epic m) now
      | Op_Delete r \<Rightarrow> op_delete st (msg_epic m) r now
      | Op_Seat_Get s \<Rightarrow> (st, seat_reply (seat_get (cards st) s))
      | Op_Seat_Claim s \<Rightarrow>
          (case seat_claim (cards st) s now of
             (b, Err x) \<Rightarrow> (st\<lparr>cards := b\<rparr>, Err x)
           | (b, Ok l) \<Rightarrow> (st\<lparr>cards := b\<rparr>, Ok (ok_reply\<lparr>reply_lease := Some l\<rparr>)))
      | Op_Seat_Release s \<Rightarrow> (case seat_release (cards st) s of (b, r) \<Rightarrow> (st\<lparr>cards := b\<rparr>, seat_reply r)))"

declare handle_epic_op.simps [simp del]

lemmas op_defs = op_start_def op_get_def op_patch_def op_log_append_def op_lease_def op_release_def op_pause_def op_abort_def
  op_clear_def op_delete_def

end
