(* ===== verification/CasRegister.thy ===== *)
theory CasRegister
  imports Main
begin

section \<open>A register moved by compare-and-swap\<close>

text \<open>
  The contract between whoever asks for a lease and the store that keeps it: one number per lease,
  which a won request moves by one and everything else leaves alone. What the engine builds on it is
  proved here once, for any sequence of requests, and holds of every store that keeps the contract.
\<close>

text \<open>The numbers the won requests of a sequence were given, in order.\<close>

fun numbers_won :: "('s \<Rightarrow> 'r \<Rightarrow> 's) \<Rightarrow> ('s \<Rightarrow> 'r \<Rightarrow> bool) \<Rightarrow> ('s \<Rightarrow> int) \<Rightarrow> 's \<Rightarrow> 'r list \<Rightarrow> int list" where
  "numbers_won step won number s [] = []"
| "numbers_won step won number s (r # rs) =
     (if won s r then [number (step s r)] else []) @ numbers_won step won number (step s r) rs"

locale cas_register =
  fixes step :: "'s \<Rightarrow> 'r \<Rightarrow> 's" and won :: "'s \<Rightarrow> 'r \<Rightarrow> bool" and number :: "'s \<Rightarrow> int"
  assumes won_moves: "won s r \<Longrightarrow> number (step s r) = number s + 1"
    and rest_keeps: "\<not> won s r \<Longrightarrow> number (step s r) = number s"
begin

lemma counts: "number (foldl step s rs) = number s + int (length (numbers_won step won number s rs))"
  by (induction rs arbitrary: s) (simp_all add: won_moves rest_keeps)

lemma consecutive:
  "numbers_won step won number s rs = map (\<lambda>i. number s + 1 + int i) [0..<length (numbers_won step won number s rs)]"
proof (induction rs arbitrary: s)
  case (Cons r rs)
  show ?case
  proof (cases "won s r")
    case True
    let ?l = "numbers_won step won number (step s r) rs"
    have "?l = map (\<lambda>i. number s + 1 + int (Suc i)) [0..<length ?l]"
      using Cons.IH [of "step s r"] won_moves [OF True] by (simp add: algebra_simps)
    then show ?thesis using True won_moves [OF True] by (simp add: map_upt_Suc del: upt_Suc)
  next
    case False
    with Cons.IH [of "step s r"] rest_keeps [OF False] show ?thesis by simp
  qed
qed simp

lemma won_once: "distinct (numbers_won step won number s rs)"
proof -
  have "distinct (map (\<lambda>i. number s + 1 + int i) [0..<n])" for n by (simp add: distinct_map inj_on_def)
  then show ?thesis by (metis consecutive)
qed

lemma never_back: "number s \<le> number (foldl step s rs)"
  by (simp add: counts)

end

end
