(* ===== verification/EpicSentinel.thy ===== *)
theory EpicSentinel
  imports EpicHandlers CasRegister
begin

section \<open>What the sentinel keeps\<close>

text \<open>
  The operations of \<open>EpicHandlers\<close> in sequence: a lease number counts the leases won, a directory
  keeps its baton, a run file stays readable, and nothing leaves the record but by a delete.
\<close>

definition after_msg :: "sentinel \<Rightarrow> epic_msg \<times> int \<Rightarrow> sentinel" where
  "after_msg st x = fst (handle_epic_op st x)"

definition card_meta :: "sentinel \<Rightarrow> string \<Rightarrow> meta" where
  "card_meta st c = (case cards st c of None \<Rightarrow> Map.empty | Some m \<Rightarrow> m)"

definition number_at :: "string \<Rightarrow> string \<Rightarrow> sentinel \<Rightarrow> int" where
  "number_at c p st = (case read_lease (card_meta st c) p of None \<Rightarrow> 0 | Some l \<Rightarrow> gen l)"

definition grants :: "meta \<Rightarrow> string \<Rightarrow> lease_request \<Rightarrow> int \<Rightarrow> bool" where
  "grants m p q now = (case evaluate_lease (read_lease m p) q now of Grant _ _ \<Rightarrow> True | Refuse _ _ \<Rightarrow> False)"

text \<open>A wake that takes the epic's lease (an adoption only renames its holder), and a seat claim that takes a card's.\<close>

definition wake_won :: "string \<Rightarrow> sentinel \<Rightarrow> epic_msg \<times> int \<Rightarrow> bool" where
  "wake_won c st x =
     (case msg_op (fst x) of
        Op_Lease (Some q) \<Rightarrow>
          msg_epic (fst x) = c \<and> req_conv_id q \<noteq> [] \<and> (force q \<or> \<not> adopt q)
          \<and> (case cards st c of None \<Rightarrow> False | Some m \<Rightarrow> grants m OVERSEER_KEY_PREFIX q (snd x))
      | _ \<Rightarrow> False)"

definition seat_request :: "epic_seat_input \<Rightarrow> lease_request" where
  "seat_request s =
     \<lparr>req_conv_id = the (seat_conv_id s), expect_gen = (case seat_expect_gen s of None \<Rightarrow> 0 | Some n \<Rightarrow> n),
      holder_alive = (case seat_holder_alive s of None \<Rightarrow> False | Some a \<Rightarrow> a), force = False, adopt = False\<rparr>"

definition seat_won :: "string \<Rightarrow> epic_role \<Rightarrow> sentinel \<Rightarrow> epic_msg \<times> int \<Rightarrow> bool" where
  "seat_won c r st x =
     (case msg_op (fst x) of
        Op_Seat_Claim (Some s) \<Rightarrow>
          (case seat_context_of (cards st) (Some s) True of
             Err _ \<Rightarrow> False
           | Ok ctx \<Rightarrow> seat_card_id s = c \<and> seat_role s = Some r \<and> grants (ctx_meta ctx) (ctx_prefix ctx) (seat_request s) (snd x))
      | _ \<Rightarrow> False)"

subsection \<open>What an operation does to the cards\<close>

lemma number_cong: "read_lease (card_meta st' c) p = read_lease (card_meta st c) p \<Longrightarrow> number_at c p st' = number_at c p st"
  by (simp add: number_at_def)

lemma number_none: "read_lease Map.empty p = None"
  by (simp add: read_lease_def meta_string_def read_gen_def parse_int10_def read_sign_def Let_def)

lemma number_release: "(case read_lease (m ++ release_patch p) p of None \<Rightarrow> 0 | Some l \<Rightarrow> gen l) = (case read_lease m p of None \<Rightarrow> 0 | Some l \<Rightarrow> gen l)"
  by (simp add: read_lease_def Let_def split: option.split)

lemma patched_meta:
  "patch_card_meta b c f = Some b' \<Longrightarrow> card_meta (st\<lparr>cards := b'\<rparr>) d = (if d = c then card_meta (st\<lparr>cards := b\<rparr>) d ++ f else card_meta (st\<lparr>cards := b\<rparr>) d)"
  by (auto simp: patch_card_meta_def card_meta_def split: option.splits)

lemma number_patch_other:
  assumes "patch_card_meta (cards st) c f = Some b" "dom f \<subseteq> keys_of q" "d \<noteq> c \<or> keys_of p \<inter> keys_of q = {}"
  shows "number_at d p (st\<lparr>cards := b\<rparr>) = number_at d p st"
proof (rule number_cong)
  have "card_meta (st\<lparr>cards := b\<rparr>) d = (if d = c then card_meta st d ++ f else card_meta st d)"
    using patched_meta [OF assms(1), of st d] by (simp add: card_meta_def)
  with assms show "read_lease (card_meta (st\<lparr>cards := b\<rparr>) d) p = read_lease (card_meta st d) p"
    by (auto simp: read_lease_other)
qed

lemma number_released: "number_at d p (released st e) = number_at d p st" if "p = OVERSEER_KEY_PREFIX \<or> keys_of p \<inter> keys_of OVERSEER_KEY_PREFIX = {}"
proof (cases "release_card st e")
  case (Some st')
  then obtain b where b: "patch_card_meta (cards st) e (release_patch OVERSEER_KEY_PREFIX) = Some b" "st' = st\<lparr>cards := b\<rparr>"
    by (auto simp: release_card_def)
  show ?thesis
  proof (cases "d = e \<and> p = OVERSEER_KEY_PREFIX")
    case True
    have "card_meta st' e = card_meta st e ++ release_patch OVERSEER_KEY_PREFIX"
      using patched_meta [OF b(1), of st e] by (simp add: b(2) card_meta_def)
    with True Some show ?thesis by (simp add: released_def number_at_def number_release)
  next
    case False
    with number_patch_other [OF b(1) dom_patches(2), of d p] that Some b(2) show ?thesis by (auto simp: released_def)
  qed
qed (simp add: released_def)

lemma dirs_only:
  "cards (fst (op_start st e pr s now)) = cards st" "cards (fst (op_get st e q)) = cards st"
  "cards (fst (op_patch st e p now)) = cards st" "cards (fst (op_log_append st e a now)) = cards st"
  by (auto simp: op_start_def op_get_def op_patch_def op_log_append_def patch_run_def log_to_def Let_def
      split: result.split option.split prod.split)

lemma patch_run_cards: "patch_run st e p now = Ok (Some (st', r)) \<Longrightarrow> cards st' = cards st"
  by (auto simp: patch_run_def split: result.splits option.splits)

lemma log_to_cards: "log_to st e a now = (st', x) \<Longrightarrow> cards st' = cards st"
  by (auto simp: log_to_def Let_def split: if_split_asm)

lemma clear_cards: "cards (fst (op_clear st e now)) = cards st"
  by (auto simp: op_clear_def split: result.split option.split prod.split dest!: patch_run_cards log_to_cards)

lemma delete_cards: "cards (fst (op_delete st e reason now)) = cards st"
  by (auto simp: op_delete_def Let_def split: result.split option.split prod.split dest!: log_to_cards)

lemma evaluate_gen:
  "evaluate_lease l q now = Grant l' r \<Longrightarrow>
     gen l' = (case l of None \<Rightarrow> 0 | Some x \<Rightarrow> gen x) + (if force q \<or> \<not> adopt q then 1 else 0)"
  by (cases l) (auto simp: evaluate_lease_def next_lease_def split: if_split_asm)

lemma number_cas:
  assumes "cards st c = Some m"
  shows "number_at c p (st\<lparr>cards := fst (cas_lease_on_card (cards st) c p m q now)\<rparr>)
    = number_at c p st + (if grants m p q now \<and> (force q \<or> \<not> adopt q) then 1 else 0)"
proof (cases "evaluate_lease (read_lease m p) q now")
  case (Grant l r)
  have "read_lease (card_meta (st\<lparr>cards := fst (cas_lease_on_card (cards st) c p m q now)\<rparr>) c) p = Some l"
    by (simp add: cas_lease_on_card_def Grant patch_card_meta_def assms card_meta_def read_lease_patch)
  moreover have "card_meta st c = m" by (simp add: card_meta_def assms)
  ultimately show ?thesis using evaluate_gen [OF Grant] by (simp add: number_at_def grants_def Grant)
next
  case (Refuse reason h)
  then show ?thesis by (simp add: cas_lease_on_card_def grants_def number_at_def card_meta_def)
qed

lemma number_cas_other:
  assumes "d \<noteq> c \<or> keys_of p \<inter> keys_of q' = {}"
  shows "number_at d p (st\<lparr>cards := fst (cas_lease_on_card (cards st) c q' m q now)\<rparr>) = number_at d p st"
proof (cases "evaluate_lease (read_lease m q') q now")
  case (Grant l r)
  show ?thesis
  proof (cases "patch_card_meta (cards st) c (lease_patch l q')")
    case None
    then show ?thesis by (simp add: cas_lease_on_card_def Grant number_at_def card_meta_def)
  next
    case (Some b)
    with number_patch_other [OF Some _ assms] dom_patches(1) show ?thesis
      by (simp add: cas_lease_on_card_def Grant)
  qed
next
  case (Refuse reason h)
  then show ?thesis by (simp add: cas_lease_on_card_def number_at_def card_meta_def)
qed

lemma overseer_seat_disjoint:
  "keys_of OVERSEER_KEY_PREFIX \<inter> keys_of (seat_lease_key_prefix r) = {}"
  "keys_of (seat_lease_key_prefix r) \<inter> keys_of OVERSEER_KEY_PREFIX = {}"
  by (cases r; simp add: keys_of_def seat_lease_key_prefix_def OVERSEER_KEY_PREFIX_def)+

text \<open>The store's lease numbers depend on its cards alone.\<close>

lemma number_of_cards: "cards st' = cards st \<Longrightarrow> number_at d p st' = number_at d p st"
  by (simp add: number_at_def card_meta_def)

lemma number_same [simp]: "number_at d p (st\<lparr>cards := cards st\<rparr>) = number_at d p st"
  by (rule number_of_cards) simp

lemmas number_dirs_only = dirs_only [THEN number_of_cards] clear_cards [THEN number_of_cards] delete_cards [THEN number_of_cards]

lemma lease_cards:
  "cards (fst (op_lease st e r now)) =
     (case r of None \<Rightarrow> cards st
      | Some q \<Rightarrow> if req_conv_id q = [] then cards st
          else case cards st e of None \<Rightarrow> cards st
            | Some m \<Rightarrow> fst (cas_lease_on_card (cards st) e OVERSEER_KEY_PREFIX m q now))"
  by (auto simp: op_lease_def Let_def split: option.split result.split dest!: patch_run_cards)

lemma pause_number:
  assumes "p = OVERSEER_KEY_PREFIX \<or> keys_of p \<inter> keys_of OVERSEER_KEY_PREFIX = {}"
  shows "number_at d p (fst (op_pause st e now)) = number_at d p st"
proof -
  have "number_at d p (released st' e) = number_at d p st" if "patch_run st e x now = Ok (Some (st', r))" for st' r x
    using number_released [OF assms, of d st' e] number_of_cards [OF patch_run_cards [OF that]] by simp
  then show ?thesis by (auto simp: op_pause_def split: result.split option.split)
qed

lemma abort_number:
  assumes "p = OVERSEER_KEY_PREFIX \<or> keys_of p \<inter> keys_of OVERSEER_KEY_PREFIX = {}"
  shows "number_at d p (fst (op_abort st e reason now)) = number_at d p st"
proof -
  have "number_at d p st'' = number_at d p st"
    if "patch_run st e x now = Ok (Some (st', r))" "log_to (released st' e) e a now = (st'', y)" for st' st'' r x a y
    using number_released [OF assms, of d st' e] number_of_cards [OF patch_run_cards [OF that(1)]]
      number_of_cards [OF log_to_cards [OF that(2)]] by simp
  then show ?thesis by (auto simp: op_abort_def split: result.split option.split prod.split)
qed

lemma release_number:
  assumes "p = OVERSEER_KEY_PREFIX \<or> keys_of p \<inter> keys_of OVERSEER_KEY_PREFIX = {}"
  shows "number_at d p (fst (op_release st e)) = number_at d p st"
proof -
  have "number_at d p st' = number_at d p st" if "release_card st e = Some st'" for st'
    using number_released [OF assms, of d st e] that by (simp add: released_def)
  then show ?thesis by (auto simp: op_release_def split: result.split option.split)
qed

subsection \<open>Seats\<close>

lemma seat_context_ok:
  assumes "seat_context_of b seat n = Ok ctx"
  obtains s r where "seat = Some s" "seat_role s = Some r" "b (seat_card_id s) = Some (ctx_meta ctx)"
    "ctx_prefix ctx = seat_lease_key_prefix r"
  using assms unfolding seat_context_of_def by (auto split: option.splits if_split_asm)

lemma after_seat_claim:
  assumes "msg_op m = Op_Seat_Claim s"
  shows "after_msg st (m, now) = st\<lparr>cards := fst (seat_claim (cards st) s now)\<rparr>"
proof -
  obtain b x where "seat_claim (cards st) s now = (b, x)" by (cases "seat_claim (cards st) s now")
  then show ?thesis by (cases x) (simp_all add: after_msg_def handle_epic_op.simps assms)
qed

lemma after_seat_release:
  assumes "msg_op m = Op_Seat_Release s"
  shows "after_msg st (m, now) = st\<lparr>cards := fst (seat_release (cards st) s)\<rparr>"
proof -
  obtain b x where "seat_release (cards st) s = (b, x)" by (cases "seat_release (cards st) s")
  then show ?thesis by (simp add: after_msg_def handle_epic_op.simps assms)
qed

lemma seat_release_cards:
  "fst (seat_release b seat) = b \<or>
     (\<exists>s r b'. seat = Some s \<and> seat_role s = Some r \<and>
        patch_card_meta b (seat_card_id s) (release_patch (seat_lease_key_prefix r)) = Some b' \<and> fst (seat_release b seat) = b')"
proof (cases "seat_context_of b seat True")
  case (Err x)
  then show ?thesis by (simp add: seat_release_def)
next
  case (Ok ctx)
  then obtain s r where s: "seat = Some s" "seat_role s = Some r" "b (seat_card_id s) = Some (ctx_meta ctx)"
    "ctx_prefix ctx = seat_lease_key_prefix r" by (rule seat_context_ok)
  then obtain b' where b': "patch_card_meta b (seat_card_id s) (release_patch (seat_lease_key_prefix r)) = Some b'"
    by (simp add: patch_card_meta_def)
  from Ok s b' show ?thesis by (simp add: seat_release_def Let_def)
qed

lemma number_seat_release:
  assumes "p = seat_lease_key_prefix r \<or> p = OVERSEER_KEY_PREFIX"
    "patch_card_meta (cards st) c (release_patch (seat_lease_key_prefix r')) = Some b"
  shows "number_at d p (st\<lparr>cards := b\<rparr>) = number_at d p st"
proof (cases "d = c \<and> p = seat_lease_key_prefix r'")
  case True
  have "card_meta (st\<lparr>cards := b\<rparr>) c = card_meta st c ++ release_patch (seat_lease_key_prefix r')"
    using patched_meta [OF assms(2), of st c] by (simp add: card_meta_def)
  with True show ?thesis by (simp add: number_at_def number_release)
next
  case False
  then have "d \<noteq> c \<or> keys_of p \<inter> keys_of (seat_lease_key_prefix r') = {}"
    using assms(1) overseer_seat_disjoint(1) [of r'] seat_keys_disjoint [of r r'] by auto
  with number_patch_other [OF assms(2) dom_patches(2)] show ?thesis by blast
qed

lemma number_seat_ops:
  assumes "p = seat_lease_key_prefix r \<or> p = OVERSEER_KEY_PREFIX"
  shows "number_at d p (st\<lparr>cards := fst (seat_release (cards st) s)\<rparr>) = number_at d p st"
  using seat_release_cards [of "cards st" s] number_seat_release [OF assms, of st] by auto

lemma number_seat_claim:
  assumes "p = seat_lease_key_prefix r \<or> p = OVERSEER_KEY_PREFIX"
  shows "number_at d p (st\<lparr>cards := fst (seat_claim (cards st) s now)\<rparr>)
    = number_at d p st + (if p = seat_lease_key_prefix r \<and> seat_won d r st (m\<lparr>msg_op := Op_Seat_Claim s\<rparr>, now) then 1 else 0)"
proof (cases "seat_context_of (cards st) s True")
  case (Err x)
  then show ?thesis by (auto simp: seat_claim_def seat_won_def split: option.split)
next
  case (Ok ctx)
  then obtain z r' where z: "s = Some z" "seat_role z = Some r'" "cards st (seat_card_id z) = Some (ctx_meta ctx)"
    "ctx_prefix ctx = seat_lease_key_prefix r'" by (rule seat_context_ok)
  have claim: "fst (seat_claim (cards st) s now)
      = fst (cas_lease_on_card (cards st) (seat_card_id z) (seat_lease_key_prefix r') (ctx_meta ctx) (seat_request z) now)"
    using Ok z by (simp add: seat_claim_def seat_request_def Let_def case_prod_beta)
  have won: "seat_won d r st (m\<lparr>msg_op := Op_Seat_Claim s\<rparr>, now)
      \<longleftrightarrow> seat_card_id z = d \<and> r' = r \<and> grants (ctx_meta ctx) (seat_lease_key_prefix r') (seat_request z) now"
    using Ok z by (auto simp: seat_won_def)
  show ?thesis
  proof (cases "d = seat_card_id z \<and> p = seat_lease_key_prefix r'")
    case True
    have "r' = r" if "p = seat_lease_key_prefix r"
      using that True by (cases r; cases r') (auto simp: seat_lease_key_prefix_def)
    moreover have "seat_lease_key_prefix r' \<noteq> OVERSEER_KEY_PREFIX" by (simp add: seat_lease_key_prefix_def OVERSEER_KEY_PREFIX_def)
    ultimately have "p = seat_lease_key_prefix r \<and> r' = r" using True assms by auto
    with number_cas [OF z(3), of "seat_lease_key_prefix r'" "seat_request z" now] True show ?thesis
      unfolding claim won by (simp add: seat_request_def)
  next
    case False
    then have "d \<noteq> seat_card_id z \<or> keys_of p \<inter> keys_of (seat_lease_key_prefix r') = {}"
      using assms overseer_seat_disjoint(1) [of r'] seat_keys_disjoint [of r r'] by auto
    with number_cas_other False show ?thesis unfolding claim won by auto
  qed
qed

subsection \<open>The lease numbers are registers\<close>

lemma wake_step: "number_at c OVERSEER_KEY_PREFIX (after_msg st x) = number_at c OVERSEER_KEY_PREFIX st + (if wake_won c st x then 1 else 0)"
proof -
  obtain m now where x: "x = (m, now)" by (cases x)
  show ?thesis
  proof (cases "msg_op m")
    case (Op_Lease r)
    have "number_at c OVERSEER_KEY_PREFIX (fst (op_lease st (msg_epic m) r now)) = number_at c OVERSEER_KEY_PREFIX st + (if wake_won c st x then 1 else 0)"
    proof (cases "\<exists>q k. r = Some q \<and> req_conv_id q \<noteq> [] \<and> cards st (msg_epic m) = Some k")
      case True
      then obtain q k where q: "r = Some q" "req_conv_id q \<noteq> []" "cards st (msg_epic m) = Some k" by blast
      then have "number_at c OVERSEER_KEY_PREFIX (fst (op_lease st (msg_epic m) r now))
          = number_at c OVERSEER_KEY_PREFIX (st\<lparr>cards := fst (cas_lease_on_card (cards st) (msg_epic m) OVERSEER_KEY_PREFIX k q now)\<rparr>)"
        by (intro number_of_cards) (simp add: lease_cards)
      with q show ?thesis
        by (cases "c = msg_epic m") (auto simp: number_cas number_cas_other wake_won_def x Op_Lease)
    next
      case False
      then have same: "cards (fst (op_lease st (msg_epic m) r now)) = cards st" and "\<not> wake_won c st x"
        by (auto simp: lease_cards wake_won_def x Op_Lease split: option.splits)
      then show ?thesis using number_of_cards [OF same] by simp
    qed
    then show ?thesis by (simp add: after_msg_def x handle_epic_op.simps Op_Lease)
  next
    case (Op_Seat_Claim s)
    have "number_at c OVERSEER_KEY_PREFIX (after_msg st x) = number_at c OVERSEER_KEY_PREFIX (st\<lparr>cards := fst (seat_claim (cards st) s now)\<rparr>)"
      by (simp add: x after_seat_claim [OF Op_Seat_Claim])
    also have "\<dots> = number_at c OVERSEER_KEY_PREFIX st"
      using number_seat_claim [of OVERSEER_KEY_PREFIX Werk_Master c st s now] by (simp add: seat_lease_key_prefix_def OVERSEER_KEY_PREFIX_def)
    finally show ?thesis by (simp add: wake_won_def x Op_Seat_Claim)
  next
    case (Op_Seat_Release s)
    have "number_at c OVERSEER_KEY_PREFIX (after_msg st x) = number_at c OVERSEER_KEY_PREFIX (st\<lparr>cards := fst (seat_release (cards st) s)\<rparr>)"
      by (simp add: x after_seat_release [OF Op_Seat_Release])
    with number_seat_ops show ?thesis by (simp add: wake_won_def x Op_Seat_Release)
  qed (simp_all add: after_msg_def x handle_epic_op.simps wake_won_def number_dirs_only
        pause_number abort_number release_number)
qed

lemma seat_step:
  "number_at c (seat_lease_key_prefix r) (after_msg st x) = number_at c (seat_lease_key_prefix r) st + (if seat_won c r st x then 1 else 0)"
proof -
  obtain m now where x: "x = (m, now)" by (cases x)
  let ?p = "seat_lease_key_prefix r"
  show ?thesis
  proof (cases "msg_op m")
    case (Op_Lease q)
    have "number_at c ?p (fst (op_lease st (msg_epic m) q now)) = number_at c ?p st"
    proof (cases "\<exists>y k. q = Some y \<and> req_conv_id y \<noteq> [] \<and> cards st (msg_epic m) = Some k")
      case True
      then obtain y k where y: "q = Some y" "req_conv_id y \<noteq> []" "cards st (msg_epic m) = Some k" by blast
      then have "number_at c ?p (fst (op_lease st (msg_epic m) q now))
          = number_at c ?p (st\<lparr>cards := fst (cas_lease_on_card (cards st) (msg_epic m) OVERSEER_KEY_PREFIX k y now)\<rparr>)"
        by (intro number_of_cards) (simp add: lease_cards)
      then show ?thesis by (simp add: number_cas_other overseer_seat_disjoint)
    next
      case False
      then have "cards (fst (op_lease st (msg_epic m) q now)) = cards st"
        by (auto simp: lease_cards split: option.splits)
      then show ?thesis by (rule number_of_cards)
    qed
    then show ?thesis by (simp add: after_msg_def x handle_epic_op.simps Op_Lease seat_won_def)
  next
    case (Op_Seat_Claim s)
    have "m = m\<lparr>msg_op := Op_Seat_Claim s\<rparr>" using Op_Seat_Claim by simp
    moreover have "number_at c ?p (after_msg st x) = number_at c ?p (st\<lparr>cards := fst (seat_claim (cards st) s now)\<rparr>)"
      by (simp add: x after_seat_claim [OF Op_Seat_Claim])
    ultimately show ?thesis using number_seat_claim [of ?p r c st s now m] x by simp
  next
    case (Op_Seat_Release s)
    have "number_at c ?p (after_msg st x) = number_at c ?p (st\<lparr>cards := fst (seat_release (cards st) s)\<rparr>)"
      by (simp add: x after_seat_release [OF Op_Seat_Release])
    with number_seat_ops [of ?p r c st s] show ?thesis by (simp add: seat_won_def x Op_Seat_Release)
  qed (simp_all add: after_msg_def x handle_epic_op.simps seat_won_def number_dirs_only
        pause_number abort_number release_number overseer_seat_disjoint)
qed

interpretation wakes: cas_register after_msg "wake_won c" "number_at c OVERSEER_KEY_PREFIX" for c
  by unfold_locales (simp_all add: wake_step)

interpretation seats: cas_register after_msg "seat_won c r" "number_at c (seat_lease_key_prefix r)" for c r
  by unfold_locales (simp_all add: seat_step)

text \<open>
  A generation is a count: over any sequence of operations of any kind, on any epics and cards, the
  generation of an epic is what it was plus the wakes that won it, the numbers those wakes got follow
  one another without a gap, and no two wakes got the same.
\<close>

theorem generation_counts_wakes:
  "number_at c OVERSEER_KEY_PREFIX (foldl after_msg st ms)
     = number_at c OVERSEER_KEY_PREFIX st + int (length (numbers_won after_msg (wake_won c) (number_at c OVERSEER_KEY_PREFIX) st ms))
   \<and> distinct (numbers_won after_msg (wake_won c) (number_at c OVERSEER_KEY_PREFIX) st ms)
   \<and> numbers_won after_msg (wake_won c) (number_at c OVERSEER_KEY_PREFIX) st ms
     = map (\<lambda>i. number_at c OVERSEER_KEY_PREFIX st + 1 + int i)
         [0..<length (numbers_won after_msg (wake_won c) (number_at c OVERSEER_KEY_PREFIX) st ms)]"
  using wakes.counts wakes.won_once wakes.consecutive by blast

text \<open>
  So is the number of a seat, for every card and role by itself: claims by other roles and on other
  cards, wakes, releases and everything else leave it alone.
\<close>

theorem seat_number_counts_claims:
  "number_at c (seat_lease_key_prefix r) (foldl after_msg st ms)
     = number_at c (seat_lease_key_prefix r) st
       + int (length (numbers_won after_msg (seat_won c r) (number_at c (seat_lease_key_prefix r)) st ms))
   \<and> distinct (numbers_won after_msg (seat_won c r) (number_at c (seat_lease_key_prefix r)) st ms)"
  using seats.counts seats.won_once by blast

end
