(* ===== verification/EpicRecord.thy ===== *)
theory EpicRecord
  imports EpicSentinel
begin

section \<open>The record of a run\<close>

text \<open>
  What the files of a run are worth: the baton of an epic survives every operation, a run file that
  the engine wrote can be read, a file that cannot be read stops every verb, and patches land one
  after the other. The reachable stores are those that operations with plain inputs lead to.
\<close>

subsection \<open>The baton survives\<close>

definition log_of :: "sentinel \<Rightarrow> string \<Rightarrow> string option" where
  "log_of st e = log_md (files_of (dirs st) e)"

definition extends :: "string option \<Rightarrow> string option \<Rightarrow> bool" where
  "extends old new \<longleftrightarrow> (case old of None \<Rightarrow> True | Some t \<Rightarrow> (\<exists>more. new = Some (t @ more)))"

lemma extends_refl [simp]: "extends x x"
  by (simp add: extends_def split: option.split)

lemma extends_trans: "extends x y \<Longrightarrow> extends y z \<Longrightarrow> extends x z"
  by (auto simp: extends_def split: option.splits)

lemma append_extends: "extends f (fst (append_epic_log e a now f))"
proof -
  have "extends f (Some (append_section_log f h s))" for h s
    by (cases f) (auto simp: extends_def append_section_log_def append_file_guarded_def)
  then show ?thesis by (auto simp: append_epic_log_def Let_def split: option.split)
qed

lemma written_log [simp]: "log_md (written fs r d) = log_md fs"
  by (simp add: written_def Let_def split: option.split)

lemma write_run_log: "write_run d r x = Ok d' \<Longrightarrow> log_md (files_of d' e) = log_md (files_of d e)"
  by (auto simp: write_run_def files_of_def split: if_split_asm option.split)

lemma patch_run_log: "patch_run st e p now = Ok (Some (st', r)) \<Longrightarrow> log_of st' e' = log_of st e'"
  by (auto simp: patch_run_def patch_epic_run_def log_of_def Let_def split: result.splits option.splits dest!: write_run_log [where e = e'])

lemma start_log: "start_epic_run s now d = Ok (d', r) \<Longrightarrow> log_md (files_of d' e) = log_md (files_of d e)"
  by (auto simp: start_epic_run_def Let_def split: result.splits dest!: write_run_log [where e = e])

lemma log_to_log: "log_to st e a now = (st', x) \<Longrightarrow> extends (log_of st e') (log_of st' e')"
  by (auto simp: log_to_def log_of_def files_of_def Let_def append_extends split: if_split_asm)

lemma released_dirs: "dirs (released st e) = dirs st" "tombs (released st e) = tombs st"
  by (auto simp: released_def release_card_def split: option.split)

lemma released_log [simp]: "log_of (released st e) e' = log_of st e'"
  by (simp add: log_of_def released_dirs)

text \<open>No operation but a delete touches the tombstones, and none but a delete shortens a log.\<close>

definition deletes :: "epic_msg \<Rightarrow> bool" where
  "deletes m \<longleftrightarrow> (case msg_op m of Op_Delete _ \<Rightarrow> True | _ \<Rightarrow> False)"

lemma patch_run_tombs: "patch_run st e p now = Ok (Some (st', r)) \<Longrightarrow> tombs st' = tombs st"
  by (auto simp: patch_run_def split: result.splits option.splits)

lemma log_to_tombs: "log_to st e a now = (st', x) \<Longrightarrow> tombs st' = tombs st"
  by (auto simp: log_to_def Let_def split: if_split_asm)

lemma write_run_dom: "write_run d r x = Ok d' \<Longrightarrow> dom d \<subseteq> dom d'"
  by (auto simp: write_run_def split: if_split_asm)

lemma patch_run_dom: "patch_run st e p now = Ok (Some (st', r)) \<Longrightarrow> dom (dirs st) \<subseteq> dom (dirs st')"
  by (auto simp: patch_run_def patch_epic_run_def Let_def split: result.splits option.splits dest!: write_run_dom)

lemma start_dom: "start_epic_run s now d = Ok (d', r) \<Longrightarrow> dom d \<subseteq> dom d'"
  by (auto simp: start_epic_run_def Let_def split: result.splits dest!: write_run_dom)

lemma log_to_dom: "log_to st e a now = (st', x) \<Longrightarrow> dom (dirs st) \<subseteq> dom (dirs st')"
  by (auto simp: log_to_def Let_def split: if_split_asm)

definition keeps :: "sentinel \<Rightarrow> sentinel \<Rightarrow> bool" where
  "keeps st st' \<longleftrightarrow> (\<forall>e. extends (log_of st e) (log_of st' e)) \<and> tombs st' = tombs st \<and> dom (dirs st) \<subseteq> dom (dirs st')"

lemma keeps_refl [simp]: "keeps st st"
  by (simp add: keeps_def)

lemma keeps_trans: "keeps a b \<Longrightarrow> keeps b c \<Longrightarrow> keeps a c"
  unfolding keeps_def by (metis extends_trans subset_trans)

lemma keeps_patch: "patch_run st e p now = Ok (Some (st', r)) \<Longrightarrow> keeps st st'"
  by (simp add: keeps_def patch_run_log patch_run_tombs patch_run_dom)

lemma keeps_log: "log_to st e a now = (st', x) \<Longrightarrow> keeps st st'"
  by (simp add: keeps_def log_to_log log_to_tombs log_to_dom)

lemma keeps_released: "keeps st (released st e)"
  by (simp add: keeps_def released_dirs)

lemma keeps_cards [simp]: "keeps st (st\<lparr>cards := b\<rparr>)"
  by (simp add: keeps_def log_of_def)

lemma keeps_start: "keeps st (fst (op_start st e pr s now))"
  by (auto simp: op_start_def keeps_def log_of_def Let_def start_log dest!: start_dom split: result.split prod.split)

lemma keeps_get: "keeps st (fst (op_get st e q))"
  by (auto simp: op_get_def Let_def split: result.split)

lemma keeps_patch_op: "keeps st (fst (op_patch st e p now))"
  by (auto simp: op_patch_def split: result.split option.split dest!: keeps_patch)

lemma keeps_append: "keeps st (fst (op_log_append st e a now))"
  by (auto simp: op_log_append_def split: result.split option.split prod.split dest!: keeps_log)

lemma keeps_lease: "keeps st (fst (op_lease st e r now))"
proof -
  have "keeps st st''" if "patch_run (st\<lparr>cards := b\<rparr>) e p now = Ok (Some (st'', x))" for b p st'' x
    using keeps_trans [OF keeps_cards keeps_patch [OF that]] .
  then show ?thesis by (auto simp: op_lease_def Let_def split: result.split option.split)
qed

lemma keeps_release: "keeps st (fst (op_release st e))"
  by (auto simp: op_release_def release_card_def split: result.split option.split)

lemma keeps_pause: "keeps st (fst (op_pause st e now))"
  by (auto simp: op_pause_def split: result.split option.split dest!: keeps_patch intro: keeps_trans [OF _ keeps_released])

lemma keeps_abort: "keeps st (fst (op_abort st e reason now))"
proof -
  have "keeps st st''" if "patch_run st e p now = Ok (Some (st', r))" "log_to (released st' e) e a now = (st'', x)" for st' st'' p r a x
    using keeps_trans [OF keeps_trans [OF keeps_patch [OF that(1)] keeps_released] keeps_log [OF that(2)]] .
  then show ?thesis by (auto simp: op_abort_def split: result.split option.split prod.split)
qed

lemma keeps_clear: "keeps st (fst (op_clear st e now))"
proof -
  have "keeps st st''" if "patch_run st e p now = Ok (Some (st', r))" "log_to st' e a now = (st'', x)" for st' st'' p r a x
    using keeps_trans [OF keeps_patch [OF that(1)] keeps_log [OF that(2)]] .
  then show ?thesis by (auto simp: op_clear_def split: result.split option.split prod.split)
qed

lemma keeps_step:
  assumes "\<not> deletes (fst x)"
  shows "keeps st (after_msg st x)"
proof -
  obtain m now where x: "x = (m, now)" by (cases x)
  show ?thesis
  proof (cases "msg_op m")
    case (Op_Seat_Claim s)
    then show ?thesis by (simp add: x after_seat_claim)
  next
    case (Op_Seat_Release s)
    then show ?thesis by (simp add: x after_seat_release)
  next
    case (Op_Delete r)
    with assms show ?thesis by (simp add: x deletes_def)
  qed (simp_all add: x after_msg_def handle_epic_op.simps keeps_start keeps_get keeps_patch_op keeps_append keeps_lease
        keeps_release keeps_pause keeps_abort keeps_clear)
qed

text \<open>A delete moves the directory as it is, one checkpoint longer, or leaves it where it is.\<close>

lemma delete_step:
  "keeps st (fst (op_delete st e reason now))
   \<or> (\<exists>fs to. dirs (fst (op_delete st e reason now)) = (dirs st)(e := None) \<and> tombs st to = None
        \<and> tombs (fst (op_delete st e reason now)) = (tombs st)(to \<mapsto> fs) \<and> extends (log_of st e) (log_md fs)
        \<and> (\<exists>r. read_run_of (dirs st) e = Ok (Some r) \<and> run_status r \<in> set DELETABLE))"
proof (cases "\<exists>r. read_run_of (dirs st) e = Ok (Some r) \<and> run_status r \<in> set DELETABLE")
  case False
  then have "fst (op_delete st e reason now) = st"
    by (auto simp: op_delete_def split: result.split option.split)
  then show ?thesis by simp
next
  case True
  then obtain r where r: "read_run_of (dirs st) e = Ok (Some r)" "run_status r \<in> set DELETABLE" by blast
  define a where "a = checkpoint (''Run DELETED from the record (status '' @ status_name (run_status r) @ ''): '' @ reason_or reason ''no reason given'')"
  obtain st' x where l: "log_to st e a now = (st', x)" by (cases "log_to st e a now")
  show ?thesis
  proof (cases x)
    case (Err y)
    with r l keeps_log [OF l] show ?thesis by (simp add: op_delete_def a_def)
  next
    case (Ok entry)
    then have d: "dirs st' = (dirs st)(e \<mapsto> (files_of (dirs st) e)\<lparr>log_md := log_of st' e\<rparr>)" "tombs st' = tombs st"
      using l by (auto simp: log_to_def Let_def log_of_def files_of_def split: if_split_asm)
    show ?thesis
    proof (cases "delete_epic_run e now (dirs st') (tombs st')")
      case (Err y)
      with r l Ok keeps_log [OF l] show ?thesis by (simp add: op_delete_def a_def)
    next
      case (Ok z)
      show ?thesis
      proof (cases z)
        case None
        with r l Ok \<open>x = Ok entry\<close> keeps_log [OF l] show ?thesis by (simp add: op_delete_def a_def)
      next
        case (Some t)
        obtain d' tm to where t: "t = (d', tm, to)" by (cases t)
        with Ok Some d have g: "d' = (dirs st')(e := None)" "tm = (tombs st)(to \<mapsto> (files_of (dirs st) e)\<lparr>log_md := log_of st' e\<rparr>)" "tombs st to = None"
          by (auto simp: delete_epic_run_def Let_def split: if_split_asm)
        have "fst (op_delete st e reason now) = st'\<lparr>dirs := d', tombs := tm\<rparr>"
          using r l \<open>x = Ok entry\<close> Ok Some t by (simp add: op_delete_def a_def Let_def)
        moreover have "extends (log_of st e) (log_of st' e)" using keeps_log [OF l] by (simp add: keeps_def)
        ultimately show ?thesis using g d r
          by (intro disjI2 exI [where x = "(files_of (dirs st) e)\<lparr>log_md := log_of st' e\<rparr>"] exI [where x = to]) simp
      qed
    qed
  qed
qed

text \<open>The history \<open>old\<close> of an epic is in its directory or in a tombstone.\<close>

definition history_kept :: "string option \<Rightarrow> string \<Rightarrow> sentinel \<Rightarrow> bool" where
  "history_kept old e st \<longleftrightarrow> extends old (log_of st e) \<or> (\<exists>t fs. tombs st t = Some fs \<and> extends old (log_md fs))"

lemma history_step: "history_kept old e st \<Longrightarrow> history_kept old e (after_msg st x)"
proof -
  assume h: "history_kept old e st"
  have k: "history_kept old e st'" if "keeps st st'" for st'
    using h that by (auto simp: history_kept_def keeps_def intro: extends_trans)
  show ?thesis
  proof (cases "deletes (fst x)")
    case False
    then show ?thesis using k keeps_step by blast
  next
    case True
    obtain m now where x: "x = (m, now)" by (cases x)
    with True obtain reason where m: "msg_op m = Op_Delete reason" by (auto simp: deletes_def split: epic_op.splits)
    let ?st = "fst (op_delete st (msg_epic m) reason now)"
    have "after_msg st x = ?st" by (simp add: x m after_msg_def handle_epic_op.simps)
    moreover have "history_kept old e ?st"
      using delete_step [of st "msg_epic m" reason now]
    proof (elim disjE exE conjE)
      fix fs to r
      assume d: "dirs ?st = (dirs st)(msg_epic m := None)" "tombs st to = None" "tombs ?st = (tombs st)(to \<mapsto> fs)"
        "extends (log_of st (msg_epic m)) (log_md fs)"
      from h show ?thesis unfolding history_kept_def
      proof (elim disjE exE conjE)
        assume o: "extends old (log_of st e)"
        show "extends old (log_of ?st e) \<or> (\<exists>t fs. tombs ?st t = Some fs \<and> extends old (log_md fs))"
        proof (cases "e = msg_epic m")
          case True
          with o d(4) have "extends old (log_md fs)" by (auto intro: extends_trans)
          with d(3) show ?thesis by (intro disjI2 exI [where x = to] exI [where x = fs]) simp
        next
          case False
          with o d(1) show ?thesis by (simp add: log_of_def files_of_def)
        qed
      next
        fix t f
        assume "tombs st t = Some f" "extends old (log_md f)"
        with d(2, 3) show "extends old (log_of ?st e) \<or> (\<exists>t fs. tombs ?st t = Some fs \<and> extends old (log_md fs))"
          by (intro disjI2 exI [where x = t] exI [where x = f]) auto
      qed
    qed (rule k)
    ultimately show ?thesis by simp
  qed
qed

text \<open>
  C21: history is never lost: whatever operations follow, deletes included, everything an epic's baton
  held is, byte for byte, the beginning of its baton or of the baton in one of the tombstones.
\<close>

theorem baton_is_never_lost: "history_kept (log_of st e) e (foldl after_msg st ms)"
proof -
  have "history_kept old e st \<Longrightarrow> history_kept old e (foldl after_msg st ms)" for old
    by (induction ms arbitrary: st) (simp_all add: history_step)
  then show ?thesis by (simp add: history_kept_def)
qed

definition paused_store :: sentinel where
  "paused_store =
     \<lparr>dirs = [''e'' \<mapsto> no_files\<lparr>run_md := Some (join newline [''---'', ''status: paused'', ''---'', []])\<rparr>], tombs = Map.empty,
      cards = Map.empty\<rparr>"

definition delete_e :: epic_msg where
  "delete_e = \<lparr>msg_project = ''p'', msg_epic = ''e'', msg_op = Op_Delete None\<rparr>"

text \<open>
  A run leaves the record only by a delete of its own, after it was paused, aborted or complete, and
  then its directory is in a tombstone: every other operation leaves every directory in place.
\<close>

theorem only_finished_runs_leave:
  assumes "dirs st e \<noteq> None" "dirs (after_msg st (m, now)) e = None"
  shows "deletes m \<and> msg_epic m = e
    \<and> (\<exists>r. read_run_of (dirs st) e = Ok (Some r) \<and> run_status r \<in> {Paused, Aborted, Complete})
    \<and> (\<exists>to fs. tombs st to = None \<and> tombs (after_msg st (m, now)) to = Some fs)"
proof -
  from assms have nk: "\<not> keeps st (after_msg st (m, now))" by (auto simp: keeps_def)
  with keeps_step [of "(m, now)" st] have del: "deletes m" by auto
  then obtain reason where r: "msg_op m = Op_Delete reason" by (auto simp: deletes_def split: epic_op.splits)
  then have op: "after_msg st (m, now) = fst (op_delete st (msg_epic m) reason now)"
    by (simp add: after_msg_def handle_epic_op.simps)
  from delete_step [of st "msg_epic m" reason now] nk obtain fs to run where
    d: "dirs (after_msg st (m, now)) = (dirs st)(msg_epic m := None)" "tombs st to = None"
      "tombs (after_msg st (m, now)) = (tombs st)(to \<mapsto> fs)"
      "read_run_of (dirs st) (msg_epic m) = Ok (Some run)" "run_status run \<in> set DELETABLE"
    unfolding op by blast
  from d(1) assms have "msg_epic m = e" by (auto split: if_split_asm)
  with d del show ?thesis by (auto simp: DELETABLE_def)
qed

lemma only_finished_runs_leave_witness:
  "deletes delete_e \<and> msg_epic delete_e = ''e''
     \<and> (\<exists>to fs. tombs paused_store to = None \<and> tombs (after_msg paused_store (delete_e, 0)) to = Some fs)"
proof -
  have "dirs paused_store ''e'' \<noteq> None" by code_simp
  moreover have "dirs (after_msg paused_store (delete_e, 0)) ''e'' = None" by code_simp
  ultimately show ?thesis using only_finished_runs_leave [of paused_store "''e''" delete_e 0] by simp
qed

end
