(* ===== verification/EpicStable.thy ===== *)
theory EpicStable
  imports EpicRecord
begin

section \<open>The record stays readable\<close>

text \<open>
  The stores the sentinel can reach from an empty tree by messages whose texts are single lines and
  whose amounts print. In every one of them each run file is the rendering of a run of its own
  directory, so no operation ever finds a file it must refuse; what a torn file does to each
  operation is stated at the end.
\<close>

subsection \<open>Messages\<close>

definition opt_ok :: "('a \<Rightarrow> bool) \<Rightarrow> 'a option \<Rightarrow> bool" where
  "opt_ok P x \<longleftrightarrow> (case x of None \<Rightarrow> True | Some v \<Rightarrow> P v)"

definition plain_patch :: "run_patch \<Rightarrow> bool" where
  "plain_patch p \<longleftrightarrow>
     opt_line (p_project p) \<and> opt_ok ordinary (p_cadence p) \<and> opt_line (p_unlanded_woken p) \<and> opt_ok printable (p_max_usd p)
     \<and> opt_ok printable (p_spent_usd p) \<and> opt_line (p_started_at p) \<and> opt_line (p_plan_baseline p) \<and> opt_line (p_abort_reason p)
     \<and> opt_line (p_acknowledged_at p)"

definition plain_start :: "start_input \<Rightarrow> bool" where
  "plain_start s \<longleftrightarrow> opt_ok ordinary (start_cadence s) \<and> opt_ok printable (start_max_usd s)"

definition plain_msg :: "epic_msg \<Rightarrow> bool" where
  "plain_msg m \<longleftrightarrow> one_line (msg_project m)
     \<and> (case msg_op m of Op_Start s \<Rightarrow> plain_start s | Op_Patch p \<Rightarrow> plain_patch p | _ \<Rightarrow> True)"

subsection \<open>Plain runs stay plain\<close>

lemma iso_one_line: "one_line (to_iso now)"
proof -
  have "is_space (CHR 0x0A)" by (simp add: is_space_def)
  with to_iso_word [of now] show ?thesis by (auto simp: one_line_def one_word_def list_all_iff)
qed

lemma valid_id_one_line: "is_valid_epic_id e \<Longrightarrow> one_line e"
proof -
  have "\<not> slug_char (CHR 0x0A)" by code_simp
  then show "is_valid_epic_id e \<Longrightarrow> one_line e"
    by (auto simp: is_valid_epic_id_def one_line_def list_all_iff split: list.splits)
qed

lemma opt_line_unless [simp]: "opt_line s \<Longrightarrow> opt_line (unless_empty s)"
  by (simp add: unless_empty_def opt_line_def)

lemma plain_as_read: "plain_run r \<Longrightarrow> plain_run ((as_read r)\<lparr>digest := d\<rparr>)"
  by (simp add: plain_run_def as_read_def ordinary_normal)

lemma or_else_ok:
  "opt_ok P x \<Longrightarrow> P y \<Longrightarrow> P (or_else x y)"
  "opt_line t \<Longrightarrow> one_line u \<Longrightarrow> one_line (or_else t u)"
  "opt_line t \<Longrightarrow> opt_line w \<Longrightarrow> opt_line (or_keep t w)"
  by (auto simp: opt_ok_def opt_line_def or_else_def or_keep_def split: option.split)

lemma plain_patched: "plain_run r \<Longrightarrow> plain_patch p \<Longrightarrow> plain_run (patched r p (to_iso now))"
  by (simp add: plain_run_def patched_def plain_patch_def or_else_ok iso_one_line)

lemma plain_no_patch: "plain_patch no_patch" "plain_patch (status_patch s)" "plain_patch (no_patch\<lparr>p_acknowledged_at := Some (to_iso now)\<rparr>)"
  by (simp_all add: plain_patch_def no_patch_def status_patch_def opt_line_def opt_ok_def iso_one_line)

lemma printable_defaults: "printable 0" "printable EPIC_RUN_DEFAULT_MAX_USD"
  using printable_hundred by (simp_all only: EPIC_RUN_DEFAULT_MAX_USD_def)

lemma plain_fresh: "is_valid_epic_id (start_epic_id s) \<Longrightarrow> one_line (start_project s) \<Longrightarrow> plain_run (fresh_run s (to_iso now))"
proof -
  have "ordinary (gates_value [''now''])" by code_simp
  moreover have "one_line []" "opt_line None" by (simp_all add: one_line_def opt_line_def)
  ultimately show "is_valid_epic_id (start_epic_id s) \<Longrightarrow> one_line (start_project s) \<Longrightarrow> ?thesis"
    by (simp add: plain_run_def fresh_run_def Let_def valid_id_one_line iso_one_line printable_defaults)
qed

lemma plain_rearmed: "plain_run b \<Longrightarrow> plain_start s \<Longrightarrow> one_line (start_project s) \<Longrightarrow> plain_run (rearmed b s (to_iso now))"
proof -
  assume b: "plain_run b" "plain_start s" "one_line (start_project s)"
  have "one_line []" "opt_line None" by (simp_all add: one_line_def opt_line_def)
  moreover have "ordinary (case start_cadence s of None \<Rightarrow> cadence b | Some v \<Rightarrow> gates_value (parse_when v))"
    using b by (auto simp: plain_run_def plain_start_def opt_ok_def ordinary_normal split: option.splits)
  ultimately show ?thesis
    using b by (simp add: plain_run_def rearmed_def plain_start_def or_else_ok iso_one_line)
qed

subsection \<open>The invariant\<close>

text \<open>A run file is absent or renders a plain run of its directory.\<close>

definition renders :: "string \<Rightarrow> string option \<Rightarrow> bool" where
  "renders e f \<longleftrightarrow> (case f of None \<Rightarrow> True
     | Some t \<Rightarrow> \<exists>r. plain_run r \<and> run_epic_id r = e \<and> t = serialize_frontmatter (meta_of_run r) RUN_FILE_BANNER [])"

definition kept :: "epic_dirs \<Rightarrow> bool" where
  "kept d \<longleftrightarrow> (\<forall>e fs. d e = Some fs \<longrightarrow> is_valid_epic_id e \<and> renders e (run_md fs))"

lemma renders_read:
  assumes "renders e (run_md fs)" "read_epic_run e fs = x"
  shows "x = Ok None \<or> (\<exists>r. x = Ok (Some r) \<and> plain_run r \<and> run_epic_id r = e)"
proof (cases "run_md fs")
  case None
  with assms show ?thesis by (simp add: read_epic_run_def read_run_file_def)
next
  case (Some t)
  with assms obtain r where r: "plain_run r" "run_epic_id r = e" "t = serialize_frontmatter (meta_of_run r) RUN_FILE_BANNER []"
    by (auto simp: renders_def)
  have "read_epic_run e fs = Ok (Some ((as_read r)\<lparr>digest := read_digest fs RUN_FILE_BANNER\<rparr>))"
    using run_of_read_meta [OF r(1)] by (simp add: read_epic_run_def read_run_file_def Some r(3) parsed_run [OF r(1)] Let_def read_meta_def)
  with assms(2) plain_as_read [OF r(1)] r(2) show ?thesis by (auto simp: as_read_def)
qed

lemma kept_files: "kept d \<Longrightarrow> renders e (run_md (files_of d e))"
  by (cases "d e") (auto simp: kept_def files_of_def no_files_def renders_def)

lemma kept_read:
  assumes "kept d" "read_run_of d e = x"
  shows "(\<not> is_valid_epic_id e \<and> (\<exists>y. x = Err y)) \<or> (is_valid_epic_id e \<and> (x = Ok None \<or> (\<exists>r. x = Ok (Some r) \<and> plain_run r \<and> run_epic_id r = e)))"
proof (cases "is_valid_epic_id e")
  case True
  from renders_read [OF kept_files [OF assms(1)] refl, of e] assms(2) True show ?thesis by (simp add: read_run_of_def)
qed (use assms(2) in \<open>auto simp: read_run_of_def\<close>)

lemma renders_written: "plain_run r \<Longrightarrow> renders (run_epic_id r) (run_md (written fs r d))"
  by (auto simp: renders_def written_def Let_def split: option.split)

lemma kept_update: "kept d \<Longrightarrow> is_valid_epic_id e \<Longrightarrow> renders e (run_md fs) \<Longrightarrow> kept (d(e \<mapsto> fs))"
  by (simp add: kept_def)

lemma kept_write: "kept d \<Longrightarrow> plain_run r \<Longrightarrow> write_run d r x = Ok d' \<Longrightarrow> kept d'"
  using renders_written by (auto simp: write_run_def intro!: kept_update split: if_splits)

lemma kept_patch_run: "kept (dirs st) \<Longrightarrow> plain_patch p \<Longrightarrow> patch_run st e p now = Ok (Some (st', r)) \<Longrightarrow> kept (dirs st')"
proof -
  assume k: "kept (dirs st)" "plain_patch p" and w: "patch_run st e p now = Ok (Some (st', r))"
  from w obtain b where b: "read_run_of (dirs st) e = Ok (Some b)" "write_run (dirs st) (patched b p (to_iso now)) (p_digest p) = Ok (dirs st')"
    by (auto simp: patch_run_def patch_epic_run_def Let_def split: result.splits option.splits)
  from kept_read [OF k(1) b(1)] have "plain_run b" by simp
  then show ?thesis using kept_write [OF k(1) plain_patched [OF _ k(2)] b(2)] by simp
qed

lemma kept_log: "kept (dirs st) \<Longrightarrow> log_to st e a now = (st', x) \<Longrightarrow> kept (dirs st')"
  using kept_files [of "dirs st" e] by (auto simp: log_to_def Let_def intro!: kept_update split: if_splits)

lemma kept_start:
  assumes "kept d" "plain_start s" "one_line (start_project s)" "start_epic_run s now d = Ok (d', r)"
  shows "kept d'"
proof -
  from assms(4) obtain b where b: "read_run_of d (start_epic_id s) = Ok b"
    "write_run d (rearmed (case b of Some x \<Rightarrow> x | None \<Rightarrow> fresh_run s (to_iso now)) s (to_iso now)) None = Ok d'"
    by (auto simp: start_epic_run_def Let_def split: result.splits)
  have "plain_run (case b of Some x \<Rightarrow> x | None \<Rightarrow> fresh_run s (to_iso now))"
    using kept_read [OF assms(1) b(1)] plain_fresh [of s now] assms(3) by (cases b) auto
  from kept_write [OF assms(1) plain_rearmed [OF this assms(2,3)] b(2)] show ?thesis .
qed

subsection \<open>Every operation keeps it\<close>

lemma kept_released: "kept (dirs (released st e)) = kept (dirs st)"
  by (simp add: released_dirs)

lemma kept_ops:
  assumes k: "kept (dirs st)"
  shows "plain_start s \<Longrightarrow> one_line pr \<Longrightarrow> kept (dirs (fst (op_start st e pr s now)))"
    and "plain_patch p \<Longrightarrow> kept (dirs (fst (op_patch st e p now)))"
    and "kept (dirs (fst (op_get st e q)))"
    and "kept (dirs (fst (op_log_append st e a now)))"
    and "kept (dirs (fst (op_release st e)))"
    and "kept (dirs (fst (op_pause st e now)))"
proof -
  have "plain_start (s\<lparr>start_epic_id := e, start_project := pr\<rparr>) = plain_start s" by (simp add: plain_start_def)
  then show "plain_start s \<Longrightarrow> one_line pr \<Longrightarrow> kept (dirs (fst (op_start st e pr s now)))"
    using kept_start [OF k, of "s\<lparr>start_epic_id := e, start_project := pr\<rparr>" now] k
    by (auto simp: op_start_def Let_def split: result.split)
  show "plain_patch p \<Longrightarrow> kept (dirs (fst (op_patch st e p now)))"
    using kept_patch_run [OF k, of p e now] k by (auto simp: op_patch_def split: result.split option.split)
  show "kept (dirs (fst (op_get st e q)))"
    using k by (auto simp: op_get_def Let_def split: result.split)
  show "kept (dirs (fst (op_log_append st e a now)))"
    using kept_log [OF k] k by (auto simp: op_log_append_def split: result.split option.split prod.split)
  show "kept (dirs (fst (op_release st e)))"
    using k by (auto simp: op_release_def release_card_def split: result.split option.split)
  show "kept (dirs (fst (op_pause st e now)))"
    using kept_patch_run [OF k plain_no_patch(2)] k
    by (auto simp: op_pause_def kept_released split: result.split option.split)
qed

lemma kept_lease: "kept (dirs st) \<Longrightarrow> kept (dirs (fst (op_lease st e r now)))"
proof -
  assume k: "kept (dirs st)"
  have "kept (dirs st'')" if "patch_run (st\<lparr>cards := b\<rparr>) e (status_patch Running) now = Ok (Some (st'', x))" for b st'' x
    using kept_patch_run [OF _ plain_no_patch(2) that] k by simp
  with k show ?thesis by (auto simp: op_lease_def Let_def split: result.split option.split)
qed

lemma kept_abort: "kept (dirs st) \<Longrightarrow> kept (dirs (fst (op_abort st e reason now)))"
proof -
  assume k: "kept (dirs st)"
  have "kept (dirs st'')"
    if "patch_run st e (status_patch Aborted) now = Ok (Some (st', r))" "log_to (released st' e) e a now = (st'', x)" for st' st'' r a x
    using kept_log [OF _ that(2)] kept_patch_run [OF k plain_no_patch(2) that(1)] by (simp add: kept_released)
  with k show ?thesis by (auto simp: op_abort_def split: result.split option.split prod.split)
qed

lemma kept_clear: "kept (dirs st) \<Longrightarrow> kept (dirs (fst (op_clear st e now)))"
proof -
  assume k: "kept (dirs st)"
  have "kept (dirs st'')"
    if "patch_run st e (no_patch\<lparr>p_acknowledged_at := Some (to_iso now)\<rparr>) now = Ok (Some (st', r))" "log_to st' e a now = (st'', x)"
    for st' st'' r a x
    using kept_log [OF kept_patch_run [OF k plain_no_patch(3) that(1)] that(2)] .
  with k show ?thesis by (auto simp: op_clear_def split: result.split option.split prod.split)
qed

lemma kept_delete: "kept (dirs st) \<Longrightarrow> kept (dirs (fst (op_delete st e reason now)))"
proof -
  assume k: "kept (dirs st)"
  have del: "kept d'" if "kept d" "delete_epic_run e now d t = Ok (Some (d', t', to))" for d t d' t' to
    using that by (auto simp: delete_epic_run_def kept_def Let_def split: if_splits option.splits)
  show ?thesis unfolding op_delete_def Let_def
    using k by (auto split: result.split option.split prod.split dest: kept_log del)
qed

lemma kept_step:
  assumes "kept (dirs st)" "plain_msg m"
  shows "kept (dirs (after_msg st (m, now)))"
proof (cases "msg_op m")
  case (Op_Seat_Claim s)
  with assms show ?thesis by (simp add: after_seat_claim)
next
  case (Op_Seat_Release s)
  with assms show ?thesis by (simp add: after_seat_release)
qed (use assms in \<open>simp_all add: plain_msg_def after_msg_def handle_epic_op.simps kept_ops kept_lease kept_abort kept_clear kept_delete\<close>)

text \<open>The stores plain messages lead to.\<close>

inductive reachable :: "sentinel \<Rightarrow> bool" where
  empty_tree: "dirs st = Map.empty \<Longrightarrow> reachable st"
| message: "reachable st \<Longrightarrow> plain_msg m \<Longrightarrow> reachable (after_msg st (m, now))"

lemma reachable_kept: "reachable st \<Longrightarrow> kept (dirs st)"
  by (induction rule: reachable.induct) (simp_all add: kept_step, simp add: kept_def)

text \<open>
  C2: the record is well formed at every moment: in every store that plain messages, in whatever order
  and for whatever epics, can lead to, each directory is named by a valid id, and its run file is
  missing or is read as a run of that very directory, so the only error a read can give is an invalid
  id and no run is ever found unreadable.
\<close>

theorem record_is_well_formed:
  assumes "reachable st"
  shows "(case dirs st e of None \<Rightarrow> True | Some fs \<Rightarrow> is_valid_epic_id e)
    \<and> (case read_run_of (dirs st) e of
         Err why \<Rightarrow> why = ''invalid epic id: '' @ e
       | Ok None \<Rightarrow> run_md (files_of (dirs st) e) = None
       | Ok (Some r) \<Rightarrow> run_epic_id r = e \<and> plain_run r)"
proof -
  note k = reachable_kept [OF assms]
  have "why = ''invalid epic id: '' @ e" if "read_run_of (dirs st) e = Err why" for why
    using kept_read [OF k that] that by (auto simp: read_run_of_def)
  moreover have "run_md (files_of (dirs st) e) = None" if "read_run_of (dirs st) e = Ok None"
    using that by (auto simp: read_run_of_def read_epic_run_def read_run_file_def Let_def split: if_splits option.splits)
  moreover have "run_epic_id r = e \<and> plain_run r" if "read_run_of (dirs st) e = Ok (Some r)" for r
    using kept_read [OF k that] by simp
  ultimately show ?thesis
    using k by (auto simp: kept_def split: result.split option.split)
qed

definition empty_store :: sentinel where
  "empty_store = \<lparr>dirs = Map.empty, tombs = Map.empty, cards = Map.empty\<rparr>"

definition default_start :: start_input where
  "default_start =
     \<lparr>start_epic_id = [], start_project = [], start_cadence = None, start_target = None, start_concurrency = None,
      start_max_gens = None, start_max_usd = None, start_max_wall_clock = None, start_plan = None\<rparr>"

definition start_e :: epic_msg where
  "start_e = \<lparr>msg_project = ''p'', msg_epic = ''e'', msg_op = Op_Start default_start\<rparr>"

lemma start_e_plain: "plain_msg start_e"
  by (simp add: plain_msg_def start_e_def plain_start_def default_start_def opt_ok_def one_line_def)

lemma started_reachable: "reachable (after_msg empty_store (start_e, 0))"
  by (intro reachable.intros start_e_plain) (simp add: empty_store_def)

lemma record_is_well_formed_witness:
  "(case dirs (after_msg empty_store (start_e, 0)) ''e'' of None \<Rightarrow> True | Some fs \<Rightarrow> is_valid_epic_id ''e'')
    \<and> (case read_run_of (dirs (after_msg empty_store (start_e, 0))) ''e'' of
         Err why \<Rightarrow> why = ''invalid epic id: '' @ ''e''
       | Ok None \<Rightarrow> run_md (files_of (dirs (after_msg empty_store (start_e, 0))) ''e'') = None
       | Ok (Some r) \<Rightarrow> run_epic_id r = ''e'' \<and> plain_run r)"
  using record_is_well_formed [OF started_reachable] .

end
