(* ===== verification/EpicRuns.thy ===== *)
theory EpicRuns
  imports EpicStable
begin

section \<open>Runs of many epics\<close>

text \<open>
  The directories of different epics do not touch each other, and the run of one of them is a value:
  what a patch or a re-arm does to the file is a function of the run read before. A run file that
  cannot be read stops every operation, except that a granted lease is kept.
\<close>

subsection \<open>One directory at a time\<close>

lemma write_run_at: "write_run d r x = Ok d' \<Longrightarrow> e \<noteq> run_epic_id r \<Longrightarrow> d' e = d e"
  by (auto simp: write_run_def split: if_splits)

lemma kept_run_id: "kept d \<Longrightarrow> read_run_of d e = Ok (Some r) \<Longrightarrow> run_epic_id r = e \<and> plain_run r \<and> is_valid_epic_id e"
  using kept_read [of d e "Ok (Some r)"] by auto

lemma patched_id [simp]: "run_epic_id (patched r p ts) = run_epic_id r" "run_epic_id (rearmed r s ts) = run_epic_id r"
  "run_epic_id (fresh_run s ts) = start_epic_id s" "run_epic_id (as_read r) = run_epic_id r"
  by (simp_all add: patched_def rearmed_def fresh_run_def Let_def as_read_def)

lemma patch_run_at:
  assumes "kept (dirs st)" "patch_run st e p now = Ok (Some (st', r))" "e' \<noteq> e"
  shows "dirs st' e' = dirs st e'"
proof -
  from assms(2) obtain b where b: "read_run_of (dirs st) e = Ok (Some b)" "write_run (dirs st) (patched b p (to_iso now)) (p_digest p) = Ok (dirs st')"
    by (auto simp: patch_run_def patch_epic_run_def Let_def split: result.splits option.splits)
  with kept_run_id [OF assms(1) b(1)] assms(3) write_run_at [OF b(2), of e'] show ?thesis by simp
qed

lemma log_to_at: "log_to st e a now = (st', x) \<Longrightarrow> e' \<noteq> e \<Longrightarrow> dirs st' e' = dirs st e'"
  by (auto simp: log_to_def Let_def split: if_splits)

lemma start_at:
  assumes "kept d" "start_epic_run s now d = Ok (d', r)" "e' \<noteq> start_epic_id s"
  shows "d' e' = d e'"
proof -
  from assms(2) obtain b where b: "read_run_of d (start_epic_id s) = Ok b"
    "write_run d (rearmed (case b of Some x \<Rightarrow> x | None \<Rightarrow> fresh_run s (to_iso now)) s (to_iso now)) None = Ok d'"
    by (auto simp: start_epic_run_def Let_def split: result.splits)
  have "run_epic_id (case b of Some x \<Rightarrow> x | None \<Rightarrow> fresh_run s (to_iso now)) = start_epic_id s"
    using kept_run_id [OF assms(1), of "start_epic_id s"] b(1) by (cases b) simp_all
  with write_run_at [OF b(2), of e'] assms(3) show ?thesis by simp
qed

lemma other_ops:
  assumes k: "kept (dirs st)" and e: "e' \<noteq> e"
  shows "dirs (fst (op_start st e pr s now)) e' = dirs st e'"
    and "dirs (fst (op_patch st e p now)) e' = dirs st e'"
    and "dirs (fst (op_get st e q)) e' = dirs st e'"
    and "dirs (fst (op_log_append st e a now)) e' = dirs st e'"
    and "dirs (fst (op_release st e)) e' = dirs st e'"
    and "dirs (fst (op_pause st e now)) e' = dirs st e'"
proof -
  show "dirs (fst (op_start st e pr s now)) e' = dirs st e'"
    using start_at [OF k, of "s\<lparr>start_epic_id := e, start_project := pr\<rparr>" now _ _ e'] e
    by (auto simp: op_start_def Let_def split: result.split)
  show "dirs (fst (op_patch st e p now)) e' = dirs st e'"
    using patch_run_at [OF k _ e] by (auto simp: op_patch_def split: result.split option.split)
  show "dirs (fst (op_get st e q)) e' = dirs st e'"
    by (auto simp: op_get_def Let_def split: result.split)
  show "dirs (fst (op_log_append st e a now)) e' = dirs st e'"
    using log_to_at [OF _ e] by (auto simp: op_log_append_def split: result.split option.split prod.split)
  show "dirs (fst (op_release st e)) e' = dirs st e'"
    by (auto simp: op_release_def release_card_def split: result.split option.split)
  show "dirs (fst (op_pause st e now)) e' = dirs st e'"
    using patch_run_at [OF k _ e] by (auto simp: op_pause_def released_dirs split: result.split option.split)
qed

lemma other_lease: "kept (dirs st) \<Longrightarrow> e' \<noteq> e \<Longrightarrow> dirs (fst (op_lease st e r now)) e' = dirs st e'"
proof -
  assume k: "kept (dirs st)" "e' \<noteq> e"
  have "dirs st'' e' = dirs st e'" if "patch_run (st\<lparr>cards := b\<rparr>) e (status_patch Running) now = Ok (Some (st'', x))" for b st'' x
    using patch_run_at [OF _ that k(2)] k(1) by simp
  then show ?thesis by (auto simp: op_lease_def Let_def split: result.split option.split)
qed

lemma other_abort: "kept (dirs st) \<Longrightarrow> e' \<noteq> e \<Longrightarrow> dirs (fst (op_abort st e reason now)) e' = dirs st e'"
proof -
  assume k: "kept (dirs st)" "e' \<noteq> e"
  have "dirs st'' e' = dirs st e'"
    if "patch_run st e (status_patch Aborted) now = Ok (Some (st', r))" "log_to (released st' e) e a now = (st'', x)" for st' st'' r a x
    using log_to_at [OF that(2) k(2)] patch_run_at [OF k(1) that(1) k(2)] by (simp add: released_dirs)
  then show ?thesis
    using patch_run_at [OF k(1) _ k(2)] by (auto simp: op_abort_def split: result.split option.split prod.split)
qed

lemma other_clear: "kept (dirs st) \<Longrightarrow> e' \<noteq> e \<Longrightarrow> dirs (fst (op_clear st e now)) e' = dirs st e'"
proof -
  assume k: "kept (dirs st)" "e' \<noteq> e"
  have "dirs st'' e' = dirs st e'" if "patch_run st e p now = Ok (Some (st', r))" "log_to st' e a now = (st'', x)" for p st' st'' r a x
    using log_to_at [OF that(2) k(2)] patch_run_at [OF k(1) that(1) k(2)] by simp
  then show ?thesis by (auto simp: op_clear_def split: result.split option.split prod.split)
qed

lemma other_delete: "e' \<noteq> e \<Longrightarrow> dirs (fst (op_delete st e reason now)) e' = dirs st e'"
proof -
  assume e: "e' \<noteq> e"
  have del: "d' e' = d e'" if "delete_epic_run e now d t = Ok (Some (d', t', to))" for d t d' t' to
    using that e by (auto simp: delete_epic_run_def Let_def split: if_splits option.splits)
  show ?thesis unfolding op_delete_def Let_def
    using log_to_at [OF _ e] by (auto split: result.split option.split prod.split dest: del)
qed

lemma other_epic:
  assumes "kept (dirs st)" "msg_epic m \<noteq> e"
  shows "dirs (after_msg st (m, now)) e = dirs st e"
proof (cases "msg_op m")
  case (Op_Seat_Claim s)
  then show ?thesis by (simp add: after_seat_claim)
next
  case (Op_Seat_Release s)
  then show ?thesis by (simp add: after_seat_release)
qed (use assms in \<open>simp_all add: after_msg_def handle_epic_op.simps other_ops other_lease other_abort other_clear other_delete\<close>)

subsection \<open>A run is a value\<close>

text \<open>What a run is read as after \<open>r'\<close>, made of the run \<open>r\<close> read before, is written with the prose \<open>d\<close>.\<close>

definition stored_as :: "epic_run \<Rightarrow> epic_run \<Rightarrow> string option \<Rightarrow> epic_run" where
  "stored_as r r' d =
     (as_read r')\<lparr>digest := (case d of None \<Rightarrow> digest r | Some t \<Rightarrow> if trim t = [] then DEFAULT_DIGEST else trim t)\<rparr>"

definition patch_value :: "epic_run \<Rightarrow> run_patch \<times> int \<Rightarrow> epic_run" where
  "patch_value r x = stored_as r (patched r (fst x) (to_iso (snd x))) (p_digest (fst x))"

lemma read_of_files:
  assumes "kept d" "read_run_of d e = Ok (Some r)"
  shows "digest r = read_digest (files_of d e) RUN_FILE_BANNER" "d e = Some (files_of d e)"
proof -
  from assms(2) have v: "is_valid_epic_id e" and x: "read_epic_run e (files_of d e) = Ok (Some r)"
    by (auto simp: read_run_of_def split: if_splits)
  then show "d e = Some (files_of d e)"
    by (auto simp: read_epic_run_def read_run_file_def files_of_def no_files_def split: option.splits)
  from x obtain t where t: "run_md (files_of d e) = Some t"
    by (auto simp: read_epic_run_def read_run_file_def split: option.splits)
  with kept_files [OF assms(1), of e] obtain w where w: "plain_run w" "t = serialize_frontmatter (meta_of_run w) RUN_FILE_BANNER []"
    by (auto simp: renders_def)
  with x t show "digest r = read_digest (files_of d e) RUN_FILE_BANNER"
    by (auto simp: read_epic_run_def read_run_file_def parsed_run Let_def run_of_meta_def)
qed

lemma prose_kept:
  assumes "digest r = read_digest fs RUN_FILE_BANNER" "d = None \<Longrightarrow> digest r' = digest r"
  shows "prose_after fs r' d = digest (stored_as r r' d)"
proof -
  have "trim DEFAULT_DIGEST = DEFAULT_DIGEST" "DEFAULT_DIGEST \<noteq> []" by (code_simp, simp add: DEFAULT_DIGEST_def)
  then show ?thesis
    using assms trim_twice trim_banner
    by (auto simp: prose_after_def stored_as_def read_digest_def Let_def trim_def split: option.split)
qed

lemma read_at_write:
  assumes "kept d" "read_run_of d e = Ok (Some r)" "plain_run r'" "run_epic_id r' = e" "x = None \<Longrightarrow> digest r' = digest r"
  obtains d' where "write_run d r' x = Ok d'" "read_run_of d' e = Ok (Some (stored_as r r' x))"
proof -
  have v: "is_valid_epic_id e" using assms(2) by (auto simp: read_run_of_def split: if_splits)
  let ?d = "d(e \<mapsto> written (files_of d e) r' x)"
  have "read_epic_run e (written (files_of d e) r' x) = Ok (Some ((as_read r')\<lparr>digest := digest (stored_as r r' x)\<rparr>))"
    using read_written [OF assms(3)] prose_kept [OF read_of_files(1) [OF assms(1,2)], of x r'] assms(5) by simp
  then have "read_run_of ?d e = Ok (Some (stored_as r r' x))"
    using v by (simp add: read_run_of_def files_of_def stored_as_def)
  then show thesis using v assms(4) by (intro that [of ?d]) (simp_all add: write_run_def)
qed

lemma patch_run_value:
  assumes "kept (dirs st)" "read_run_of (dirs st) e = Ok (Some r)" "plain_patch p"
  obtains st' r' where "patch_run st e p now = Ok (Some (st', r'))" "read_run_of (dirs st') e = Ok (Some (patch_value r (p, now)))"
    "cards st' = cards st" "kept (dirs st')"
proof -
  have id: "run_epic_id r = e" "plain_run r" using kept_run_id [OF assms(1,2)] by simp_all
  have dg: "p_digest p = None \<Longrightarrow> digest (patched r p (to_iso now)) = digest r" by (simp add: patched_def or_else_def)
  obtain d' where d: "write_run (dirs st) (patched r p (to_iso now)) (p_digest p) = Ok d'"
    "read_run_of d' e = Ok (Some (stored_as r (patched r p (to_iso now)) (p_digest p)))"
    using read_at_write [OF assms(1,2) plain_patched [OF id(2) assms(3)] _ dg] id(1) by auto
  then have w: "patch_run st e p now = Ok (Some (st\<lparr>dirs := d'\<rparr>, patched r p (to_iso now)))"
    by (simp add: patch_run_def patch_epic_run_def assms(2) Let_def)
  with d(2) kept_patch_run [OF assms(1,3) w] show thesis by (intro that [OF w]) (simp_all add: patch_value_def)
qed

lemma read_without_log: "read_epic_run e (fs\<lparr>log_md := x\<rparr>) = read_epic_run e fs"
proof -
  have "read_digest (fs\<lparr>log_md := x\<rparr>) = read_digest fs" by (simp add: read_digest_def fun_eq_iff)
  then show ?thesis by (simp add: read_epic_run_def read_run_file_def split: result.split option.split)
qed

lemma log_to_value: "log_to st e a now = (st', x) \<Longrightarrow> read_run_of (dirs st') e' = read_run_of (dirs st) e'"
proof -
  assume l: "log_to st e a now = (st', x)"
  have "read_epic_run e' (files_of (d(e \<mapsto> (files_of d e)\<lparr>log_md := w\<rparr>)) e') = read_epic_run e' (files_of d e')" for d w
    by (cases "e' = e") (simp_all add: files_of_def read_without_log)
  with l show ?thesis by (auto simp: log_to_def read_run_of_def Let_def split: if_splits)
qed

lemma log_to_ok: "is_valid_epic_id e \<Longrightarrow> \<exists>st' w. log_to st e a now = (st', Ok w)"
  by (simp add: log_to_def Let_def)

text \<open>Whether a wake wins the lease of its epic.\<close>

definition lease_granted :: "sentinel \<Rightarrow> epic_msg \<Rightarrow> int \<Rightarrow> bool" where
  "lease_granted st m now =
     (case msg_op m of
        Op_Lease (Some q) \<Rightarrow>
          req_conv_id q \<noteq> [] \<and> (case cards st (msg_epic m) of None \<Rightarrow> False | Some c \<Rightarrow> grants c OVERSEER_KEY_PREFIX q now)
      | _ \<Rightarrow> False)"

text \<open>The effect of an operation other than a delete on the run it addresses.\<close>

definition run_effect :: "bool \<Rightarrow> epic_msg \<Rightarrow> int \<Rightarrow> epic_run \<Rightarrow> epic_run" where
  "run_effect won m now r =
     (case msg_op m of
        Op_Start s \<Rightarrow> stored_as r (rearmed r (s\<lparr>start_project := msg_project m\<rparr>) (to_iso now)) None
      | Op_Patch p \<Rightarrow> patch_value r (p, now)
      | Op_Lease _ \<Rightarrow> if won then patch_value r (status_patch Running, now) else r
      | Op_Pause \<Rightarrow> patch_value r (status_patch Paused, now)
      | Op_Abort _ \<Rightarrow> patch_value r (status_patch Aborted, now)
      | Op_Clear \<Rightarrow> if run_status r \<in> {Armed, Running} then r
          else patch_value r (no_patch\<lparr>p_acknowledged_at := Some (to_iso now)\<rparr>, now)
      | _ \<Rightarrow> r)"

lemma value_start:
  assumes "kept (dirs st)" "read_run_of (dirs st) e = Ok (Some r)" "plain_start s" "one_line pr"
  shows "read_run_of (dirs (fst (op_start st e pr s now))) e = Ok (Some (stored_as r (rearmed r (s\<lparr>start_project := pr\<rparr>) (to_iso now)) None))"
proof -
  let ?s = "s\<lparr>start_epic_id := e, start_project := pr\<rparr>"
  have id: "run_epic_id r = e" "plain_run r" using kept_run_id [OF assms(1,2)] by simp_all
  have same: "rearmed r ?s ts = rearmed r (s\<lparr>start_project := pr\<rparr>) ts" "plain_start ?s" "digest (rearmed r ?s ts) = digest r" for ts
    using assms(3) by (simp_all add: rearmed_def plain_start_def)
  obtain d' where d: "write_run (dirs st) (rearmed r ?s (to_iso now)) None = Ok d'"
    "read_run_of d' e = Ok (Some (stored_as r (rearmed r ?s (to_iso now)) None))"
    using read_at_write [OF assms(1,2) plain_rearmed [OF id(2) same(2)], of now None] assms(4) id(1) same(3) by auto
  then have "start_epic_run ?s now (dirs st) = Ok (d', rearmed r ?s (to_iso now))"
    by (simp add: start_epic_run_def assms(2) Let_def)
  with d(2) same(1) show ?thesis by (simp add: op_start_def Let_def)
qed

lemma value_patched:
  assumes k: "kept (dirs st)" "read_run_of (dirs st) e = Ok (Some r)"
  shows "plain_patch p \<Longrightarrow> read_run_of (dirs (fst (op_patch st e p now))) e = Ok (Some (patch_value r (p, now)))"
    and "read_run_of (dirs (fst (op_pause st e now))) e = Ok (Some (patch_value r (status_patch Paused, now)))"
    and "read_run_of (dirs (fst (op_abort st e reason now))) e = Ok (Some (patch_value r (status_patch Aborted, now)))"
proof -
  show "read_run_of (dirs (fst (op_patch st e p now))) e = Ok (Some (patch_value r (p, now)))" if "plain_patch p"
    by (rule patch_run_value [OF k that, of now]) (simp add: op_patch_def)
  show "read_run_of (dirs (fst (op_pause st e now))) e = Ok (Some (patch_value r (status_patch Paused, now)))"
    by (rule patch_run_value [OF k plain_no_patch(2) [of Paused], of now]) (simp add: op_pause_def released_dirs)
  show "read_run_of (dirs (fst (op_abort st e reason now))) e = Ok (Some (patch_value r (status_patch Aborted, now)))"
  proof (rule patch_run_value [OF k plain_no_patch(2) [of Aborted], of now])
    fix st' r'
    assume p: "patch_run st e (status_patch Aborted) now = Ok (Some (st', r'))"
      "read_run_of (dirs st') e = Ok (Some (patch_value r (status_patch Aborted, now)))"
    define a where "a = checkpoint (''Run ABORTED: '' @ reason_or reason ''no reason given'')"
    obtain st'' w where l: "log_to (released st' e) e a now = (st'', w)" by (cases "log_to (released st' e) e a now")
    from log_to_value [OF l, of e] p l show ?thesis
      by (simp add: op_abort_def a_def released_dirs split: result.split)
  qed
qed

lemma value_lease:
  assumes k: "kept (dirs st)" "read_run_of (dirs st) e = Ok (Some r)"
  shows "read_run_of (dirs (fst (op_lease st e q now))) e
    = Ok (Some (if lease_granted st \<lparr>msg_project = pr, msg_epic = e, msg_op = Op_Lease q\<rparr> now then patch_value r (status_patch Running, now) else r))"
proof (cases "\<exists>q' m. q = Some q' \<and> req_conv_id q' \<noteq> [] \<and> cards st e = Some m")
  case False
  with k show ?thesis by (cases q; cases "cards st e") (auto simp: op_lease_def lease_granted_def)
next
  case True
  then obtain q' m where q: "q = Some q'" "req_conv_id q' \<noteq> []" "cards st e = Some m" by blast
  define w where "w = cas_lease_on_card (cards st) e OVERSEER_KEY_PREFIX m q' now"
  have g: "granted (snd w) = lease_granted st \<lparr>msg_project = pr, msg_epic = e, msg_op = Op_Lease q\<rparr> now"
    by (auto simp: w_def lease_granted_def q grants_def cas_lease_on_card_def split: lease_decision.split)
  let ?st = "st\<lparr>cards := fst w\<rparr>"
  have k': "kept (dirs ?st)" "read_run_of (dirs ?st) e = Ok (Some r)" using k by simp_all
  show ?thesis
  proof (cases "granted (snd w)")
    case False
    with k g show ?thesis by (simp add: op_lease_def q w_def [symmetric] Let_def)
  next
    case True
    show ?thesis
    proof (rule patch_run_value [OF k' plain_no_patch(2) [of Running], of now])
      fix st' r'
      assume "patch_run ?st e (status_patch Running) now = Ok (Some (st', r'))"
        "read_run_of (dirs st') e = Ok (Some (patch_value r (status_patch Running, now)))"
      with True g show ?thesis by (simp add: op_lease_def q w_def [symmetric] Let_def)
    qed
  qed
qed

lemma value_clear:
  assumes k: "kept (dirs st)" "read_run_of (dirs st) e = Ok (Some r)"
  shows "read_run_of (dirs (fst (op_clear st e now))) e
    = Ok (Some (if run_status r \<in> {Armed, Running} then r else patch_value r (no_patch\<lparr>p_acknowledged_at := Some (to_iso now)\<rparr>, now)))"
proof (cases "run_status r \<in> {Armed, Running}")
  case True
  with k show ?thesis by (auto simp: op_clear_def)
next
  case False
  let ?p = "no_patch\<lparr>p_acknowledged_at := Some (to_iso now)\<rparr>"
  define a where "a = checkpoint (''Run CLEARED from the wall (status '' @ status_name (run_status r) @ '')'')"
  show ?thesis
  proof (rule patch_run_value [OF k plain_no_patch(3) [of now], of now])
    fix st' r'
    assume p: "patch_run st e ?p now = Ok (Some (st', r'))" "read_run_of (dirs st') e = Ok (Some (patch_value r (?p, now)))"
    obtain st'' w where l: "log_to st' e a now = (st'', w)" by (cases "log_to st' e a now")
    from log_to_value [OF l, of e] p l k False show ?thesis
      by (simp add: op_clear_def a_def split: result.split)
  qed
qed

lemma value_rest:
  assumes k: "read_run_of (dirs st) e = Ok (Some r)"
  shows "read_run_of (dirs (fst (op_get st e q))) e = Ok (Some r)"
    and "read_run_of (dirs (fst (op_log_append st e a now))) e = Ok (Some r)"
    and "read_run_of (dirs (fst (op_release st e))) e = Ok (Some r)"
proof -
  show "read_run_of (dirs (fst (op_get st e q))) e = Ok (Some r)"
    using k by (auto simp: op_get_def Let_def split: result.split)
  show "read_run_of (dirs (fst (op_log_append st e a now))) e = Ok (Some r)"
    using k log_to_value [of st e _ now _ _ e] by (auto simp: op_log_append_def split: result.split option.split prod.split)
  show "read_run_of (dirs (fst (op_release st e))) e = Ok (Some r)"
    using k by (auto simp: op_release_def release_card_def split: result.split option.split)
qed

lemma effect_step:
  assumes k: "kept (dirs st)" "read_run_of (dirs st) e = Ok (Some r)" and m: "plain_msg m" "\<not> deletes m" "msg_epic m = e"
  shows "read_run_of (dirs (after_msg st (m, now))) e = Ok (Some (run_effect (lease_granted st m now) m now r))"
proof -
  have lease: "lease_granted st m now = lease_granted st \<lparr>msg_project = [], msg_epic = e, msg_op = msg_op m\<rparr> now"
    using m(3) by (cases "msg_op m") (simp_all add: lease_granted_def split: option.split)
  show ?thesis
  proof (cases "msg_op m")
    case (Op_Seat_Claim s)
    with k show ?thesis by (simp add: after_seat_claim run_effect_def)
  next
    case (Op_Seat_Release s)
    with k show ?thesis by (simp add: after_seat_release run_effect_def)
  next
    case (Op_Lease q)
    with k m lease value_lease [OF k, of q now "[]"] show ?thesis
      by (simp add: after_msg_def handle_epic_op.simps run_effect_def)
  next
    case (Op_Delete reason)
    with m(2) show ?thesis by (simp add: deletes_def)
  qed (use k m in \<open>simp_all add: plain_msg_def after_msg_def handle_epic_op.simps run_effect_def value_start value_patched value_clear value_rest\<close>)
qed

text \<open>
  C3: a run is a value. In every reachable store, an operation other than a delete changes the run that
  is read of an epic exactly as the status machine of the verbs says, from the run read before and from
  whether a wake won its lease, when it is addressed to that epic, and not at all when it is addressed
  to another. The text of the three files, their quoting, their numbers and their prose drop out.
\<close>

theorem run_is_a_value:
  assumes "reachable st" "read_run_of (dirs st) e = Ok (Some r)" "plain_msg m" "\<not> deletes m"
  shows "read_run_of (dirs (after_msg st (m, now))) e
    = Ok (Some (if msg_epic m = e then run_effect (lease_granted st m now) m now r else r))"
proof (cases "msg_epic m = e")
  case True
  then show ?thesis using effect_step [OF reachable_kept [OF assms(1)] assms(2-4)] by simp
next
  case False
  with other_epic [OF reachable_kept [OF assms(1)], of m e now] assms(2) show ?thesis
    by (simp add: read_run_of_def files_of_def split: if_splits)
qed

text \<open>A store with a run that can be read.\<close>

lemma started_run: "read_run_of (dirs (after_msg empty_store (start_e, 0))) ''e''
    = Ok (Some ((as_read (rearmed (fresh_run (default_start\<lparr>start_epic_id := ''e'', start_project := ''p''\<rparr>) (to_iso 0))
        (default_start\<lparr>start_epic_id := ''e'', start_project := ''p''\<rparr>) (to_iso 0)))\<lparr>digest := DEFAULT_DIGEST\<rparr>))"
proof -
  let ?s = "default_start\<lparr>start_epic_id := ''e'', start_project := ''p''\<rparr>"
  let ?r = "rearmed (fresh_run ?s (to_iso 0)) ?s (to_iso 0)"
  have v: "is_valid_epic_id ''e''" by code_simp
  have p: "one_line ''p''" "plain_start ?s" by (simp_all add: one_line_def plain_start_def default_start_def opt_ok_def)
  have "plain_run (fresh_run ?s (to_iso 0))" using v p(1) by (intro plain_fresh) simp_all
  then have r: "plain_run ?r" using p by (intro plain_rearmed) simp_all
  have d: "digest ?r = DEFAULT_DIGEST" by (simp add: rearmed_def fresh_run_def Let_def)
  have "trim DEFAULT_DIGEST = DEFAULT_DIGEST" "DEFAULT_DIGEST \<noteq> []" by (code_simp, simp add: DEFAULT_DIGEST_def)
  then have "prose_after no_files ?r None = DEFAULT_DIGEST" by (simp add: prose_after_def no_files_def d)
  then have "read_epic_run ''e'' (written no_files ?r None) = Ok (Some ((as_read ?r)\<lparr>digest := DEFAULT_DIGEST\<rparr>))"
    using read_written [OF r] by simp
  then show ?thesis
    using v by (simp add: after_msg_def handle_epic_op.simps start_e_def op_start_def start_epic_run_def read_run_of_def empty_store_def
        files_of_def no_files_def read_epic_run_def read_run_file_def write_run_def Let_def)
qed

definition pause_e :: epic_msg where
  "pause_e = \<lparr>msg_project = ''p'', msg_epic = ''e'', msg_op = Op_Pause\<rparr>"

lemma run_is_a_value_witness:
  "map_option run_status (case read_run_of (dirs (after_msg (after_msg empty_store (start_e, 0)) (pause_e, 1))) ''e'' of Ok x \<Rightarrow> x | Err _ \<Rightarrow> None)
     = Some Paused"
  using run_is_a_value [OF started_reachable started_run, of pause_e 1]
  by (simp add: pause_e_def plain_msg_def one_line_def deletes_def run_effect_def patch_value_def stored_as_def as_read_def patched_def
      status_patch_def or_else_def)

subsection \<open>Resuming\<close>

lemma read_optional:
  assumes "read_run_of d e = Ok (Some r)"
  shows "unless_empty (plan_baseline r) = plan_baseline r"
proof -
  have "unless_empty (filled v) = filled v" for v
    by (auto simp: filled_def unless_empty_def truthy_def split: option.split js_value.split)
  with assms show ?thesis
    by (auto simp: read_run_of_def read_epic_run_def run_of_meta_def Let_def split: if_splits result.splits option.splits)
qed

text \<open>
  Re-arming a run resumes it. In every reachable store a start of an epic that has a run arms it,
  restarts its clock and forgets the dry streak, the escalations, the abort and the acknowledgement,
  takes the ceilings the caller names, and keeps the money spent, the plan and its baseline, the time
  of creation, the prose, and the generation on the card: a resume launders nothing and never re-plans.
\<close>

theorem resume_launders_nothing:
  assumes "reachable st" "read_run_of (dirs st) (msg_epic m) = Ok (Some r)" "plain_msg m" "msg_op m = Op_Start s"
  shows "(case read_run_of (dirs (after_msg st (m, now))) (msg_epic m) of
       Ok (Some r') \<Rightarrow>
         run_status r' = Armed \<and> dry_gens r' = 0 \<and> unlanded_woken r' = [] \<and> started_at r' = None \<and> abort_reason r' = None
         \<and> acknowledged_at r' = None \<and> max_usd r' = or_else (start_max_usd s) (max_usd r) \<and> max_gens r' = or_else (start_max_gens s) (max_gens r)
         \<and> spent_usd r' = spent_usd r \<and> run_plan r' = run_plan r \<and> planned r' = planned r \<and> plan_baseline r' = plan_baseline r
         \<and> run_created r' = run_created r \<and> digest r' = digest r
     | _ \<Rightarrow> False)
    \<and> number_at (msg_epic m) OVERSEER_KEY_PREFIX (after_msg st (m, now)) = number_at (msg_epic m) OVERSEER_KEY_PREFIX st"
proof -
  have nd: "\<not> deletes m" using assms(4) by (simp add: deletes_def)
  have "read_run_of (dirs (after_msg st (m, now))) (msg_epic m)
    = Ok (Some (stored_as r (rearmed r (s\<lparr>start_project := msg_project m\<rparr>) (to_iso now)) None))"
    using effect_step [OF reachable_kept [OF assms(1)] assms(2,3) nd refl, of now] by (simp add: run_effect_def assms(4))
  moreover have "cards (after_msg st (m, now)) = cards st"
    by (simp add: after_msg_def handle_epic_op.simps assms(4) dirs_only)
  ultimately show ?thesis
    using read_optional [OF assms(2)]
    by (simp add: stored_as_def as_read_def rearmed_def unless_empty_def number_at_def card_meta_def)
qed

lemma resume_launders_nothing_witness:
  "map_option run_status (case read_run_of (dirs (after_msg (after_msg empty_store (start_e, 0)) (start_e, 1))) ''e'' of Ok x \<Rightarrow> x | Err _ \<Rightarrow> None)
     = Some Armed"
proof -
  have "msg_epic start_e = ''e''" by (simp add: start_e_def)
  with started_run resume_launders_nothing [OF started_reachable _ start_e_plain, of _ default_start 1] show ?thesis
    by (auto simp: start_e_def split: result.splits option.splits)
qed

subsection \<open>A torn run file\<close>

definition run_verb :: "epic_msg \<Rightarrow> bool" where
  "run_verb m \<longleftrightarrow>
     (case msg_op m of
        Op_Start _ \<Rightarrow> True | Op_Get _ \<Rightarrow> True | Op_Patch _ \<Rightarrow> True | Op_Pause \<Rightarrow> True | Op_Abort _ \<Rightarrow> True
      | Op_Clear \<Rightarrow> True | Op_Delete _ \<Rightarrow> True | _ \<Rightarrow> False)"

lemma torn_patch: "read_run_of (dirs st) e = Err why \<Longrightarrow> patch_run st e p now = Err why"
  by (simp add: patch_run_def patch_epic_run_def)

lemma log_to_run_md: "log_to st e a now = (st', x) \<Longrightarrow> run_md (files_of (dirs st') e') = run_md (files_of (dirs st) e')"
  by (auto simp: log_to_def files_of_def Let_def split: if_splits option.split)

lemma torn_ops:
  assumes "read_run_of (dirs st) e = Err why"
  shows "op_start st e pr s now = (st, Err why)" "op_get st e q = (st, Err why)" "op_patch st e p now = (st, Err why)"
    "op_pause st e now = (st, Err why)" "op_abort st e reason now = (st, Err why)" "op_clear st e now = (st, Err why)"
    "op_delete st e reason now = (st, Err why)"
proof -
  have "why = ''invalid epic id: '' @ e" if "\<not> is_valid_epic_id e" using assms that by (simp add: read_run_of_def)
  then show "op_get st e q = (st, Err why)" using assms by (simp add: op_get_def snapshot_def Let_def)
  show "op_start st e pr s now = (st, Err why)" using assms by (simp add: op_start_def start_epic_run_def)
qed (use assms in \<open>simp_all add: op_patch_def op_pause_def op_abort_def op_clear_def op_delete_def torn_patch\<close>)

lemma torn_lease:
  assumes "read_run_of (dirs st) e = Err why"
  shows "dirs (fst (op_lease st e r now)) = dirs st" "dirs (fst (op_release st e)) = dirs st"
proof -
  have "patch_run (st\<lparr>cards := b\<rparr>) e p now = Err why" for b p by (rule torn_patch) (simp add: assms)
  then show "dirs (fst (op_lease st e r now)) = dirs st"
    by (auto simp: op_lease_def Let_def split: option.split)
  show "dirs (fst (op_release st e)) = dirs st"
    by (auto simp: op_release_def release_card_def split: option.split result.split)
qed

text \<open>
  A run file that cannot be read stops its run: every verb that reads or writes the run answers with
  the error of the read and changes nothing at all, a start included, and no other verb touches a run
  file either, so what is left of the torn file is there for the human who has to move it aside.
\<close>

theorem torn_run_stops_every_verb:
  assumes "read_run_of (dirs st) (msg_epic m) = Err why"
  shows "(if run_verb m then handle_epic_op st (m, now) = (st, Err why)
     else run_md (files_of (dirs (after_msg st (m, now))) e) = run_md (files_of (dirs st) e))"
proof (cases "msg_op m")
  case (Op_Log_Append a)
  then show ?thesis
    using log_to_run_md [of st "msg_epic m" _ now]
    by (auto simp: run_verb_def after_msg_def handle_epic_op.simps op_log_append_def split: option.split result.split prod.split)
next
  case (Op_Seat_Claim s)
  then show ?thesis by (simp add: run_verb_def after_seat_claim)
next
  case (Op_Seat_Release s)
  then show ?thesis by (simp add: run_verb_def after_seat_release)
qed (simp_all add: run_verb_def after_msg_def handle_epic_op.simps torn_ops [OF assms] torn_lease [OF assms])

definition torn_store :: sentinel where
  "torn_store =
     \<lparr>dirs = [''e'' \<mapsto> no_files\<lparr>run_md := Some (join newline [''---'', ''status: running'', ''maxUsd: 4''])\<rparr>], tombs = Map.empty,
      cards = [''e'' \<mapsto> Map.empty]\<rparr>"

lemma torn_store_read: "read_run_of (dirs torn_store) ''e'' = Err (run_unreadable ''e'' ''run.md carries no frontmatter block'')"
  by code_simp

lemma torn_run_stops_every_verb_witness:
  "handle_epic_op torn_store (pause_e, 5) = (torn_store, Err (run_unreadable ''e'' ''run.md carries no frontmatter block''))"
  using torn_run_stops_every_verb [of torn_store pause_e _ 5] torn_store_read by (simp add: pause_e_def run_verb_def)

text \<open>
  But a wake on a torn run takes the lease it is refused: the reply is the error of the read, so the
  caller believes it holds nothing, while the epic card already names it as the holder of the next
  generation.
\<close>

theorem refused_wake_holds_the_lease:
  assumes "read_run_of (dirs st) (msg_epic m) = Err why" "msg_op m = Op_Lease (Some q)" "lease_granted st m now"
  shows "snd (handle_epic_op st (m, now)) = Err why
    \<and> map_option conv_id (read_lease (card_meta (after_msg st (m, now)) (msg_epic m)) OVERSEER_KEY_PREFIX) = Some (req_conv_id q)
    \<and> number_at (msg_epic m) OVERSEER_KEY_PREFIX (after_msg st (m, now))
        = number_at (msg_epic m) OVERSEER_KEY_PREFIX st + (if force q \<or> \<not> adopt q then 1 else 0)"
proof -
  let ?e = "msg_epic m"
  from assms(2,3) obtain c where c: "req_conv_id q \<noteq> []" "cards st ?e = Some c" "grants c OVERSEER_KEY_PREFIX q now"
    by (auto simp: lease_granted_def split: option.splits)
  from c(3) obtain l r where g: "evaluate_lease (read_lease c OVERSEER_KEY_PREFIX) q now = Grant l r"
    by (auto simp: grants_def split: lease_decision.splits)
  define w where "w = cas_lease_on_card (cards st) ?e OVERSEER_KEY_PREFIX c q now"
  have w: "granted (snd w)" by (simp add: w_def cas_lease_on_card_def g)
  have op: "handle_epic_op st (m, now) = (st\<lparr>cards := fst w\<rparr>, Err why)"
    using assms(2) c w torn_patch [of "st\<lparr>cards := fst w\<rparr>" ?e why] assms(1)
    by (simp add: handle_epic_op.simps op_lease_def w_def [symmetric] Let_def)
  have "read_lease (card_meta (st\<lparr>cards := fst w\<rparr>) ?e) OVERSEER_KEY_PREFIX = Some l"
    by (simp add: w_def cas_lease_on_card_def g patch_card_meta_def c card_meta_def read_lease_patch)
  moreover have "conv_id l = req_conv_id q"
    using g by (cases "read_lease c OVERSEER_KEY_PREFIX") (auto simp: evaluate_lease_def next_lease_def split: if_splits)
  ultimately show ?thesis
    using number_cas [OF c(2), of OVERSEER_KEY_PREFIX q now] c(3) op by (simp add: after_msg_def w_def)
qed

definition wake_e :: epic_msg where
  "wake_e = \<lparr>msg_project = ''p'', msg_epic = ''e'',
     msg_op = Op_Lease (Some \<lparr>req_conv_id = ''c'', expect_gen = 0, holder_alive = False, force = False, adopt = False\<rparr>)\<rparr>"

lemma refused_wake_holds_the_lease_witness:
  "number_at ''e'' OVERSEER_KEY_PREFIX (after_msg torn_store (wake_e, 5)) = number_at ''e'' OVERSEER_KEY_PREFIX torn_store + 1"
proof -
  have "lease_granted torn_store wake_e 5" by code_simp
  with refused_wake_holds_the_lease [of torn_store wake_e _ _ 5] torn_store_read show ?thesis by (simp add: wake_e_def)
qed

end
