(* ===== verification/ProjectUri.thy ===== *)
theory ProjectUri
  imports JsValue
begin

section \<open>Project URIs\<close>

text \<open>
  \<open>src/shared/project-uri.ts\<close>: parsing, normalising and matching project addresses. The WHATWG
  \<open>URL\<close> parser and \<open>decodeURIComponent\<close> are the runtime's and are a parameter (\<open>None\<close> is a throw);
  everything the file does around them is modelled. Scheme letters are ASCII.
\<close>

record url =
  protocol :: string
  username :: string
  password :: string
  hostname :: string
  port :: string
  pathname :: string
  search :: string
  hash :: string

record url_runtime =
  parse_url :: "string \<Rightarrow> url option"
  decode_uri :: "string \<Rightarrow> string option"

definition DEFAULT_SENTINEL_NAME :: string where
  "DEFAULT_SENTINEL_NAME = ''default''"

record project_uri =
  uri_scheme :: string
  uri_authority :: "string option"
  uri_path :: string
  uri_fragment :: "string option"
  uri_raw :: string

definition WILDCARD_URI :: project_uri where
  "WILDCARD_URI = \<lparr>uri_scheme = ''*'', uri_authority = None, uri_path = ''*'', uri_fragment = None, uri_raw = ''*''\<rparr>"

definition ascii_lower :: "char \<Rightarrow> char" where
  "ascii_lower c = (let n = of_char c :: nat in if 65 \<le> n \<and> n \<le> 90 then char_of (n + 32) else c)"

definition letter :: "char \<Rightarrow> bool" where
  "letter c \<longleftrightarrow> 97 \<le> (of_char (ascii_lower c) :: nat) \<and> (of_char (ascii_lower c) :: nat) \<le> 122"

definition scheme_char :: "char \<Rightarrow> bool" where
  "scheme_char c \<longleftrightarrow> letter c \<or> is_digit c \<or> c \<in> set ''+.-''"

text \<open>The scheme at the front of a text and what follows it: \<open>[a-z][a-z0-9+.-]*\<close>, up to the colon.\<close>

definition leading_scheme :: "string \<Rightarrow> (string \<times> string) option" where
  "leading_scheme s =
     (let a = takeWhile scheme_char s
      in if a \<noteq> [] \<and> letter (hd a) then Some (a, dropWhile scheme_char s) else None)"

text \<open>\<open>/^[a-z][a-z0-9+.-]*:\*$/i\<close>\<close>

definition scheme_wildcard :: "string \<Rightarrow> bool" where
  "scheme_wildcard s \<longleftrightarrow> (case leading_scheme s of None \<Rightarrow> False | Some (_, r) \<Rightarrow> r = '':*'')"

text \<open>\<open>s.slice(0, s.indexOf(c))\<close> and what follows the separator, or \<open>None\<close> where there is none.\<close>

definition split_before :: "char \<Rightarrow> string \<Rightarrow> (string \<times> string) option" where
  "split_before c s = (if c \<in> set s then Some (takeWhile (\<lambda>x. x \<noteq> c) s, drop 1 (dropWhile (\<lambda>x. x \<noteq> c) s)) else None)"

definition parse_scheme_wildcard :: "string \<Rightarrow> project_uri" where
  "parse_scheme_wildcard s =
     \<lparr>uri_scheme = map ascii_lower (takeWhile (\<lambda>x. x \<noteq> CHR '':'') s), uri_authority = None, uri_path = ''*'',
      uri_fragment = None, uri_raw = s\<rparr>"

definition some_nonempty :: "string \<Rightarrow> string option" where
  "some_nonempty s = (if s = [] then None else Some s)"

definition line_break :: "char \<Rightarrow> bool" where
  "line_break c \<longleftrightarrow> (of_char c :: nat) = 10 \<or> (of_char c :: nat) = 13"

definition manual_split :: "string \<Rightarrow> (string, project_uri) result" where
  "manual_split s =
     (case leading_scheme s of
        Some (sch, r) \<Rightarrow>
          if take 3 r = ''://'' \<and> \<not> list_ex line_break (drop 3 r) then
            let rest = drop 3 r;
                (before, fragment) = (case split_before (CHR ''#'') rest of None \<Rightarrow> (rest, None) | Some (a, b) \<Rightarrow> (a, Some b));
                raw_authority = takeWhile (\<lambda>x. x \<noteq> CHR ''/'') before;
                path = (if CHR ''/'' \<in> set before then dropWhile (\<lambda>x. x \<noteq> CHR ''/'') before else ''/'');
                host = (case split_before (CHR ''@'') raw_authority of None \<Rightarrow> raw_authority | Some (_, h) \<Rightarrow> h)
            in Ok \<lparr>uri_scheme = map ascii_lower sch, uri_authority = some_nonempty host, uri_path = path,
                   uri_fragment = fragment, uri_raw = s\<rparr>
          else Err (''Invalid project URI: '' @ s)
      | None \<Rightarrow> Err (''Invalid project URI: '' @ s))"

definition parse_project_uri :: "url_runtime \<Rightarrow> string \<Rightarrow> (string, project_uri) result" where
  "parse_project_uri rt s =
     (if s = ''*'' then Ok WILDCARD_URI
      else if scheme_wildcard s then Ok (parse_scheme_wildcard s)
      else case parse_url rt s of
        None \<Rightarrow> manual_split s
      | Some u \<Rightarrow>
          let sch = map ascii_lower (butlast (protocol u))
          in if sch = [] then Err (''Invalid project URI: missing scheme in '' @ s)
             else case decode_uri rt (pathname u) of
               None \<Rightarrow> Err ''URI malformed''
             | Some p \<Rightarrow>
                 Ok \<lparr>uri_scheme = sch, uri_authority = some_nonempty (hostname u),
                     uri_path = (if p = [] then ''/'' else p),
                     uri_fragment = (if hash u = [] then None else Some (drop 1 (hash u))), uri_raw = s\<rparr>)"

definition try_parse_project_uri :: "url_runtime \<Rightarrow> string \<Rightarrow> project_uri option" where
  "try_parse_project_uri rt s = (case parse_project_uri rt s of Err _ \<Rightarrow> None | Ok u \<Rightarrow> Some u)"

definition authority_for_match :: "project_uri \<Rightarrow> string" where
  "authority_for_match u = (if truthy (uri_authority u) then the (uri_authority u) else DEFAULT_SENTINEL_NAME)"

definition alias_scheme :: "string \<Rightarrow> string" where
  "alias_scheme s = (if s = ''daemon'' then ''claude'' else s)"

definition WORKTREES :: string where
  "WORKTREES = ''/.claude/worktrees/''"

definition worktree_name :: "string \<Rightarrow> string" where
  "worktree_name s = (if take (length WORKTREES) s = WORKTREES
     then takeWhile (\<lambda>c. c \<noteq> CHR ''/'') (drop (length WORKTREES) s) else [])"

function alias_path :: "string \<Rightarrow> string" where
  "alias_path [] = []"
| "alias_path (c # s) =
     (if worktree_name (c # s) \<noteq> []
      then alias_path (drop (length WORKTREES - 1 + length (worktree_name (c # s))) s)
      else c # alias_path s)"
  by pat_completeness auto
termination by (relation "measure length") auto

declare alias_path.simps [simp del]

definition canonical_path :: "string \<Rightarrow> string" where
  "canonical_path raw =
     (let p = alias_path raw;
          p = (if take 2 p = ''//'' then CHR ''/'' # dropWhile (\<lambda>c. c = CHR ''/'') p else p)
      in if p \<noteq> ''/'' \<and> p \<noteq> [] \<and> last p = CHR ''/'' then butlast p else p)"

definition normalize_project_uri :: "url_runtime \<Rightarrow> string \<Rightarrow> string" where
  "normalize_project_uri rt s =
     (if s = ''*'' then ''*''
      else if scheme_wildcard s then map ascii_lower (takeWhile (\<lambda>x. x \<noteq> CHR '':'') s) @ '':*''
      else case parse_project_uri rt s of
        Err _ \<Rightarrow> s
      | Ok u \<Rightarrow>
          alias_scheme (uri_scheme u) @ ''://'' @ authority_for_match u @ canonical_path (uri_path u)
            @ (if truthy (uri_fragment u) then ''#'' @ the (uri_fragment u) else []))"

definition project_without_conversation :: "string \<Rightarrow> string" where
  "project_without_conversation s = (case split_before (CHR ''#'') s of None \<Rightarrow> s | Some (a, _) \<Rightarrow> a)"

definition project_identity_key :: "url_runtime \<Rightarrow> string \<Rightarrow> string" where
  "project_identity_key rt s = normalize_project_uri rt (project_without_conversation s)"

definition compare_project_uri :: "url_runtime \<Rightarrow> string \<Rightarrow> string \<Rightarrow> int" where
  "compare_project_uri rt a b =
     (let x = project_identity_key rt a; y = project_identity_key rt b
      in if x < y then -1 else if x > y then 1 else 0)"

definition is_same_project :: "url_runtime \<Rightarrow> string \<Rightarrow> string \<Rightarrow> bool" where
  "is_same_project rt a b \<longleftrightarrow> compare_project_uri rt a b = 0"

lemma is_same_project_key: "is_same_project rt a b \<longleftrightarrow> project_identity_key rt a = project_identity_key rt b"
  by (auto simp: is_same_project_def compare_project_uri_def Let_def)

definition project_path_to_cc_slug :: "string \<Rightarrow> string" where
  "project_path_to_cc_slug p = map (\<lambda>c. if c \<in> set ''/._'' then CHR ''-'' else c) p"

text \<open>\<open>/^-[A-Za-z0-9-]+$/\<close>\<close>

definition is_cc_slug :: "string \<Rightarrow> bool" where
  "is_cc_slug s \<longleftrightarrow> 1 < length s \<and> hd s = CHR ''-'' \<and> list_all (\<lambda>c. letter c \<or> is_digit c \<or> c = CHR ''-'') (tl s)"

definition match_project_uri :: "url_runtime \<Rightarrow> string \<Rightarrow> string \<Rightarrow> (string, bool) result" where
  "match_project_uri rt pattern s =
     (if pattern = ''*'' then Ok True
      else if is_cc_slug pattern then
        Ok (case try_parse_project_uri rt s of
              None \<Rightarrow> False | Some u \<Rightarrow> project_path_to_cc_slug (uri_path u) = pattern)
      else if scheme_wildcard pattern then
        (case parse_project_uri rt s of
           Err e \<Rightarrow> Err e
         | Ok u \<Rightarrow> Ok (alias_scheme (uri_scheme u)
             = alias_scheme (map ascii_lower (takeWhile (\<lambda>x. x \<noteq> CHR '':'') pattern))))
      else if 2 \<le> length pattern \<and> drop (length pattern - 2) pattern = ''/*'' then
        (case parse_project_uri rt (take (length pattern - 2) pattern) of
           Err e \<Rightarrow> Err e
         | Ok p \<Rightarrow>
           (case parse_project_uri rt s of
              Err e \<Rightarrow> Err e
            | Ok u \<Rightarrow>
                if alias_scheme (uri_scheme p) \<noteq> alias_scheme (uri_scheme u) then Ok False
                else if authority_for_match p \<noteq> authority_for_match u then Ok False
                else Ok (take (length (uri_path p) + 1) (uri_path u) = uri_path p @ ''/'' \<or> uri_path u = uri_path p)))
      else Ok (normalize_project_uri rt pattern = normalize_project_uri rt s))"

record project_uri_parts =
  part_scheme :: string
  part_authority :: "string option"
  part_path :: string
  part_fragment :: "string option"

definition build_project_uri :: "project_uri_parts \<Rightarrow> string" where
  "build_project_uri parts =
     map ascii_lower (part_scheme parts) @ ''://''
       @ (case part_authority parts of None \<Rightarrow> DEFAULT_SENTINEL_NAME | Some a \<Rightarrow> a) @ part_path parts
       @ (if truthy (part_fragment parts) then ''#'' @ the (part_fragment parts) else [])"

definition cwd_to_project_uri :: "string \<Rightarrow> string" where
  "cwd_to_project_uri cwd =
     build_project_uri \<lparr>part_scheme = ''claude'', part_authority = None, part_path = cwd, part_fragment = None\<rparr>"

text \<open>
  A runtime for concrete instances: what \<open>URL\<close> answers for addresses of a non-special scheme made of
  plain characters, without a port or a query.
\<close>

definition plain_url :: "string \<Rightarrow> url option" where
  "plain_url s =
     (case leading_scheme s of
        None \<Rightarrow> None
      | Some (sch, r) \<Rightarrow>
          if take 3 r = ''://'' then
            let rest = drop 3 r;
                (before, fragment) = (case split_before (CHR ''#'') rest of None \<Rightarrow> (rest, []) | Some (a, b) \<Rightarrow> (a, CHR ''#'' # b));
                (user, host) = (case split_before (CHR ''@'') (takeWhile (\<lambda>x. x \<noteq> CHR ''/'') before) of
                  None \<Rightarrow> ([], takeWhile (\<lambda>x. x \<noteq> CHR ''/'') before) | Some (a, b) \<Rightarrow> (a, b))
            in Some \<lparr>protocol = map ascii_lower sch @ '':'', username = user, password = [], hostname = host, port = [],
                    pathname = dropWhile (\<lambda>x. x \<noteq> CHR ''/'') before, search = [], hash = fragment\<rparr>
          else None)"

definition plain_runtime :: url_runtime where
  "plain_runtime = \<lparr>parse_url = plain_url, decode_uri = Some\<rparr>"

end
