(* ===== verification/EpicQueue.thy ===== *)
theory EpicQueue
  imports EpicRun ProjectUri
begin

section \<open>The queue gate\<close>

text \<open>
  \<open>src/broker/epic-queue.ts\<close>: who may dispatch while a run armed \<open>when=queue\<close> waits for, or holds,
  a project's runner. The verdict of every scope comes out of one fold over all of them; over time, it
  keeps the holders of the runner to one.
\<close>

definition QUEUE_PATIENCE_MS :: int where
  "QUEUE_PATIENCE_MS = 30 * 60000"

record queue_scope =
  scope_epic_id :: string
  scope_when :: js_value
  scope_status :: "epic_run_status option"
  scope_started :: bool
  busy :: bool
  scope_created :: string
  scope_updated :: string

record scoped_queue_scope = queue_scope +
  scope_project :: string

record queue_verdict =
  blocked :: bool
  position :: nat
  total :: nat
  behind :: "string list"
  held_by :: "string option"
  waiting_ms :: "int option"
  queue_reason :: "string option"

definition FREE :: queue_verdict where
  "FREE = \<lparr>blocked = False, position = 0, total = 0, behind = [], held_by = None, waiting_ms = None, queue_reason = None\<rparr>"

record scope_group =
  group_epic_id :: string
  group_project :: string
  group_in_flight :: "string list"
  werk_master_alive :: bool

definition to_queue_scope :: "scope_group \<Rightarrow> 'a epic_run_scheme option \<Rightarrow> scoped_queue_scope" where
  "to_queue_scope g run =
     \<lparr>scope_epic_id = group_epic_id g,
      scope_when = (case run of None \<Rightarrow> V_List [V_Str ''now''] | Some r \<Rightarrow> cadence r),
      scope_status = map_option run_status run,
      scope_started = (case run of None \<Rightarrow> False | Some r \<Rightarrow> truthy (started_at r)),
      busy = (group_in_flight g \<noteq> [] \<or> werk_master_alive g),
      scope_created = (case run of None \<Rightarrow> [] | Some r \<Rightarrow> run_created r),
      scope_updated = (case run of None \<Rightarrow> [] | Some r \<Rightarrow> run_updated r),
      scope_project = group_project g\<rparr>"

definition queue_inert :: "epic_run_status option \<Rightarrow> bool" where
  "queue_inert s \<longleftrightarrow> s = Some Paused \<or> s = Some Complete \<or> s = Some Aborted"

definition is_queued :: "'a queue_scope_scheme \<Rightarrow> bool" where
  "is_queued s \<longleftrightarrow> gated_by (scope_when s) ''queue''"

text \<open>\<open>a.created.localeCompare(b.created) || a.epicId.localeCompare(b.epicId)\<close>\<close>

definition fifo :: "intl \<Rightarrow> 'a queue_scope_scheme \<Rightarrow> 'a queue_scope_scheme \<Rightarrow> int" where
  "fifo i a b =
     (let k = locale_compare i (scope_created a) (scope_created b)
      in if k \<noteq> 0 then k else locale_compare i (scope_epic_id a) (scope_epic_id b))"

definition fifo_le :: "intl \<Rightarrow> 'a queue_scope_scheme \<Rightarrow> 'a queue_scope_scheme \<Rightarrow> bool" where
  "fifo_le i a b \<longleftrightarrow> fifo i a b \<le> 0"

definition elapsed_since :: "string \<Rightarrow> int \<Rightarrow> int" where
  "elapsed_since stamp now = (case date_parse stamp of None \<Rightarrow> 0 | Some t \<Rightarrow> max 0 (now - t))"

definition human_minutes :: "int \<Rightarrow> string" where
  "human_minutes ms =
     (let minutes = ms div 60000
      in if minutes < 60 then int_str minutes @ ''m''
         else int_str (minutes div 60) @ ''h '' @ int_str (minutes mod 60) @ ''m'')"

definition wait_line :: "nat \<Rightarrow> nat \<Rightarrow> string list \<Rightarrow> int \<Rightarrow> string" where
  "wait_line pos tot bh ms =
     (if ms \<ge> QUEUE_PATIENCE_MS then ''STARVING: '' else []) @ ''queued, position '' @ nat_str pos @ '' of ''
     @ nat_str tot @ (if bh \<noteq> [] then '', behind '' @ comma bh else []) @ '' (waiting '' @ human_minutes ms @ '')''"

record 'a fold_state =
  live :: "'a queue_scope_scheme list"
  holders :: "'a queue_scope_scheme list"
  waiting :: "'a queue_scope_scheme list"
  now_ms :: int

text \<open>\<open>xs.findIndex(p) + 1\<close>\<close>

fun find_position :: "('a \<Rightarrow> bool) \<Rightarrow> 'a list \<Rightarrow> nat" where
  "find_position P [] = 0"
| "find_position P (x # xs) = (if P x then 1 else case find_position P xs of 0 \<Rightarrow> 0 | Suc n \<Rightarrow> Suc (Suc n))"

definition other_holder :: "'a queue_scope_scheme \<Rightarrow> 'a fold_state \<Rightarrow> 'a queue_scope_scheme option" where
  "other_holder s st = find (\<lambda>h. scope_epic_id h \<noteq> scope_epic_id s) (holders st)"

definition queued_verdict :: "'a queue_scope_scheme \<Rightarrow> 'a fold_state \<Rightarrow> queue_verdict" where
  "queued_verdict s st =
     (let pos = find_position (\<lambda>x. scope_epic_id x = scope_epic_id s) (waiting st); tot = length (waiting st)
      in if scope_started s then
           \<lparr>blocked = False, position = 0, total = tot, behind = [], held_by = None, waiting_ms = None,
            queue_reason = Some ''holding the runner exclusively (when=queue)''\<rparr>
         else
           let busy_ids = map scope_epic_id (filter (\<lambda>x. scope_epic_id x \<noteq> scope_epic_id s \<and> busy x) (live st));
               ahead = map scope_epic_id (take (pos - 1) (waiting st));
               holder = map_option scope_epic_id (other_holder s st);
               bh = str_sort (js_set (busy_ids @ ahead @ (case holder of None \<Rightarrow> [] | Some h \<Rightarrow> [h])));
               ms = elapsed_since (scope_updated s) (now_ms st)
           in if bh = [] then
                \<lparr>blocked = False, position = pos, total = tot, behind = [], held_by = None, waiting_ms = None,
                 queue_reason = Some ''the runner is free; taking it (when=queue)''\<rparr>
              else
                \<lparr>blocked = True, position = pos, total = tot, behind = bh, held_by = holder, waiting_ms = Some ms,
                 queue_reason = Some (wait_line pos tot bh ms)\<rparr>)"

definition held_verdict :: "'a queue_scope_scheme \<Rightarrow> 'a fold_state \<Rightarrow> queue_verdict" where
  "held_verdict s st =
     (case other_holder s st of
        None \<Rightarrow> FREE
      | Some h \<Rightarrow>
          \<lparr>blocked = True, position = 0, total = length (waiting st), behind = [scope_epic_id h],
           held_by = Some (scope_epic_id h), waiting_ms = None,
           queue_reason = Some (''held: '' @ scope_epic_id h
             @ '' has the runner exclusively (when=queue); in-flight work still finishes'')\<rparr>)"

definition verdict_for :: "'a queue_scope_scheme \<Rightarrow> 'a fold_state \<Rightarrow> queue_verdict" where
  "verdict_for s st =
     (if queue_inert (scope_status s) then FREE
      else if is_queued s then queued_verdict s st else held_verdict s st)"

definition fold_state_of :: "intl \<Rightarrow> 'a queue_scope_scheme list \<Rightarrow> int \<Rightarrow> 'a fold_state" where
  "fold_state_of i scopes now =
     (let l = filter (\<lambda>s. \<not> queue_inert (scope_status s)) scopes
      in \<lparr>live = l, holders = filter (\<lambda>s. is_queued s \<and> scope_started s) l,
          waiting = sort_by (fifo_le i) (filter (\<lambda>s. is_queued s \<and> \<not> scope_started s) l), now_ms = now\<rparr>)"

definition queue_verdicts :: "intl \<Rightarrow> 'a queue_scope_scheme list \<Rightarrow> int \<Rightarrow> (string \<times> queue_verdict) list" where
  "queue_verdicts i scopes now =
     (let st = fold_state_of i scopes now
      in foldl (\<lambda>out s. AList.update (scope_epic_id s) (verdict_for s st) out) [] scopes)"

text \<open>The verdicts of every project, keyed by canonical project and epic.\<close>

definition scope_key :: "url_runtime \<Rightarrow> string \<Rightarrow> string \<Rightarrow> string" where
  "scope_key rt proj epic_id = project_identity_key rt proj @ [char_of (0 :: nat)] @ epic_id"

definition by_project :: "url_runtime \<Rightarrow> scoped_queue_scope list \<Rightarrow> (string \<times> scoped_queue_scope list) list" where
  "by_project rt scopes =
     foldl (\<lambda>m s. let k = project_identity_key rt (scope_project s)
       in AList.update k ((case map_of m k of None \<Rightarrow> [] | Some l \<Rightarrow> l) @ [s]) m) [] scopes"

definition plan_project_queues ::
    "intl \<Rightarrow> url_runtime \<Rightarrow> scoped_queue_scope list \<Rightarrow> int \<Rightarrow> string \<Rightarrow> string \<Rightarrow> queue_verdict" where
  "plan_project_queues i rt scopes now proj epic_id =
     (let all = foldl (\<lambda>m (p, l). foldl (\<lambda>m (e, v). AList.update (scope_key rt p e) v m) m (queue_verdicts i l now)) []
                  (by_project rt scopes)
      in case map_of all (scope_key rt proj epic_id) of None \<Rightarrow> FREE | Some v \<Rightarrow> v)"

subsection \<open>Lookup\<close>

lemma queue_verdicts_lookup:
  assumes "distinct (map scope_epic_id scopes)" "s \<in> set scopes"
  shows "map_of (queue_verdicts i scopes now) (scope_epic_id s) = Some (verdict_for s (fold_state_of i scopes now))"
proof -
  have "map_of (foldl (\<lambda>out s. AList.update (scope_epic_id s) (f s) out) m scopes) (scope_epic_id s) = Some (f s)"
    for f :: "'a queue_scope_scheme \<Rightarrow> queue_verdict" and m
    using assms
  proof (induction scopes arbitrary: m)
    case (Cons x xs)
    have keep: "scope_epic_id s \<notin> scope_epic_id ` set ys
      \<Longrightarrow> map_of (foldl (\<lambda>out s. AList.update (scope_epic_id s) (f s) out) n ys) (scope_epic_id s) = map_of n (scope_epic_id s)"
      for ys n by (induction ys arbitrary: n) auto
    show ?case
    proof (cases "s = x")
      case True
      with Cons.prems keep [of xs] show ?thesis by simp
    next
      case False
      with Cons show ?thesis by simp
    qed
  qed simp
  from this [of "\<lambda>s. verdict_for s (fold_state_of i scopes now)" "[]"] show ?thesis
    by (simp add: queue_verdicts_def Let_def)
qed

lemma find_position_ahead:
  "\<exists>x \<in> set xs. P x \<Longrightarrow> find_position P xs - 1 = 0 \<longleftrightarrow> P (hd xs)"
  "find_position P xs - 1 \<le> length xs"
proof -
  show "\<exists>x \<in> set xs. P x \<Longrightarrow> find_position P xs - 1 = 0 \<longleftrightarrow> P (hd xs)"
  proof (cases xs)
    case (Cons y ys)
    assume "\<exists>x \<in> set xs. P x"
    moreover have "find_position P zs = 0 \<longleftrightarrow> (\<forall>z \<in> set zs. \<not> P z)" for zs
      by (induction zs) (auto split: nat.splits)
    ultimately show ?thesis using Cons by (auto split: nat.splits)
  qed simp
  show "find_position P xs - 1 \<le> length xs"
    by (induction xs) (auto split: nat.splits)
qed

lemma str_sort_js_set_Nil [simp]: "str_sort (js_set xs) = [] \<longleftrightarrow> xs = []"
  by (metis set_empty set_js_set set_sort_by)

text \<open>When a scope is held back, in terms of the scopes alone.\<close>

definition live_scope :: "'a queue_scope_scheme \<Rightarrow> bool" where
  "live_scope s \<longleftrightarrow> \<not> queue_inert (scope_status s)"

definition holds_runner :: "'a queue_scope_scheme \<Rightarrow> bool" where
  "holds_runner s \<longleftrightarrow> live_scope s \<and> is_queued s \<and> scope_started s"

definition waits_for_runner :: "'a queue_scope_scheme \<Rightarrow> bool" where
  "waits_for_runner s \<longleftrightarrow> live_scope s \<and> is_queued s \<and> \<not> scope_started s"

lemma fold_state_sets:
  "set (live (fold_state_of i scopes now)) = {s \<in> set scopes. live_scope s}"
  "set (holders (fold_state_of i scopes now)) = {s \<in> set scopes. holds_runner s}"
  "set (waiting (fold_state_of i scopes now)) = {s \<in> set scopes. waits_for_runner s}"
  by (auto simp: fold_state_of_def live_scope_def holds_runner_def waits_for_runner_def Let_def)

lemma other_holder_iff:
  "other_holder s st \<noteq> None \<longleftrightarrow> (\<exists>h \<in> set (holders st). scope_epic_id h \<noteq> scope_epic_id s)"
  by (auto simp: other_holder_def find_None_iff)

lemma queued_blocked_iff:
  assumes "s \<in> set (waiting st)" "\<not> scope_started s"
  shows "blocked (queued_verdict s st) \<longleftrightarrow>
    (\<exists>t \<in> set (live st). scope_epic_id t \<noteq> scope_epic_id s \<and> busy t)
    \<or> (\<exists>h \<in> set (holders st). scope_epic_id h \<noteq> scope_epic_id s)
    \<or> scope_epic_id (hd (waiting st)) \<noteq> scope_epic_id s"
proof -
  let ?P = "\<lambda>x. scope_epic_id x = scope_epic_id s"
  have "\<exists>x \<in> set (waiting st). ?P x" using assms(1) by blast
  note first = find_position_ahead(1) [of "waiting st" ?P, OF this]
  have "take (find_position ?P (waiting st) - 1) (waiting st) = [] \<longleftrightarrow> ?P (hd (waiting st))"
    using first assms(1) by auto
  moreover have "filter (\<lambda>x. scope_epic_id x \<noteq> scope_epic_id s \<and> busy x) (live st) = []
      \<longleftrightarrow> \<not> (\<exists>t \<in> set (live st). scope_epic_id t \<noteq> scope_epic_id s \<and> busy t)"
    by (auto simp: filter_empty_conv)
  moreover have "(case map_option scope_epic_id (other_holder s st) of None \<Rightarrow> [] | Some h \<Rightarrow> [h]) = []
      \<longleftrightarrow> \<not> (\<exists>h \<in> set (holders st). scope_epic_id h \<noteq> scope_epic_id s)"
    unfolding other_holder_iff [symmetric] by (auto split: option.split)
  ultimately show ?thesis
    using assms(2) by (auto simp: queued_verdict_def Let_def)
qed

text \<open>
  Who is held back. A terminal or paused scope never is; a scope that is not queued is held
  exactly while another one holds the runner; a queued scope that has not entered is held exactly
  while another live scope is busy, another one holds the runner, or it is not first in line.
\<close>

lemma blocked_iff:
  assumes "distinct (map scope_epic_id scopes)" "s \<in> set scopes"
    and "map_of (queue_verdicts i scopes now) (scope_epic_id s) = Some v"
  shows "blocked v \<longleftrightarrow> live_scope s \<and>
    (if is_queued s
     then \<not> scope_started s
       \<and> ((\<exists>t \<in> set scopes. t \<noteq> s \<and> (holds_runner t \<or> live_scope t \<and> busy t))
          \<or> hd (waiting (fold_state_of i scopes now)) \<noteq> s)
     else (\<exists>t \<in> set scopes. t \<noteq> s \<and> holds_runner t))"
proof -
  let ?st = "fold_state_of i scopes now"
  have id: "scope_epic_id t = scope_epic_id s \<longleftrightarrow> t = s" if "t \<in> set scopes" for t
    using assms(1,2) that by (auto simp: distinct_map dest: inj_onD)
  have v: "v = verdict_for s ?st" using queue_verdicts_lookup [OF assms(1,2), of i now] assms(3) by simp
  have held: "blocked (held_verdict s ?st) \<longleftrightarrow> (\<exists>t \<in> set scopes. t \<noteq> s \<and> holds_runner t)"
    using other_holder_iff [of s ?st] id
    by (auto simp: held_verdict_def FREE_def fold_state_sets split: option.splits)
  have queued: "blocked (queued_verdict s ?st) \<longleftrightarrow>
      (\<exists>t \<in> set scopes. t \<noteq> s \<and> (holds_runner t \<or> live_scope t \<and> busy t)) \<or> hd (waiting ?st) \<noteq> s"
    if "waits_for_runner s"
  proof -
    have w: "s \<in> set (waiting ?st)" using that assms(2) by (simp add: fold_state_sets)
    then have "hd (waiting ?st) \<in> set (waiting ?st)" by (cases "waiting ?st") auto
    then have "hd (waiting ?st) \<in> set scopes" by (simp add: fold_state_sets)
    with queued_blocked_iff [OF w] that id show ?thesis
      by (auto simp: fold_state_sets waits_for_runner_def)
  qed
  show ?thesis
    unfolding v verdict_for_def using held queued
    by (auto simp: live_scope_def waits_for_runner_def FREE_def queued_verdict_def Let_def)
qed

subsection \<open>A project over time\<close>

text \<open>
  What happens to the scopes of a project between beats: a run is armed, which clears its start whatever
  its gates; it changes its status, and leaves a stopped one by being armed alone; its seats come and
  go; and a beat under the verdicts of one fold stamps as started the scopes it beats that may work.
\<close>

datatype queue_event =
    Run_Armed scoped_queue_scope
  | Run_Status string epic_run_status
  | Seats_Changed string bool
  | Beaten int "string list"

definition may_start :: "intl \<Rightarrow> scoped_queue_scope list \<Rightarrow> int \<Rightarrow> scoped_queue_scope \<Rightarrow> bool" where
  "may_start i scopes now s \<longleftrightarrow>
     live_scope s \<and> (case map_of (queue_verdicts i scopes now) (scope_epic_id s) of None \<Rightarrow> False | Some v \<Rightarrow> \<not> blocked v)"

fun queue_step :: "intl \<Rightarrow> scoped_queue_scope list \<Rightarrow> queue_event \<Rightarrow> scoped_queue_scope list" where
  "queue_step i scopes (Run_Armed s) = filter (\<lambda>u. scope_epic_id u \<noteq> scope_epic_id s) scopes @ [s\<lparr>scope_started := False\<rparr>]"
| "queue_step i scopes (Run_Status e st) =
     map (\<lambda>u. if scope_epic_id u = e \<and> (queue_inert (Some st) \<or> live_scope u) then u\<lparr>scope_status := Some st\<rparr> else u) scopes"
| "queue_step i scopes (Seats_Changed e b) = map (\<lambda>u. if scope_epic_id u = e then u\<lparr>busy := b\<rparr> else u) scopes"
| "queue_step i scopes (Beaten now es) =
     map (\<lambda>u. if scope_epic_id u \<in> set es \<and> may_start i scopes now u then u\<lparr>scope_started := True\<rparr> else u) scopes"

definition queue_after :: "intl \<Rightarrow> queue_event list \<Rightarrow> scoped_queue_scope list" where
  "queue_after i evs = foldl (queue_step i) [] evs"

definition one_holder :: "scoped_queue_scope list \<Rightarrow> bool" where
  "one_holder scopes \<longleftrightarrow> distinct (map scope_epic_id scopes)
     \<and> (\<forall>s t. s \<in> set scopes \<longrightarrow> t \<in> set scopes \<longrightarrow> holds_runner s \<longrightarrow> holds_runner t \<longrightarrow> s = t)"

lemma one_holder_map:
  assumes "one_holder scopes" "\<And>u. scope_epic_id (f u) = scope_epic_id u"
    and "\<And>u v. u \<in> set scopes \<Longrightarrow> v \<in> set scopes \<Longrightarrow> u \<noteq> v \<Longrightarrow> holds_runner (f u) \<Longrightarrow> holds_runner (f v) \<Longrightarrow> False"
  shows "one_holder (map f scopes)"
proof -
  have "map scope_epic_id (map f scopes) = map scope_epic_id scopes" by (simp add: assms(2))
  then have "distinct (map scope_epic_id (map f scopes))" using assms(1) unfolding one_holder_def by metis
  moreover have "f u = f v" if "u \<in> set scopes" "v \<in> set scopes" "holds_runner (f u)" "holds_runner (f v)" for u v
    using assms(3) [OF that(1,2)] that(3,4) by blast
  ultimately show ?thesis unfolding one_holder_def by auto
qed

lemma one_holderD: "one_holder scopes \<Longrightarrow> s \<in> set scopes \<Longrightarrow> t \<in> set scopes \<Longrightarrow> holds_runner s \<Longrightarrow> holds_runner t \<Longrightarrow> s = t"
  unfolding one_holder_def by blast

lemma may_start_verdict:
  assumes "one_holder scopes" "s \<in> set scopes"
  shows "may_start i scopes now s \<longleftrightarrow> live_scope s \<and> (if is_queued s
    then scope_started s \<or> ((\<forall>t \<in> set scopes. t \<noteq> s \<longrightarrow> \<not> holds_runner t \<and> \<not> (live_scope t \<and> busy t)) \<and> hd (waiting (fold_state_of i scopes now)) = s)
    else (\<forall>t \<in> set scopes. t \<noteq> s \<longrightarrow> \<not> holds_runner t))"
proof -
  have d: "distinct (map scope_epic_id scopes)" using assms(1) by (simp add: one_holder_def)
  note v = queue_verdicts_lookup [OF d assms(2), of i now]
  show ?thesis using blocked_iff [OF d assms(2) v] v by (auto simp: may_start_def)
qed

lemma beaten_one_holder:
  assumes "one_holder scopes"
  shows "one_holder (queue_step i scopes (Beaten now es))"
  unfolding queue_step.simps
proof (rule one_holder_map [OF assms])
  let ?f = "\<lambda>u. if scope_epic_id u \<in> set es \<and> may_start i scopes now u then u\<lparr>scope_started := True\<rparr> else u"
  let ?enters = "\<lambda>u. may_start i scopes now u \<and> is_queued u \<and> \<not> scope_started u"
  fix u v assume uv: "u \<in> set scopes" "v \<in> set scopes" "u \<noteq> v" and h: "holds_runner (?f u)" "holds_runner (?f v)"
  have held: "holds_runner w \<or> ?enters w" if "holds_runner (?f w)" for w
  proof (cases "scope_started w")
    case True
    with that show ?thesis by (auto simp: holds_runner_def live_scope_def is_queued_def split: if_splits)
  next
    case False
    with that show ?thesis by (auto simp: holds_runner_def live_scope_def is_queued_def split: if_splits)
  qed
  have alone: "\<not> holds_runner t \<and> hd (waiting (fold_state_of i scopes now)) = w" if "w \<in> set scopes" "?enters w" "t \<in> set scopes" "t \<noteq> w" for w t
    using may_start_verdict [OF assms that(1), of i now] that by auto
  from held [OF h(1)] held [OF h(2)] show False
  proof (elim disjE)
    assume "holds_runner u" "holds_runner v" with one_holderD [OF assms uv(1,2)] uv(3) show False by blast
  next
    assume "holds_runner u" "?enters v" with alone [OF uv(2) _ uv(1)] uv(3) show False by blast
  next
    assume "?enters u" "holds_runner v" with alone [OF uv(1) _ uv(2)] uv(3) show False by blast
  next
    assume "?enters u" "?enters v" with alone [OF uv(1) _ uv(2)] alone [OF uv(2) _ uv(1)] uv(3) show False by metis
  qed
qed simp

lemma step_one_holder: "one_holder scopes \<Longrightarrow> one_holder (queue_step i scopes ev)"
proof (cases ev)
  case (Run_Armed s)
  assume h: "one_holder scopes"
  have "\<not> holds_runner (s\<lparr>scope_started := False\<rparr>)" by (simp add: holds_runner_def)
  moreover have "distinct (map scope_epic_id (filter (\<lambda>u. scope_epic_id u \<noteq> scope_epic_id s) scopes @ [s\<lparr>scope_started := False\<rparr>]))"
    using h by (auto simp: one_holder_def distinct_map_filter)
  ultimately show ?thesis using one_holderD [OF h] unfolding Run_Armed queue_step.simps one_holder_def by auto
next
  case (Run_Status e st)
  assume h: "one_holder scopes"
  have "holds_runner u" if "holds_runner (if scope_epic_id u = e \<and> (queue_inert (Some st) \<or> live_scope u) then u\<lparr>scope_status := Some st\<rparr> else u)" for u
    using that by (auto simp: holds_runner_def live_scope_def is_queued_def split: if_splits)
  with one_holderD [OF h] show ?thesis unfolding Run_Status queue_step.simps by (intro one_holder_map [OF h]) (simp, blast)
next
  case (Seats_Changed e b)
  assume h: "one_holder scopes"
  have "holds_runner u" if "holds_runner (if scope_epic_id u = e then u\<lparr>busy := b\<rparr> else u)" for u
    using that by (auto simp: holds_runner_def live_scope_def is_queued_def split: if_splits)
  with one_holderD [OF h] show ?thesis unfolding Seats_Changed queue_step.simps by (intro one_holder_map [OF h]) (simp, blast)
next
  case (Beaten now es)
  then show "one_holder scopes \<Longrightarrow> ?thesis" using beaten_one_holder by simp
qed

lemma reached_one_holder: "one_holder (queue_after i evs)"
proof -
  have "one_holder (foldl (queue_step i) scopes evs)" if "one_holder scopes" for scopes
    using that by (induction evs arbitrary: scopes) (simp_all add: step_one_holder)
  moreover have "one_holder []" by (simp add: one_holder_def)
  ultimately show ?thesis by (simp add: queue_after_def)
qed


text \<open>
  The beat that lets a queued run in is not yet exclusive: an idle run outside the queue is not held
  back under the same verdicts, and is started beside it.
\<close>

theorem entering_beat_is_shared:
  assumes "distinct (map scope_epic_id scopes)" "s \<in> set scopes" "t \<in> set scopes" "waits_for_runner s" "may_start i scopes now s"
    and "live_scope t" "\<not> is_queued t"
  shows "may_start i scopes now t
    \<and> t\<lparr>scope_started := True\<rparr> \<in> set (queue_step i scopes (Beaten now [scope_epic_id s, scope_epic_id t]))
    \<and> s\<lparr>scope_started := True\<rparr> \<in> set (queue_step i scopes (Beaten now [scope_epic_id s, scope_epic_id t]))"
proof -
  note vs = queue_verdicts_lookup [OF assms(1,2), of i now] and vt = queue_verdicts_lookup [OF assms(1,3), of i now]
  have "\<not> holds_runner u" if "u \<in> set scopes" "u \<noteq> s" for u
    using blocked_iff [OF assms(1,2) vs] vs assms(4,5) that by (auto simp: may_start_def waits_for_runner_def)
  moreover have "\<not> holds_runner s" using assms(4) by (simp add: waits_for_runner_def holds_runner_def)
  ultimately have "may_start i scopes now t" using blocked_iff [OF assms(1,3) vt] vt assms(6,7) by (auto simp: may_start_def)
  with assms(2,3,5) show ?thesis by (auto intro!: rev_image_eqI)
qed

text \<open>Two runs armed for the queue, one a minute after the other.\<close>

definition sample_scope :: "string \<Rightarrow> string \<Rightarrow> scoped_queue_scope" where
  "sample_scope e made =
     \<lparr>scope_epic_id = e, scope_when = V_Str ''queue'', scope_status = Some Armed, scope_started = False, busy = False,
      scope_created = made, scope_updated = made, scope_project = ''claude://default/repo''\<rparr>"

definition sample_scopes :: "scoped_queue_scope list" where
  "sample_scopes = [sample_scope ''late'' ''2026-08-22T02:01:00.000Z'', sample_scope ''early'' ''2026-08-22T02:00:00.000Z'']"

lemma sample_queued: "is_queued (sample_scope e made)"
proof -
  have "gated_by (V_Str ''queue'') ''queue''" by code_simp
  then show ?thesis by (simp add: is_queued_def sample_scope_def)
qed

lemma sample_waiting: "hd (waiting (fold_state_of plain_intl sample_scopes now)) = sample_scope ''early'' ''2026-08-22T02:00:00.000Z''"
  using sample_queued
  by (simp add: fold_state_of_def sample_scopes_def queue_inert_def Let_def)
     (simp add: sample_scope_def queue_inert_def fifo_le_def fifo_def plain_intl_def Let_def)

text \<open>
  The queue does not deadlock. When runs wait for the runner, nobody holds it and no live scope
  is busy, the first one in line by arm time (ties by id) is let in on that very beat.
\<close>

theorem queue_lets_first_in:
  assumes "distinct (map scope_epic_id scopes)" "s \<in> set scopes" "waits_for_runner s"
    and "\<forall>t \<in> set scopes. \<not> holds_runner t \<and> \<not> (live_scope t \<and> busy t)"
  shows "\<exists>f \<in> set scopes. waits_for_runner f
    \<and> (\<exists>v. map_of (queue_verdicts i scopes now) (scope_epic_id f) = Some v \<and> \<not> blocked v)"
proof -
  let ?f = "hd (waiting (fold_state_of i scopes now))"
  have "waiting (fold_state_of i scopes now) \<noteq> []"
    using assms(2,3) fold_state_sets(3) [of i scopes now] by auto
  then have "?f \<in> set (waiting (fold_state_of i scopes now))" by simp
  then have f: "?f \<in> set scopes" "waits_for_runner ?f" by (simp_all add: fold_state_sets)
  note v = queue_verdicts_lookup [OF assms(1) f(1), of i now]
  have "\<not> blocked (verdict_for ?f (fold_state_of i scopes now))"
    using blocked_iff [OF assms(1) f(1) v] f(2) assms(4) by (auto simp: waits_for_runner_def)
  with f v show ?thesis by blast
qed

theorem queue_lets_first_in_witness:
  "\<exists>f \<in> set sample_scopes. waits_for_runner f
    \<and> (\<exists>v. map_of (queue_verdicts plain_intl sample_scopes 0) (scope_epic_id f) = Some v \<and> \<not> blocked v)"
proof (rule queue_lets_first_in)
  show "distinct (map scope_epic_id sample_scopes)" by (simp add: sample_scopes_def sample_scope_def)
  show "sample_scope ''early'' ''2026-08-22T02:00:00.000Z'' \<in> set sample_scopes" by (simp add: sample_scopes_def)
  show "waits_for_runner (sample_scope ''early'' ''2026-08-22T02:00:00.000Z'')"
    using sample_queued by (simp add: waits_for_runner_def live_scope_def queue_inert_def sample_scope_def)
  show "\<forall>t \<in> set sample_scopes. \<not> holds_runner t \<and> \<not> (live_scope t \<and> busy t)"
    by (simp add: sample_scopes_def holds_runner_def sample_scope_def)
qed

text \<open>
  The queue can be missed by spelling. Scopes are filed under the key of the key of their
  project and looked up under its key, and the key is not stable under itself: an address with two
  trailing slashes loses one slash each time, so its verdict is the free one although the fold
  over its scopes holds it back.
\<close>

theorem queue_key_not_stable:
  defines "proj \<equiv> ''claude://default/repo//''"
  defines "scopes \<equiv> [(sample_scope ''holder'' ''2026'')\<lparr>scope_started := True, scope_project := proj\<rparr>,
      (sample_scope ''other'' ''2026'')\<lparr>scope_when := V_Str ''now'', scope_project := proj\<rparr>]"
  shows "map_option blocked (map_of (queue_verdicts plain_intl scopes 0) ''other'') = Some True
    \<and> blocked (plan_project_queues plain_intl plain_runtime scopes 0 proj ''other'') = False"
  unfolding scopes_def proj_def by code_simp

end
