(* ===== verification/EpicHeadroom.thy ===== *)
theory EpicHeadroom
  imports EpicWhen
begin

section \<open>Plan headroom\<close>

text \<open>
  \<open>src/broker/epic-headroom.ts\<close>: the flattening of usage snapshots, the merge of the same account
  seen by several sentinels, and the verdict that holds a run when every account it could use is
  at its five-hour gate. Used percentages are the rationals their doubles denote.
\<close>

record usage_window =
  used_percent :: rat
  reset_at :: string

record profile_usage_snapshot =
  snap_profile :: string
  five_hour :: "usage_window option"
  snap_error :: bool
  snap_stale :: "bool option"

record profile_headroom =
  profile :: string
  five_hour_used_percent :: rat
  ms_until_five_hour_reset :: int
  stale :: bool

record headroom_verdict =
  headroom_blocked :: bool
  headroom_reason :: string

definition GATE_FIVE_HOUR_PCT :: rat where
  "GATE_FIVE_HOUR_PCT = 75"

definition CLEAR :: headroom_verdict where
  "CLEAR = \<lparr>headroom_blocked = False, headroom_reason = []\<rparr>"

definition reading_of :: "int \<Rightarrow> profile_usage_snapshot \<Rightarrow> profile_headroom list" where
  "reading_of now snap =
     (case five_hour snap of
        None \<Rightarrow> []
      | Some w \<Rightarrow>
          [\<lparr>profile = snap_profile snap, five_hour_used_percent = used_percent w,
            ms_until_five_hour_reset = (case date_parse (reset_at w) of None \<Rightarrow> 0 | Some t \<Rightarrow> max 0 (t - now)),
            stale = (snap_stale snap = Some True \<or> snap_error snap)\<rparr>])"

definition readings_from :: "profile_usage_snapshot list \<Rightarrow> int \<Rightarrow> profile_headroom list" where
  "readings_from snaps now = concat (map (reading_of now) snaps)"

definition better :: "profile_headroom \<Rightarrow> profile_headroom \<Rightarrow> bool" where
  "better candidate seen =
     (if stale seen \<noteq> stale candidate then \<not> stale candidate
      else five_hour_used_percent candidate > five_hour_used_percent seen)"

definition merge_reading ::
    "(string \<times> profile_headroom) list \<Rightarrow> profile_headroom \<Rightarrow> (string \<times> profile_headroom) list" where
  "merge_reading m r =
     (case map_of m (profile r) of
        None \<Rightarrow> AList.update (profile r) r m
      | Some seen \<Rightarrow> if better r seen then AList.update (profile r) r m else m)"

definition merge_readings :: "profile_headroom list \<Rightarrow> profile_headroom list" where
  "merge_readings rs = map snd (foldl merge_reading [] rs)"

definition clamp_percent :: "rat \<Rightarrow> rat" where
  "clamp_percent p = max 0 (min 100 p)"

definition sooner :: "profile_headroom \<Rightarrow> profile_headroom \<Rightarrow> profile_headroom" where
  "sooner a b = (if ms_until_five_hour_reset b < ms_until_five_hour_reset a then b else a)"

text \<open>\<open>reduce\<close> on an empty array throws; the caller never passes one.\<close>

definition binding_reason :: "profile_headroom list \<Rightarrow> nat \<Rightarrow> string" where
  "binding_reason gated n =
     (let soonest = foldl sooner (hd gated) (tl gated);
          p = math_round (clamp_percent (five_hour_used_percent soonest))
      in ''no plan headroom: all '' @ nat_str n @ '' profile(s) are at or over the 75% 5h gate ''
         @ ''-- soonest is '' @ profile soonest @ '' at '' @ int_str p @ ''%, free in ''
         @ format_duration (ms_until_five_hour_reset soonest) True)"

definition headroom_verdict_of :: "profile_headroom list option \<Rightarrow> headroom_verdict" where
  "headroom_verdict_of readings =
     (if readings = None \<or> readings = Some [] then CLEAR
      else let fresh = filter (\<lambda>r. \<not> stale r) (the readings);
               gated = filter (\<lambda>r. clamp_percent (five_hour_used_percent r) \<ge> GATE_FIVE_HOUR_PCT) fresh
           in if fresh = [] then CLEAR
              else if length gated < length fresh then CLEAR
              else \<lparr>headroom_blocked = True, headroom_reason = binding_reason gated (length fresh)\<rparr>)"

subsection \<open>The merge\<close>

text \<open>The order of the merge: fresh beats stale, and among equals the fuller reading wins.\<close>

definition reading_rank :: "profile_headroom \<Rightarrow> nat \<times> rat" where
  "reading_rank r = (if stale r then 0 else 1, five_hour_used_percent r)"

lemma better_rank: "better a b \<longleftrightarrow>
    fst (reading_rank b) < fst (reading_rank a)
    \<or> fst (reading_rank a) = fst (reading_rank b) \<and> snd (reading_rank b) < snd (reading_rank a)"
  by (auto simp: better_def reading_rank_def)

lemma better_trans: "\<not> better a b \<Longrightarrow> \<not> better b c \<Longrightarrow> \<not> better a c"
  by (auto simp: better_rank)

lemma merge_reading_lookup:
  "map_of (merge_reading m r) k =
     (if k = profile r \<and> (map_of m k = None \<or> better r (the (map_of m k))) then Some r else map_of m k)"
  by (cases "map_of m (profile r)") (auto simp: merge_reading_def)

lemma merge_reading_keys:
  "distinct (map fst m) \<Longrightarrow> distinct (map fst (merge_reading m r))"
  "dom (map_of (merge_reading m r)) = insert (profile r) (dom (map_of m))"
  by (auto simp: merge_reading_def distinct_update split: option.split)

text \<open>What the merge has seen so far.\<close>

definition merged :: "profile_headroom list \<Rightarrow> (string \<times> profile_headroom) list \<Rightarrow> bool" where
  "merged rs m \<longleftrightarrow>
     distinct (map fst m) \<and> dom (map_of m) = profile ` set rs
     \<and> (\<forall>k v. map_of m k = Some v \<longrightarrow> profile v = k \<and> v \<in> set rs)
     \<and> (\<forall>r \<in> set rs. \<not> better r (the (map_of m (profile r))))"

lemma merged_step:
  assumes "merged rs m"
  shows "merged (rs @ [r]) (merge_reading m r)"
proof -
  from assms have m: "distinct (map fst m)" "dom (map_of m) = profile ` set rs"
    "\<And>k v. map_of m k = Some v \<Longrightarrow> profile v = k \<and> v \<in> set rs"
    "\<And>r. r \<in> set rs \<Longrightarrow> \<not> better r (the (map_of m (profile r)))"
    unfolding merged_def by blast+
  have "\<not> better x (the (map_of (merge_reading m r) (profile x)))" if x: "x \<in> set (rs @ [r])" for x
  proof (cases "x \<in> set rs")
    case True
    with m(2) obtain v where v: "map_of m (profile x) = Some v" by blast
    with m(4) [OF True] have nb: "\<not> better x v" by simp
    show ?thesis
    proof (cases "profile x = profile r \<and> better r v")
      case True
      then have "\<not> better x r" using nb by (auto simp: better_rank)
      with True v show ?thesis by (simp add: merge_reading_lookup)
    next
      case False
      with v nb show ?thesis by (auto simp: merge_reading_lookup)
    qed
  next
    case False
    with x have "x = r" by simp
    then show ?thesis by (simp add: merge_reading_lookup) (simp add: better_rank)
  qed
  moreover have "profile v = k \<and> v \<in> set (rs @ [r])" if "map_of (merge_reading m r) k = Some v" for k v
    using that m(3) [of k v] by (auto simp: merge_reading_lookup split: if_splits)
  ultimately show ?thesis
    unfolding merged_def merge_reading_keys(2) using merge_reading_keys(1) m(1,2) by auto
qed

lemma merged_fold: "merged rs (foldl merge_reading [] rs)"
  by (induction rs rule: rev_induct) (simp_all add: merged_step, simp add: merged_def)

text \<open>
  Merging the sentinels' readings leaves one row per account, a row that was reported, and
  never a row some reported one beats: a fresh reading beats a stale one, and among equally fresh
  ones the fuller wins, whatever the order of the reports.
\<close>

theorem merged_readings_pessimistic:
  "distinct (map profile (merge_readings rs)) \<and> set (map profile (merge_readings rs)) = profile ` set rs
    \<and> set (merge_readings rs) \<subseteq> set rs
    \<and> {(r, v). r \<in> set rs \<and> v \<in> set (merge_readings rs) \<and> profile r = profile v \<and> better r v} = {}"
proof -
  let ?m = "foldl merge_reading [] rs"
  have m: "distinct (map fst ?m)" "dom (map_of ?m) = profile ` set rs"
    "\<And>k v. map_of ?m k = Some v \<Longrightarrow> profile v = k \<and> v \<in> set rs"
    "\<And>r. r \<in> set rs \<Longrightarrow> \<not> better r (the (map_of ?m (profile r)))"
    using merged_fold [of rs] unfolding merged_def by blast+
  have entry: "map_of ?m (profile v) = Some v" if "v \<in> set (map snd ?m)" for v
  proof -
    from that obtain k where "(k, v) \<in> set ?m" by auto
    with m(1) have "map_of ?m k = Some v" by (rule map_of_is_SomeI)
    with m(3) show ?thesis by blast
  qed
  have "profile v = k" if "(k, v) \<in> set ?m" for k v
    using map_of_is_SomeI [OF m(1) that] m(3) by blast
  then have names: "map profile (map snd ?m) = map fst ?m" by (auto intro!: map_cong)
  have "set (map fst ?m) = profile ` set rs" by (metis dom_map_of_conv_image_fst list.set_map m(2))
  moreover have "set (map snd ?m) \<subseteq> set rs" using entry m(3) by blast
  moreover have "\<not> better r v" if "r \<in> set rs" "v \<in> set (map snd ?m)" "profile r = profile v" for r v
    using m(4) [OF that(1)] entry [OF that(2)] that(3) by simp
  ultimately show ?thesis unfolding merge_readings_def names using m(1) by blast
qed

text \<open>
  A run is held for headroom exactly when there is at least one fresh reading and every fresh
  reading is at or over the gate: no evidence, or only stale evidence, never holds a run.
\<close>

theorem headroom_blocks_iff:
  "headroom_blocked (headroom_verdict_of readings) \<longleftrightarrow>
     (\<exists>rs. readings = Some rs \<and> {r \<in> set rs. \<not> stale r} \<noteq> {}
       \<and> {r \<in> set rs. \<not> stale r \<and> five_hour_used_percent r < 75} = {})"
proof (cases readings)
  case (Some rs)
  let ?fresh = "filter (\<lambda>r. \<not> stale r) rs"
  let ?gate = "\<lambda>r. clamp_percent (five_hour_used_percent r) \<ge> GATE_FIVE_HOUR_PCT"
  have gate: "?gate r \<longleftrightarrow> \<not> five_hour_used_percent r < 75" for r
    by (auto simp: clamp_percent_def GATE_FIVE_HOUR_PCT_def)
  have short: "length (filter P xs) < length xs \<longleftrightarrow> (\<exists>x \<in> set xs. \<not> P x)" for P and xs :: "profile_headroom list"
    by (metis filter_True length_filter_less less_irrefl)
  have "headroom_blocked (headroom_verdict_of readings) \<longleftrightarrow>
      ?fresh \<noteq> [] \<and> (\<forall>r \<in> set ?fresh. \<not> five_hour_used_percent r < 75)"
    using Some by (auto simp: headroom_verdict_of_def CLEAR_def Let_def gate short simp del: filter_filter)
  also have "\<dots> \<longleftrightarrow> {r \<in> set rs. \<not> stale r} \<noteq> {} \<and> {r \<in> set rs. \<not> stale r \<and> five_hour_used_percent r < 75} = {}"
    unfolding set_empty [symmetric] set_filter by auto
  finally show ?thesis using Some by simp
qed (simp add: headroom_verdict_of_def CLEAR_def)

end
