(* ===== verification/EpicBeat.thy ===== *)
theory EpicBeat
  imports EpicQueue EpicHeadroom EpicLease
begin

section \<open>One beat of an epic run\<close>

text \<open>
  \<open>src/broker/epic-beat.ts\<close>: the pure decision from what is known of a run to the actions to take,
  the line to log and the scalars to write. The definitions follow the file from its gates to
  \<open>planBeat\<close>; the lemmas then give the order of precedence, and the properties say what no beat
  ever does.
\<close>

datatype epic_wake_reason = Started | Card_Settled | Verdict | Steering | Resumed | Unmerged_Work | Werk_Master_Lost

datatype epic_action =
    Wake_Werk_Master int epic_wake_reason
  | Dispatch string "string list"
  | Verify string
  | Park string
  | Complete_Run
  | Plan string
  | Plan_Accept
  | Plan_Checkpoint string string
  | Friction string nat string

record epic_beat_input =
  beat_run :: epic_run_reading
  beat_gen :: int
  beat_plan :: epic_plan
  beat_in_flight :: "string list"
  werk_master_is_alive :: bool
  lease_taken_at :: "string option"
  werk_master_lost :: "bool option"
  unacknowledged :: "string list"
  window_open :: bool
  queue :: "queue_verdict option"
  headroom :: "headroom_verdict option"
  forced :: "bool option"
  board_fingerprint :: string
  folded_usd :: rat
  beat_now :: int

record epic_beat_patch =
  patch_dry_gens :: "int option"
  patch_spent_usd :: "rat option"
  patch_started_at :: "string option"
  patch_unlanded_woken :: "string option"

definition empty_patch :: epic_beat_patch where
  "empty_patch = \<lparr>patch_dry_gens = None, patch_spent_usd = None, patch_started_at = None, patch_unlanded_woken = None\<rparr>"

record epic_beat =
  actions :: "epic_action list"
  beat_note :: string
  patch :: "epic_beat_patch option"

definition beat :: "string \<Rightarrow> epic_action list \<Rightarrow> epic_beat" where
  "beat n acts = \<lparr>actions = acts, beat_note = n, patch = None\<rparr>"

definition beat_with :: "string \<Rightarrow> epic_action list \<Rightarrow> epic_beat_patch \<Rightarrow> epic_beat" where
  "beat_with n acts p = \<lparr>actions = acts, beat_note = n, patch = Some p\<rparr>"

subsection \<open>The \<open>when\<close> gates\<close>

record gate_answer =
  answer_reason :: "string option"
  answer_overrode :: "string option"

definition no_answer :: gate_answer where
  "no_answer = \<lparr>answer_reason = None, answer_overrode = None\<rparr>"

definition holding :: "string \<Rightarrow> gate_answer" where
  "holding r = \<lparr>answer_reason = Some r, answer_overrode = None\<rparr>"

definition overriding :: "string \<Rightarrow> gate_answer" where
  "overriding r = \<lparr>answer_reason = None, answer_overrode = Some (r @ '' -- OVERRIDDEN by an explicit beat'')\<rparr>"

definition window_gate :: "epic_beat_input \<Rightarrow> gate_answer" where
  "window_gate inp =
     (if gated_by (cadence (beat_run inp)) ''window'' \<and> \<not> window_open inp
      then holding ''when=window and the window is closed'' else no_answer)"

definition queue_gate :: "epic_beat_input \<Rightarrow> gate_answer" where
  "queue_gate inp =
     (case queue inp of
        None \<Rightarrow> no_answer
      | Some v \<Rightarrow>
          if \<not> blocked v then no_answer
          else holding (case queue_reason v of None \<Rightarrow> ''when=queue and another epic holds the runner'' | Some r \<Rightarrow> r))"

definition headroom_gate :: "epic_beat_input \<Rightarrow> gate_answer" where
  "headroom_gate inp =
     (case headroom inp of
        None \<Rightarrow> no_answer
      | Some v \<Rightarrow>
          if \<not> headroom_blocked v then no_answer
          else if forced inp = Some True then overriding (headroom_reason v) else holding (headroom_reason v))"

definition appointment_gate :: "intl \<Rightarrow> epic_beat_input \<Rightarrow> gate_answer" where
  "appointment_gate i inp =
     (case when_waiting_line i (cadence (beat_run inp)) (beat_now inp) of
        None \<Rightarrow> no_answer
      | Some w \<Rightarrow> if forced inp = Some True then overriding w else holding w)"

record when_gate_answer =
  allowed :: bool
  gate_reason :: string
  gate_overrode :: "string option"

text \<open>\<open>g.reason ? [g.reason] : []\<close>\<close>

definition truthy_list :: "string option \<Rightarrow> string list" where
  "truthy_list s = (if truthy s then [the s] else [])"

definition when_gate :: "intl \<Rightarrow> epic_beat_input \<Rightarrow> when_gate_answer" where
  "when_gate i inp =
     (let gates = [window_gate inp, queue_gate inp, appointment_gate i inp, headroom_gate inp];
          reasons = concat (map (\<lambda>g. truthy_list (answer_reason g)) gates);
          overrides = concat (map (\<lambda>g. truthy_list (answer_overrode g)) gates)
      in \<lparr>allowed = (reasons = []), gate_reason = join ''; '' reasons,
          gate_overrode = (if overrides \<noteq> [] then Some (join ''; '' overrides) else None)\<rparr>)"

subsection \<open>Inert runs and the planning generation\<close>

definition is_inert_run :: "epic_run_status \<Rightarrow> bool" where
  "is_inert_run s \<longleftrightarrow> s \<in> {Paused, Complete, Aborted}"

definition planning_beat :: "'a epic_run_scheme \<Rightarrow> string \<Rightarrow> epic_beat option" where
  "planning_beat run fingerprint =
     (if \<not> run_plan run \<or> planned run then None
      else if \<not> truthy (plan_baseline run)
      then Some (beat ''generation 0: analysing the board before anything dispatches'' [Plan fingerprint])
      else if the (plan_baseline run) \<noteq> fingerprint
      then Some (beat ''the planning generation rewrote the board; checkpointing before any work goes out''
             [Plan_Checkpoint (the (plan_baseline run)) fingerprint])
      else Some (beat ''the planning generation left the board unchanged; proceeding to the first beat'' [Plan_Accept]))"

subsection \<open>The ceilings\<close>

definition spent_so_far :: "epic_beat_input \<Rightarrow> rat" where
  "spent_so_far inp = max (spent_usd (beat_run inp)) (folded_usd inp)"

definition cap_beat :: "epic_beat_input \<Rightarrow> epic_beat option" where
  "cap_beat inp =
     (let run = beat_run inp; spent = spent_so_far inp; minutes = elapsed_run_minutes (started_at run) (beat_now inp)
      in if max_usd run > 0 \<and> spent \<ge> max_usd run
         then Some (beat (''spend ceiling reached ('' @ format_usd spent @ ''/'' @ format_usd (max_usd run) @ '')'')
           [Park (''hit the spend ceiling: '' @ format_usd spent @ '' of '' @ format_usd (max_usd run)
              @ '' across every conversation this run spawned. A generation is a unit of planning, not of spend -- raise `maxUsd` and start the run again if this epic genuinely warrants more.'')])
         else if max_wall_clock_minutes run > 0
           \<and> (case minutes of None \<Rightarrow> False | Some n \<Rightarrow> n \<ge> max_wall_clock_minutes run)
         then Some (beat (''wall clock ceiling reached ('' @ int_str (the minutes) @ ''/''
               @ int_str (max_wall_clock_minutes run) @ '' min)'')
           [Park (''hit the wall-clock ceiling of '' @ int_str (max_wall_clock_minutes run)
              @ '' minute(s): the run has been dispatching for '' @ int_str (the minutes)
              @ ''. It has outlived the stretch it was armed for -- read the digest before resuming.'')])
         else if beat_gen inp \<ge> max_gens run
         then Some (beat (''generation ceiling reached ('' @ int_str (beat_gen inp) @ ''/'' @ int_str (max_gens run) @ '')'')
           [Park (''hit the generation ceiling of '' @ int_str (max_gens run) @ '' -- the run is thrashing, not working'')])
         else None)"

subsection \<open>The supervisor's grip\<close>

definition lease_held_ms :: "epic_beat_input \<Rightarrow> int option" where
  "lease_held_ms inp =
     (if \<not> truthy (lease_taken_at inp) then None
      else case date_parse (the (lease_taken_at inp)) of
        None \<Rightarrow> None | Some taken \<Rightarrow> Some (max 0 (beat_now inp - taken)))"

record werk_master_verdict =
  hold :: "epic_beat option"
  aged :: "string option"

definition werk_master_gate :: "epic_beat_input \<Rightarrow> werk_master_verdict" where
  "werk_master_gate inp =
     (if \<not> werk_master_is_alive inp then \<lparr>hold = None, aged = None\<rparr>
      else
        let held = lease_held_ms inp;
            age = (case held of None \<Rightarrow> ''lease age unknown''
              | Some ms \<Rightarrow> ''lease taken '' @ format_duration ms True @ '' ago'')
        in if held = None \<or> the held \<le> LEASE_STALE_MS
           then \<lparr>hold = Some (beat (''werk-master alive at gen '' @ int_str (beat_gen inp) @ '' and WORKING ('' @ age
                   @ ''); holding the beat'') []), aged = None\<rparr>
           else \<lparr>hold = None, aged = Some (''werk-master alive at gen '' @ int_str (beat_gen inp)
                   @ '' but its lease is STALE ('' @ age @ '', TTL '' @ format_duration LEASE_STALE_MS True
                   @ '') -- NOT holding the beat'')\<rparr>)"

subsection \<open>Unlanded work\<close>

definition FRICTION_AT :: nat where
  "FRICTION_AT = 3"

definition HAND_MERGE :: string where
  "HAND_MERGE = ''werk-master merges a card branch by hand''"

definition hand_merge_friction :: "nat \<Rightarrow> epic_action" where
  "hand_merge_friction n =
     Friction HAND_MERGE n
       (''The engine has now had to send a werk-master to merge a card branch by hand '' @ nat_str n
        @ '' times in this run. The merge is mechanical and the engine already knows, every beat, exactly which branch and which card -- what is missing is a party allowed to perform it (the broker may not: the sentinel owns the filesystem and git). Automate the merge behind the sentinel, or make the werk-worker's own finish step land its branch, and this whole escalation path stops existing.'')"

definition unlanded_park :: "card_landing list \<Rightarrow> int \<Rightarrow> epic_beat" where
  "unlanded_park overdue g =
     beat (len_str overdue @ '' card(s) STILL unlanded at generation '' @ int_str g @ ''; parking'')
       [Park (''work is still not delivered after the werk-master ran for it: ''
          @ join ''; '' (map describe_landing overdue)
          @ ''. The seat whose job this is has had a whole generation with the branch name in front of it. Merge it by hand (or drop the branch and reopen the card), then re-arm the run -- re-arming clears the escalation ledger, so the werk-master gets a fresh ask rather than an immediate second park.'')]"

text \<open>The ledger holds naturals; a generation is never negative.\<close>

definition unlanded_beat :: "epic_beat_input \<Rightarrow> epic_beat option" where
  "unlanded_beat inp =
     (let blocking = unlanded (beat_plan inp); g = beat_gen inp;
          woken = parse_escalations (Some (unlanded_woken (beat_run inp)));
          overdue = filter (\<lambda>l. case map_of woken (landing_card_id l) of None \<Rightarrow> False | Some at_gen \<Rightarrow> int at_gen < g) blocking;
          fresh = filter (\<lambda>l. map_of woken (landing_card_id l) = None) blocking;
          ledger = foldl (\<lambda>m l. AList.update (landing_card_id l) (nat g) m) woken fresh
      in if blocking = [] then None
         else if overdue \<noteq> [] then Some (unlanded_park overdue g)
         else if fresh = [] then None
         else Some (beat_with
           (len_str fresh @ '' card(s) done on the board but NOT on main: '' @ join ''; '' (map describe_landing fresh)
            @ ''; waking the werk-master to integrate (generation '' @ int_str g @ '')'')
           (Wake_Werk_Master g Unmerged_Work #
             (if length woken < FRICTION_AT \<and> FRICTION_AT \<le> length ledger then [hand_merge_friction (length ledger)] else []))
           (empty_patch\<lparr>patch_unlanded_woken := Some (format_escalations ledger)\<rparr>)))"

subsection \<open>Reasons not to move work\<close>

definition guard_beat :: "epic_beat_input \<Rightarrow> epic_beat option" where
  "guard_beat inp =
     (case planning_beat (beat_run inp) (board_fingerprint inp) of
        Some b \<Rightarrow> Some b
      | None \<Rightarrow>
          if werk_master_lost inp = Some True
          then Some (beat (''werk-master seat REAPED at gen '' @ int_str (beat_gen inp) @ ''; waking a replacement''
              @ (if unacknowledged inp \<noteq> [] then ''; '' @ len_str (unacknowledged inp) @ '' unacknowledged settle(s)'' else []))
              [Wake_Werk_Master (beat_gen inp) Werk_Master_Lost])
          else if unacknowledged inp \<noteq> []
          then Some (beat (len_str (unacknowledged inp) @ '' unacknowledged settle(s): '' @ comma (unacknowledged inp))
              [Wake_Werk_Master (beat_gen inp) Card_Settled])
          else case unlanded_beat inp of
            Some b \<Rightarrow> Some b
          | None \<Rightarrow>
              if questions (beat_plan inp) \<noteq> []
              then Some (beat (len_str (questions (beat_plan inp)) @ '' open question(s) for the werk-master'')
                  [Wake_Werk_Master (beat_gen inp) Started])
              else None)"

subsection \<open>Moving work\<close>

definition idle_or :: "string \<Rightarrow> epic_plan \<Rightarrow> string" where
  "idle_or fallback p = (case idle_reason p of None \<Rightarrow> fallback | Some r \<Rightarrow> r)"

definition moved_beat :: "epic_beat_input \<Rightarrow> epic_action list \<Rightarrow> epic_beat" where
  "moved_beat inp verifying =
     (let p = beat_plan inp; run = beat_run inp;
          acts = verifying @ map (\<lambda>c. Dispatch (slug c) (deps c)) (dispatch p)
      in if acts \<noteq> [] then
           beat_with (''dispatching '' @ len_str (dispatch p) @ '', verifying '' @ len_str (verify p)
             @ (if held_back p \<noteq> [] then '' ('' @ len_str (held_back p) @ '' held back by the concurrency ceiling, held by: ''
                  @ comma (beat_in_flight inp) @ '')'' else []))
             acts (empty_patch\<lparr>patch_dry_gens := Some 0\<rparr>)
         else if plan_complete p then beat ''every child terminal'' [Complete_Run]
         else if beat_in_flight inp \<noteq> []
         then beat (len_str (beat_in_flight inp) @ '' still in flight; waiting: '' @ comma (beat_in_flight inp)) []
         else if dry_gens run \<ge> 1
         then beat (''second consecutive dry generation: '' @ idle_or ''nothing dispatchable'' p)
                [Park (idle_or ''nothing dispatchable and replanning did not help'' p)]
         else beat_with (''nothing dispatchable ('' @ idle_or ''unknown'' p
                @ ''); waking the werk-master to replan (dry generation '' @ int_str (dry_gens run + 1) @ '')'')
                [Wake_Werk_Master (beat_gen inp) Started] (empty_patch\<lparr>patch_dry_gens := Some (dry_gens run + 1)\<rparr>))"

definition work_beat :: "intl \<Rightarrow> epic_beat_input \<Rightarrow> epic_beat" where
  "work_beat i inp =
     (let verifying = map (\<lambda>c. Verify (slug c)) (verify (beat_plan inp)); g = when_gate i inp
      in if \<not> allowed g
         then beat (gate_reason g @ ''; '' @ len_str (dispatch (beat_plan inp)) @ '' card(s) waiting'') verifying
         else let decided = moved_beat inp verifying
              in case gate_overrode g of
                   None \<Rightarrow> decided
                 | Some o' \<Rightarrow> if o' = [] then decided else decided\<lparr>beat_note := o' @ ''; '' @ beat_note decided\<rparr>)"

definition decide :: "intl \<Rightarrow> epic_beat_input \<Rightarrow> epic_beat" where
  "decide i inp =
     (case cap_beat inp of
        Some b \<Rightarrow> b
      | None \<Rightarrow>
          (case hold (werk_master_gate inp) of
             Some b \<Rightarrow> b
           | None \<Rightarrow>
               let decided = (case guard_beat inp of Some b \<Rightarrow> b | None \<Rightarrow> work_beat i inp)
               in case aged (werk_master_gate inp) of
                    None \<Rightarrow> decided
                  | Some a \<Rightarrow> decided\<lparr>beat_note := a @ ''; '' @ beat_note decided\<rparr>))"

subsection \<open>What is written down\<close>

definition ledger_writes :: "intl \<Rightarrow> epic_beat_input \<Rightarrow> epic_beat_patch" where
  "ledger_writes i inp =
     empty_patch\<lparr>patch_spent_usd := Some (spent_so_far inp),
       patch_started_at := (if truthy (started_at (beat_run inp)) \<or> \<not> allowed (when_gate i inp) then None
                            else Some (to_iso (beat_now inp)))\<rparr>"

text \<open>\<open>{ ...a, ...b }\<close>\<close>

definition overlay :: "'a option \<Rightarrow> 'a option \<Rightarrow> 'a option" where
  "overlay a b = (case b of None \<Rightarrow> a | Some x \<Rightarrow> Some x)"

definition merge_patch :: "epic_beat_patch \<Rightarrow> epic_beat_patch option \<Rightarrow> epic_beat_patch" where
  "merge_patch a b' =
     (case b' of
        None \<Rightarrow> a
      | Some b \<Rightarrow>
          \<lparr>patch_dry_gens = overlay (patch_dry_gens a) (patch_dry_gens b),
           patch_spent_usd = overlay (patch_spent_usd a) (patch_spent_usd b),
           patch_started_at = overlay (patch_started_at a) (patch_started_at b),
           patch_unlanded_woken = overlay (patch_unlanded_woken a) (patch_unlanded_woken b)\<rparr>)"

definition news :: "'a option \<Rightarrow> 'a option \<Rightarrow> 'a option" where
  "news wanted have = (if wanted \<noteq> None \<and> wanted \<noteq> have then wanted else None)"

definition pruned :: "epic_beat_patch \<Rightarrow> 'a epic_run_scheme \<Rightarrow> epic_beat_patch option" where
  "pruned p run =
     (let out = \<lparr>patch_dry_gens = news (patch_dry_gens p) (Some (dry_gens run)),
                 patch_spent_usd = news (patch_spent_usd p) (Some (spent_usd run)),
                 patch_started_at = news (patch_started_at p) (started_at run),
                 patch_unlanded_woken = news (patch_unlanded_woken p) (Some (unlanded_woken run))\<rparr>
      in if out = empty_patch then None else Some out)"

definition plan_beat :: "intl \<Rightarrow> epic_beat_input \<Rightarrow> epic_beat" where
  "plan_beat i inp =
     (if is_inert_run (run_status (beat_run inp))
      then beat (''run is '' @ status_name (run_status (beat_run inp)) @ ''; nothing to do'') []
      else let decided = decide i inp
           in decided\<lparr>patch := pruned (merge_patch (ledger_writes i inp) (patch decided)) (beat_run inp)\<rparr>)"

end
