(* ===== verification/EpicBeatSafety.thy ===== *)
theory EpicBeatSafety
  imports EpicBeat
begin

section \<open>What a beat does and never does\<close>

text \<open>
  Properties of \<open>planBeat\<close> (\<open>src/broker/epic-beat.ts\<close>, theory \<open>EpicBeat\<close>). The conditions a beat
  checks on its way down are first restated as predicates of the input alone, without the order in
  which the code asks for them; the actions are then characterised over those predicates.
\<close>

subsection \<open>Reading a list of actions\<close>

definition dispatched :: "epic_action list \<Rightarrow> (string \<times> string list) list" where
  "dispatched acts = concat (map (\<lambda>a. case a of Dispatch s d \<Rightarrow> [(s, d)] | _ \<Rightarrow> []) acts)"

definition verified :: "epic_action list \<Rightarrow> string list" where
  "verified acts = concat (map (\<lambda>a. case a of Verify s \<Rightarrow> [s] | _ \<Rightarrow> []) acts)"

lemma dispatched_simps [simp]:
  "dispatched [] = []" "dispatched (Dispatch s d # as) = (s, d) # dispatched as"
  "dispatched (Verify s # as) = dispatched as" "dispatched (Park r # as) = dispatched as"
  "dispatched (Wake_Werk_Master g w # as) = dispatched as" "dispatched (Complete_Run # as) = dispatched as"
  "dispatched (Plan f # as) = dispatched as" "dispatched (Plan_Accept # as) = dispatched as"
  "dispatched (Plan_Checkpoint f f' # as) = dispatched as" "dispatched (Friction r n t # as) = dispatched as"
  "dispatched (as @ bs) = dispatched as @ dispatched bs"
  "dispatched (map (\<lambda>c. Verify (h c)) xs) = []"
  "dispatched (map (\<lambda>c. Dispatch (h c) (k c)) ys) = map (\<lambda>c. (h c, k c)) ys"
proof -
  show "dispatched (map (\<lambda>c. Verify (h c)) xs) = []" by (induction xs) (simp_all add: dispatched_def)
  show "dispatched (map (\<lambda>c. Dispatch (h c) (k c)) ys) = map (\<lambda>c. (h c, k c)) ys"
    by (induction ys) (simp_all add: dispatched_def)
qed (simp_all add: dispatched_def)

lemma verified_simps [simp]:
  "verified [] = []" "verified (Verify s # as) = s # verified as"
  "verified (Dispatch s d # as) = verified as" "verified (Park r # as) = verified as"
  "verified (Wake_Werk_Master g w # as) = verified as" "verified (Complete_Run # as) = verified as"
  "verified (Plan f # as) = verified as" "verified (Plan_Accept # as) = verified as"
  "verified (Plan_Checkpoint f f' # as) = verified as" "verified (Friction r n t # as) = verified as"
  "verified (as @ bs) = verified as @ verified bs"
  "verified (map (\<lambda>c. Verify (h c)) xs) = map h xs"
  "verified (map (\<lambda>c. Dispatch (h c) (k c)) ys) = []"
proof -
  show "verified (map (\<lambda>c. Verify (h c)) xs) = map h xs" by (induction xs) (simp_all add: verified_def)
  show "verified (map (\<lambda>c. Dispatch (h c) (k c)) ys) = []" by (induction ys) (simp_all add: verified_def)
qed (simp_all add: verified_def)

subsection \<open>The conditions\<close>

definition over_ceiling :: "epic_beat_input \<Rightarrow> bool" where
  "over_ceiling inp \<longleftrightarrow>
     0 < max_usd (beat_run inp) \<and> max_usd (beat_run inp) \<le> max (spent_usd (beat_run inp)) (folded_usd inp)
     \<or> 0 < max_wall_clock_minutes (beat_run inp)
       \<and> (case elapsed_run_minutes (started_at (beat_run inp)) (beat_now inp) of
            None \<Rightarrow> False | Some n \<Rightarrow> max_wall_clock_minutes (beat_run inp) \<le> n)
     \<or> max_gens (beat_run inp) \<le> beat_gen inp"

text \<open>A live supervisor whose grip is not known to be older than ten minutes.\<close>

definition supervised :: "epic_beat_input \<Rightarrow> bool" where
  "supervised inp \<longleftrightarrow>
     werk_master_is_alive inp \<and> (case lease_held_ms inp of None \<Rightarrow> True | Some ms \<Rightarrow> ms \<le> 600000)"

definition asked_at :: "epic_beat_input \<Rightarrow> string \<Rightarrow> nat option" where
  "asked_at inp = map_of (parse_escalations (Some (unlanded_woken (beat_run inp))))"

text \<open>Nothing but work is owed: the plan is settled, nobody died, and nothing waits for the supervisor.\<close>

definition only_work_owed :: "epic_beat_input \<Rightarrow> bool" where
  "only_work_owed inp \<longleftrightarrow>
     (run_plan (beat_run inp) \<longrightarrow> planned (beat_run inp))
     \<and> werk_master_lost inp \<noteq> Some True \<and> unacknowledged inp = []
     \<and> (\<forall>l \<in> set (unlanded (beat_plan inp)).
          case asked_at inp (landing_card_id l) of None \<Rightarrow> False | Some n \<Rightarrow> beat_gen inp \<le> int n)
     \<and> questions (beat_plan inp) = []"

definition may_work :: "epic_beat_input \<Rightarrow> bool" where
  "may_work inp \<longleftrightarrow>
     run_status (beat_run inp) \<in> {Armed, Running} \<and> \<not> over_ceiling inp \<and> \<not> supervised inp \<and> only_work_owed inp"

definition gates_open :: "epic_beat_input \<Rightarrow> bool" where
  "gates_open inp \<longleftrightarrow>
     (gated_by (cadence (beat_run inp)) ''window'' \<longrightarrow> window_open inp)
     \<and> (case queue inp of None \<Rightarrow> True | Some v \<Rightarrow> \<not> blocked v)
     \<and> (forced inp = Some True
        \<or> when_instant_passed (cadence (beat_run inp)) (beat_now inp)
          \<and> (case headroom inp of None \<Rightarrow> True | Some v \<Rightarrow> \<not> headroom_blocked v))"

text \<open>A verdict that blocks says why.\<close>

definition verdicts_say_why :: "epic_beat_input \<Rightarrow> bool" where
  "verdicts_say_why inp \<longleftrightarrow>
     (case queue inp of None \<Rightarrow> True | Some v \<Rightarrow> blocked v \<longrightarrow> queue_reason v \<noteq> Some [])
     \<and> (case headroom inp of None \<Rightarrow> True | Some v \<Rightarrow> headroom_blocked v \<longrightarrow> headroom_reason v \<noteq> [])"

lemma headroom_says_why:
  "headroom_blocked (headroom_verdict_of rs) \<Longrightarrow> headroom_reason (headroom_verdict_of rs) \<noteq> []"
  by (auto simp: headroom_verdict_of_def CLEAR_def Let_def binding_reason_def split: if_splits)

subsection \<open>Each gate decides its condition\<close>

lemma cap_beat_iff: "cap_beat inp = None \<longleftrightarrow> \<not> over_ceiling inp"
  by (auto simp: cap_beat_def over_ceiling_def spent_so_far_def Let_def split: option.splits)

lemma cap_beat_parks:
  assumes "cap_beat inp = Some b"
  shows "\<exists>r. actions b = [Park r]" "patch b = None"
  using assms by (auto simp: cap_beat_def Let_def beat_def split: if_splits)

lemma werk_master_gate_iff: "hold (werk_master_gate inp) = None \<longleftrightarrow> \<not> supervised inp"
  by (auto simp: werk_master_gate_def supervised_def Let_def LEASE_STALE_MS_def split: option.splits)

lemma werk_master_gate_hold:
  "hold (werk_master_gate inp) = Some b \<Longrightarrow> actions b = [] \<and> patch b = None"
  by (auto simp: werk_master_gate_def Let_def beat_def split: if_splits)

lemma planning_beat_iff: "planning_beat run f = None \<longleftrightarrow> (run_plan run \<longrightarrow> planned run)"
  by (auto simp: planning_beat_def)

lemma unlanded_beat_iff:
  "unlanded_beat inp = None \<longleftrightarrow>
     (\<forall>l \<in> set (unlanded (beat_plan inp)).
        case asked_at inp (landing_card_id l) of None \<Rightarrow> False | Some n \<Rightarrow> beat_gen inp \<le> int n)"
proof -
  let ?ls = "unlanded (beat_plan inp)"
  let ?overdue = "\<lambda>l :: card_landing. case asked_at inp (landing_card_id l) of None \<Rightarrow> False | Some n \<Rightarrow> int n < beat_gen inp"
  let ?fresh = "\<lambda>l :: card_landing. asked_at inp (landing_card_id l) = None"
  have "unlanded_beat inp = None \<longleftrightarrow> (\<forall>l \<in> set ?ls. \<not> ?overdue l \<and> \<not> ?fresh l)"
    unfolding unlanded_beat_def asked_at_def Let_def
    by (cases "?ls = []") (simp_all add: filter_empty_conv ball_conj_distrib)
  moreover have "\<not> ?overdue l \<and> \<not> ?fresh l
      \<longleftrightarrow> (case asked_at inp (landing_card_id l) of None \<Rightarrow> False | Some n \<Rightarrow> beat_gen inp \<le> int n)" for l :: card_landing
    by (auto split: option.split)
  ultimately show ?thesis by (simp only:)
qed

lemma guard_beat_iff: "guard_beat inp = None \<longleftrightarrow> only_work_owed inp"
  unfolding guard_beat_def only_work_owed_def unlanded_beat_iff [symmetric] planning_beat_iff [where f = "board_fingerprint inp", symmetric]
  by (simp split: option.split)

lemma when_waiting_line_iff: "when_waiting_line i gates now = None \<longleftrightarrow> when_instant_passed gates now"
  by (auto simp: when_waiting_line_def when_instant_passed_def split: option.splits)

lemma when_waiting_line_says: "when_waiting_line i gates now \<noteq> Some []"
  by (auto simp: when_waiting_line_def split: option.splits)

lemma truthy_list_simps [simp]:
  "truthy_list None = []" "truthy_list (Some []) = []" "s \<noteq> [] \<Longrightarrow> truthy_list (Some s) = [s]"
  by (simp_all add: truthy_list_def truthy_def)

lemma truthy_list_Nil [simp]: "truthy_list t = [] \<longleftrightarrow> t = None \<or> t = Some []"
  by (cases t) (auto simp: truthy_list_def truthy_def)

lemma when_gate_iff:
  assumes "verdicts_say_why inp"
  shows "allowed (when_gate i inp) \<longleftrightarrow> gates_open inp"
proof -
  have "truthy_list (answer_reason (window_gate inp)) = []
    \<longleftrightarrow> (gated_by (cadence (beat_run inp)) ''window'' \<longrightarrow> window_open inp)"
    by (simp add: window_gate_def no_answer_def holding_def)
  moreover have "truthy_list (answer_reason (queue_gate inp)) = []
    \<longleftrightarrow> (case queue inp of None \<Rightarrow> True | Some v \<Rightarrow> \<not> blocked v)"
    using assms by (auto simp: verdicts_say_why_def queue_gate_def no_answer_def holding_def split: option.splits)
  moreover have "truthy_list (answer_reason (appointment_gate i inp)) = []
    \<longleftrightarrow> forced inp = Some True \<or> when_instant_passed (cadence (beat_run inp)) (beat_now inp)"
    unfolding when_waiting_line_iff [where i = i, symmetric]
    using when_waiting_line_says [of i "cadence (beat_run inp)" "beat_now inp"]
    by (auto simp: appointment_gate_def no_answer_def holding_def overriding_def split: option.splits)
  moreover have "truthy_list (answer_reason (headroom_gate inp)) = []
    \<longleftrightarrow> forced inp = Some True \<or> (case headroom inp of None \<Rightarrow> True | Some v \<Rightarrow> \<not> headroom_blocked v)"
    using assms
    by (auto simp: verdicts_say_why_def headroom_gate_def no_answer_def holding_def overriding_def split: option.splits)
  ultimately show ?thesis by (simp add: when_gate_def gates_open_def Let_def) blast
qed

subsection \<open>The shape of a beat\<close>

definition is_friction :: "epic_action \<Rightarrow> bool" where
  "is_friction a = (case a of Friction _ _ _ \<Rightarrow> True | _ \<Rightarrow> False)"

definition is_work :: "epic_action \<Rightarrow> bool" where
  "is_work a = (case a of Dispatch _ _ \<Rightarrow> True | Verify _ \<Rightarrow> True | _ \<Rightarrow> False)"

text \<open>
  A beat is for one thing: a wake of the supervisor at its generation (with at most one friction
  entry), a single park, completion or planning step, or work going out.
\<close>

fun one_purpose :: "int \<Rightarrow> epic_action list \<Rightarrow> bool" where
  "one_purpose g [] = True"
| "one_purpose g (Wake_Werk_Master g' r # as) = (g' = g \<and> list_all is_friction as \<and> length as \<le> 1)"
| "one_purpose g (Dispatch s d # as) = list_all is_work as"
| "one_purpose g (Verify s # as) = list_all is_work as"
| "one_purpose g (Friction r n t # as) = False"
| "one_purpose g (a # as) = (as = [])"

lemma list_all_is_work [simp]:
  "list_all is_work (map (\<lambda>c. Verify (h c)) xs)" "list_all is_work (map (\<lambda>c. Dispatch (h c) (k c)) ys)"
  by (simp_all add: list_all_iff is_work_def)

lemma one_purpose_work: "list_all is_work as \<Longrightarrow> one_purpose g as"
  by (cases "(g, as)" rule: one_purpose.cases) (simp_all add: is_work_def)

text \<open>An action list that moves no work.\<close>

definition no_work :: "epic_action list \<Rightarrow> bool" where
  "no_work as \<longleftrightarrow> dispatched as = [] \<and> verified as = []"

lemma planning_beat_shape:
  "planning_beat run f = Some b \<Longrightarrow> one_purpose g (actions b) \<and> no_work (actions b) \<and> patch b = None"
  by (auto simp: planning_beat_def beat_def no_work_def split: if_splits)

lemma unlanded_beat_shape:
  assumes "unlanded_beat inp = Some b"
  shows "one_purpose (beat_gen inp) (actions b) \<and> no_work (actions b)"
  using assms unfolding unlanded_beat_def Let_def
  by (auto simp: unlanded_park_def beat_def beat_with_def no_work_def hand_merge_friction_def is_friction_def
      split: if_split_asm)

lemma guard_beat_shape:
  assumes "guard_beat inp = Some b"
  shows "one_purpose (beat_gen inp) (actions b) \<and> no_work (actions b)"
  using assms unlanded_beat_shape [of inp b] planning_beat_shape [of "beat_run inp" "board_fingerprint inp" b "beat_gen inp"]
  by (auto simp: guard_beat_def beat_def no_work_def split: option.splits if_split_asm)

lemma moved_beat_actions:
  "actions (moved_beat inp (map (\<lambda>c. Verify (h c)) xs)) =
     (let acts = map (\<lambda>c. Verify (h c)) xs @ map (\<lambda>c. Dispatch (slug c) (deps c)) (dispatch (beat_plan inp))
      in if acts \<noteq> [] then acts
         else if plan_complete (beat_plan inp) then [Complete_Run]
         else if beat_in_flight inp \<noteq> [] then []
         else if dry_gens (beat_run inp) \<ge> 1
         then [Park (idle_or ''nothing dispatchable and replanning did not help'' (beat_plan inp))]
         else [Wake_Werk_Master (beat_gen inp) Started])"
  by (simp add: moved_beat_def Let_def beat_def beat_with_def)

lemma moved_beat_shape:
  fixes inp :: epic_beat_input
  defines "vs \<equiv> map (\<lambda>c. Verify (slug c)) (verify (beat_plan inp))"
  shows "one_purpose (beat_gen inp) (actions (moved_beat inp vs))"
    and "dispatched (actions (moved_beat inp vs)) = map (\<lambda>c. (slug c, deps c)) (dispatch (beat_plan inp))"
    and "verified (actions (moved_beat inp vs)) = map slug (verify (beat_plan inp))"
  unfolding vs_def moved_beat_actions Let_def by (auto intro: one_purpose_work)

lemma work_beat_actions:
  "actions (work_beat i inp) =
     (if allowed (when_gate i inp) then actions (moved_beat inp (map (\<lambda>c. Verify (slug c)) (verify (beat_plan inp))))
      else map (\<lambda>c. Verify (slug c)) (verify (beat_plan inp)))"
  by (simp add: work_beat_def Let_def beat_def split: option.split)

lemma plan_beat_actions:
  "actions (plan_beat i inp) =
     (if is_inert_run (run_status (beat_run inp)) then []
      else case cap_beat inp of
        Some b \<Rightarrow> actions b
      | None \<Rightarrow> if supervised inp then []
          else case guard_beat inp of Some b \<Rightarrow> actions b | None \<Rightarrow> actions (work_beat i inp))"
proof -
  have "hold (werk_master_gate inp) \<noteq> None \<longleftrightarrow> supervised inp" by (simp add: werk_master_gate_iff)
  then show ?thesis
    by (auto simp: plan_beat_def decide_def Let_def beat_def werk_master_gate_hold split: option.splits)
qed

lemma is_inert_run_iff: "is_inert_run s \<longleftrightarrow> s \<notin> {Armed, Running}"
  by (cases s) (simp_all add: is_inert_run_def)

text \<open>
  C4: work goes out exactly when it may. Whatever the input, the cards a beat dispatches are the
  cards of the plan's dispatch lane, in order and with their dependencies, when the run is armed or
  running, no ceiling is reached, no live supervisor holds a fresh grip, the plan is settled, nothing
  is owed to the supervisor and every gate of the \<open>when\<close> axis is open; otherwise none. A forced
  beat only replaces the appointment and the headroom gate.
\<close>

theorem beat_dispatches_iff_permitted:
  assumes "verdicts_say_why inp"
  shows "dispatched (actions (plan_beat i inp)) =
    (if may_work inp \<and> gates_open inp then map (\<lambda>c. (slug c, deps c)) (dispatch (beat_plan inp)) else [])"
proof -
  have "dispatched (actions b) = []" if "cap_beat inp = Some b" for b
    using cap_beat_parks [OF that] by auto
  moreover have "dispatched (actions b) = []" if "guard_beat inp = Some b" for b
    using guard_beat_shape [OF that] by (simp add: no_work_def)
  moreover have "cap_beat inp = None \<longleftrightarrow> \<not> over_ceiling inp" by (rule cap_beat_iff)
  moreover have "guard_beat inp = None \<longleftrightarrow> only_work_owed inp" by (rule guard_beat_iff)
  ultimately show ?thesis
    unfolding plan_beat_actions may_work_def is_inert_run_iff
    by (auto simp: work_beat_actions when_gate_iff [OF assms] moved_beat_shape(2) split: option.split)
qed

text \<open>
  The \<open>when\<close> axis never holds a verification: the cards a beat verifies are the plan's verify
  lane whenever work may move at all, whatever the window, the queue, the appointment and the
  headroom say.
\<close>

theorem verification_is_never_gated:
  "verified (actions (plan_beat i inp)) = (if may_work inp then map slug (verify (beat_plan inp)) else [])"
proof -
  have "verified (actions b) = []" if "cap_beat inp = Some b" for b
    using cap_beat_parks [OF that] by auto
  moreover have "verified (actions b) = []" if "guard_beat inp = Some b" for b
    using guard_beat_shape [OF that] by (simp add: no_work_def)
  moreover have "cap_beat inp = None \<longleftrightarrow> \<not> over_ceiling inp" by (rule cap_beat_iff)
  moreover have "guard_beat inp = None \<longleftrightarrow> only_work_owed inp" by (rule guard_beat_iff)
  ultimately show ?thesis
    unfolding plan_beat_actions may_work_def is_inert_run_iff
    by (auto simp: work_beat_actions moved_beat_shape(3) split: option.split)
qed

text \<open>
  A beat does one thing. Its actions are nothing, one wake quoting the generation of the lease
  (with at most one friction entry), one park, one completion, one planning step, or work alone; so
  no beat ever moves work and wakes a supervisor, and none wakes two.
\<close>

theorem beat_has_one_purpose:
  "one_purpose (beat_gen inp) (actions (plan_beat i inp))
    \<and> (if run_status (beat_run inp) \<notin> {Armed, Running} then actions (plan_beat i inp) = []
       else if over_ceiling inp then \<exists>r. actions (plan_beat i inp) = [Park r]
       else if supervised inp then actions (plan_beat i inp) = []
       else True)"
proof -
  have "\<exists>r. actions b = [Park r]" if "cap_beat inp = Some b" for b
    using cap_beat_parks [OF that] by auto
  then have cap: "one_purpose g (actions b) \<and> (\<exists>r. actions b = [Park r])" if "cap_beat inp = Some b" for b g
    using that by fastforce
  have work: "one_purpose (beat_gen inp) (actions (work_beat i inp))"
    using one_purpose_work moved_beat_shape(1) [of inp] by (auto simp: work_beat_actions)
  show ?thesis
  proof (cases "cap_beat inp")
    case None
    with cap_beat_iff have "\<not> over_ceiling inp" by simp
    with None work guard_beat_shape [of inp] show ?thesis
      unfolding plan_beat_actions is_inert_run_iff by (auto split: option.split)
  next
    case (Some b)
    then have "over_ceiling inp" using cap_beat_iff [of inp] by simp
    with Some cap [OF Some] show ?thesis unfolding plan_beat_actions is_inert_run_iff by auto
  qed
qed

subsection \<open>What a beat writes\<close>

text \<open>The run after \<open>patchEpicRun\<close> has merged a beat's patch into it.\<close>

definition apply_patch :: "epic_beat_patch option \<Rightarrow> epic_run_reading \<Rightarrow> epic_run_reading" where
  "apply_patch p run =
     (case p of
        None \<Rightarrow> run
      | Some q \<Rightarrow>
          run\<lparr>dry_gens := (case patch_dry_gens q of None \<Rightarrow> dry_gens run | Some n \<Rightarrow> n),
              spent_usd := (case patch_spent_usd q of None \<Rightarrow> spent_usd run | Some n \<Rightarrow> n),
              started_at := (case patch_started_at q of None \<Rightarrow> started_at run | Some t \<Rightarrow> Some t),
              unlanded_woken := (case patch_unlanded_woken q of None \<Rightarrow> unlanded_woken run | Some w \<Rightarrow> w)\<rparr>)"

text \<open>Pruning loses nothing: applying the pruned patch is applying the whole one.\<close>

lemma apply_pruned: "apply_patch (pruned p run) run = apply_patch (Some p) run"
  by (cases run) (auto simp: apply_patch_def pruned_def news_def empty_patch_def Let_def split: option.splits)

lemma pruned_None_iff: "pruned p run = None \<longleftrightarrow> apply_patch (pruned p run) run = run"
  unfolding apply_pruned
  by (cases run) (auto simp: apply_patch_def pruned_def news_def empty_patch_def Let_def split: option.splits)

text \<open>What a decision writes is about this beat only: never the spend and never the clock.\<close>

definition about_this_beat :: "epic_beat \<Rightarrow> bool" where
  "about_this_beat b \<longleftrightarrow>
     (case patch b of None \<Rightarrow> True | Some p \<Rightarrow> patch_spent_usd p = None \<and> patch_started_at p = None)"

lemma about_this_beat_simps [simp]:
  "about_this_beat (beat n as)"
  "about_this_beat (beat_with n as (empty_patch\<lparr>patch_dry_gens := d\<rparr>))"
  "about_this_beat (beat_with n as (empty_patch\<lparr>patch_unlanded_woken := w\<rparr>))"
  "about_this_beat (b\<lparr>beat_note := n\<rparr>) = about_this_beat b"
  "patch b = None \<Longrightarrow> about_this_beat b"
  by (simp_all add: about_this_beat_def beat_def beat_with_def empty_patch_def)

lemma about_moved_beat: "about_this_beat (moved_beat inp vs)"
  by (simp add: moved_beat_def Let_def)

lemma about_work_beat: "about_this_beat (work_beat i inp)"
  by (simp add: work_beat_def Let_def about_moved_beat split: option.split)

lemma about_unlanded_beat: "unlanded_beat inp = Some b \<Longrightarrow> about_this_beat b"
  by (auto simp: unlanded_beat_def unlanded_park_def Let_def split: if_split_asm)

lemma about_guard_beat:
  assumes "guard_beat inp = Some b"
  shows "about_this_beat b"
proof (cases "planning_beat (beat_run inp) (board_fingerprint inp)")
  case None
  with assms show ?thesis
    by (auto simp: guard_beat_def dest: about_unlanded_beat split: option.split_asm if_split_asm)
next
  case (Some b')
  with assms have "b' = b" by (simp add: guard_beat_def)
  with Some planning_beat_shape show ?thesis by fastforce
qed

lemma about_decide: "about_this_beat (decide i inp)"
proof (cases "cap_beat inp")
  case None
  show ?thesis
  proof (cases "hold (werk_master_gate inp)")
    case hold: None
    show ?thesis unfolding decide_def Let_def using None hold about_guard_beat about_work_beat
      by (simp split: option.split)
  next
    case (Some b)
    with None werk_master_gate_hold [OF Some] show ?thesis by (simp add: decide_def)
  qed
next
  case (Some b)
  with cap_beat_parks(2) [OF Some] show ?thesis by (simp add: decide_def)
qed

lemma run_after_inert [simp]: "is_inert_run (run_status (beat_run inp)) \<Longrightarrow> patch (plan_beat i inp) = None"
  by (simp add: plan_beat_def beat_def)

lemma run_after_beat:
  assumes "\<not> is_inert_run (run_status (beat_run inp))"
  shows "spent_usd (apply_patch (patch (plan_beat i inp)) (beat_run inp)) = max (spent_usd (beat_run inp)) (folded_usd inp)"
    and "started_at (apply_patch (patch (plan_beat i inp)) (beat_run inp)) =
      (if truthy (started_at (beat_run inp)) \<or> \<not> allowed (when_gate i inp) then started_at (beat_run inp)
       else Some (to_iso (beat_now inp)))"
    and "run_status (apply_patch (patch (plan_beat i inp)) (beat_run inp)) = run_status (beat_run inp)"
proof -
  let ?p = "merge_patch (ledger_writes i inp) (patch (decide i inp))"
  have patch: "patch (plan_beat i inp) = pruned ?p (beat_run inp)"
    using assms by (simp add: plan_beat_def Let_def)
  have p: "patch_spent_usd ?p = Some (spent_so_far inp)" "patch_started_at ?p = patch_started_at (ledger_writes i inp)"
    using about_decide [of i inp]
    by (auto simp: about_this_beat_def merge_patch_def overlay_def ledger_writes_def split: option.split option.split_asm)
  then show "spent_usd (apply_patch (patch (plan_beat i inp)) (beat_run inp)) = max (spent_usd (beat_run inp)) (folded_usd inp)"
    unfolding patch apply_pruned by (simp add: apply_patch_def spent_so_far_def)
  from p show "started_at (apply_patch (patch (plan_beat i inp)) (beat_run inp)) =
      (if truthy (started_at (beat_run inp)) \<or> \<not> allowed (when_gate i inp) then started_at (beat_run inp)
       else Some (to_iso (beat_now inp)))"
    unfolding patch apply_pruned by (simp add: apply_patch_def ledger_writes_def empty_patch_def)
  show "run_status (apply_patch (patch (plan_beat i inp)) (beat_run inp)) = run_status (beat_run inp)"
    by (simp add: apply_patch_def split: option.split)
qed

text \<open>Beats in sequence, each reading the run the one before it left.\<close>

fun run_after :: "intl \<Rightarrow> epic_beat_input list \<Rightarrow> epic_run_reading \<Rightarrow> epic_run_reading" where
  "run_after i [] run = run"
| "run_after i (inp # inps) run =
     run_after i inps (apply_patch (patch (plan_beat i (inp\<lparr>beat_run := run\<rparr>))) run)"

text \<open>
  C25: over any sequence of beats of a live run, the banked spend is the maximum of what was banked
  and of every fold taken, so it never decreases however much the registry forgets; a started wall
  clock is never moved; and a run that is paused, complete or aborted is not written at all.
\<close>

theorem ledger_never_forgets:
  "if is_inert_run (run_status run) then run_after i inps run = run
   else spent_usd (run_after i inps run) = foldl max (spent_usd run) (map folded_usd inps)
     \<and> (if truthy (started_at run) then started_at (run_after i inps run) = started_at run
        else started_at (run_after i inps run) \<in> {started_at run} \<union> (\<lambda>inp. Some (to_iso (beat_now inp))) ` set inps)"
proof (induction inps arbitrary: run)
  case (Cons inp inps)
  let ?inp = "inp\<lparr>beat_run := run\<rparr>"
  show ?case
  proof (cases "is_inert_run (run_status run)")
    case True
    with Cons.IH [of run] show ?thesis by (simp add: apply_patch_def)
  next
    case False
    let ?run = "apply_patch (patch (plan_beat i ?inp)) run"
    have run: "run_status ?run = run_status run" "spent_usd ?run = max (spent_usd run) (folded_usd inp)"
      "started_at ?run = (if truthy (started_at run) \<or> \<not> allowed (when_gate i ?inp) then started_at run
        else Some (to_iso (beat_now inp)))"
      using run_after_beat [of ?inp i] False by simp_all
    from Cons.IH [of ?run] False run show ?thesis by (auto split: if_splits)
  qed
qed simp

text \<open>
  A beat writes only what changes: it carries a patch exactly when merging that patch changes
  the run.
\<close>

theorem beat_never_rewrites:
  "patch (plan_beat i inp) = None \<longleftrightarrow> apply_patch (patch (plan_beat i inp)) (beat_run inp) = beat_run inp"
proof (cases "is_inert_run (run_status (beat_run inp))")
  case False
  then show ?thesis by (simp add: plan_beat_def Let_def flip: pruned_None_iff)
qed (simp add: apply_patch_def)

text \<open>The beat gets as far as asking about unlanded work.\<close>

definition reaches_unlanded :: "epic_beat_input \<Rightarrow> bool" where
  "reaches_unlanded inp \<longleftrightarrow>
     run_status (beat_run inp) \<in> {Armed, Running} \<and> \<not> over_ceiling inp \<and> \<not> supervised inp
     \<and> (run_plan (beat_run inp) \<longrightarrow> planned (beat_run inp))
     \<and> werk_master_lost inp \<noteq> Some True \<and> unacknowledged inp = []"

subsection \<open>A concrete run\<close>

definition sample_run :: epic_run_reading where
  "sample_run =
     \<lparr>run_epic_id = ''e'', run_project = ''claude://default/repo'', cadence = V_Str ''now'', run_status = Armed,
      run_target = Target_Merged, dry_gens = 0, unlanded_woken = [], max_gens = 40, max_usd = 100,
      max_wall_clock_minutes = 0, spent_usd = 2, started_at = None, run_plan = False, planned = True,
      plan_baseline = None, run_concurrency = 3, run_created = [], run_updated = [], abort_reason = None,
      acknowledged_at = None, digest = [], run_gen = 4\<rparr>"

definition sample_beat :: "epic_plan \<Rightarrow> epic_run_reading \<Rightarrow> epic_beat_input" where
  "sample_beat p run =
     \<lparr>beat_run = run, beat_gen = run_gen run, beat_plan = p, beat_in_flight = [], werk_master_is_alive = False,
      lease_taken_at = None, werk_master_lost = None, unacknowledged = [], window_open = False, queue = None,
      headroom = Some \<lparr>headroom_blocked = True, headroom_reason = ''full''\<rparr>, forced = Some True,
      board_fingerprint = [], folded_usd = 1, beat_now = 0\<rparr>"

lemma sample_beat_simps [simp]:
  "beat_run (sample_beat p run) = run" "beat_gen (sample_beat p run) = run_gen run" "beat_plan (sample_beat p run) = p"
  "beat_in_flight (sample_beat p run) = []" "werk_master_is_alive (sample_beat p run) = False"
  "werk_master_lost (sample_beat p run) = None" "unacknowledged (sample_beat p run) = []"
  "queue (sample_beat p run) = None" "forced (sample_beat p run) = Some True" "folded_usd (sample_beat p run) = 1"
  "verdicts_say_why (sample_beat p run)"
  by (simp_all add: sample_beat_def verdicts_say_why_def)

lemma sample_gates: "cadence run = V_Str ''now'' \<Longrightarrow> gates_open (sample_beat p run)"
proof -
  have "\<not> gated_by (V_Str ''now'') ''window''" by code_simp
  then show "cadence run = V_Str ''now'' \<Longrightarrow> gates_open (sample_beat p run)" by (simp add: gates_open_def)
qed

lemma sample_reaches:
  assumes "run_status run = Armed" "max_usd run = 100" "spent_usd run \<le> 2" "max_wall_clock_minutes run = 0" "max_gens run = 40"
    "run_gen run < 40" "\<not> run_plan run"
  shows "reaches_unlanded (sample_beat p run)"
    and "unlanded p = [] \<Longrightarrow> questions p = [] \<Longrightarrow> may_work (sample_beat p run)"
  using assms
  by (auto simp: reaches_unlanded_def may_work_def only_work_owed_def over_ceiling_def supervised_def elapsed_run_minutes_def)

theorem beat_dispatches_iff_permitted_witness:
  "dispatched (actions (plan_beat plain_intl (sample_beat (empty_plan\<lparr>dispatch := [blank_card ''b'' Open]\<rparr>) sample_run)))
     = [(''b'', [])]"
proof -
  let ?inp = "sample_beat (empty_plan\<lparr>dispatch := [blank_card ''b'' Open]\<rparr>) sample_run"
  have "may_work ?inp" by (rule sample_reaches(2)) (simp_all add: sample_run_def empty_plan_def)
  moreover have "gates_open ?inp" by (rule sample_gates) (simp add: sample_run_def)
  ultimately show ?thesis
    using beat_dispatches_iff_permitted [of ?inp plain_intl] by (simp add: blank_card_def deps_def)
qed

subsection \<open>The dry streak\<close>

lemma plan_beat_decided:
  "\<not> is_inert_run (run_status (beat_run inp)) \<Longrightarrow>
   patch (plan_beat i inp) = pruned (merge_patch (ledger_writes i inp) (patch (decide i inp))) (beat_run inp)"
  by (simp add: plan_beat_def Let_def)

lemma decide_patch:
  "patch (decide i inp) =
     (case cap_beat inp of
        Some b \<Rightarrow> None
      | None \<Rightarrow> if supervised inp then None
          else case guard_beat inp of Some b \<Rightarrow> patch b | None \<Rightarrow> patch (work_beat i inp))"
proof (cases "cap_beat inp")
  case None
  show ?thesis
  proof (cases "hold (werk_master_gate inp)")
    case hold: None
    then have "\<not> supervised inp" by (simp add: werk_master_gate_iff)
    with None hold show ?thesis by (simp add: decide_def Let_def split: option.split)
  next
    case (Some b)
    then have "supervised inp" using werk_master_gate_iff [of inp] by simp
    with None Some werk_master_gate_hold [OF Some] show ?thesis by (simp add: decide_def)
  qed
next
  case (Some b)
  with cap_beat_parks(2) [OF Some] show ?thesis by (simp add: decide_def)
qed

text \<open>The patch a working beat decides on: its dry counter.\<close>

definition dry_after :: "epic_beat_input \<Rightarrow> int" where
  "dry_after inp =
     (let p = beat_plan inp; n = dry_gens (beat_run inp)
      in if dispatch p \<noteq> [] \<or> verify p \<noteq> [] then 0
         else if plan_complete p \<or> beat_in_flight inp \<noteq> [] \<or> n \<ge> 1 then n
         else n + 1)"

lemma work_beat_dry:
  "(case patch (work_beat i inp) of None \<Rightarrow> dry_gens (beat_run inp)
     | Some p \<Rightarrow> (case patch_dry_gens p of None \<Rightarrow> dry_gens (beat_run inp) | Some n \<Rightarrow> n))
   = (if allowed (when_gate i inp) then dry_after inp else dry_gens (beat_run inp))"
proof (cases "allowed (when_gate i inp)")
  case True
  have "patch (work_beat i inp) = patch (moved_beat inp (map (\<lambda>c. Verify (slug c)) (verify (beat_plan inp))))"
    using True by (simp add: work_beat_def Let_def split: option.split)
  then show ?thesis using True
    by (simp add: moved_beat_def dry_after_def beat_def beat_with_def empty_patch_def Let_def)
qed (simp add: work_beat_def Let_def beat_def)

lemma dry_gens_after_work:
  assumes "verdicts_say_why inp" "may_work inp"
  shows "dry_gens (apply_patch (patch (plan_beat i inp)) (beat_run inp)) =
    (if gates_open inp then dry_after inp else dry_gens (beat_run inp))"
proof -
  from assms(2) have live: "\<not> is_inert_run (run_status (beat_run inp))" and ok: "cap_beat inp = None" "\<not> supervised inp"
    "guard_beat inp = None" by (simp_all add: may_work_def is_inert_run_iff cap_beat_iff guard_beat_iff)
  then have "patch (decide i inp) = patch (work_beat i inp)" by (simp add: decide_patch)
  moreover have "patch_dry_gens (ledger_writes i inp) = None" by (simp add: ledger_writes_def empty_patch_def)
  ultimately show ?thesis
    unfolding plan_beat_decided [OF live] apply_pruned when_gate_iff [OF assms(1), of i, symmetric] work_beat_dry [symmetric]
    by (simp add: apply_patch_def merge_patch_def overlay_def split: option.split)
qed

text \<open>A beat with nothing to move, nothing in flight and nothing in the way.\<close>

definition dry :: "epic_beat_input \<Rightarrow> bool" where
  "dry inp \<longleftrightarrow> verdicts_say_why inp \<and> may_work inp \<and> gates_open inp
     \<and> dispatch (beat_plan inp) = [] \<and> verify (beat_plan inp) = []
     \<and> \<not> plan_complete (beat_plan inp) \<and> beat_in_flight inp = []"

lemma dry_beat_actions:
  assumes "dry inp"
  shows "actions (plan_beat i inp) =
    (if dry_gens (beat_run inp) \<ge> 1
     then [Park (idle_or ''nothing dispatchable and replanning did not help'' (beat_plan inp))]
     else [Wake_Werk_Master (beat_gen inp) Started])"
proof -
  from assms have "allowed (when_gate i inp)" "\<not> is_inert_run (run_status (beat_run inp))" "cap_beat inp = None"
    "\<not> supervised inp" "guard_beat inp = None"
    by (simp_all add: dry_def may_work_def when_gate_iff is_inert_run_iff cap_beat_iff guard_beat_iff)
  with assms show ?thesis by (simp add: plan_beat_actions work_beat_actions dry_def moved_beat_def Let_def beat_def beat_with_def)
qed

text \<open>
  The engine asks the supervisor to replan once and then stops. Of two consecutive dry beats the
  first wakes the supervisor and the second parks the run; a beat that moves work in between, or any
  beat that moves work, sets the counter back to zero.
\<close>

theorem second_dry_beat_parks:
  assumes "dry inp" "dry inp'" "dry_gens (beat_run inp) = 0"
    and "beat_run inp' = apply_patch (patch (plan_beat i inp)) (beat_run inp)"
    and "verdicts_say_why moving" "may_work moving" "gates_open moving"
    and "dispatch (beat_plan moving) \<noteq> [] \<or> verify (beat_plan moving) \<noteq> []"
  shows "actions (plan_beat i inp) = [Wake_Werk_Master (beat_gen inp) Started]
    \<and> actions (plan_beat i inp') = [Park (idle_or ''nothing dispatchable and replanning did not help'' (beat_plan inp'))]
    \<and> dry_gens (apply_patch (patch (plan_beat i moving)) (beat_run moving)) = 0"
proof -
  from assms(1) have "dry_gens (beat_run inp') = dry_gens (beat_run inp) + 1"
    using dry_gens_after_work [of inp i] assms(3,4) by (simp add: dry_def dry_after_def)
  moreover have "dry_gens (apply_patch (patch (plan_beat i moving)) (beat_run moving)) = 0"
    using dry_gens_after_work [OF assms(5,6), of i] assms(7,8) by (auto simp: dry_after_def)
  ultimately show ?thesis using dry_beat_actions [OF assms(1)] dry_beat_actions [OF assms(2)] assms(3) by simp
qed

theorem second_dry_beat_parks_witness:
  "actions (plan_beat plain_intl (sample_beat empty_plan (apply_patch
     (patch (plan_beat plain_intl (sample_beat empty_plan sample_run))) sample_run)))
     = [Park ''nothing dispatchable and replanning did not help'']"
proof -
  let ?inp = "sample_beat empty_plan sample_run"
  let ?moving = "sample_beat (empty_plan\<lparr>verify := [blank_card ''b'' Done]\<rparr>) sample_run"
  let ?run = "apply_patch (patch (plan_beat plain_intl ?inp)) sample_run"
  have "run_status ?run = Armed" "max_usd ?run = 100" "max_gens ?run = 40" "run_gen ?run = 4" "\<not> run_plan ?run"
    "cadence ?run = V_Str ''now''" "max_wall_clock_minutes ?run = 0"
    by (auto simp: apply_patch_def sample_run_def split: option.split)
  moreover have "spent_usd ?run = 2"
    using run_after_beat(1) [of ?inp plain_intl] by (simp add: sample_run_def is_inert_run_def)
  ultimately have "dry (sample_beat empty_plan ?run)"
    unfolding dry_def by (intro conjI sample_reaches(2) sample_gates) (simp_all add: empty_plan_def)
  moreover have "dry ?inp"
    unfolding dry_def by (intro conjI sample_reaches(2) sample_gates) (simp_all add: empty_plan_def sample_run_def)
  moreover have "may_work ?moving" by (rule sample_reaches(2)) (simp_all add: sample_run_def empty_plan_def)
  moreover have "gates_open ?moving" by (rule sample_gates) (simp add: sample_run_def)
  moreover have "dry_gens sample_run = 0" by (simp add: sample_run_def)
  ultimately show ?thesis
    using second_dry_beat_parks [of ?inp "sample_beat empty_plan ?run" plain_intl ?moving]
    by (simp add: idle_or_def empty_plan_def)
qed

subsection \<open>Unlanded work\<close>

definition wake_reasons :: "epic_action list \<Rightarrow> epic_wake_reason list" where
  "wake_reasons acts = concat (map (\<lambda>a. case a of Wake_Werk_Master _ r \<Rightarrow> [r] | _ \<Rightarrow> []) acts)"

lemma wake_reasons_simps [simp]:
  "wake_reasons [] = []" "wake_reasons (Wake_Werk_Master g r # as) = r # wake_reasons as"
  "wake_reasons (Verify s # as) = wake_reasons as" "wake_reasons (Dispatch s d # as) = wake_reasons as"
  "wake_reasons (Park t # as) = wake_reasons as" "wake_reasons (Complete_Run # as) = wake_reasons as"
  "wake_reasons (as @ bs) = wake_reasons as @ wake_reasons bs"
  "wake_reasons (map (\<lambda>c. Verify (h c)) xs) = []" "wake_reasons (map (\<lambda>c. Dispatch (h c) (k c)) ys) = []"
proof -
  show "wake_reasons (map (\<lambda>c. Verify (h c)) xs) = []" by (induction xs) (simp_all add: wake_reasons_def)
  show "wake_reasons (map (\<lambda>c. Dispatch (h c) (k c)) ys) = []" by (induction ys) (simp_all add: wake_reasons_def)
qed (simp_all add: wake_reasons_def)

lemma reaches_unlanded_actions:
  assumes "reaches_unlanded inp"
  shows "actions (plan_beat i inp) =
    (case unlanded_beat inp of
       Some b \<Rightarrow> actions b
     | None \<Rightarrow> if questions (beat_plan inp) \<noteq> [] then [Wake_Werk_Master (beat_gen inp) Started] else actions (work_beat i inp))"
proof -
  from assms have "planning_beat (beat_run inp) (board_fingerprint inp) = None" "cap_beat inp = None"
    "\<not> is_inert_run (run_status (beat_run inp))" "\<not> supervised inp"
    by (simp_all add: reaches_unlanded_def planning_beat_iff cap_beat_iff is_inert_run_iff)
  with assms show ?thesis
    by (simp add: plan_beat_actions guard_beat_def reaches_unlanded_def beat_def split: option.split)
qed

lemma work_beat_wakes: "set (wake_reasons (actions (work_beat i inp))) \<subseteq> {Started}"
  by (simp add: work_beat_actions moved_beat_actions Let_def)

lemma ledger_fold:
  "map_of (foldl (\<lambda>m l. AList.update (landing_card_id l) n m) w ls) k =
     (if k \<in> landing_card_id ` set ls then Some n else map_of w k)"
  "distinct (map fst w) \<Longrightarrow> distinct (map fst (foldl (\<lambda>m l. AList.update (landing_card_id l) n m) w ls))"
  "fst ` set (foldl (\<lambda>m l. AList.update (landing_card_id l) n m) w ls) = fst ` set w \<union> landing_card_id ` set ls"
proof (induction ls arbitrary: w)
  case (Cons l ls)
  {
    case 1
    show ?case using Cons.IH(1) by (simp add: update_conv')
  next
    case 2
    then show ?case using Cons.IH(2) by (simp add: distinct_update)
  next
    case 3
    have "fst ` set (AList.update k v w) = insert k (fst ` set w)" for k v by (induction w) auto
    then show ?case using Cons.IH(3) by auto
  }
qed simp_all

text \<open>What an unlanded card has been asked, and what this beat would ask.\<close>

definition fresh_landings :: "epic_beat_input \<Rightarrow> card_landing list" where
  "fresh_landings inp = filter (\<lambda>l. asked_at inp (landing_card_id l) = None) (unlanded (beat_plan inp))"

definition overdue_landings :: "epic_beat_input \<Rightarrow> card_landing list" where
  "overdue_landings inp = filter (\<lambda>l. case asked_at inp (landing_card_id l) of None \<Rightarrow> False
     | Some n \<Rightarrow> int n < beat_gen inp) (unlanded (beat_plan inp))"

definition asked_ledger :: "epic_beat_input \<Rightarrow> (string \<times> nat) list" where
  "asked_ledger inp = foldl (\<lambda>m l. AList.update (landing_card_id l) (nat (beat_gen inp)) m)
     (parse_escalations (Some (unlanded_woken (beat_run inp)))) (fresh_landings inp)"

lemma unlanded_beat_overdue:
  "overdue_landings inp \<noteq> [] \<Longrightarrow> unlanded_beat inp = Some (unlanded_park (overdue_landings inp) (beat_gen inp))"
  by (auto simp: unlanded_beat_def overdue_landings_def asked_at_def Let_def)

lemma unlanded_beat_fresh:
  assumes "overdue_landings inp = []" "fresh_landings inp \<noteq> []"
  shows "\<exists>n fs. unlanded_beat inp = Some (beat_with n (Wake_Werk_Master (beat_gen inp) Unmerged_Work # fs)
      (empty_patch\<lparr>patch_unlanded_woken := Some (format_escalations (asked_ledger inp))\<rparr>))"
proof -
  from assms(2) have "unlanded (beat_plan inp) \<noteq> []" by (auto simp: fresh_landings_def)
  with assms show ?thesis
    unfolding unlanded_beat_def asked_ledger_def Let_def fresh_landings_def overdue_landings_def asked_at_def
    by (simp split del: if_split) (intro exI, rule refl)
qed

lemma unlanded_beat_quiet:
  "overdue_landings inp = [] \<Longrightarrow> fresh_landings inp = [] \<Longrightarrow> unlanded_beat inp = None"
  by (simp add: unlanded_beat_def overdue_landings_def fresh_landings_def asked_at_def Let_def)

text \<open>The ledger on the run is the spelling of a map from card ids to generations.\<close>

definition ledger_of :: "epic_run_reading \<Rightarrow> (string \<times> nat) list \<Rightarrow> bool" where
  "ledger_of run m \<longleftrightarrow>
     unlanded_woken run = format_escalations m \<and> distinct (map fst m) \<and> list_all (\<lambda>p. ledger_id (fst p)) m"

lemma ledger_of_parse:
  assumes "ledger_of (beat_run inp) m"
  obtains s where "parse_escalations (Some (unlanded_woken (beat_run inp))) = s" "mset s = mset m" "asked_at inp = map_of m"
  using assms parse_format_lookup [of m] unfolding ledger_of_def asked_at_def by metis

lemma ledger_after_asking:
  assumes "ledger_of (beat_run inp) m" "list_all (\<lambda>l. ledger_id (landing_card_id l)) (unlanded (beat_plan inp))"
    and "unlanded_woken run = format_escalations (asked_ledger inp)"
  shows "ledger_of run (asked_ledger inp)"
    and "map_of (asked_ledger inp) k =
      (if k \<in> landing_card_id ` set (fresh_landings inp) then Some (nat (beat_gen inp)) else map_of m k)"
proof -
  from assms(1) obtain s where s: "parse_escalations (Some (unlanded_woken (beat_run inp))) = s" "mset s = mset m"
    "asked_at inp = map_of m" by (rule ledger_of_parse)
  have m: "distinct (map fst m)" "\<forall>k \<in> fst ` set m. ledger_id k"
    using assms(1) by (simp_all add: ledger_of_def list_all_iff)
  have "mset (map fst s) = mset (map fst m)" using s(2) by simp
  then have ds: "distinct (map fst s)" "set s = set m"
    using m(1) mset_eq_imp_distinct_iff mset_eq_setD [OF s(2)] by blast+
  have l: "asked_ledger inp = foldl (\<lambda>m l. AList.update (landing_card_id l) (nat (beat_gen inp)) m) s (fresh_landings inp)"
    by (simp add: asked_ledger_def s(1))
  have "distinct (map fst (asked_ledger inp))" unfolding l by (rule ledger_fold(2) [OF ds(1)])
  moreover have "ledger_id k" if "k \<in> fst ` set (asked_ledger inp)" for k
    using that m(2) ds(2) assms(2) unfolding l ledger_fold(3) by (auto simp: fresh_landings_def list_all_iff)
  ultimately show "ledger_of run (asked_ledger inp)"
    using assms(3) by (simp add: ledger_of_def list_all_iff)
  have "map_of s = map_of m" using s(1,3) by (simp add: asked_at_def fun_eq_iff)
  then show "map_of (asked_ledger inp) k =
      (if k \<in> landing_card_id ` set (fresh_landings inp) then Some (nat (beat_gen inp)) else map_of m k)"
    unfolding l ledger_fold(1) by simp
qed

lemma woken_after_asking:
  assumes "reaches_unlanded inp" "overdue_landings inp = []" "fresh_landings inp \<noteq> []"
  shows "unlanded_woken (apply_patch (patch (plan_beat i inp)) (beat_run inp)) = format_escalations (asked_ledger inp)"
proof -
  from assms(1) have live: "\<not> is_inert_run (run_status (beat_run inp))" and ok: "cap_beat inp = None" "\<not> supervised inp"
    and plan: "planning_beat (beat_run inp) (board_fingerprint inp) = None"
    by (simp_all add: reaches_unlanded_def planning_beat_iff cap_beat_iff is_inert_run_iff)
  from unlanded_beat_fresh [OF assms(2,3)] obtain n fs where
    b: "unlanded_beat inp = Some (beat_with n (Wake_Werk_Master (beat_gen inp) Unmerged_Work # fs)
      (empty_patch\<lparr>patch_unlanded_woken := Some (format_escalations (asked_ledger inp))\<rparr>))" by blast
  with assms(1) plan have "patch (decide i inp) =
      Some (empty_patch\<lparr>patch_unlanded_woken := Some (format_escalations (asked_ledger inp))\<rparr>)"
    by (simp add: decide_patch ok guard_beat_def reaches_unlanded_def beat_with_def)
  then show ?thesis
    unfolding plan_beat_decided [OF live] apply_pruned
    by (simp add: apply_patch_def merge_patch_def overlay_def)
qed

text \<open>
  C28: unlanded work is asked about once and then parks the run. When some card of the unlanded list
  has not been asked about, the beat wakes the supervisor for it and writes every such card into the
  ledger; with the run as that beat left it and the same work still unlanded, a beat at the same
  generation neither asks again nor parks for it, and a beat at a later generation parks.
\<close>

theorem unlanded_work_asked_once:
  assumes "ledger_of (beat_run inp) m" "list_all (\<lambda>l. ledger_id (landing_card_id l)) (unlanded (beat_plan inp))"
    and "0 \<le> beat_gen inp" "reaches_unlanded inp" "overdue_landings inp = []" "fresh_landings inp \<noteq> []"
    and "reaches_unlanded inp'" "beat_run inp' = apply_patch (patch (plan_beat i inp)) (beat_run inp)"
    and "unlanded (beat_plan inp') = unlanded (beat_plan inp)" "beat_gen inp \<le> beat_gen inp'"
  shows "wake_reasons (take 1 (actions (plan_beat i inp))) = [Unmerged_Work]
    \<and> (if beat_gen inp' = beat_gen inp
       then set (wake_reasons (actions (plan_beat i inp'))) \<subseteq> {Started} \<and> unlanded_beat inp' = None
       else \<exists>r. actions (plan_beat i inp') = [Park r])"
proof -
  from unlanded_beat_fresh [OF assms(5,6)]
  have first: "wake_reasons (take 1 (actions (plan_beat i inp))) = [Unmerged_Work]"
    unfolding reaches_unlanded_actions [OF assms(4)] by (auto simp: beat_with_def)
  have woken: "unlanded_woken (beat_run inp') = format_escalations (asked_ledger inp)"
    unfolding assms(8) by (rule woken_after_asking [OF assms(4-6)])
  note led = ledger_after_asking [OF assms(1,2) woken]
  have asked: "asked_at inp' k = (if k \<in> landing_card_id ` set (fresh_landings inp) then Some (nat (beat_gen inp)) else asked_at inp k)" for k
    using ledger_of_parse [OF led(1)] ledger_of_parse [OF assms(1)] led(2) by metis
  have fresh': "fresh_landings inp' = []"
    unfolding fresh_landings_def [of inp'] assms(9) asked filter_empty_conv by (auto simp: fresh_landings_def)
  show ?thesis
  proof (cases "beat_gen inp' = beat_gen inp")
    case True
    have "overdue_landings inp' = []"
      using assms(3,5) unfolding overdue_landings_def assms(9) asked True filter_empty_conv by auto
    from unlanded_beat_quiet [OF this fresh'] have quiet: "unlanded_beat inp' = None" .
    then have "set (wake_reasons (actions (plan_beat i inp'))) \<subseteq> {Started}"
      unfolding reaches_unlanded_actions [OF assms(7)] using work_beat_wakes [of i inp'] by simp
    with first quiet True show ?thesis by simp
  next
    case False
    with assms(10) have later: "beat_gen inp < beat_gen inp'" by simp
    from assms(6) obtain l where l: "l \<in> set (fresh_landings inp)" by (cases "fresh_landings inp") auto
    then have "asked_at inp' (landing_card_id l) = Some (nat (beat_gen inp))" unfolding asked by simp
    moreover have "l \<in> set (unlanded (beat_plan inp'))" using l by (simp add: fresh_landings_def assms(9))
    ultimately have "overdue_landings inp' \<noteq> []"
      using later assms(3) unfolding overdue_landings_def filter_empty_conv by force
    then have "unlanded_beat inp' = Some (unlanded_park (overdue_landings inp') (beat_gen inp'))"
      by (rule unlanded_beat_overdue)
    then show ?thesis using first False
      unfolding reaches_unlanded_actions [OF assms(7)] by (simp add: unlanded_park_def beat_def)
  qed
qed

theorem unlanded_work_asked_once_witness:
  "let l = \<lparr>landing_card_id = ''b'', landing_branch = ''epic/e/b'', verdict = Unmerged, evidence = Ahead\<rparr>;
       p = empty_plan\<lparr>unlanded := [l]\<rparr>;
       run = apply_patch (patch (plan_beat plain_intl (sample_beat p sample_run))) sample_run
   in wake_reasons (take 1 (actions (plan_beat plain_intl (sample_beat p sample_run)))) = [Unmerged_Work]
     \<and> (\<exists>r. actions (plan_beat plain_intl ((sample_beat p run)\<lparr>beat_gen := 5\<rparr>)) = [Park r])"
proof -
  define l where "l = \<lparr>landing_card_id = ''b'', landing_branch = ''epic/e/b'', verdict = Unmerged, evidence = Ahead\<rparr>"
  define p where "p = empty_plan\<lparr>unlanded := [l]\<rparr>"
  let ?inp = "sample_beat p sample_run"
  let ?run = "apply_patch (patch (plan_beat plain_intl ?inp)) sample_run"
  let ?next = "(sample_beat p ?run)\<lparr>beat_gen := 5\<rparr>"
  have asked: "asked_at ?inp k = None" for k
    by (simp add: asked_at_def sample_run_def parse_escalations_def parse_escalation_def)
  have ids: "list_all (\<lambda>l. ledger_id (landing_card_id l)) (unlanded p)"
    by (simp add: p_def l_def ledger_id_def is_space_def)
  have "ledger_of sample_run []" by (simp add: ledger_of_def sample_run_def format_escalations_def)
  moreover have "reaches_unlanded ?inp" by (rule sample_reaches(1)) (simp_all add: sample_run_def)
  moreover have "overdue_landings ?inp = []" "fresh_landings ?inp \<noteq> []"
    unfolding overdue_landings_def fresh_landings_def asked by (simp_all add: p_def empty_plan_def)
  moreover have run: "run_status ?run = Armed" "max_usd ?run = 100" "max_gens ?run = 40" "\<not> run_plan ?run"
    "max_wall_clock_minutes ?run = 0"
    by (auto simp: apply_patch_def sample_run_def split: option.split)
  moreover have "spent_usd ?run = 2"
    using run_after_beat(1) [of ?inp plain_intl] by (simp add: sample_run_def is_inert_run_def)
  ultimately have "reaches_unlanded ?next"
    by (simp add: reaches_unlanded_def over_ceiling_def supervised_def)
  moreover have "run_gen sample_run = 4" by (simp add: sample_run_def)
  ultimately show ?thesis
    using unlanded_work_asked_once [of ?inp "[]" ?next plain_intl] ids
      \<open>ledger_of sample_run []\<close> \<open>reaches_unlanded ?inp\<close> \<open>overdue_landings ?inp = []\<close> \<open>fresh_landings ?inp \<noteq> []\<close>
    by (simp add: Let_def flip: l_def p_def)
qed

subsection \<open>The ceilings, as shown and as enforced\<close>

text \<open>
  What a run is shown is what it is stopped by: for a run with a generation ceiling, one of the
  three readings of \<open>epicRunCaps\<close> says OVER exactly when the beat finds the run over a ceiling, as
  long as the fold of this beat is no larger than what is already banked.
\<close>

theorem cap_readings_agree:
  assumes "0 < max_gens (beat_run inp)" "beat_gen inp = run_gen (beat_run inp)" "folded_usd inp \<le> spent_usd (beat_run inp)"
  shows "list_ex over (epic_run_caps (beat_run inp) (beat_now inp)) \<longleftrightarrow> cap_beat inp \<noteq> None"
proof -
  from assms have "list_ex over (epic_run_caps (beat_run inp) (beat_now inp)) \<longleftrightarrow> over_ceiling inp"
    by (simp add: epic_run_caps_def spend_reading_def wall_clock_reading_def generation_reading_def over_ceiling_def Let_def max_absorb1)
  then show ?thesis by (simp add: cap_beat_iff)
qed

theorem cap_readings_agree_witness:
  "list_ex over (epic_run_caps sample_run 0) \<longleftrightarrow> cap_beat (sample_beat empty_plan sample_run) \<noteq> None"
proof -
  have "beat_now (sample_beat empty_plan sample_run) = 0" by (simp add: sample_beat_def)
  with cap_readings_agree [of "sample_beat empty_plan sample_run"] show ?thesis by (simp add: sample_run_def)
qed

text \<open>
  The generation ceiling has no disarmed value: with \<open>maxGens\<close> 0 every beat of a live run parks
  it, while the reading of the same run says it has no generation cap and is not over.
\<close>

theorem zero_generations_parks:
  assumes "max_gens (beat_run inp) = 0" "0 \<le> beat_gen inp" "run_status (beat_run inp) \<in> {Armed, Running}"
  shows "(\<exists>r. actions (plan_beat i inp) = [Park r])
    \<and> cap_limit (generation_reading (beat_run inp)) = NO_CAP \<and> \<not> over (generation_reading (beat_run inp))"
proof -
  from assms have "over_ceiling inp" by (simp add: over_ceiling_def)
  then obtain b where "cap_beat inp = Some b" using cap_beat_iff [of inp] by auto
  with cap_beat_parks(1) [of inp b] assms show ?thesis
    by (auto simp: plan_beat_actions is_inert_run_def generation_reading_def Let_def)
qed

theorem zero_generations_parks_witness:
  "\<exists>r. actions (plan_beat plain_intl (sample_beat empty_plan (sample_run\<lparr>max_gens := 0\<rparr>))) = [Park r]"
  using zero_generations_parks [of "sample_beat empty_plan (sample_run\<lparr>max_gens := 0\<rparr>)" plain_intl]
  by (simp add: sample_run_def)

end
