(* ===== verification/EpicWriteback.thy ===== *)
theory EpicWriteback
  imports EpicRuns EpicBeatSafety
begin

section \<open>A beat writes back\<close>

text \<open>
  The join of the two halves: the scalars a beat asks for travel to the sentinel as a patch of the run
  (\<open>applyBeatPatch\<close> of \<open>broker/epic-executor.ts\<close>), the sentinel merges and writes them, and the next
  beat reads the file with the generation of the card. The round trip is the pure merge the beat
  theories reason about.
\<close>

definition patch_message :: "epic_beat_patch \<Rightarrow> run_patch" where
  "patch_message q =
     no_patch\<lparr>p_dry_gens := patch_dry_gens q, p_spent_usd := patch_spent_usd q, p_started_at := patch_started_at q,
       p_unlanded_woken := patch_unlanded_woken q\<rparr>"

lemma read_is_normal:
  assumes "kept d" "read_run_of d e = Ok (Some r)"
  shows "as_read r = r"
proof -
  from assms(2) have x: "read_epic_run e (files_of d e) = Ok (Some r)" by (auto simp: read_run_of_def split: if_splits)
  then obtain t where t: "run_md (files_of d e) = Some t"
    by (auto simp: read_epic_run_def read_run_file_def split: option.splits)
  with kept_files [OF assms(1), of e] obtain w where w: "plain_run w" "t = serialize_frontmatter (meta_of_run w) RUN_FILE_BANNER []"
    by (auto simp: renders_def)
  have "r = (as_read w)\<lparr>digest := read_digest (files_of d e) RUN_FILE_BANNER\<rparr>"
    using x t run_of_read_meta [OF w(1)] by (simp add: w(2) read_epic_run_def read_run_file_def parsed_run [OF w(1)] Let_def read_meta_def)
  moreover have "parse_when (gates_value (parse_when (cadence w))) = parse_when (cadence w)"
    using w(1) parse_when_normal(1) by (simp add: plain_run_def)
  moreover have "unless_empty (unless_empty s) = unless_empty s" for s by (simp add: unless_empty_def)
  ultimately show ?thesis by (simp add: as_read_def)
qed

lemma as_read_fields:
  assumes "as_read r = r"
  shows "gates_value (parse_when (cadence r)) = cadence r" "unless_empty (started_at r) = started_at r"
    "unless_empty (plan_baseline r) = plan_baseline r" "unless_empty (abort_reason r) = abort_reason r"
    "unless_empty (acknowledged_at r) = acknowledged_at r"
  using arg_cong [OF assms, of cadence] arg_cong [OF assms, of started_at] arg_cong [OF assms, of plan_baseline]
    arg_cong [OF assms, of abort_reason] arg_cong [OF assms, of acknowledged_at]
  by (simp_all add: as_read_def)

text \<open>
  C19: what a beat asks to be written is what the next beat reads: for every reachable store and every
  run in it, sending the patch of a beat to the sentinel and reading the run again gives exactly the
  run the beat merged in memory, its other fields, its gates and its prose unchanged, stamped with the
  time of the write, and with the generation of the card still the one the beat quoted.
\<close>

theorem beat_patch_is_read_back:
  assumes "reachable st" "read_run_of (dirs st) e = Ok (Some r)" "patch (plan_beat i inp) = Some q"
    and "plain_patch (patch_message q)" "patch_started_at q \<noteq> Some []"
    and "m = \<lparr>msg_project = pr, msg_epic = e, msg_op = Op_Patch (patch_message q)\<rparr>" "one_line pr"
  shows "snapshot (after_msg st (m, now)) e
    = Ok (Some ((apply_patch (patch (plan_beat i inp)) (with_lease_gen r (current_lease st e)))\<lparr>run_updated := to_iso now\<rparr>))"
proof -
  have m: "plain_msg m" "\<not> deletes m" "msg_epic m = e" "msg_op m = Op_Patch (patch_message q)"
    using assms by (simp_all add: plain_msg_def deletes_def)
  note norm = as_read_fields [OF read_is_normal [OF reachable_kept [OF assms(1)] assms(2)]]
  have started: "unless_empty (or_keep (patch_started_at q) (started_at r)) = or_keep (patch_started_at q) (started_at r)"
    using norm(2) assms(5) by (cases "patch_started_at q") (simp_all add: or_keep_def unless_empty_def truthy_def)
  have "read_run_of (dirs (after_msg st (m, now))) e = Ok (Some (patch_value r (patch_message q, now)))"
    using effect_step [OF reachable_kept [OF assms(1)] assms(2) m(1-3), of now] by (simp add: run_effect_def m(4))
  moreover have "current_lease (after_msg st (m, now)) e = current_lease st e"
    by (simp add: current_lease_def after_msg_def handle_epic_op.simps m(4) dirs_only)
  moreover have "with_lease_gen (patch_value r (patch_message q, now)) l
    = (apply_patch (Some q) (with_lease_gen r l))\<lparr>run_updated := to_iso now\<rparr>" for l
    by (cases q; cases r)
      (use norm started in \<open>simp add: patch_value_def stored_as_def as_read_def patched_def patch_message_def no_patch_def with_lease_gen_def
        apply_patch_def or_else_def or_keep_def epic_run.extend_def split: option.split\<close>)
  ultimately show ?thesis by (simp add: snapshot_def projected_def assms(3))
qed

lemma sample_patch: "patch (plan_beat plain_intl (sample_beat empty_plan sample_run)) = Some (empty_patch\<lparr>patch_dry_gens := Some 1, patch_started_at := Some (to_iso 0)\<rparr>)"
  by code_simp

lemma beat_patch_is_read_back_witness:
  "map_option (\<lambda>r. (dry_gens r, started_at r)) (case snapshot (after_msg (after_msg empty_store (start_e, 0))
      (\<lparr>msg_project = ''p'', msg_epic = ''e'', msg_op = Op_Patch (patch_message (empty_patch\<lparr>patch_dry_gens := Some 1, patch_started_at := Some (to_iso 0)\<rparr>))\<rparr>, 45)) ''e''
     of Ok x \<Rightarrow> x | Err _ \<Rightarrow> None) = Some (1, Some (to_iso 0))"
proof -
  let ?q = "empty_patch\<lparr>patch_dry_gens := Some 1, patch_started_at := Some (to_iso 0)\<rparr>"
  have "plain_patch (patch_message ?q)"
    by (simp add: plain_patch_def patch_message_def empty_patch_def no_patch_def opt_line_def opt_ok_def iso_one_line)
  moreover have "to_iso 0 \<noteq> []" using to_iso_word [of 0] by (simp add: one_word_def)
  ultimately show ?thesis
    using beat_patch_is_read_back [OF started_reachable started_run sample_patch _ _ refl, of "''p''" 45]
    by (simp add: sample_patch apply_patch_def empty_patch_def with_lease_gen_def one_line_def epic_run.extend_def)
qed

end
