(* ===== verification/JsJson.thy ===== *)
theory JsJson
  imports JsValue Complex_Main
begin

section \<open>Objects\<close>

text \<open>
  An opaque bag, \<open>Record<string, unknown>\<close>, with what is in it: its own keys in insertion order, as
  \<open>JSON.parse\<close> gives it. A key whose value is \<open>undefined\<close> is a key that is not there, which no code here
  tells apart. Numbers are rationals, which every finite double is.
\<close>

datatype json =
    J_Null
  | J_Bool bool
  | J_Num rat
  | J_Str string
  | J_Arr "json list"
  | J_Obj "(string \<times> json) list"

type_synonym js_object = "(string \<times> json) list"

text \<open>\<open>{ ...a, ...b }\<close>.\<close>

definition spread :: "js_object \<Rightarrow> js_object \<Rightarrow> js_object" where
  "spread a b = foldl (\<lambda>o' (k, v). AList.update k v o') a b"

text \<open>\<open>{ ...a, k: v }\<close> for a value that may be \<open>undefined\<close>.\<close>

definition with_key :: "string \<Rightarrow> json option \<Rightarrow> js_object \<Rightarrow> js_object" where
  "with_key k v a = (case v of None \<Rightarrow> AList.delete k a | Some x \<Rightarrow> AList.update k x a)"

lemma map_of_spread: "distinct (map fst b) \<Longrightarrow> map_of (spread a b) k = (case map_of b k of Some v \<Rightarrow> Some v | None \<Rightarrow> map_of a k)"
proof (induction b arbitrary: a)
  case (Cons x b)
  obtain l v where x: "x = (l, v)" by (cases x)
  from Cons have "map_of (spread (AList.update l v a) b) k = (case map_of b k of Some u \<Rightarrow> Some u | None \<Rightarrow> map_of (AList.update l v a) k)"
    by simp
  moreover have "map_of b l = None" using Cons.prems by (simp add: x map_of_eq_None_iff)
  ultimately show ?case by (auto simp: spread_def x split: option.split)
qed (simp add: spread_def)

lemma map_of_with_key [simp]: "map_of (with_key k v a) l = (if l = k then v else map_of a l)"
  by (auto simp: with_key_def delete_conv' split: option.split)

definition present :: "json option \<Rightarrow> json option" where
  "present v = (if v = Some J_Null then None else v)"

definition json_strings :: "json list \<Rightarrow> string list" where
  "json_strings vs = concat (map (\<lambda>v. case v of J_Str s \<Rightarrow> [s] | _ \<Rightarrow> []) vs)"

definition is_string :: "json \<Rightarrow> bool" where
  "is_string v = (case v of J_Str _ \<Rightarrow> True | _ \<Rightarrow> False)"

lemma json_strings_back: "list_all is_string vs \<Longrightarrow> map J_Str (json_strings vs) = vs"
  by (induction vs) (auto simp: json_strings_def is_string_def split: json.splits)

lemma json_strings_map [simp]: "json_strings (map J_Str ss) = ss"
  by (induction ss) (auto simp: json_strings_def)

lemma all_strings_map [simp]: "list_all is_string (map J_Str ss)"
  by (induction ss) (auto simp: is_string_def)

text \<open>What follows a result that is no error, and what a check lets through.\<close>

definition and_then :: "('e, 'a) result \<Rightarrow> ('a \<Rightarrow> ('e, 'b) result) \<Rightarrow> ('e, 'b) result" where
  "and_then r f = (case r of Err e \<Rightarrow> Err e | Ok x \<Rightarrow> f x)"

lemma and_then_Ok [simp]: "and_then (Ok x) f = f x"
  by (simp add: and_then_def)

lemma and_then_Err [simp]: "and_then (Err e) f = Err e"
  by (simp add: and_then_def)

lemma and_then_is_Ok [simp]: "and_then r f = Ok y \<longleftrightarrow> (\<exists>x. r = Ok x \<and> f x = Ok y)"
  by (cases r) auto

text \<open>\<open>JSON.stringify(s)\<close> of a string of printable characters.\<close>

definition quoted :: "string \<Rightarrow> string" where
  "quoted s = CHR 0x22 # concat (map (\<lambda>c. if c = CHR 0x22 \<or> c = CHR 0x5C then [CHR 0x5C, c] else [c]) s) @ [CHR 0x22]"

end
