(* ===== verification/EpicRegistry.thy ===== *)
theory EpicRegistry
  imports ProjectUri JsJson
begin

section \<open>The armed epics\<close>

text \<open>
  \<open>src/broker/epic-registry.ts\<close>: the epics that were armed and those whose run was deleted, each under
  the identity of its project and its id, written back into the key-value store of the broker after
  every change and read again when the broker starts. The joined key of the source is a pair here,
  since neither part can contain the separator. Without a store the registry is memory only.
\<close>

type_synonym epic_key = "string \<times> string"

type_synonym epic_set = "(epic_key \<times> (string \<times> string)) list"

type_synonym kv_store = "string \<Rightarrow> json option"

record epic_registry =
  armed :: epic_set
  deleted_epics :: epic_set
  kv :: "kv_store option"

abbreviation (input) KV_KEY :: string where "KV_KEY \<equiv> ''epic:armed''"

abbreviation (input) DELETED_KV_KEY :: string where "DELETED_KV_KEY \<equiv> ''epic:deleted''"

definition no_epics :: epic_registry where
  "no_epics = \<lparr>armed = [], deleted_epics = [], kv = None\<rparr>"

definition epic_key :: "url_runtime \<Rightarrow> string \<Rightarrow> string \<Rightarrow> epic_key" where
  "epic_key rt project e = (project_identity_key rt project, e)"

definition set_epic :: "url_runtime \<Rightarrow> string \<times> string \<Rightarrow> epic_set \<Rightarrow> epic_set" where
  "set_epic rt pe m = AList.update (epic_key rt (fst pe) (snd pe)) pe m"

subsection \<open>The store\<close>

definition armed_epic_json :: "string \<times> string \<Rightarrow> json" where
  "armed_epic_json pe = J_Obj [(''project'', J_Str (fst pe)), (''epicId'', J_Str (snd pe))]"

definition put_epics :: "string \<Rightarrow> epic_set \<Rightarrow> kv_store option \<Rightarrow> kv_store option" where
  "put_epics k m s = map_option (\<lambda>s. s(k \<mapsto> J_Arr (map (\<lambda>(_, pe). armed_epic_json pe) m))) s"

definition save_armed :: "epic_registry \<Rightarrow> epic_registry" where
  "save_armed r = r\<lparr>kv := put_epics KV_KEY (armed r) (kv r)\<rparr>"

definition save_deleted :: "epic_registry \<Rightarrow> epic_registry" where
  "save_deleted r = r\<lparr>kv := put_epics DELETED_KV_KEY (deleted_epics r) (kv r)\<rparr>"

text \<open>An entry that is not an object with two strings is passed over.\<close>

definition stored_epic :: "json \<Rightarrow> (string \<times> string) option" where
  "stored_epic entry =
     (case entry of
        J_Obj members \<Rightarrow>
          (case (map_of members ''project'', map_of members ''epicId'') of
             (Some (J_Str p), Some (J_Str e)) \<Rightarrow> Some (p, e)
           | _ \<Rightarrow> None)
      | _ \<Rightarrow> None)"

definition hydrate :: "url_runtime \<Rightarrow> kv_store \<Rightarrow> string \<Rightarrow> epic_set" where
  "hydrate rt s k =
     (case s k of
        Some (J_Arr entries) \<Rightarrow> foldl (\<lambda>m entry. case stored_epic entry of None \<Rightarrow> m | Some pe \<Rightarrow> set_epic rt pe m) [] entries
      | _ \<Rightarrow> [])"

definition init_armed_epics :: "url_runtime \<Rightarrow> kv_store \<Rightarrow> epic_registry" where
  "init_armed_epics rt s = \<lparr>armed = hydrate rt s KV_KEY, deleted_epics = hydrate rt s DELETED_KV_KEY, kv = Some s\<rparr>"

subsection \<open>The operations\<close>

definition note_armed_epic :: "url_runtime \<Rightarrow> string \<Rightarrow> string \<Rightarrow> epic_registry \<Rightarrow> epic_registry" where
  "note_armed_epic rt project e r = save_armed (r\<lparr>armed := set_epic rt (project, e) (armed r)\<rparr>)"

definition forget_armed_epic :: "url_runtime \<Rightarrow> string \<Rightarrow> string \<Rightarrow> epic_registry \<Rightarrow> epic_registry" where
  "forget_armed_epic rt project e r =
     (if map_of (armed r) (epic_key rt project e) \<noteq> None
      then save_armed (r\<lparr>armed := AList.delete (epic_key rt project e) (armed r)\<rparr>) else r)"

definition list_armed_epics :: "epic_registry \<Rightarrow> (string \<times> string) list" where
  "list_armed_epics r = map snd (armed r)"

definition is_armed :: "url_runtime \<Rightarrow> epic_registry \<Rightarrow> string \<Rightarrow> string \<Rightarrow> bool" where
  "is_armed rt r project e \<longleftrightarrow> map_of (armed r) (epic_key rt project e) \<noteq> None"

definition note_deleted_epic :: "url_runtime \<Rightarrow> string \<Rightarrow> string \<Rightarrow> epic_registry \<Rightarrow> epic_registry" where
  "note_deleted_epic rt project e r = save_deleted (r\<lparr>deleted_epics := set_epic rt (project, e) (deleted_epics r)\<rparr>)"

definition forget_deleted_epic :: "url_runtime \<Rightarrow> string \<Rightarrow> string \<Rightarrow> epic_registry \<Rightarrow> epic_registry" where
  "forget_deleted_epic rt project e r =
     (if map_of (deleted_epics r) (epic_key rt project e) \<noteq> None
      then save_deleted (r\<lparr>deleted_epics := AList.delete (epic_key rt project e) (deleted_epics r)\<rparr>) else r)"

definition is_deleted_epic :: "url_runtime \<Rightarrow> epic_registry \<Rightarrow> string \<Rightarrow> string \<Rightarrow> bool" where
  "is_deleted_epic rt r project e \<longleftrightarrow> map_of (deleted_epics r) (epic_key rt project e) \<noteq> None"

definition list_deleted_epics :: "epic_registry \<Rightarrow> (string \<times> string) list" where
  "list_deleted_epics r = map snd (deleted_epics r)"

subsection \<open>The calls of a broker between two starts\<close>

datatype registry_call =
    Note_Armed string string
  | Forget_Armed string string
  | Note_Deleted string string
  | Forget_Deleted string string

fun registry_step :: "url_runtime \<Rightarrow> epic_registry \<Rightarrow> registry_call \<Rightarrow> epic_registry" where
  "registry_step rt r (Note_Armed p e) = note_armed_epic rt p e r"
| "registry_step rt r (Forget_Armed p e) = forget_armed_epic rt p e r"
| "registry_step rt r (Note_Deleted p e) = note_deleted_epic rt p e r"
| "registry_step rt r (Forget_Deleted p e) = forget_deleted_epic rt p e r"

definition registry_run :: "url_runtime \<Rightarrow> registry_call list \<Rightarrow> epic_registry \<Rightarrow> epic_registry" where
  "registry_run rt calls r = foldl (registry_step rt) r calls"

text \<open>Every entry stands under its own key, once.\<close>

definition keyed_set :: "url_runtime \<Rightarrow> epic_set \<Rightarrow> bool" where
  "keyed_set rt m \<longleftrightarrow> distinct (map fst m) \<and> map fst m = map (\<lambda>x. epic_key rt (fst (snd x)) (snd (snd x))) m"

lemma keyed_set_nil [simp]: "keyed_set rt []"
  by (simp add: keyed_set_def)

lemma update_entry: "(x \<in> set (AList.update k v m)) \<Longrightarrow> x = (k, v) \<or> x \<in> set m"
  by (induction m) (auto split: if_splits)

lemma keyed_set_iff: "keyed_set rt m \<longleftrightarrow> distinct (map fst m) \<and> (\<forall>x\<in>set m. fst x = epic_key rt (fst (snd x)) (snd (snd x)))"
  by (simp add: keyed_set_def)

lemma keyed_set_step [simp]:
  assumes "keyed_set rt m"
  shows "keyed_set rt (set_epic rt pe m)" "keyed_set rt (AList.delete k m)"
proof -
  from assms show "keyed_set rt (set_epic rt pe m)"
    unfolding keyed_set_iff set_epic_def by (auto simp: distinct_update dest!: update_entry)
  from assms show "keyed_set rt (AList.delete k m)"
    unfolding keyed_set_iff AList.delete_eq by (auto simp: distinct_map intro: inj_on_subset)
qed

lemma set_epic_append:
  "epic_key rt (fst pe) (snd pe) \<notin> fst ` set m \<Longrightarrow> set_epic rt pe m = m @ [(epic_key rt (fst pe) (snd pe), pe)]"
  unfolding set_epic_def by (induction m) auto

lemma stored_epic_json [simp]: "stored_epic (armed_epic_json pe) = Some pe"
  by (simp add: stored_epic_def armed_epic_json_def)

text \<open>What is written is read back, in its order.\<close>

lemma hydrate_put:
  assumes "keyed_set rt m"
  shows "hydrate rt (s(k \<mapsto> J_Arr (map (\<lambda>(_, pe). armed_epic_json pe) m))) k = m"
proof -
  let ?read = "foldl (\<lambda>m entry. case stored_epic entry of None \<Rightarrow> m | Some pe \<Rightarrow> set_epic rt pe m) [] (map (\<lambda>(_, pe). armed_epic_json pe) m)"
  from assms have "?read = m"
  proof (induction m rule: rev_induct)
    case (snoc x m)
    obtain kx pe where x: "x = (kx, pe)" by (cases x)
    from snoc.prems have d: "distinct (map fst (m @ [(kx, pe)]))" and own: "\<forall>y\<in>set (m @ [(kx, pe)]). fst y = epic_key rt (fst (snd y)) (snd (snd y))"
      unfolding keyed_set_iff x by blast+
    from own have key: "kx = epic_key rt (fst pe) (snd pe)" by simp
    from d have fresh: "kx \<notin> fst ` set m" by simp
    from d own have keyed: "keyed_set rt m" unfolding keyed_set_iff by (intro conjI) simp_all
    show ?case using snoc.IH [OF keyed] fresh by (simp add: x key set_epic_append)
  qed simp
  then show ?thesis by (simp add: hydrate_def)
qed

lemma hydrate_keyed [simp]: "keyed_set rt (hydrate rt s k)"
proof -
  have "keyed_set rt m \<Longrightarrow> keyed_set rt (foldl (\<lambda>m entry. case stored_epic entry of None \<Rightarrow> m | Some pe \<Rightarrow> set_epic rt pe m) m entries)" for m entries
    by (induction entries arbitrary: m) (auto split: option.split)
  then show ?thesis by (auto simp: hydrate_def split: option.split json.split)
qed

lemma hydrate_other: "k \<noteq> l \<Longrightarrow> hydrate rt (s(l \<mapsto> v)) k = hydrate rt s k"
  by (simp add: hydrate_def)

text \<open>The invariant of a broker with a store: the store would be read as the registry is.\<close>

definition saved :: "url_runtime \<Rightarrow> epic_registry \<Rightarrow> bool" where
  "saved rt r \<longleftrightarrow> keyed_set rt (armed r) \<and> keyed_set rt (deleted_epics r)
     \<and> (case kv r of None \<Rightarrow> False | Some s \<Rightarrow> hydrate rt s KV_KEY = armed r \<and> hydrate rt s DELETED_KV_KEY = deleted_epics r)"

lemma saved_step: "saved rt r \<Longrightarrow> saved rt (registry_step rt r c)"
  by (cases c) (auto simp: saved_def note_armed_epic_def forget_armed_epic_def note_deleted_epic_def forget_deleted_epic_def
    save_armed_def save_deleted_def put_epics_def hydrate_put hydrate_other split: option.splits)

text \<open>What the calls so far say of one epic, given what was known at the start.\<close>

fun said_of :: "url_runtime \<Rightarrow> string \<Rightarrow> string \<Rightarrow> bool \<times> bool \<Rightarrow> registry_call \<Rightarrow> bool \<times> bool" where
  "said_of rt p e (a, d) (Note_Armed q f) = (if f = e \<and> is_same_project rt p q then True else a, d)"
| "said_of rt p e (a, d) (Forget_Armed q f) = (if f = e \<and> is_same_project rt p q then False else a, d)"
| "said_of rt p e (a, d) (Note_Deleted q f) = (a, if f = e \<and> is_same_project rt p q then True else d)"
| "said_of rt p e (a, d) (Forget_Deleted q f) = (a, if f = e \<and> is_same_project rt p q then False else d)"

lemma said_step:
  "(is_armed rt (registry_step rt r c) p e, is_deleted_epic rt (registry_step rt r c) p e)
     = said_of rt p e (is_armed rt r p e, is_deleted_epic rt r p e) c"
  by (cases c) (auto simp: is_armed_def is_deleted_epic_def note_armed_epic_def forget_armed_epic_def note_deleted_epic_def
    forget_deleted_epic_def save_armed_def save_deleted_def set_epic_def update_conv' delete_conv' epic_key_def is_same_project_key)

lemma saved_run: "saved rt r \<Longrightarrow> saved rt (registry_run rt calls r)"
  unfolding registry_run_def by (induction calls arbitrary: r) (simp_all add: saved_step)

lemma said_run:
  "(is_armed rt (registry_run rt calls r) p e, is_deleted_epic rt (registry_run rt calls r) p e)
     = foldl (said_of rt p e) (is_armed rt r p e, is_deleted_epic rt r p e) calls"
  unfolding registry_run_def by (induction calls arbitrary: r) (simp_all add: said_step [symmetric])

text \<open>
  C27: a restart of the broker forgets no run. Whatever the store held at the start, junk included, and
  whatever was armed, forgotten, deleted and undeleted since, under whatever spellings of the project,
  a broker started on the store now has the same armed epics and the same deleted ones in the same order;
  and an epic is armed, or deleted, exactly when the latest call about it said so, or none did and the
  store said so.
\<close>

theorem restart_forgets_nothing:
  "let r0 = init_armed_epics rt s; r = registry_run rt calls r0
   in (case kv r of
         None \<Rightarrow> False
       | Some s' \<Rightarrow> list_armed_epics (init_armed_epics rt s') = list_armed_epics r \<and> list_deleted_epics (init_armed_epics rt s') = list_deleted_epics r
           \<and> is_armed rt (init_armed_epics rt s') p e = is_armed rt r p e)
     \<and> (is_armed rt r p e, is_deleted_epic rt r p e)
         = foldl (said_of rt p e) (is_armed rt r0 p e, is_deleted_epic rt r0 p e) calls"
proof -
  have "saved rt (init_armed_epics rt s)" by (simp add: saved_def init_armed_epics_def)
  from saved_run [OF this, of calls] said_run [of rt calls "init_armed_epics rt s" p e] show ?thesis
    by (auto simp: saved_def init_armed_epics_def list_armed_epics_def list_deleted_epics_def is_armed_def Let_def split: option.splits)
qed

end
