(* ===== verification/EpicSweep.thy ===== *)
theory EpicSweep
  imports EpicLog EpicRegistry
begin

section \<open>The sweep\<close>

text \<open>
  \<open>src/broker/epic-sweep.ts\<close>: the fold of every conversation of the broker into what each epic has
  running, settled, failed and lost, with the reapers of \<open>src/broker/epic-vitality.ts\<close>, the liveness of
  \<open>src/broker/werk-liveness.ts\<close> and the reserved words of
  \<open>src/shared/scanner-ids.ts\<close>. A \<open>Map\<close> is an association list in insertion order; the fold is shown
  to be, per epic and per card, a statement about the conversations in it.
\<close>

subsection \<open>Conversations\<close>

record launch_tag =
  launch_epic :: string
  launch_role :: epic_role
  launch_card :: "string option"
  launch_gen :: int

text \<open>The fields of a conversation the sweep reads; \<open>launch_tag\<close> is \<open>launchConfig?.epic\<close>.\<close>

record conversation =
  conv_id :: string
  conv_project :: string
  conv_status :: string
  last_activity :: int
  agent_host_type :: "string option"
  conv_tag :: "launch_tag option"

definition werk_liveness :: "(string \<Rightarrow> nat) \<Rightarrow> conversation \<Rightarrow> bool" where
  "werk_liveness connections v \<longleftrightarrow> conv_status v \<noteq> ''ended'' \<or> 0 < connections (conv_id v)"

subsection \<open>Reaping\<close>

abbreviation (input) SEAT_SILENCE_MS :: int where "SEAT_SILENCE_MS \<equiv> 600000"

abbreviation (input) WERK_MASTER_SILENCE_MS :: int where "WERK_MASTER_SILENCE_MS \<equiv> 900000"

definition silent_for_ms :: "conversation \<Rightarrow> int \<Rightarrow> int" where
  "silent_for_ms v now = max 0 (now - last_activity v)"

text \<open>\<open>resolveBackend(conv).requiresAgentSocket\<close>: of the registered backends only these two do without.\<close>

definition requires_agent_socket :: "conversation \<Rightarrow> bool" where
  "requires_agent_socket v \<longleftrightarrow> agent_host_type v \<notin> {Some ''chat-api'', Some ''hermes''}"

definition answers_to_a_socket :: "conversation \<Rightarrow> bool" where
  "answers_to_a_socket v \<longleftrightarrow> (if \<not> requires_agent_socket v then False else agent_host_type v \<noteq> Some ''daemon'')"

definition seat_abandoned :: "conversation \<Rightarrow> (string \<Rightarrow> bool) \<Rightarrow> int \<Rightarrow> int \<Rightarrow> bool" where
  "seat_abandoned v has_socket now silence_ms \<longleftrightarrow>
     (if \<not> answers_to_a_socket v then False
      else if has_socket (conv_id v) then False
      else silence_ms < silent_for_ms v now)"

text \<open>A reaper answers with how long the conversation has been silent.\<close>

type_synonym reaper = "conversation \<Rightarrow> int option"

definition build_reaper :: "(string \<Rightarrow> bool) \<Rightarrow> int \<Rightarrow> int \<Rightarrow> reaper" where
  "build_reaper has_socket now silence_ms v =
     (if \<not> seat_abandoned v has_socket now silence_ms then None else Some (silent_for_ms v now))"

definition build_seat_reaper :: "(string \<Rightarrow> bool) \<Rightarrow> int \<Rightarrow> reaper" where
  "build_seat_reaper has_socket now = build_reaper has_socket now SEAT_SILENCE_MS"

definition build_werk_master_reaper :: "(string \<Rightarrow> bool) \<Rightarrow> int \<Rightarrow> reaper" where
  "build_werk_master_reaper has_socket now = build_reaper has_socket now WERK_MASTER_SILENCE_MS"

subsection \<open>The group of an epic\<close>

record abandoned =
  lost_conv :: string
  lost_gen :: int
  lost_activity :: int
  lost_silent :: int
  lost_status :: string

record abandoned_seat = abandoned +
  lost_card :: string
  lost_role :: epic_role

record epic_group =
  group_epic :: string
  group_project :: string
  group_in_flight :: "string list"
  group_in_verify :: "string list"
  group_master_alive :: bool
  live_werk_masters :: "string list"
  abandoned_werk_masters :: "abandoned list"
  settled :: "string list"
  failed_legs :: "failed_leg list"
  abandoned_seats :: "abandoned_seat list"
  unlaunchable :: "string list"
  conv_ids :: "string list"
  max_gen_seen :: int

definition MAX_LAUNCH_ATTEMPTS :: nat where "MAX_LAUNCH_ATTEMPTS = 3"

definition empty_group :: "string \<Rightarrow> string \<Rightarrow> epic_group" where
  "empty_group e project =
     \<lparr>group_epic = e, group_project = project, group_in_flight = [], group_in_verify = [], group_master_alive = False, live_werk_masters = [],
      abandoned_werk_masters = [], settled = [], failed_legs = [], abandoned_seats = [], unlaunchable = [], conv_ids = [],
      max_gen_seen = 0\<rparr>"

record sweep_env =
  is_live :: "conversation \<Rightarrow> bool"
  produced_output :: "conversation \<Rightarrow> bool"
  seat_reaper :: reaper
  werk_master_reaper :: reaper

type_synonym card_liveness = "(string \<times> (string \<times> bool) list) list"

record accumulators =
  acc_groups :: "(string \<times> epic_group) list"
  acc_cards :: card_liveness
  acc_verifiers :: card_liveness
  acc_outputs :: card_liveness

definition note_card :: "string \<Rightarrow> bool \<Rightarrow> (string \<times> bool) list option \<Rightarrow> (string \<times> bool) list" where
  "note_card c alive m =
     (let by_card = (case m of None \<Rightarrow> [] | Some x \<Rightarrow> x)
      in AList.update c (map_of by_card c = Some True \<or> alive) by_card)"

definition note_card_liveness :: "card_liveness \<Rightarrow> string \<Rightarrow> string \<Rightarrow> bool \<Rightarrow> card_liveness" where
  "note_card_liveness m e c alive = AList.update e (note_card c alive (map_of m e)) m"

definition live_seat :: "sweep_env \<Rightarrow> conversation \<Rightarrow> bool" where
  "live_seat env v \<longleftrightarrow> is_live env v \<and> seat_reaper env v = None"

definition absorb_card_seat :: "sweep_env \<Rightarrow> conversation \<Rightarrow> string \<Rightarrow> launch_tag \<Rightarrow> epic_group \<Rightarrow> epic_group" where
  "absorb_card_seat env v c t g =
     (let reaping = (if is_live env v then seat_reaper env v else None);
          g1 = (case reaping of
              None \<Rightarrow> g
            | Some ms \<Rightarrow> g\<lparr>abandoned_seats := abandoned_seats g @ [\<lparr>lost_conv = conv_id v, lost_gen = launch_gen t,
                lost_activity = last_activity v, lost_silent = ms, lost_status = conv_status v, lost_card = c, lost_role = launch_role t\<rparr>]\<rparr>);
          alive = (is_live env v \<and> reaping = None)
      in if \<not> alive \<and> \<not> produced_output env v
         then g1\<lparr>failed_legs := failed_legs g1 @ [\<lparr>leg_card = c, leg_conv = conv_id v, leg_role = launch_role t, leg_gen = launch_gen t\<rparr>]\<rparr>
         else g1)"

definition absorb_werk_master :: "sweep_env \<Rightarrow> conversation \<Rightarrow> int \<Rightarrow> epic_group \<Rightarrow> epic_group" where
  "absorb_werk_master env v g_no g =
     (if \<not> is_live env v then g
      else case werk_master_reaper env v of
        None \<Rightarrow> g\<lparr>group_master_alive := True, live_werk_masters := live_werk_masters g @ [conv_id v]\<rparr>
      | Some ms \<Rightarrow> g\<lparr>abandoned_werk_masters := abandoned_werk_masters g @ [\<lparr>lost_conv = conv_id v, lost_gen = g_no,
          lost_activity = last_activity v, lost_silent = ms, lost_status = conv_status v\<rparr>]\<rparr>)"

text \<open>What one tagged conversation does to the group of its epic.\<close>

definition absorb_in_group :: "sweep_env \<Rightarrow> conversation \<Rightarrow> launch_tag \<Rightarrow> epic_group option \<Rightarrow> epic_group" where
  "absorb_in_group env v t known =
     (let g = (case known of None \<Rightarrow> empty_group (launch_epic t) (conv_project v) | Some x \<Rightarrow> x);
          g1 = g\<lparr>max_gen_seen := max (max_gen_seen g) (launch_gen t), conv_ids := conv_ids g @ [conv_id v]\<rparr>
      in if launch_role t = Werk_Master then absorb_werk_master env v (launch_gen t) g1
         else case launch_card t of
           None \<Rightarrow> g1
         | Some c \<Rightarrow> if c = [] then g1 else absorb_card_seat env v c t g1)"

definition absorb :: "sweep_env \<Rightarrow> accumulators \<Rightarrow> conversation \<Rightarrow> accumulators" where
  "absorb env acc v =
     (case conv_tag v of
        None \<Rightarrow> acc
      | Some t \<Rightarrow>
          if launch_epic t = [] then acc
          else
            let acc1 = acc\<lparr>acc_groups := AList.update (launch_epic t) (absorb_in_group env v t (map_of (acc_groups acc) (launch_epic t))) (acc_groups acc)\<rparr>
            in if launch_role t = Werk_Master then acc1
               else case launch_card t of
                 None \<Rightarrow> acc1
               | Some c \<Rightarrow>
                   if c = [] then acc1
                   else acc1\<lparr>acc_cards := note_card_liveness (acc_cards acc1) (launch_epic t) c (live_seat env v),
                          acc_verifiers := (if launch_role t = Werk_Verifier
                             then note_card_liveness (acc_verifiers acc1) (launch_epic t) c (live_seat env v) else acc_verifiers acc1),
                          acc_outputs := note_card_liveness (acc_outputs acc1) (launch_epic t) c (produced_output env v)\<rparr>)"

subsection \<open>The lanes\<close>

definition failures_of :: "epic_group \<Rightarrow> string \<Rightarrow> nat" where
  "failures_of g c = length (filter (\<lambda>l. leg_card l = c) (failed_legs g))"

definition fold_work_lanes :: "epic_group \<Rightarrow> (string \<times> bool) list \<Rightarrow> (string \<times> bool) list \<Rightarrow> epic_group" where
  "fold_work_lanes g by_card outputs =
     (let dead = map fst (filter (\<lambda>(_, alive). \<not> alive) by_card);
          worked = (\<lambda>c. case map_of outputs c of None \<Rightarrow> True | Some b \<Rightarrow> b)
      in g\<lparr>group_in_flight := str_sort (group_in_flight g @ map fst (filter snd by_card)),
           settled := str_sort (settled g @ filter worked dead),
           unlaunchable := str_sort (unlaunchable g @ filter (\<lambda>c. \<not> worked c \<and> MAX_LAUNCH_ATTEMPTS \<le> failures_of g c) dead)\<rparr>)"

definition fold_verify_lane :: "epic_group \<Rightarrow> (string \<times> bool) list \<Rightarrow> epic_group" where
  "fold_verify_lane g by_card = g\<lparr>group_in_verify := str_sort (group_in_verify g @ map fst (filter snd by_card))\<rparr>"

definition lanes_of :: "accumulators \<Rightarrow> string \<Rightarrow> epic_group \<Rightarrow> epic_group" where
  "lanes_of acc e g =
     (let g1 = (case map_of (acc_cards acc) e of
          None \<Rightarrow> g
        | Some by_card \<Rightarrow> fold_work_lanes g by_card (case map_of (acc_outputs acc) e of None \<Rightarrow> [] | Some outs \<Rightarrow> outs))
      in case map_of (acc_verifiers acc) e of None \<Rightarrow> g1 | Some by_card \<Rightarrow> fold_verify_lane g1 by_card)"

definition split_lanes :: "accumulators \<Rightarrow> (string \<times> epic_group) list" where
  "split_lanes acc = map (\<lambda>(e, g). (e, lanes_of acc e g)) (acc_groups acc)"

definition no_accumulators :: accumulators where
  "no_accumulators = \<lparr>acc_groups = [], acc_cards = [], acc_verifiers = [], acc_outputs = []\<rparr>"

definition group_epic_conversations :: "sweep_env \<Rightarrow> conversation list \<Rightarrow> (string \<times> epic_group) list" where
  "group_epic_conversations env convs = split_lanes (foldl (absorb env) no_accumulators convs)"

subsection \<open>What the beat and the log ask of a group\<close>

definition generation_mismatch :: "epic_group \<Rightarrow> int \<Rightarrow> string option" where
  "generation_mismatch g lease_gen =
     (if lease_gen < max_gen_seen g
      then Some (''conversations tagged gen '' @ int_str (max_gen_seen g) @ '' but the lease says '' @ int_str lease_gen
        @ '' -- spawns may be racing the lease'')
      else None)"

subsection \<open>The epics to watch\<close>

definition SCANNER_IDS :: "string list" where
  "SCANNER_IDS = [''refine'', ''nightshift'', ''work-order'', ''epics'', ''morning-report'']"

definition SCANNER_ID_ALIASES :: "(string \<times> string) list" where
  "SCANNER_ID_ALIASES = [(''work-orders'', ''work-order'')]"

definition canonical_scanner_id :: "string \<Rightarrow> string option" where
  "canonical_scanner_id raw = (if raw \<in> set SCANNER_IDS then Some raw else map_of SCANNER_ID_ALIASES raw)"

definition is_reserved_scanner_lane :: "string \<Rightarrow> bool" where
  "is_reserved_scanner_lane e \<longleftrightarrow> canonical_scanner_id e \<noteq> None"

definition watchable :: "url_runtime \<Rightarrow> epic_registry \<Rightarrow> epic_group \<Rightarrow> bool" where
  "watchable rt r g \<longleftrightarrow> \<not> is_reserved_scanner_lane (group_epic g) \<and> \<not> is_deleted_epic rt r (group_project g) (group_epic g)"

text \<open>The groups of the conversations, and an empty one for each armed epic that has none.\<close>

definition fill_armed :: "(string \<times> epic_group) list \<Rightarrow> (string \<times> string) list \<Rightarrow> (string \<times> epic_group) list" where
  "fill_armed groups entries =
     foldl (\<lambda>m (project, e). if map_of m e = None then AList.update e (empty_group e project) m else m) groups entries"

definition epics_to_watch :: "url_runtime \<Rightarrow> epic_registry \<Rightarrow> sweep_env \<Rightarrow> conversation list \<Rightarrow> epic_group list" where
  "epics_to_watch rt r env convs =
     filter (watchable rt r) (map snd (fill_armed (group_epic_conversations env convs) (list_armed_epics r)))"

text \<open>The group a beat by hand is run on (\<open>pickBeatGroup\<close> of \<open>src/broker/epic-sweep-loop.ts\<close>).\<close>

definition pick_beat_group :: "url_runtime \<Rightarrow> epic_group list \<Rightarrow> string \<Rightarrow> string \<Rightarrow> epic_group" where
  "pick_beat_group rt watched project e =
     (case find (\<lambda>g. group_epic g = e \<and> is_same_project rt (group_project g) project) watched of
        None \<Rightarrow> empty_group e project
      | Some g \<Rightarrow> g)"

subsection \<open>The fold, epic by epic\<close>

text \<open>A fold that updates one entry of a map per element, read at one key.\<close>

lemma keyed_acc:
  assumes "\<And>acc v. map_of (get (absorb env acc v)) k = (if key v = Some k then Some (f v (map_of (get acc) k)) else map_of (get acc) k)"
  shows "map_of (get (foldl (absorb env) acc vs)) k = foldl (\<lambda>x v. Some (f v x)) (map_of (get acc) k) (filter (\<lambda>v. key v = Some k) vs)"
  using assms by (induction vs arbitrary: acc) simp_all

definition epic_of :: "conversation \<Rightarrow> string option" where
  "epic_of v = (case conv_tag v of None \<Rightarrow> None | Some t \<Rightarrow> if launch_epic t = [] then None else Some (launch_epic t))"

definition role_of :: "conversation \<Rightarrow> epic_role option" where
  "role_of v = map_option launch_role (conv_tag v)"

text \<open>The card a conversation has a seat on.\<close>

definition seat_card :: "conversation \<Rightarrow> string option" where
  "seat_card v =
     (case conv_tag v of None \<Rightarrow> None | Some t \<Rightarrow> if launch_role t = Werk_Master \<or> launch_card t = Some [] then None else launch_card t)"

definition seats_on :: "conversation list \<Rightarrow> string \<Rightarrow> string \<Rightarrow> conversation list" where
  "seats_on convs e c = filter (\<lambda>v. epic_of v = Some e \<and> seat_card v = Some c) convs"

definition seat_epic :: "conversation \<Rightarrow> string option" where
  "seat_epic v = (case seat_card v of None \<Rightarrow> None | Some _ \<Rightarrow> epic_of v)"

lemma groups_step:
  "map_of (acc_groups (absorb env acc v)) e
     = (if epic_of v = Some e then Some (absorb_in_group env v (the (conv_tag v)) (map_of (acc_groups acc) e)) else map_of (acc_groups acc) e)"
  by (auto simp: absorb_def epic_of_def Let_def split: option.split)

lemma liveness_step:
  "map_of (acc_cards (absorb env acc v)) e
     = (if seat_epic v = Some e then Some (note_card (the (seat_card v)) (live_seat env v) (map_of (acc_cards acc) e)) else map_of (acc_cards acc) e)"
  "map_of (acc_outputs (absorb env acc v)) e
     = (if seat_epic v = Some e then Some (note_card (the (seat_card v)) (produced_output env v) (map_of (acc_outputs acc) e)) else map_of (acc_outputs acc) e)"
  "map_of (acc_verifiers (absorb env acc v)) e
     = (if (if role_of v = Some Werk_Verifier then seat_epic v else None) = Some e
        then Some (note_card (the (seat_card v)) (live_seat env v) (map_of (acc_verifiers acc) e)) else map_of (acc_verifiers acc) e)"
  by (auto simp: absorb_def seat_epic_def epic_of_def seat_card_def role_of_def note_card_liveness_def Let_def split: option.split)

text \<open>The liveness of the cards of one epic, as the fold over its seats.\<close>

definition cards_alive :: "(conversation \<Rightarrow> bool) \<Rightarrow> conversation list \<Rightarrow> (string \<times> bool) list" where
  "cards_alive alive vs = foldl (\<lambda>m v. note_card (the (seat_card v)) (alive v) (Some m)) [] vs"

lemma note_fold: "foldl (\<lambda>x v. Some (note_card (the (seat_card v)) (alive v) x)) None vs = (if vs = [] then None else Some (cards_alive alive vs))"
proof -
  have some: "foldl (\<lambda>x v. Some (note_card (the (seat_card v)) (alive v) x)) (Some m) vs = Some (foldl (\<lambda>m v. note_card (the (seat_card v)) (alive v) (Some m)) m vs)"
    for m vs by (induction vs arbitrary: m) simp_all
  show ?thesis
  proof (cases vs)
    case (Cons v vs')
    have "note_card c b None = note_card c b (Some [])" for c b by (simp add: note_card_def)
    with Cons some show ?thesis by (simp add: cards_alive_def)
  qed simp
qed

lemma map_of_cards_alive:
  "map_of (cards_alive alive vs) c
     = (let xs = filter (\<lambda>v. the (seat_card v) = c) vs in if xs = [] then None else Some (list_ex alive xs))"
proof (induction vs rule: rev_induct)
  case (snoc v vs)
  have "cards_alive alive (vs @ [v]) = note_card (the (seat_card v)) (alive v) (Some (cards_alive alive vs))" by (simp add: cards_alive_def)
  with snoc show ?case by (auto simp: note_card_def Let_def split: if_splits)
qed (simp add: cards_alive_def)

lemma distinct_cards_alive [simp]: "distinct (map fst (cards_alive alive vs))"
  by (induction vs rule: rev_induct) (simp_all add: cards_alive_def note_card_def distinct_update)

text \<open>The group of one epic before its lanes are folded.\<close>

definition raw_group :: "sweep_env \<Rightarrow> conversation list \<Rightarrow> string \<Rightarrow> epic_group option" where
  "raw_group env convs e =
     foldl (\<lambda>x v. Some (absorb_in_group env v (the (conv_tag v)) x)) None (filter (\<lambda>v. epic_of v = Some e) convs)"

lemma map_of_split: "map_of (map (\<lambda>(k, x). (k, f k x)) m) k = map_option (f k) (map_of m k)"
  by (induction m) auto

lemma group_of_epic:
  fixes convs e
  defines "seats \<equiv> filter (\<lambda>v. seat_epic v = Some e) convs"
  defines "verifiers \<equiv> filter (\<lambda>v. role_of v = Some Werk_Verifier) seats"
  shows "map_of (group_epic_conversations env convs) e =
     map_option (\<lambda>g.
       let g1 = (if seats = [] then g else fold_work_lanes g (cards_alive (live_seat env) seats) (cards_alive (produced_output env) seats))
       in if verifiers = [] then g1 else fold_verify_lane g1 (cards_alive (live_seat env) verifiers)) (raw_group env convs e)"
proof -
  let ?acc = "foldl (absorb env) no_accumulators convs"
  let ?vkey = "\<lambda>v. if role_of v = Some Werk_Verifier then seat_epic v else None"
  have vs: "filter (\<lambda>v. ?vkey v = Some e) convs = verifiers"
    unfolding verifiers_def seats_def filter_filter by (rule filter_cong) (auto simp: seat_epic_def split: option.splits)
  have ss: "filter (\<lambda>v. seat_epic v = Some e) convs = seats" by (simp add: seats_def)
  have cards: "map_of (acc_cards ?acc) e = (if seats = [] then None else Some (cards_alive (live_seat env) seats))"
    using keyed_acc [where get = acc_cards, OF liveness_step(1)] by (simp add: ss note_fold no_accumulators_def)
  have outputs: "map_of (acc_outputs ?acc) e = (if seats = [] then None else Some (cards_alive (produced_output env) seats))"
    using keyed_acc [where get = acc_outputs, OF liveness_step(2)] by (simp add: ss note_fold no_accumulators_def)
  have verifs: "map_of (acc_verifiers ?acc) e = (if verifiers = [] then None else Some (cards_alive (live_seat env) verifiers))"
    using keyed_acc [where get = acc_verifiers, OF liveness_step(3), of env no_accumulators convs e] unfolding vs by (simp add: note_fold no_accumulators_def)
  have groups: "map_of (acc_groups ?acc) e = raw_group env convs e"
    using keyed_acc [where get = acc_groups, OF groups_step] by (simp add: raw_group_def no_accumulators_def)
  show ?thesis
    unfolding group_epic_conversations_def split_lanes_def
    by (simp add: map_of_split groups cards outputs verifs lanes_of_def Let_def cong: if_cong)
qed

subsection \<open>What the raw group holds\<close>

definition silent_death :: "sweep_env \<Rightarrow> conversation \<Rightarrow> bool" where
  "silent_death env v \<longleftrightarrow> seat_card v \<noteq> None \<and> \<not> live_seat env v \<and> \<not> produced_output env v"

definition live_master :: "sweep_env \<Rightarrow> conversation \<Rightarrow> bool" where
  "live_master env v \<longleftrightarrow> role_of v = Some Werk_Master \<and> is_live env v \<and> werk_master_reaper env v = None"

lemma absorb_keeps [simp]:
  "group_in_flight (absorb_in_group env v t x) = (case x of None \<Rightarrow> [] | Some g \<Rightarrow> group_in_flight g)"
  "group_in_verify (absorb_in_group env v t x) = (case x of None \<Rightarrow> [] | Some g \<Rightarrow> group_in_verify g)"
  "settled (absorb_in_group env v t x) = (case x of None \<Rightarrow> [] | Some g \<Rightarrow> settled g)"
  "unlaunchable (absorb_in_group env v t x) = (case x of None \<Rightarrow> [] | Some g \<Rightarrow> unlaunchable g)"
  "group_epic (absorb_in_group env v t x) = (case x of None \<Rightarrow> launch_epic t | Some g \<Rightarrow> group_epic g)"
  "group_project (absorb_in_group env v t x) = (case x of None \<Rightarrow> conv_project v | Some g \<Rightarrow> group_project g)"
  "conv_ids (absorb_in_group env v t x) = (case x of None \<Rightarrow> [] | Some g \<Rightarrow> conv_ids g) @ [conv_id v]"
  "max_gen_seen (absorb_in_group env v t x) = max (case x of None \<Rightarrow> 0 | Some g \<Rightarrow> max_gen_seen g) (launch_gen t)"
  by (auto simp: absorb_in_group_def absorb_card_seat_def absorb_werk_master_def empty_group_def Let_def split: option.split)

lemma absorb_adds:
  assumes "conv_tag v = Some t"
  shows "map (\<lambda>l. (leg_card l, leg_conv l)) (failed_legs (absorb_in_group env v t x))
      = map (\<lambda>l. (leg_card l, leg_conv l)) (case x of None \<Rightarrow> [] | Some g \<Rightarrow> failed_legs g)
        @ (if silent_death env v then [(the (seat_card v), conv_id v)] else [])"
    and "live_werk_masters (absorb_in_group env v t x)
      = (case x of None \<Rightarrow> [] | Some g \<Rightarrow> live_werk_masters g) @ (if live_master env v then [conv_id v] else [])"
    and "group_master_alive (absorb_in_group env v t x)
      \<longleftrightarrow> (case x of None \<Rightarrow> False | Some g \<Rightarrow> group_master_alive g) \<or> live_master env v"
  using assms
  by (auto simp: absorb_in_group_def absorb_card_seat_def absorb_werk_master_def empty_group_def silent_death_def live_master_def role_of_def
      seat_card_def live_seat_def Let_def split: option.split)

lemma raw_group_fields:
  assumes "vs = filter (\<lambda>v. epic_of v = Some e) convs"
  shows "case raw_group env convs e of
      None \<Rightarrow> vs = []
    | Some g \<Rightarrow> vs \<noteq> [] \<and> group_in_flight g = [] \<and> group_in_verify g = [] \<and> settled g = [] \<and> unlaunchable g = []
        \<and> group_epic g = e \<and> group_project g = conv_project (hd vs) \<and> conv_ids g = map conv_id vs
        \<and> map (\<lambda>l. (leg_card l, leg_conv l)) (failed_legs g) = map (\<lambda>v. (the (seat_card v), conv_id v)) (filter (silent_death env) vs)
        \<and> live_werk_masters g = map conv_id (filter (live_master env) vs)
        \<and> (group_master_alive g \<longleftrightarrow> list_ex (live_master env) vs)
        \<and> max_gen_seen g = foldl max 0 (map (\<lambda>v. launch_gen (the (conv_tag v))) vs)"
proof -
  have "case foldl (\<lambda>x v. Some (absorb_in_group env v (the (conv_tag v)) x)) None ws of
      None \<Rightarrow> ws = []
    | Some g \<Rightarrow> ws \<noteq> [] \<and> group_in_flight g = [] \<and> group_in_verify g = [] \<and> settled g = [] \<and> unlaunchable g = []
        \<and> group_epic g = e \<and> group_project g = conv_project (hd ws) \<and> conv_ids g = map conv_id ws
        \<and> map (\<lambda>l. (leg_card l, leg_conv l)) (failed_legs g) = map (\<lambda>v. (the (seat_card v), conv_id v)) (filter (silent_death env) ws)
        \<and> live_werk_masters g = map conv_id (filter (live_master env) ws)
        \<and> (group_master_alive g \<longleftrightarrow> list_ex (live_master env) ws)
        \<and> max_gen_seen g = foldl max 0 (map (\<lambda>v. launch_gen (the (conv_tag v))) ws)"
    if "list_all (\<lambda>v. epic_of v = Some e) ws" for ws
    using that
  proof (induction ws rule: rev_induct)
    case (snoc v ws)
    then obtain t where t: "conv_tag v = Some t" "launch_epic t = e" by (auto simp: epic_of_def split: option.splits if_splits)
    show ?case
      using snoc.IH snoc.prems t by (auto simp: absorb_adds [OF t(1)] split: option.splits)
  qed simp
  from this [of vs] show ?thesis unfolding raw_group_def assms by (simp add: list_all_iff)
qed

subsection \<open>The lanes of an epic\<close>

definition is_lane :: "string list \<Rightarrow> string set \<Rightarrow> bool" where
  "is_lane xs A \<longleftrightarrow> sorted xs \<and> distinct xs \<and> set xs = A"

lemma is_lane_sorted: "distinct xs \<Longrightarrow> set xs = A \<Longrightarrow> is_lane (str_sort xs) A"
  using linorder_cmp.sorted_sort_by by (simp add: is_lane_def)

lemma distinct_fst_filter: "distinct (map fst m) \<Longrightarrow> distinct (map fst (filter P m))"
  by (induction m) auto

lemma seats_filter:
  "filter (\<lambda>v. the (seat_card v) = c) (filter (\<lambda>v. seat_epic v = Some e) convs) = seats_on convs e c"
  "filter (\<lambda>v. the (seat_card v) = c) (filter (\<lambda>v. role_of v = Some r) (filter (\<lambda>v. seat_epic v = Some e) convs))
    = filter (\<lambda>v. role_of v = Some r) (seats_on convs e c)"
  unfolding seats_on_def filter_filter by (rule filter_cong; auto simp: seat_epic_def split: option.splits)+

lemma in_lane:
  "(\<exists>b. (c, b) \<in> set (cards_alive alive vs) \<and> P b)
     \<longleftrightarrow> filter (\<lambda>v. the (seat_card v) = c) vs \<noteq> [] \<and> P (list_ex alive (filter (\<lambda>v. the (seat_card v) = c) vs))"
proof -
  have "(c, b) \<in> set (cards_alive alive vs) \<longleftrightarrow> map_of (cards_alive alive vs) c = Some b" for b by (simp add: map_of_eq_Some_iff)
  then show ?thesis by (auto simp: map_of_cards_alive Let_def)
qed

lemma lane_of: "set (map fst (filter (\<lambda>x. P (snd x)) m)) = {c. \<exists>b. (c, b) \<in> set m \<and> P b}"
  by (auto simp: image_iff)

lemma failures_on_card:
  assumes "raw_group env convs e = Some g" "\<not> list_ex (live_seat env) (seats_on convs e c)" "\<not> list_ex (produced_output env) (seats_on convs e c)"
  shows "failures_of g c = length (seats_on convs e c)"
proof -
  let ?mine = "filter (\<lambda>v. epic_of v = Some e) convs"
  have raw: "map (\<lambda>l. (leg_card l, leg_conv l)) (failed_legs g) = map (\<lambda>v. (the (seat_card v), conv_id v)) (filter (silent_death env) ?mine)"
    using raw_group_fields [of ?mine e convs env, OF refl, unfolded assms(1) option.case] by (elim conjE)
  have "failures_of g c = length (filter (\<lambda>x. fst x = c) (map (\<lambda>l. (leg_card l, leg_conv l)) (failed_legs g)))"
    by (simp add: failures_of_def filter_map comp_def)
  also have "\<dots> = length (filter (\<lambda>v. the (seat_card v) = c) (filter (silent_death env) ?mine))"
    unfolding raw by (simp only: filter_map length_map comp_def fst_conv)
  also have "filter (\<lambda>v. the (seat_card v) = c) (filter (silent_death env) ?mine) = seats_on convs e c"
    unfolding seats_on_def filter_filter
    by (rule filter_cong) (use assms(2,3) in \<open>auto simp: silent_death_def seats_on_def list_ex_iff\<close>)
  finally show ?thesis .
qed

lemma work_lanes:
  fixes env convs e
  defines "seats \<equiv> filter (\<lambda>v. seat_epic v = Some e) convs"
  defines "working c \<equiv> list_ex (live_seat env) (seats_on convs e c)" and "worked c \<equiv> list_ex (produced_output env) (seats_on convs e c)"
  assumes g: "raw_group env convs e = Some g"
  defines "w \<equiv> fold_work_lanes g (cards_alive (live_seat env) seats) (cards_alive (produced_output env) seats)"
  shows "is_lane (group_in_flight w) {c. working c}" "is_lane (settled w) {c. seats_on convs e c \<noteq> [] \<and> \<not> working c \<and> worked c}"
    "is_lane (unlaunchable w) {c. \<not> working c \<and> \<not> worked c \<and> 3 \<le> length (seats_on convs e c)}"
proof -
  note raw = raw_group_fields [of "filter (\<lambda>v. epic_of v = Some e) convs" e convs env, OF refl, unfolded g option.case]
  define alive outs where "alive = cards_alive (live_seat env) seats" and "outs = cards_alive (produced_output env) seats"
  define dl yes where "dl = map fst (filter (\<lambda>(_, b). \<not> b) alive)" and "yes = (\<lambda>c. case map_of outs c of None \<Rightarrow> True | Some b \<Rightarrow> b)"
  have on: "filter (\<lambda>v. the (seat_card v) = c) seats = seats_on convs e c" for c by (simp only: seats_def seats_filter)
  have d: "distinct (map fst alive)" by (simp add: alive_def)
  have live: "set (map fst (filter snd alive)) = {c. working c}"
    using lane_of [of "\<lambda>b. b" alive] unfolding alive_def in_lane on by (auto simp: working_def)
  have dead: "set dl = {c. seats_on convs e c \<noteq> [] \<and> \<not> working c}" "distinct dl"
    using lane_of [of Not alive] d unfolding dl_def alive_def in_lane on by (auto simp: working_def case_prod_unfold distinct_fst_filter)
  have answer: "yes c \<longleftrightarrow> worked c" if "seats_on convs e c \<noteq> []" for c
    using that by (simp only: yes_def outs_def map_of_cards_alive on Let_def if_False option.case worked_def)
  have fields: "group_in_flight w = str_sort (map fst (filter snd alive))" "settled w = str_sort (filter yes dl)"
    "unlaunchable w = str_sort (filter (\<lambda>c. \<not> yes c \<and> 3 \<le> failures_of g c) dl)"
    using raw by (simp_all add: w_def fold_work_lanes_def Let_def alive_def outs_def dl_def yes_def MAX_LAUNCH_ATTEMPTS_def)
  show "is_lane (group_in_flight w) {c. working c}" using live d by (simp add: fields is_lane_sorted distinct_fst_filter)
  have "set (filter yes dl) = {c. seats_on convs e c \<noteq> [] \<and> \<not> working c \<and> worked c}" using answer by (auto simp: dead(1))
  then show "is_lane (settled w) {c. seats_on convs e c \<noteq> [] \<and> \<not> working c \<and> worked c}"
    using dead(2) by (simp add: fields is_lane_sorted)
  have "c \<in> set (filter (\<lambda>c. \<not> yes c \<and> 3 \<le> failures_of g c) dl) \<longleftrightarrow> \<not> working c \<and> \<not> worked c \<and> 3 \<le> length (seats_on convs e c)" for c
    using answer [of c] failures_on_card [OF g, of c, folded working_def worked_def] by (cases "seats_on convs e c = []") (auto simp: dead(1))
  then have "set (filter (\<lambda>c. \<not> yes c \<and> 3 \<le> failures_of g c) dl) = {c. \<not> working c \<and> \<not> worked c \<and> 3 \<le> length (seats_on convs e c)}" by blast
  then show "is_lane (unlaunchable w) {c. \<not> working c \<and> \<not> worked c \<and> 3 \<le> length (seats_on convs e c)}"
    using dead(2) by (simp add: fields is_lane_sorted)
qed

lemma verify_lane:
  fixes env convs e
  defines "verifiers \<equiv> filter (\<lambda>v. role_of v = Some Werk_Verifier) (filter (\<lambda>v. seat_epic v = Some e) convs)"
  assumes "group_in_verify g = []"
  shows "is_lane (group_in_verify (fold_verify_lane g (cards_alive (live_seat env) verifiers)))
    {c. list_ex (\<lambda>v. role_of v = Some Werk_Verifier \<and> live_seat env v) (seats_on convs e c)}"
proof -
  let ?watched = "cards_alive (live_seat env) verifiers"
  have on: "filter (\<lambda>v. the (seat_card v) = c) verifiers = filter (\<lambda>v. role_of v = Some Werk_Verifier) (seats_on convs e c)" for c
    by (simp only: verifiers_def seats_filter)
  have "set (map fst (filter snd ?watched)) = {c. list_ex (\<lambda>v. role_of v = Some Werk_Verifier \<and> live_seat env v) (seats_on convs e c)}"
    using lane_of [of "\<lambda>b. b" ?watched] unfolding in_lane on by (auto simp: list_ex_iff filter_empty_conv)
  then show ?thesis using assms(2) by (simp add: fold_verify_lane_def is_lane_sorted distinct_fst_filter)
qed

text \<open>The lanes of an epic, as statements about its conversations.\<close>

lemma lanes_of_seats:
  "case map_of (group_epic_conversations env convs) e of
     None \<Rightarrow> filter (\<lambda>v. epic_of v = Some e) convs = []
   | Some g \<Rightarrow>
       let mine = filter (\<lambda>v. epic_of v = Some e) convs; seats = seats_on convs e;
         working = (\<lambda>c. list_ex (live_seat env) (seats c)); worked = (\<lambda>c. list_ex (produced_output env) (seats c))
       in mine \<noteq> [] \<and> group_epic g = e \<and> conv_ids g = map conv_id mine
         \<and> live_werk_masters g = map conv_id (filter (live_master env) mine) \<and> (group_master_alive g \<longleftrightarrow> live_werk_masters g \<noteq> [])
         \<and> is_lane (group_in_flight g) {c. working c}
         \<and> is_lane (group_in_verify g) {c. list_ex (\<lambda>v. role_of v = Some Werk_Verifier \<and> live_seat env v) (seats c)}
         \<and> is_lane (settled g) {c. seats c \<noteq> [] \<and> \<not> working c \<and> worked c}
         \<and> is_lane (unlaunchable g) {c. \<not> working c \<and> \<not> worked c \<and> 3 \<le> length (seats c)}"
proof (cases "raw_group env convs e")
  case None
  with raw_group_fields [of "filter (\<lambda>v. epic_of v = Some e) convs" e convs env] show ?thesis by (simp add: group_of_epic)
next
  case (Some g)
  let ?mine = "filter (\<lambda>v. epic_of v = Some e) convs"
  define seats verifiers where "seats = filter (\<lambda>v. seat_epic v = Some e) convs" and "verifiers = filter (\<lambda>v. role_of v = Some Werk_Verifier) seats"
  define w where "w = fold_work_lanes g (cards_alive (live_seat env) seats) (cards_alive (produced_output env) seats)"
  define v where "v = fold_verify_lane w (cards_alive (live_seat env) verifiers)"
  note raw = raw_group_fields [of ?mine e convs env, OF refl, unfolded Some option.case]
  have "w = g" if "seats = []" using that raw by (simp add: w_def fold_work_lanes_def cards_alive_def Let_def)
  moreover have "v = w" if "verifiers = []"
    using that raw by (simp add: v_def w_def fold_verify_lane_def fold_work_lanes_def cards_alive_def Let_def)
  ultimately have "map_of (group_epic_conversations env convs) e = Some v"
    unfolding group_of_epic Some v_def w_def seats_def [symmetric] verifiers_def [symmetric] by (auto simp: Let_def)
  moreover have keep: "group_epic v = group_epic g" "conv_ids v = conv_ids g" "live_werk_masters v = live_werk_masters g"
    "group_master_alive v = group_master_alive g" "group_in_flight v = group_in_flight w" "settled v = settled w"
    "unlaunchable v = unlaunchable w" "group_in_verify w = group_in_verify g"
    by (simp_all add: v_def w_def fold_verify_lane_def fold_work_lanes_def Let_def)
  moreover have "group_in_verify w = []" using raw keep by simp
  moreover have "list_ex (live_master env) ?mine \<longleftrightarrow> filter (live_master env) ?mine \<noteq> []"
    by (auto simp: list_ex_iff filter_empty_conv)
  ultimately show ?thesis
    using raw work_lanes [OF Some, folded seats_def, folded w_def] verify_lane [of w env e convs, folded seats_def, folded verifiers_def, folded v_def]
    by (simp add: Let_def)
qed

text \<open>
  C6: what the sweep believes of the lanes of an epic is a statement about its conversations that does not
  depend on their order: a card is in flight exactly when some seat on it is live and not reaped, in verification
  when a verifier's is, settled when it had seats, none is live and one of them produced something, and
  given up when none is live, none produced anything and there were three; so no card is in two of the
  three. Every conversation counts for the bill, and the supervisor is alive exactly when a conversation
  of that role is live and not reaped.
\<close>

theorem lanes_say_what_the_seats_do:
  "case map_of (group_epic_conversations env convs) e of
     None \<Rightarrow> filter (\<lambda>v. epic_of v = Some e) convs = []
   | Some g \<Rightarrow>
       let mine = filter (\<lambda>v. epic_of v = Some e) convs; seats = seats_on convs e;
         working = (\<lambda>c. list_ex (live_seat env) (seats c)); worked = (\<lambda>c. list_ex (produced_output env) (seats c))
       in mine \<noteq> [] \<and> group_epic g = e \<and> conv_ids g = map conv_id mine
         \<and> live_werk_masters g = map conv_id (filter (live_master env) mine) \<and> (group_master_alive g \<longleftrightarrow> live_werk_masters g \<noteq> [])
         \<and> is_lane (group_in_flight g) {c. working c}
         \<and> is_lane (group_in_verify g) {c. list_ex (\<lambda>v. role_of v = Some Werk_Verifier \<and> live_seat env v) (seats c)}
         \<and> is_lane (settled g) {c. seats c \<noteq> [] \<and> \<not> working c \<and> worked c}
         \<and> is_lane (unlaunchable g) {c. \<not> working c \<and> \<not> worked c \<and> 3 \<le> length (seats c)}"
  by (rule lanes_of_seats)

subsection \<open>Two projects, one name\<close>

lemma groups_are_keyed:
  "distinct (map fst (group_epic_conversations env convs))"
  "(k, g) \<in> set (group_epic_conversations env convs) \<Longrightarrow> map_of (group_epic_conversations env convs) k = Some g"
proof -
  have "distinct (map fst (acc_groups (foldl (absorb env) no_accumulators convs)))"
  proof (induction convs rule: rev_induct)
    case (snoc v convs)
    let ?acc = "foldl (absorb env) no_accumulators convs"
    have "acc_groups (absorb env ?acc v) = acc_groups ?acc \<or> (\<exists>k x. acc_groups (absorb env ?acc v) = AList.update k x (acc_groups ?acc))"
      by (auto simp: absorb_def Let_def split: option.split)
    with snoc show ?case by (auto simp: distinct_update)
  qed (simp add: no_accumulators_def)
  then show d: "distinct (map fst (group_epic_conversations env convs))"
    by (simp add: group_epic_conversations_def split_lanes_def comp_def case_prod_unfold)
  then show "(k, g) \<in> set (group_epic_conversations env convs) \<Longrightarrow> map_of (group_epic_conversations env convs) k = Some g" by simp
qed

lemma lanes_keep:
  "group_epic (fold_work_lanes g a b) = group_epic g" "group_project (fold_work_lanes g a b) = group_project g"
  "group_epic (fold_verify_lane g a) = group_epic g" "group_project (fold_verify_lane g a) = group_project g"
  by (simp_all add: fold_work_lanes_def fold_verify_lane_def Let_def)

lemma group_project_first:
  assumes "map_of (group_epic_conversations env convs) e = Some g"
  shows "group_epic g = e \<and> group_project g = conv_project (hd (filter (\<lambda>v. epic_of v = Some e) convs))"
proof -
  from assms obtain x where x: "raw_group env convs e = Some x" "group_epic g = group_epic x" "group_project g = group_project x"
    unfolding group_of_epic by (auto simp: lanes_keep Let_def split: if_splits)
  show ?thesis
    using raw_group_fields [of "filter (\<lambda>v. epic_of v = Some e) convs" e convs env, OF refl, unfolded x(1) option.case] x(2,3) by (elim conjE) simp
qed

lemma fill_armed_keeps:
  assumes "(k, g) \<in> set (fill_armed m entries)" "map_of m e = Some x" "\<And>k g. (k, g) \<in> set m \<Longrightarrow> group_epic g = k"
  shows "group_epic g = k \<and> (if k = e then (k, g) \<in> set m else True)"
  using assms
proof (induction entries arbitrary: m x)
  case (Cons en entries)
  obtain p e' where en: "en = (p, e')" by force
  show ?case
  proof (cases "map_of m e'")
    case None
    with Cons.prems(2) have ne: "e' \<noteq> e" by auto
    have new: "AList.update e' (empty_group e' p) m = m @ [(e', empty_group e' p)]" using None by (induction m) (auto split: if_splits)
    let ?m = "m @ [(e', empty_group e' p)]"
    have step: "fill_armed m (en # entries) = fill_armed ?m entries" using None by (simp add: en fill_armed_def new)
    have "group_epic h = l" if "(l, h) \<in> set ?m" for l h
      using that Cons.prems(3) by (cases "(l, h) \<in> set m") (auto simp: empty_group_def)
    moreover have "map_of ?m e = Some x" using Cons.prems(2) by (simp add: map_add_def)
    ultimately have "group_epic g = k \<and> (if k = e then (k, g) \<in> set ?m else True)"
      using Cons.IH Cons.prems(1) unfolding step by blast
    with ne show ?thesis by auto
  next
    case (Some y)
    then have "fill_armed m (en # entries) = fill_armed m entries" by (simp add: en fill_armed_def)
    with Cons.IH Cons.prems show ?thesis by metis
  qed
qed (auto simp: fill_armed_def)

text \<open>
  C35: two projects may each carry an epic of one name, and the sweep watches only one of them: the fold is
  keyed by the id alone, so once the first conversation of an epic belongs to one project, no group of
  that epic is watched for any other, armed there or not, and a beat asked for by hand there runs on a
  group with nothing in flight, whatever its agents are doing.
\<close>

theorem one_project_per_epic_name:
  "case epic_of v of
     None \<Rightarrow> True
   | Some e \<Rightarrow>
       let watched = epics_to_watch rt r env (v # convs)
       in filter (\<lambda>g. group_epic g = e \<and> group_project g \<noteq> conv_project v) watched = []
         \<and> (if is_same_project rt (conv_project v) project then True else pick_beat_group rt watched project e = empty_group e project)"
proof (cases "epic_of v")
  case (Some e)
  let ?groups = "group_epic_conversations env (v # convs)"
  have first: "hd (filter (\<lambda>w. epic_of w = Some e) (v # convs)) = v" using Some by simp
  obtain x where x: "map_of ?groups e = Some x"
    using raw_group_fields [of "filter (\<lambda>w. epic_of w = Some e) (v # convs)" e "v # convs" env] Some
    by (auto simp: group_of_epic split: option.splits)
  have keyed: "group_epic g = k" if "(k, g) \<in> set ?groups" for k g
    using group_project_first [OF groups_are_keyed(2) [OF that]] by simp
  have all: "group_project g = conv_project v" if "g \<in> set (epics_to_watch rt r env (v # convs))" "group_epic g = e" for g
  proof -
    from that(1) obtain k where k: "(k, g) \<in> set (fill_armed ?groups (list_armed_epics r))" by (auto simp: epics_to_watch_def)
    from fill_armed_keeps [OF k x keyed] that(2) have "(e, g) \<in> set ?groups" by auto
    from group_project_first [OF groups_are_keyed(2) [OF this]] show ?thesis unfolding first by simp
  qed
  then have "filter (\<lambda>g. group_epic g = e \<and> group_project g \<noteq> conv_project v) (epics_to_watch rt r env (v # convs)) = []"
    by (auto simp: filter_empty_conv)
  moreover have "pick_beat_group rt (epics_to_watch rt r env (v # convs)) project e = empty_group e project"
    if "\<not> is_same_project rt (conv_project v) project"
  proof -
    have "find (\<lambda>g. group_epic g = e \<and> is_same_project rt (group_project g) project) (epics_to_watch rt r env (v # convs)) = None"
      using all that by (auto simp: find_None_iff)
    then show ?thesis by (simp add: pick_beat_group_def)
  qed
  ultimately show ?thesis using Some by (simp add: Let_def)
qed simp

end
