(* ===== verification/Permissions.thy ===== *)
theory Permissions
  imports ProjectUri
begin

section \<open>Grants and permissions\<close>

text \<open>
  \<open>src/broker/permissions.ts\<close>: grants scoped by project address patterns, resolved into a set of
  permissions, and the rule that decides what a control panel socket receives. A scope that does not
  parse makes \<open>matchProjectUri\<close> throw; the throw is the \<open>Err\<close> branch of every caller. Stamps are the
  integers \<open>Date.now()\<close> returns, and 0 is no bound, as it is in the code.
\<close>

datatype role = Admin

datatype permission =
    Chat | Chat_Read | Terminal | Terminal_Read | Files | Files_Read | Spawn | Settings | Voice
  | Notifications | Dialog_Interact

definition ROLE_PERMISSIONS :: "role \<Rightarrow> permission list" where
  "ROLE_PERMISSIONS r = (case r of Admin \<Rightarrow>
     [Chat, Chat_Read, Terminal, Terminal_Read, Files, Files_Read, Spawn, Settings, Voice, Notifications, Dialog_Interact])"

record user_grant =
  legacy_cwd :: "string option"
  scope :: "string option"
  roles :: "role list option"
  permissions :: "permission list option"
  not_before :: "int option"
  not_after :: "int option"

definition ends_with :: "string \<Rightarrow> string \<Rightarrow> bool" where
  "ends_with s e \<longleftrightarrow> length e \<le> length s \<and> drop (length s - length e) s = e"

definition path_to_scope :: "string \<Rightarrow> string" where
  "path_to_scope path =
     (if path = ''*'' then ''*''
      else if ends_with path ''/*'' then cwd_to_project_uri (take (length path - 2) path) @ ''/*''
      else cwd_to_project_uri path)"

definition grant_scope :: "user_grant \<Rightarrow> string" where
  "grant_scope g =
     (if truthy (scope g) then the (scope g)
      else if truthy (legacy_cwd g) then path_to_scope (the (legacy_cwd g))
      else ''*'')"

fun contains_text :: "string \<Rightarrow> string \<Rightarrow> bool" where
  "contains_text sub [] \<longleftrightarrow> sub = []"
| "contains_text sub (c # s) \<longleftrightarrow> take (length sub) (c # s) = sub \<or> contains_text sub s"

definition normalize_target :: "string \<Rightarrow> string" where
  "normalize_target project =
     (if project = ''*'' then ''*'' else if contains_text ''://'' project then project else cwd_to_project_uri project)"

definition match_grant :: "url_runtime \<Rightarrow> user_grant \<Rightarrow> string \<Rightarrow> (string, bool) result" where
  "match_grant rt g target = match_project_uri rt (grant_scope g) target"

definition is_grant_active :: "user_grant \<Rightarrow> int \<Rightarrow> bool" where
  "is_grant_active g now \<longleftrightarrow>
     (case not_before g of None \<Rightarrow> True | Some t \<Rightarrow> \<not> (t \<noteq> 0 \<and> now < t))
     \<and> (case not_after g of None \<Rightarrow> True | Some t \<Rightarrow> \<not> (t \<noteq> 0 \<and> now > t))"

subsection \<open>Resolution\<close>

record resolution =
  resolved :: "permission set"
  is_admin :: bool

text \<open>What the roles and the explicit list of one grant add.\<close>

definition add_grant :: "resolution \<Rightarrow> user_grant \<Rightarrow> resolution" where
  "add_grant r g =
     (let rs = (case roles g of None \<Rightarrow> [] | Some rs \<Rightarrow> rs);
          ps = (case permissions g of None \<Rightarrow> [] | Some ps \<Rightarrow> ps)
      in \<lparr>resolved = resolved r \<union> set (concat (map ROLE_PERMISSIONS rs)) \<union> set ps,
          is_admin = is_admin r \<or> Admin \<in> set rs\<rparr>)"

fun fold_grants :: "url_runtime \<Rightarrow> int \<Rightarrow> string \<Rightarrow> user_grant list \<Rightarrow> resolution \<Rightarrow> (string, resolution) result" where
  "fold_grants rt now target [] r = Ok r"
| "fold_grants rt now target (g # gs) r =
     (if \<not> is_grant_active g now then fold_grants rt now target gs r
      else case match_grant rt g target of
        Err e \<Rightarrow> Err e
      | Ok m \<Rightarrow> fold_grants rt now target gs (if m then add_grant r g else r))"

definition imply :: "permission \<Rightarrow> permission \<Rightarrow> permission set \<Rightarrow> permission set" where
  "imply parent child ps = (if parent \<in> ps then insert child ps else ps)"

definition resolve_permissions :: "url_runtime \<Rightarrow> int \<Rightarrow> user_grant list \<Rightarrow> string \<Rightarrow> (string, resolution) result" where
  "resolve_permissions rt now grants project =
     (case fold_grants rt now (normalize_target project) grants \<lparr>resolved = {}, is_admin = False\<rparr> of
        Err e \<Rightarrow> Err e
      | Ok r \<Rightarrow> Ok (r\<lparr>resolved := imply Files Files_Read (imply Terminal Terminal_Read (imply Chat Chat_Read (resolved r)))\<rparr>))"

record subscriber_auth =
  auth_grants :: "user_grant list option"
  share_conversation_id :: "string option"

definition subscriber_may_receive ::
    "url_runtime \<Rightarrow> int \<Rightarrow> subscriber_auth \<Rightarrow> string \<Rightarrow> string option \<Rightarrow> (string, bool) result" where
  "subscriber_may_receive rt now auth project conv =
     (let sibling = truthy (share_conversation_id auth) \<and> truthy conv \<and> conv \<noteq> share_conversation_id auth
      in case auth_grants auth of
        None \<Rightarrow> Ok (\<not> sibling)
      | Some gs \<Rightarrow>
          (case resolve_permissions rt now gs project of
             Err e \<Rightarrow> Err e
           | Ok r \<Rightarrow> Ok (Chat_Read \<in> resolved r \<and> \<not> sibling)))"

record resolved_permissions =
  can_admin :: bool
  can_edit_users :: bool
  can_chat :: bool
  can_read_chat :: bool
  can_terminal :: bool
  can_read_terminal :: bool
  can_files :: bool
  can_read_files :: bool
  can_spawn :: bool
  can_settings :: bool
  can_voice :: bool
  can_notifications :: bool
  can_dialog_interact :: bool

definition resolve_permission_flags ::
    "url_runtime \<Rightarrow> int \<Rightarrow> user_grant list \<Rightarrow> string \<Rightarrow> string list option \<Rightarrow> (string, resolved_permissions) result" where
  "resolve_permission_flags rt now grants project server_roles =
     (case resolve_permissions rt now grants project of
        Err e \<Rightarrow> Err e
      | Ok r \<Rightarrow>
          let has = (\<lambda>p. p \<in> resolved r)
          in Ok \<lparr>can_admin = is_admin r,
                 can_edit_users = (case server_roles of None \<Rightarrow> False | Some rs \<Rightarrow> ''user-editor'' \<in> set rs),
                 can_chat = has Chat, can_read_chat = has Chat_Read, can_terminal = has Terminal,
                 can_read_terminal = has Terminal_Read, can_files = has Files, can_read_files = has Files_Read,
                 can_spawn = has Spawn, can_settings = has Settings, can_voice = has Voice,
                 can_notifications = has Notifications, can_dialog_interact = has Dialog_Interact\<rparr>)"

subsection \<open>Queries\<close>

definition parents :: "permission \<Rightarrow> permission list" where
  "parents p =
     p # (if p = Chat_Read then [Chat] else []) @ (if p = Terminal_Read then [Terminal] else [])
       @ (if p = Files_Read then [Files] else [])"

definition has_permission_any_cwd :: "user_grant list \<Rightarrow> permission \<Rightarrow> int \<Rightarrow> bool" where
  "has_permission_any_cwd grants p now =
     list_ex (\<lambda>g. is_grant_active g now
       \<and> (list_ex (\<lambda>r. list_ex (\<lambda>q. q \<in> set (ROLE_PERMISSIONS r)) (parents p)) (case roles g of None \<Rightarrow> [] | Some rs \<Rightarrow> rs)
          \<or> list_ex (\<lambda>q. q \<in> set (case permissions g of None \<Rightarrow> [] | Some ps \<Rightarrow> ps)) (parents p))) grants"

text \<open>\<open>some\<close> stops at the first grant that answers, and a throw before it is the answer.\<close>

fun has_any_project_access :: "url_runtime \<Rightarrow> int \<Rightarrow> user_grant list \<Rightarrow> string \<Rightarrow> (string, bool) result" where
  "has_any_project_access rt now [] project = Ok False"
| "has_any_project_access rt now (g # gs) project =
     (if \<not> is_grant_active g now then has_any_project_access rt now gs project
      else case match_grant rt g (normalize_target project) of
        Err e \<Rightarrow> Err e
      | Ok True \<Rightarrow> Ok True
      | Ok False \<Rightarrow> has_any_project_access rt now gs project)"

definition all_grants_expired :: "user_grant list \<Rightarrow> int \<Rightarrow> bool" where
  "all_grants_expired grants now \<longleftrightarrow>
     grants = [] \<or> list_all (\<lambda>g. case not_after g of None \<Rightarrow> False | Some t \<Rightarrow> t \<noteq> 0 \<and> t < now) grants"

subsection \<open>What a resolution holds\<close>

text \<open>A grant that counts for a project, and what it gives.\<close>

definition counts_for :: "url_runtime \<Rightarrow> int \<Rightarrow> string \<Rightarrow> user_grant \<Rightarrow> bool" where
  "counts_for rt now project g \<longleftrightarrow>
     is_grant_active g now \<and> match_grant rt g (normalize_target project) = Ok True"

definition gives :: "user_grant \<Rightarrow> permission set" where
  "gives g = (case roles g of None \<Rightarrow> {} | Some rs \<Rightarrow> if rs = [] then {} else UNIV)
     \<union> (case permissions g of None \<Rightarrow> {} | Some ps \<Rightarrow> set ps)"

lemma role_permissions_all [simp]: "p \<in> set (ROLE_PERMISSIONS r)"
  by (cases r; cases p) (simp_all add: ROLE_PERMISSIONS_def)

lemma add_grant_gives: "resolved (add_grant r g) = resolved r \<union> gives g"
  by (auto simp: add_grant_def gives_def Let_def neq_Nil_conv split: option.split)

definition admin_grant :: "user_grant \<Rightarrow> bool" where
  "admin_grant g \<longleftrightarrow> (case roles g of None \<Rightarrow> False | Some rs \<Rightarrow> Admin \<in> set rs)"

lemma add_grant_admin: "is_admin (add_grant r g) \<longleftrightarrow> is_admin r \<or> admin_grant g"
  by (cases "roles g") (simp_all add: add_grant_def admin_grant_def)

lemma admin_grant_iff: "admin_grant g \<longleftrightarrow> roles g \<noteq> None \<and> roles g \<noteq> Some []"
proof -
  have "Admin \<in> set rs \<longleftrightarrow> rs \<noteq> []" for rs
  proof (cases rs)
    case (Cons x xs)
    then show ?thesis by (cases x) simp
  qed simp
  then show ?thesis by (cases "roles g") (simp_all add: admin_grant_def)
qed

lemma fold_grants_Ok:
  "fold_grants rt now target gs r = Ok r' \<Longrightarrow>
   resolved r' = resolved r \<union> \<Union> (gives ` {g \<in> set gs. is_grant_active g now \<and> match_grant rt g target = Ok True})
   \<and> (is_admin r' \<longleftrightarrow> is_admin r \<or> (\<exists>g \<in> set gs. is_grant_active g now \<and> match_grant rt g target = Ok True
        \<and> admin_grant g))"
proof (induction gs arbitrary: r)
  case (Cons g gs)
  show ?case
  proof (cases "is_grant_active g now")
    case True
    with Cons.prems obtain m where m: "match_grant rt g target = Ok m"
      and rest: "fold_grants rt now target gs (if m then add_grant r g else r) = Ok r'"
      by (auto split: result.splits)
    from Cons.IH [OF rest] m True show ?thesis
      by (cases m) (auto simp: add_grant_gives add_grant_admin)
  next
    case False
    with Cons show ?thesis by auto
  qed
qed simp

lemma fold_grants_Err:
  "(\<exists>e. fold_grants rt now target gs r = Err e) \<longleftrightarrow> (\<exists>g \<in> set gs. is_grant_active g now \<and> (\<exists>e. match_grant rt g target = Err e))"
  by (induction gs arbitrary: r) (auto split: result.split)

definition implied_by :: "permission \<Rightarrow> permission set" where
  "implied_by p = set (parents p)"

lemma imply_all:
  "p \<in> imply Files Files_Read (imply Terminal Terminal_Read (imply Chat Chat_Read S)) \<longleftrightarrow> implied_by p \<inter> S \<noteq> {}"
  by (cases p) (auto simp: imply_def implied_by_def parents_def)

lemma resolve_permissions_Ok:
  assumes "resolve_permissions rt now grants project = Ok r"
  shows "p \<in> resolved r \<longleftrightarrow> (\<exists>g \<in> set grants. counts_for rt now project g \<and> implied_by p \<inter> gives g \<noteq> {})"
    and "is_admin r \<longleftrightarrow> (\<exists>g \<in> set grants. counts_for rt now project g \<and> roles g \<noteq> None \<and> roles g \<noteq> Some [])"
proof -
  obtain r0 where r0: "fold_grants rt now (normalize_target project) grants \<lparr>resolved = {}, is_admin = False\<rparr> = Ok r0"
    and r: "r = r0\<lparr>resolved := imply Files Files_Read (imply Terminal Terminal_Read (imply Chat Chat_Read (resolved r0)))\<rparr>"
    using assms by (auto simp: resolve_permissions_def split: result.splits)
  note f = fold_grants_Ok [OF r0]
  from f r show "p \<in> resolved r \<longleftrightarrow> (\<exists>g \<in> set grants. counts_for rt now project g \<and> implied_by p \<inter> gives g \<noteq> {})"
    by (auto simp: imply_all counts_for_def)
  from f r show "is_admin r \<longleftrightarrow> (\<exists>g \<in> set grants. counts_for rt now project g \<and> roles g \<noteq> None \<and> roles g \<noteq> Some [])"
    by (auto simp: counts_for_def admin_grant_iff)
qed

text \<open>
  C30: nobody holds a permission nobody granted. When resolution answers, it holds exactly the
  permissions that an active grant whose scope matches the project gives, by role, by name or by the
  permission that implies it; and it fails exactly when the scope of an active grant cannot be
  matched against the project at all.
\<close>

theorem permissions_exactly_granted:
  "(case resolve_permissions rt now grants project of
      Ok r \<Rightarrow> resolved r = {p. \<exists>g \<in> set grants. counts_for rt now project g \<and> implied_by p \<inter> gives g \<noteq> {}}
        \<and> is_admin r = (\<exists>g \<in> set grants. counts_for rt now project g \<and> roles g \<notin> {None, Some []})
        \<and> {g \<in> set grants. is_grant_active g now \<and> (\<exists>e. match_grant rt g (normalize_target project) = Err e)} = {}
    | Err _ \<Rightarrow> {g \<in> set grants. is_grant_active g now \<and> (\<exists>e. match_grant rt g (normalize_target project) = Err e)} \<noteq> {})"
proof -
  let ?t = "normalize_target project" and ?r = "\<lparr>resolved = {}, is_admin = False\<rparr>"
  have err: "(\<exists>e. resolve_permissions rt now grants project = Err e)
      \<longleftrightarrow> {g \<in> set grants. is_grant_active g now \<and> (\<exists>e. match_grant rt g ?t = Err e)} \<noteq> {}"
    using fold_grants_Err [of rt now ?t grants ?r] by (auto simp: resolve_permissions_def split: result.splits)
  show ?thesis
  proof (cases "resolve_permissions rt now grants project")
    case (Ok r)
    have "resolved r = {p. \<exists>g \<in> set grants. counts_for rt now project g \<and> implied_by p \<inter> gives g \<noteq> {}}"
      using resolve_permissions_Ok(1) [OF Ok] by (simp add: set_eq_iff)
    moreover have "is_admin r = (\<exists>g \<in> set grants. counts_for rt now project g \<and> roles g \<notin> {None, Some []})"
      using resolve_permissions_Ok(2) [OF Ok] by simp
    ultimately show ?thesis using err Ok by simp
  next
    case (Err e)
    with err show ?thesis by simp
  qed
qed

text \<open>
  The scope-free question covers every project: a permission some project resolves to is one
  \<open>hasPermissionAnyCwd\<close> grants, and when every grant has expired nothing resolves anywhere.
\<close>

theorem any_project_permission_is_held_somewhere:
  assumes "resolve_permissions rt now grants project = Ok r" "p \<in> resolved r"
  shows "has_permission_any_cwd grants p now \<and> \<not> all_grants_expired grants now"
proof -
  obtain g where g: "g \<in> set grants" "is_grant_active g now" "implied_by p \<inter> gives g \<noteq> {}"
    using resolve_permissions_Ok(1) [OF assms(1)] assms(2) by (auto simp: counts_for_def)
  then obtain q where q: "q \<in> set (parents p)" "q \<in> gives g" by (auto simp: implied_by_def)
  then have "(\<exists>rs. roles g = Some rs \<and> rs \<noteq> []) \<or> (\<exists>ps. permissions g = Some ps \<and> q \<in> set ps)"
    by (auto simp: gives_def split: option.splits if_splits)
  with g(1,2) q(1) have "has_permission_any_cwd grants p now"
    by (auto simp: has_permission_any_cwd_def list_ex_iff neq_Nil_conv intro!: bexI [of _ g])
  moreover have "\<not> all_grants_expired grants now"
  proof -
    have "\<not> (case not_after g of None \<Rightarrow> False | Some t \<Rightarrow> t \<noteq> 0 \<and> t < now)"
      using g(2) by (auto simp: is_grant_active_def split: option.splits)
    then show ?thesis using g(1) by (auto simp: all_grants_expired_def list_all_iff)
  qed
  ultimately show ?thesis by blast
qed

definition viewer :: user_grant where
  "viewer = \<lparr>legacy_cwd = None, scope = Some ''claude://default/repo/*'', roles = None, permissions = Some [Chat],
     not_before = None, not_after = Some 100\<rparr>"

theorem any_project_permission_is_held_somewhere_witness:
  "(case resolve_permissions plain_runtime 100 [viewer] ''claude://default/repo/a'' of Err _ \<Rightarrow> False
      | Ok r \<Rightarrow> Chat_Read \<in> resolved r)
   \<and> has_permission_any_cwd [viewer] Chat_Read 100 \<and> \<not> all_grants_expired [viewer] 100"
proof -
  have "match_grant plain_runtime viewer (normalize_target ''claude://default/repo/a'') = Ok True" by code_simp
  moreover have "is_grant_active viewer 100" by code_simp
  ultimately obtain r where r: "resolve_permissions plain_runtime 100 [viewer] ''claude://default/repo/a'' = Ok r"
    "Chat_Read \<in> resolved r"
    by (simp add: resolve_permissions_def add_grant_def viewer_def imply_def)
  with any_project_permission_is_held_somewhere [OF r] show ?thesis by simp
qed

text \<open>
  What a socket receives. With grants, only messages about projects on which they resolve to
  \<open>chat:read\<close>; with a share scope, no message that names another conversation; and a socket with
  neither receives everything.
\<close>

theorem subscriber_receives_only_its_own:
  "(case subscriber_may_receive rt now auth project conv of
      Err _ \<Rightarrow> \<exists>gs e. auth_grants auth = Some gs \<and> resolve_permissions rt now gs project = Err e
    | Ok answer \<Rightarrow>
        answer = ((case auth_grants auth of None \<Rightarrow> True
            | Some gs \<Rightarrow> \<exists>g \<in> set gs. counts_for rt now project g \<and> {Chat, Chat_Read} \<inter> gives g \<noteq> {})
          \<and> (conv \<in> {None, Some [], share_conversation_id auth} \<or> share_conversation_id auth \<in> {None, Some []})))"
proof -
  have chat: "implied_by Chat_Read = {Chat, Chat_Read}" by (auto simp: implied_by_def parents_def)
  have t: "truthy s \<longleftrightarrow> s \<notin> {None, Some []}" for s by (simp add: truthy_def)
  show ?thesis
  proof (cases "auth_grants auth")
    case None
    then show ?thesis by (auto simp: subscriber_may_receive_def t Let_def)
  next
    case (Some gs)
    then show ?thesis
      using resolve_permissions_Ok(1) [of rt now gs project _ Chat_Read]
      by (auto simp: subscriber_may_receive_def t Let_def chat split: result.split)
  qed
qed

text \<open>
  A pattern for everything on one sentinel matches nothing on it: the base of
  \<open>claude://default/*\<close> parses to the path \<open>/\<close>, and the matcher then looks for paths that start
  with two slashes. A legacy grant for \<open>/*\<close> upgrades to that pattern and resolves to nothing.
\<close>

theorem sentinel_wildcard_matches_nothing:
  "match_project_uri plain_runtime ''claude://default/*'' ''claude://default/repo'' = Ok False
   \<and> path_to_scope ''/*'' = ''claude://default/*''
   \<and> counts_for plain_runtime 0 ''/repo'' (viewer\<lparr>scope := None, legacy_cwd := Some ''/*''\<rparr>) = False"
  unfolding counts_for_def by code_simp

end
