(* ===== verification/CronParse.thy ===== *)
theory CronParse
  imports JsValue
begin

section \<open>Cron expressions\<close>

text \<open>
  \<open>src/shared/cron-parse.ts\<close>: the five-field grammar, field by field and term by term with every
  error, and the matcher of a wall-clock minute. A set of numbers is a list in insertion order.
\<close>

definition js_lower :: "string \<Rightarrow> string" where
  "js_lower = map (\<lambda>c. let n = of_char c :: nat
     in if 65 \<le> n \<and> n \<le> 90 \<or> 192 \<le> n \<and> n \<le> 222 \<and> n \<noteq> 215 then char_of (n + 32) else c)"

subsection \<open>Fields\<close>

record cron_fields =
  cron_minute :: "int list"
  cron_hour :: "int list"
  cron_dom :: "int list"
  cron_month :: "int list"
  cron_dow :: "int list"
  dom_restricted :: bool
  dow_restricted :: bool

definition MACROS :: "(string \<times> string) list" where
  "MACROS =
     [(''@yearly'', ''0 0 1 1 *''), (''@annually'', ''0 0 1 1 *''), (''@monthly'', ''0 0 1 * *''), (''@weekly'', ''0 0 * * 0''),
      (''@daily'', ''0 0 * * *''), (''@midnight'', ''0 0 * * *''), (''@hourly'', ''0 * * * *'')]"

definition MONTH_NAMES :: "string list" where
  "MONTH_NAMES = [''jan'', ''feb'', ''mar'', ''apr'', ''may'', ''jun'', ''jul'', ''aug'', ''sep'', ''oct'', ''nov'', ''dec'']"

definition DOW_NAMES :: "string list" where
  "DOW_NAMES = [''sun'', ''mon'', ''tue'', ''wed'', ''thu'', ''fri'', ''sat'']"

record field_spec =
  spec_label :: string
  spec_min :: int
  spec_max :: int
  spec_names :: "string list option"
  spec_wrap :: "int option"

definition plain_spec :: "string \<Rightarrow> int \<Rightarrow> int \<Rightarrow> field_spec" where
  "plain_spec l a b = \<lparr>spec_label = l, spec_min = a, spec_max = b, spec_names = None, spec_wrap = None\<rparr>"

definition FIELD_SPECS :: "field_spec list" where
  "FIELD_SPECS =
     [plain_spec ''minute'' 0 59, plain_spec ''hour'' 0 23, plain_spec ''day-of-month'' 1 31,
      (plain_spec ''month'' 1 12)\<lparr>spec_names := Some MONTH_NAMES\<rparr>,
      (plain_spec ''day-of-week'' 0 6)\<lparr>spec_names := Some DOW_NAMES, spec_wrap := Some 7\<rparr>]"

subsection \<open>Terms\<close>

text \<open>\<open>xs.indexOf(x)\<close>, \<open>None\<close> for -1, and \<open>/^\d+$/\<close>.\<close>

fun index_of :: "'a \<Rightarrow> 'a list \<Rightarrow> nat option" where
  "index_of x [] = None"
| "index_of x (y # ys) = (if x = y then Some 0 else map_option Suc (index_of x ys))"

definition all_digits :: "string \<Rightarrow> bool" where
  "all_digits s \<longleftrightarrow> s \<noteq> [] \<and> list_all is_digit s"

definition parse_value :: "string \<Rightarrow> field_spec \<Rightarrow> int option" where
  "parse_value token spec =
     (case (case spec_names spec of None \<Rightarrow> None | Some ns \<Rightarrow> index_of (take 3 (js_lower token)) ns) of
        Some i \<Rightarrow> Some (int i + spec_min spec)
      | None \<Rightarrow>
          if \<not> all_digits token then None
          else
            let n = int (digits_val token)
            in if spec_wrap spec = Some n then Some (spec_min spec)
               else if spec_min spec \<le> n \<and> n \<le> spec_max spec then Some n else None)"

definition out_of_range :: "string \<Rightarrow> field_spec \<Rightarrow> string" where
  "out_of_range r spec =
     spec_label spec @ '': '' @ [CHR 0x22] @ r @ [CHR 0x22] @ '' is out of range ('' @ int_str (spec_min spec) @ ''-''
       @ int_str (spec_max spec) @ '')''"

definition range_bounds :: "string \<Rightarrow> field_spec \<Rightarrow> (string, int \<times> int) result" where
  "range_bounds r spec =
     (let ps = split_on (CHR ''-'') r
      in if 2 < length ps then Err (spec_label spec @ '': '' @ [CHR 0x22] @ r @ [CHR 0x22] @ '' is not a valid range'')
         else case (parse_value (ps ! 0) spec, parse_value (if length ps < 2 then [] else ps ! 1) spec) of
           (Some lo, Some hi) \<Rightarrow>
             if hi < lo then Err (spec_label spec @ '': range '' @ [CHR 0x22] @ r @ [CHR 0x22] @ '' runs backwards'') else Ok (lo, hi)
         | _ \<Rightarrow> Err (out_of_range r spec))"

definition term_bounds :: "string \<Rightarrow> bool \<Rightarrow> field_spec \<Rightarrow> (string, int \<times> int) result" where
  "term_bounds r has_step spec =
     (if r = ''*'' then Ok (spec_min spec, spec_max spec)
      else if CHR ''-'' \<in> set r then range_bounds r spec
      else case parse_value r spec of
        None \<Rightarrow> Err (out_of_range r spec)
      | Some v \<Rightarrow> Ok (v, if has_step then spec_max spec else v))"

text \<open>\<open>for (v = lo; v <= hi; v += step)\<close>; the caller has a positive step.\<close>

function stride :: "int \<Rightarrow> int \<Rightarrow> int \<Rightarrow> int list" where
  "stride lo hi step = (if lo \<le> hi \<and> 0 < step then lo # stride (lo + step) hi step else [])"
  by pat_completeness auto
termination by (relation "measure (\<lambda>(lo, hi, step). nat (hi + 1 - lo))") auto

declare stride.simps [simp del]

definition expand_term :: "string \<Rightarrow> field_spec \<Rightarrow> (string, int list) result" where
  "expand_term t spec =
     (let ps = split_on (CHR ''/'') t; step_part = (if length ps < 2 then None else Some (ps ! 1))
      in if 2 < length ps then Err (spec_label spec @ '': '' @ [CHR 0x22] @ t @ [CHR 0x22] @ '' has more than one step'')
         else if (case step_part of None \<Rightarrow> False | Some s \<Rightarrow> \<not> all_digits s \<or> digits_val s < 1)
         then Err (spec_label spec @ '': step must be a positive number'')
         else
           let step = (case step_part of None \<Rightarrow> 1 | Some s \<Rightarrow> int (digits_val s))
           in case term_bounds (ps ! 0) (step_part \<noteq> None) spec of
                Err e \<Rightarrow> Err e
              | Ok (lo, hi) \<Rightarrow> Ok (stride lo hi step))"

text \<open>The terms of a field, collected from left to right until one is refused.\<close>

fun collect_terms :: "string \<Rightarrow> field_spec \<Rightarrow> string list \<Rightarrow> int list \<Rightarrow> (string, int list) result" where
  "collect_terms raw spec [] out = Ok out"
| "collect_terms raw spec (t # ts) out =
     (if t = [] then Err (spec_label spec @ '': empty term in '' @ [CHR 0x22] @ raw @ [CHR 0x22])
      else case expand_term t spec of
        Err e \<Rightarrow> Err e
      | Ok vs \<Rightarrow> collect_terms raw spec ts (js_set (out @ vs)))"

definition parse_field :: "string \<Rightarrow> field_spec \<Rightarrow> (string, int list) result" where
  "parse_field raw spec =
     (case collect_terms raw spec (split_on (CHR '','') raw) [] of
        Err e \<Rightarrow> Err e
      | Ok out \<Rightarrow>
          if out = [] then Err (spec_label spec @ '': '' @ [CHR 0x22] @ raw @ [CHR 0x22] @ '' matches nothing'') else Ok out)"

subsection \<open>Expressions\<close>

text \<open>\<open>s.split(/\s+/)\<close>.\<close>

function split_spaces :: "string \<Rightarrow> string list" where
  "split_spaces s =
     (case dropWhile (\<lambda>c. \<not> is_space c) s of
        [] \<Rightarrow> [s]
      | r # rs \<Rightarrow> takeWhile (\<lambda>c. \<not> is_space c) s # split_spaces (dropWhile is_space rs))"
  by pat_completeness auto
termination
proof (relation "measure length")
  fix s :: string and r rs
  assume "dropWhile (\<lambda>c. \<not> is_space c) s = r # rs"
  then have "length (r # rs) \<le> length s" by (metis length_dropWhile_le)
  moreover have "length (dropWhile is_space rs) \<le> length rs" by (rule length_dropWhile_le)
  ultimately show "(dropWhile is_space rs, s) \<in> measure length" by simp
qed simp

declare split_spaces.simps [simp del]

fun parse_fields :: "(string \<times> field_spec) list \<Rightarrow> (string, int list list) result" where
  "parse_fields [] = Ok []"
| "parse_fields ((raw, spec) # fs) =
     (case parse_field raw spec of
        Err e \<Rightarrow> Err e
      | Ok s \<Rightarrow> (case parse_fields fs of Err e \<Rightarrow> Err e | Ok ss \<Rightarrow> Ok (s # ss)))"

definition parse_cron :: "string \<Rightarrow> (string, cron_fields) result" where
  "parse_cron expr =
     (let trimmed = js_lower (trim expr)
      in if trimmed = [] then Err ''cron expression is empty''
         else case (if hd trimmed = CHR ''@'' then map_of MACROS trimmed else Some trimmed) of
           None \<Rightarrow> Err (''unknown macro '' @ [CHR 0x22] @ trimmed @ [CHR 0x22] @ '' (try @hourly, @daily, @weekly, @monthly, @yearly)'')
         | Some expanded \<Rightarrow>
             let parts = split_spaces expanded
             in if length parts \<noteq> 5
                then Err (''expected 5 fields (minute hour day month weekday), got '' @ nat_str (length parts))
                else case parse_fields (zip parts FIELD_SPECS) of
                  Err e \<Rightarrow> Err e
                | Ok ss \<Rightarrow>
                    Ok \<lparr>cron_minute = ss ! 0, cron_hour = ss ! 1, cron_dom = ss ! 2, cron_month = ss ! 3, cron_dow = ss ! 4,
                        dom_restricted = parts ! 2 \<noteq> ''*'', dow_restricted = parts ! 4 \<noteq> ''*''\<rparr>)"

subsection \<open>Matching\<close>

definition matches_day :: "cron_fields \<Rightarrow> int \<Rightarrow> int \<Rightarrow> int \<Rightarrow> bool" where
  "matches_day f month day dow \<longleftrightarrow>
     (if month \<notin> set (cron_month f) then False
      else if dom_restricted f \<and> dow_restricted f then day \<in> set (cron_dom f) \<or> dow \<in> set (cron_dow f)
      else if dom_restricted f then day \<in> set (cron_dom f)
      else if dow_restricted f then dow \<in> set (cron_dow f)
      else True)"

subsection \<open>What a parse can give\<close>

lemma in_stride: "v \<in> set (stride lo hi step) \<Longrightarrow> lo \<le> v \<and> v \<le> hi"
proof (induction lo hi step rule: stride.induct)
  case (1 lo hi step)
  from 1(2) have "lo \<le> hi \<and> 0 < step" by (simp add: stride.simps [of lo] split: if_splits)
  with 1 show ?case by (auto simp: stride.simps [of lo])
qed

lemma stride_nonempty: "lo \<le> hi \<Longrightarrow> 0 < step \<Longrightarrow> stride lo hi step \<noteq> []"
  by (simp add: stride.simps [of lo])

lemma index_of_less: "index_of x ys = Some i \<Longrightarrow> i < length ys"
  by (induction ys arbitrary: i) (auto split: if_splits)

definition sound_spec :: "field_spec \<Rightarrow> bool" where
  "sound_spec spec \<longleftrightarrow> spec_min spec \<le> spec_max spec
     \<and> (case spec_names spec of None \<Rightarrow> True | Some ns \<Rightarrow> int (length ns) + spec_min spec - 1 \<le> spec_max spec)"

lemma parse_value_bounds: "sound_spec spec \<Longrightarrow> parse_value t spec = Some v \<Longrightarrow> spec_min spec \<le> v \<and> v \<le> spec_max spec"
  by (auto simp: parse_value_def sound_spec_def Let_def dest!: index_of_less split: option.splits if_splits)

lemma term_bounds_bounds:
  assumes "sound_spec spec" "term_bounds r s spec = Ok (lo, hi)"
  shows "spec_min spec \<le> lo \<and> lo \<le> hi \<and> hi \<le> spec_max spec"
  using assms parse_value_bounds [OF assms(1)]
  by (fastforce simp: term_bounds_def range_bounds_def Let_def sound_spec_def split: if_splits option.splits)

lemma expand_term_bounds:
  assumes "sound_spec spec" "expand_term t spec = Ok vs"
  shows "vs \<noteq> [] \<and> list_all (\<lambda>v. spec_min spec \<le> v \<and> v \<le> spec_max spec) vs"
proof -
  from assms(2) obtain lo hi step where b: "term_bounds (split_on (CHR ''/'') t ! 0) (\<not> length (split_on (CHR ''/'') t) < 2) spec = Ok (lo, hi)"
    "vs = stride lo hi step" "0 < step"
    by (auto simp: expand_term_def Let_def split: if_splits option.splits result.splits prod.splits)
  from term_bounds_bounds [OF assms(1) b(1)] b(3) show ?thesis
    by (auto simp: b(2) stride_nonempty list_all_iff dest: in_stride)
qed

lemma collect_terms_bounds:
  "sound_spec spec \<Longrightarrow> list_all (\<lambda>v. spec_min spec \<le> v \<and> v \<le> spec_max spec) out \<Longrightarrow> distinct out \<Longrightarrow>
     collect_terms raw spec ts out = Ok vs \<Longrightarrow> list_all (\<lambda>v. spec_min spec \<le> v \<and> v \<le> spec_max spec) vs \<and> distinct vs"
proof (induction ts arbitrary: out)
  case (Cons t ts)
  from Cons.prems(4) obtain ws where w: "expand_term t spec = Ok ws" "collect_terms raw spec ts (js_set (out @ ws)) = Ok vs"
    by (auto split: if_splits result.splits)
  show ?case
    by (rule Cons.IH [OF Cons.prems(1) _ _ w(2)])
      (use expand_term_bounds [OF Cons.prems(1) w(1)] Cons.prems(2) in \<open>auto simp: list_all_iff\<close>)
qed simp

lemma parse_field_bounds:
  assumes "sound_spec spec" "parse_field raw spec = Ok vs"
  shows "vs \<noteq> [] \<and> distinct vs \<and> list_all (\<lambda>v. spec_min spec \<le> v \<and> v \<le> spec_max spec) vs"
  using collect_terms_bounds [OF assms(1), of "[]" raw "split_on (CHR '','') raw"] assms(2)
  by (auto simp: parse_field_def split: result.splits if_splits)

definition in_field :: "int list \<Rightarrow> int \<Rightarrow> int \<Rightarrow> bool" where
  "in_field vs a b \<longleftrightarrow> vs \<noteq> [] \<and> distinct vs \<and> list_all (\<lambda>v. a \<le> v \<and> v \<le> b) vs"

definition cron_in_range :: "cron_fields \<Rightarrow> bool" where
  "cron_in_range f \<longleftrightarrow> in_field (cron_minute f) 0 59 \<and> in_field (cron_hour f) 0 23 \<and> in_field (cron_dom f) 1 31
     \<and> in_field (cron_month f) 1 12 \<and> in_field (cron_dow f) 0 6"

lemma specs_sound: "list_all sound_spec FIELD_SPECS"
  by (simp add: FIELD_SPECS_def sound_spec_def plain_spec_def MONTH_NAMES_def DOW_NAMES_def)

lemma parse_fields_at:
  "parse_fields fs = Ok ss \<Longrightarrow> i < length fs \<Longrightarrow> parse_field (fst (fs ! i)) (snd (fs ! i)) = Ok (ss ! i)"
proof (induction fs arbitrary: ss i)
  case (Cons x fs)
  obtain raw spec where x: "x = (raw, spec)" by (cases x)
  with Cons.prems(1) obtain s ts where s: "parse_field raw spec = Ok s" "parse_fields fs = Ok ts" "ss = s # ts"
    by (auto split: result.splits)
  with Cons.IH [OF s(2)] Cons.prems(2) x show ?case by (cases i) simp_all
qed simp

lemma parse_cron_in_range: "parse_cron expr = Ok f \<Longrightarrow> cron_in_range f"
proof -
  assume "parse_cron expr = Ok f"
  then obtain parts ss where p: "length parts = 5" "parse_fields (zip parts FIELD_SPECS) = Ok ss"
    "f = \<lparr>cron_minute = ss ! 0, cron_hour = ss ! 1, cron_dom = ss ! 2, cron_month = ss ! 3, cron_dow = ss ! 4,
          dom_restricted = parts ! 2 \<noteq> ''*'', dow_restricted = parts ! 4 \<noteq> ''*''\<rparr>"
    by (auto simp: parse_cron_def Let_def split: if_splits option.splits result.splits)
  have field: "in_field (ss ! i) (spec_min (FIELD_SPECS ! i)) (spec_max (FIELD_SPECS ! i))" if "i < 5" for i
  proof -
    have l: "length FIELD_SPECS = 5" by (simp add: FIELD_SPECS_def)
    with p that have "parse_field (parts ! i) (FIELD_SPECS ! i) = Ok (ss ! i)"
      using parse_fields_at [OF p(2), of i] by simp
    moreover have "sound_spec (FIELD_SPECS ! i)" using specs_sound l that by (simp add: list_all_length)
    ultimately show ?thesis using parse_field_bounds by (auto simp: in_field_def)
  qed
  show ?thesis
    using field [of 0] field [of 1] field [of 2] field [of 3] field [of 4]
    by (simp add: cron_in_range_def p(3)) (simp add: FIELD_SPECS_def plain_spec_def numeral_eq_Suc)
qed

text \<open>
  A cron expression is refused with a reason or gives five sets that are not empty and stay within
  their fields, whatever lists, ranges, steps, names and macros it is written with; Sunday is 0 however
  it was spelt.
\<close>

theorem parsed_cron_is_in_range: "case parse_cron expr of Err _ \<Rightarrow> True | Ok f \<Rightarrow> cron_in_range f"
  using parse_cron_in_range by (auto split: result.split)

text \<open>
  The second spelling of Sunday is not one in a range: the week from Monday to Sunday, written with
  the 7 the grammar accepts, is refused as running backwards.
\<close>

theorem sunday_ends_no_range:
  "parse_cron ''0 9 * * 1-7'' = Err (''day-of-week: range '' @ [CHR 0x22] @ ''1-7'' @ [CHR 0x22] @ '' runs backwards'')
   \<and> (case parse_cron ''0 9 * * 7'' of Ok f \<Rightarrow> cron_dow f = [0] | Err _ \<Rightarrow> False)"
  by code_simp

end
