(* ===== verification/CronNext.thy ===== *)
theory CronNext
  imports CronParse JsDate "HOL-Library.While_Combinator"
begin

section \<open>Cron in time\<close>

text \<open>
  \<open>src/shared/cron-time.ts\<close> and \<open>src/shared/cron-next.ts\<close>: wall clocks in a zone, their inverse, and
  the search for the next moments an expression matches. \<open>Intl.DateTimeFormat\<close> projects an instant by
  the offset of the zone at that instant, which the zone database, a parameter, gives in milliseconds.
  Instants are after 1970, so the rule of \<open>Date.UTC\<close> for years below 100 is out of reach. The search
  is the loop of the code as a \<^const>\<open>while_option\<close>; \<open>None\<close> would be a search that never returns.
\<close>

type_synonym tz_database = "string \<Rightarrow> int \<Rightarrow> int"

record wall_clock =
  wc_year :: int
  wc_month :: int
  wc_day :: int
  wc_hour :: int
  wc_minute :: int
  wc_dow :: int

abbreviation (input) DAY_MS :: int where "DAY_MS \<equiv> 86400000"

subsection \<open>Wall clocks\<close>

text \<open>\<open>getUTCDay()\<close> of a day since 1970-01-01, a Thursday.\<close>

definition weekday :: "int \<Rightarrow> int" where
  "weekday n = (n + 4) mod 7"

definition wall_clock_parts :: "tz_database \<Rightarrow> int \<Rightarrow> string \<Rightarrow> wall_clock" where
  "wall_clock_parts db ms tz =
     (let w = ms + db tz ms; n = w div DAY_MS; t = w mod DAY_MS
      in case civil_of_days n of (y, m, d) \<Rightarrow>
        \<lparr>wc_year = y, wc_month = m, wc_day = d, wc_hour = t div 3600000, wc_minute = t div 60000 mod 60, wc_dow = weekday n\<rparr>)"

definition date_utc :: "int \<Rightarrow> int \<Rightarrow> int \<Rightarrow> int \<Rightarrow> int \<Rightarrow> int" where
  "date_utc y m d h mi = DAY_MS * days_of_civil y m d + 3600000 * h + 60000 * mi"

definition offset_at :: "tz_database \<Rightarrow> int \<Rightarrow> string \<Rightarrow> int" where
  "offset_at db ms tz =
     (let wc = wall_clock_parts db ms tz
      in date_utc (wc_year wc) (wc_month wc) (wc_day wc) (wc_hour wc) (wc_minute wc) - ms div 60000 * 60000)"

definition round_trips :: "tz_database \<Rightarrow> int \<Rightarrow> wall_clock \<Rightarrow> string \<Rightarrow> bool" where
  "round_trips db ms wc tz \<longleftrightarrow>
     (let b = wall_clock_parts db ms tz
      in wc_year b = wc_year wc \<and> wc_month b = wc_month wc \<and> wc_day b = wc_day wc \<and> wc_hour b = wc_hour wc
         \<and> wc_minute b = wc_minute wc)"

definition wall_clock_to_ms :: "tz_database \<Rightarrow> wall_clock \<Rightarrow> string \<Rightarrow> int option" where
  "wall_clock_to_ms db wc tz =
     (let naive = date_utc (wc_year wc) (wc_month wc) (wc_day wc) (wc_hour wc) (wc_minute wc);
          offsets = js_set [offset_at db (naive - DAY_MS) tz, offset_at db naive tz, offset_at db (naive + DAY_MS) tz]
      in foldl (\<lambda>earliest offset.
           let candidate = naive - offset
           in if \<not> round_trips db candidate wc tz then earliest
              else case earliest of None \<Rightarrow> Some candidate | Some e \<Rightarrow> if candidate < e then Some candidate else earliest) None offsets)"

definition minute_key :: "wall_clock \<Rightarrow> string \<Rightarrow> string" where
  "minute_key wc tz =
     int_str (wc_year wc) @ ''-'' @ pad 2 (wc_month wc) @ ''-'' @ pad 2 (wc_day wc) @ ''T'' @ pad 2 (wc_hour wc) @ '':''
       @ pad 2 (wc_minute wc) @ ''@'' @ tz"

definition matches_minute :: "cron_fields \<Rightarrow> wall_clock \<Rightarrow> bool" where
  "matches_minute f wc \<longleftrightarrow>
     wc_minute wc \<in> set (cron_minute f) \<and> wc_hour wc \<in> set (cron_hour f) \<and> matches_day f (wc_month wc) (wc_day wc) (wc_dow wc)"

subsection \<open>The search\<close>

definition MAX_SCAN_DAYS :: nat where
  "MAX_SCAN_DAYS = 366 * 4"

definition calendar_day :: "int \<Rightarrow> wall_clock" where
  "calendar_day cursor =
     (case civil_of_days (cursor div DAY_MS) of (y, m, d) \<Rightarrow>
        \<lparr>wc_year = y, wc_month = m, wc_day = d, wc_hour = 0, wc_minute = 0, wc_dow = weekday (cursor div DAY_MS)\<rparr>)"

definition fires_on_day :: "tz_database \<Rightarrow> wall_clock \<Rightarrow> string \<Rightarrow> int \<Rightarrow> int list \<Rightarrow> int list \<Rightarrow> int list" where
  "fires_on_day db cal tz after hours minutes =
     concat (map (\<lambda>h. concat (map (\<lambda>mi.
       case wall_clock_to_ms db (cal\<lparr>wc_hour := h, wc_minute := mi\<rparr>) tz of
         None \<Rightarrow> []
       | Some ms \<Rightarrow> if after < ms then [ms] else []) minutes)) hours)"

definition fires_at_cursor :: "tz_database \<Rightarrow> cron_fields \<Rightarrow> string \<Rightarrow> int \<Rightarrow> int \<Rightarrow> int list" where
  "fires_at_cursor db f tz after cursor =
     (let cal = calendar_day cursor
      in if \<not> matches_day f (wc_month cal) (wc_day cal) (wc_dow cal) then []
         else fires_on_day db cal tz after (sort (cron_hour f)) (sort (cron_minute f)))"

definition search_start :: "tz_database \<Rightarrow> string \<Rightarrow> int \<Rightarrow> int" where
  "search_start db tz after =
     (let st = wall_clock_parts db after tz in date_utc (wc_year st) (wc_month st) (wc_day st) 0 0)"

definition next_fires :: "tz_database \<Rightarrow> cron_fields \<Rightarrow> string \<Rightarrow> int \<Rightarrow> nat \<Rightarrow> int list option" where
  "next_fires db f tz after cnt =
     (if cnt = 0 then Some []
      else map_option (\<lambda>(scanned, cursor, out). take cnt out)
        (while_option (\<lambda>(scanned, cursor, out). scanned < MAX_SCAN_DAYS \<and> length out < cnt)
           (\<lambda>(scanned, cursor, out). (Suc scanned, cursor + DAY_MS, out @ fires_at_cursor db f tz after cursor))
           (0, search_start db tz after, [])))"

subsection \<open>The search ends\<close>

definition all_fires :: "tz_database \<Rightarrow> cron_fields \<Rightarrow> string \<Rightarrow> int \<Rightarrow> nat \<Rightarrow> int list" where
  "all_fires db f tz after n = concat (map (\<lambda>k. fires_at_cursor db f tz after (search_start db tz after + DAY_MS * int k)) [0..<n])"

lemma all_fires_prefix: "m \<le> n \<Longrightarrow> \<exists>more. all_fires db f tz after n = all_fires db f tz after m @ more"
  by (induction n) (auto simp: all_fires_def le_Suc_eq)

lemma search_loop:
  fixes db f tz after cnt
  defines "cond \<equiv> \<lambda>(scanned, cursor :: int, out). scanned < MAX_SCAN_DAYS \<and> length out < cnt"
    and "step \<equiv> \<lambda>(scanned, cursor, out). (Suc scanned, cursor + DAY_MS, out @ fires_at_cursor db f tz after cursor)"
    and "st \<equiv> (0, search_start db tz after, [])"
  obtains n where "n \<le> MAX_SCAN_DAYS" "n = MAX_SCAN_DAYS \<or> cnt \<le> length (all_fires db f tz after n)"
    "while_option cond step st = Some (n, search_start db tz after + DAY_MS * int n, all_fires db f tz after n)"
proof -
  have "\<exists>t. while_option cond step st = Some t"
    by (rule measure_while_option_Some [where P = "\<lambda>_. True" and f = "\<lambda>(scanned, _, _). MAX_SCAN_DAYS - scanned"])
      (auto simp: cond_def step_def)
  then obtain t where t: "while_option cond step st = Some t" by blast
  let ?I = "\<lambda>(n, c, out). n \<le> MAX_SCAN_DAYS \<and> c = search_start db tz after + DAY_MS * int n \<and> out = all_fires db f tz after n"
  have "?I t"
    by (rule while_option_rule [OF _ t, of ?I]) (auto simp: cond_def step_def st_def all_fires_def algebra_simps)
  moreover have "\<not> cond t" by (rule while_option_stop [OF t])
  ultimately show thesis using t that by (cases t) (force simp: cond_def)
qed

lemma next_fires_eq: "next_fires db f tz after cnt = Some (take cnt (all_fires db f tz after MAX_SCAN_DAYS))"
proof (cases "cnt = 0")
  case False
  show ?thesis
  proof (rule search_loop [of cnt db f tz after])
    fix n
    assume n: "n \<le> MAX_SCAN_DAYS" "n = MAX_SCAN_DAYS \<or> cnt \<le> length (all_fires db f tz after n)"
      and w: "while_option (\<lambda>(scanned, cursor, out). scanned < MAX_SCAN_DAYS \<and> length out < cnt)
           (\<lambda>(scanned, cursor, out). (Suc scanned, cursor + DAY_MS, out @ fires_at_cursor db f tz after cursor))
           (0, search_start db tz after, []) = Some (n, search_start db tz after + DAY_MS * int n, all_fires db f tz after n)"
    from all_fires_prefix [OF n(1)] obtain more where "all_fires db f tz after MAX_SCAN_DAYS = all_fires db f tz after n @ more" by blast
    with n(2) have "take cnt (all_fires db f tz after MAX_SCAN_DAYS) = take cnt (all_fires db f tz after n)" by auto
    with False show ?thesis unfolding next_fires_def w by simp
  qed
qed (simp add: next_fires_def)

text \<open>
  C23: the search for the next fires ends, whatever the expression and the zone, after at most four years
  of days, with at most the number of moments asked for; an expression no day satisfies gives none.
\<close>

theorem next_fires_returns:
  "case next_fires db f tz after cnt of
     None \<Rightarrow> False
   | Some out \<Rightarrow> length out \<le> cnt
       \<and> (if list_ex (\<lambda>k. fires_at_cursor db f tz after (search_start db tz after + DAY_MS * int k) \<noteq> []) [0..<MAX_SCAN_DAYS]
          then (out = []) = (cnt = 0) else out = [])"
  by (auto simp: next_fires_eq all_fires_def list_ex_iff)

subsection \<open>What is found matches\<close>

lemma foldl_candidate:
  assumes "foldl (\<lambda>earliest off. let c = naive - off in if \<not> P c then earliest
      else case earliest of None \<Rightarrow> Some c | Some e \<Rightarrow> if c < e then Some c else earliest) acc offs = Some r"
    and "case acc of None \<Rightarrow> True | Some a \<Rightarrow> P a"
  shows "P r"
  using assms
proof (induction offs arbitrary: acc)
  case (Cons off offs)
  show ?case by (rule Cons.IH [OF Cons.prems(1) [simplified]]) (use Cons.prems(2) in \<open>auto simp: Let_def split: option.split\<close>)
qed simp

lemma wall_clock_to_ms_sound: "wall_clock_to_ms db wc tz = Some ms \<Longrightarrow> round_trips db ms wc tz"
  unfolding wall_clock_to_ms_def Let_def
  by (erule foldl_candidate [where P = "\<lambda>c. round_trips db c wc tz" and acc = None, unfolded Let_def]) simp

lemma civil_of_days_inj: "civil_of_days n = civil_of_days n' \<Longrightarrow> n = n'"
  by (metis civil_of_days_props(1) prod.collapse)

lemma fires_match:
  assumes "m \<in> set (fires_at_cursor db f tz after cursor)"
  shows "after < m \<and> matches_minute f (wall_clock_parts db m tz)"
proof -
  obtain y mo d where c: "civil_of_days (cursor div DAY_MS) = (y, mo, d)" by (cases "civil_of_days (cursor div DAY_MS)")
  from assms obtain h mi where h: "h \<in> set (cron_hour f)" "mi \<in> set (cron_minute f)" "after < m"
    and day: "matches_day f mo d (weekday (cursor div DAY_MS))"
    and w: "wall_clock_to_ms db ((calendar_day cursor)\<lparr>wc_hour := h, wc_minute := mi\<rparr>) tz = Some m"
    by (auto simp: fires_at_cursor_def fires_on_day_def calendar_day_def c Let_def split: if_splits option.splits)
  define b where "b = wall_clock_parts db m tz"
  have b: "wc_year b = y" "wc_month b = mo" "wc_day b = d" "wc_hour b = h" "wc_minute b = mi"
    using wall_clock_to_ms_sound [OF w] by (simp_all add: round_trips_def calendar_day_def c b_def Let_def)
  have "civil_of_days ((m + db tz m) div DAY_MS) = (wc_year b, wc_month b, wc_day b)" "wc_dow b = weekday ((m + db tz m) div DAY_MS)"
    by (simp_all add: b_def wall_clock_parts_def Let_def split: prod.split)
  with b c civil_of_days_inj have "wc_dow b = weekday (cursor div DAY_MS)" by metis
  with b h day show ?thesis by (simp add: matches_minute_def b_def)
qed

text \<open>
  A preview never lies: every moment the search gives, in any zone and across any change of its
  offset, is after the one asked about and is a wall-clock minute the expression matches, so the tick
  at that moment finds the schedule due.
\<close>

theorem next_fires_match:
  "case next_fires db f tz after cnt of None \<Rightarrow> False
   | Some out \<Rightarrow> list_all (\<lambda>m. after < m \<and> matches_minute f (wall_clock_parts db m tz)) out"
  using fires_match by (auto simp: next_fires_eq all_fires_def list_all_iff dest!: in_set_takeD)

end
