(* ===== verification/CronExact.thy ===== *)
theory CronExact
  imports CronNext
begin

section \<open>The search against a walk over every minute\<close>

text \<open>
  \<open>nextFires\<close> of \<open>src/shared/cron-next.ts\<close> looks at days first and expands the hours and minutes of
  a day only when the day qualifies, because a walk over every minute of four years is too slow. Here
  the slow walk is the specification: in a zone of one offset the search finds what the walk finds,
  all of it and in order.
\<close>

subsection \<open>Strictly sorted pieces\<close>

lemma sorted_concat:
  assumes "sorted_wrt (<) hs" "\<And>h. h \<in> set hs \<Longrightarrow> sorted_wrt (<) (g h)"
    and "\<And>h h' x y. h \<in> set hs \<Longrightarrow> h' \<in> set hs \<Longrightarrow> h < h' \<Longrightarrow> x \<in> set (g h) \<Longrightarrow> y \<in> set (g h') \<Longrightarrow> x < y"
  shows "sorted_wrt (<) (concat (map g (hs :: 'a :: linorder list)) :: int list)"
  using assms
proof (induction hs)
  case (Cons h hs)
  have "sorted_wrt (<) (concat (map g hs))"
  proof (rule Cons.IH)
    show "sorted_wrt (<) hs" using Cons.prems(1) by simp
    show "sorted_wrt (<) (g k)" if "k \<in> set hs" for k using Cons.prems(2) that by simp
    show "x < y" if "k \<in> set hs" "l \<in> set hs" "k < l" "x \<in> set (g k)" "y \<in> set (g l)" for k l x y
      by (rule Cons.prems(3) [of k l]) (use that in simp_all)
  qed
  moreover have "x < y" if "x \<in> set (g h)" "y \<in> set (g k)" "k \<in> set hs" for x y k
    by (rule Cons.prems(3) [of h k]) (use that Cons.prems(1) in simp_all)
  ultimately show ?case using Cons.prems(2) by (auto simp: sorted_wrt_append)
qed simp

lemma strictly_sorted: "distinct xs \<Longrightarrow> sorted_wrt (<) (sort (xs :: int list))"
  by (simp add: strict_sorted_iff)

subsection \<open>One offset\<close>

text \<open>A zone whose offset never changes, a whole number of minutes.\<close>

definition fixed_zone :: "int \<Rightarrow> tz_database" where
  "fixed_zone off = (\<lambda>_ _. 60000 * off)"

lemma clock_fields:
  fixes w :: int
  shows "DAY_MS * (w div DAY_MS) + 3600000 * (w mod DAY_MS div 3600000) + 60000 * (w mod DAY_MS div 60000 mod 60) = 60000 * (w div 60000)"
proof -
  define q r where "q = w div DAY_MS" and "r = w mod DAY_MS"
  have w: "w = r + (1440 * q) * 60000" by (simp add: q_def r_def)
  have "w div 60000 = 1440 * q + r div 60000" by (subst w) simp
  moreover have "r div 3600000 = r div 60000 div 60" by (simp add: zdiv_zmult2_eq [symmetric])
  moreover have "60 * (r div 60000 div 60) + r div 60000 mod 60 = r div 60000" by (rule mult_div_mod_eq)
  moreover have "DAY_MS * q' + 3600000 * c + 60000 * b = 60000 * t"
    if "t = 1440 * q' + u" "c = a" "60 * a + b = u" for t q' u c a b :: int using that by simp
  ultimately show ?thesis unfolding q_def [symmetric] r_def [symmetric] by blast
qed

lemma offset_at_fixed [simp]: "offset_at (fixed_zone off) ms tz = 60000 * off"
proof -
  let ?w = "ms + 60000 * off"
  obtain y m d where c: "civil_of_days (?w div DAY_MS) = (y, m, d)" by (cases "civil_of_days (?w div DAY_MS)")
  have "offset_at (fixed_zone off) ms tz
      = DAY_MS * (?w div DAY_MS) + 3600000 * (?w mod DAY_MS div 3600000) + 60000 * (?w mod DAY_MS div 60000 mod 60) - ms div 60000 * 60000"
    by (simp add: offset_at_def wall_clock_parts_def fixed_zone_def Let_def c date_utc_def civil_of_days_props(1) [OF c])
  also have "\<dots> = 60000 * (?w div 60000) - ms div 60000 * 60000" by (rule arg_cong [of _ _ "\<lambda>x. x - _"]) (rule clock_fields)
  also have "?w div 60000 = ms div 60000 + off" by simp
  finally show ?thesis by simp
qed

lemma js_set_same [simp]: "js_set [a, a, a] = [a]"
  by (simp add: js_set_def)

text \<open>The instant of a wall clock, which every wall clock of a real day has.\<close>

lemma wall_clock_at:
  assumes "0 \<le> h" "h \<le> 23" "0 \<le> mi" "mi \<le> 59" "civil_of_days n = (y, mo, d)"
  shows "wall_clock_parts (fixed_zone off) (DAY_MS * n + 3600000 * h + 60000 * mi - 60000 * off) tz
           = \<lparr>wc_year = y, wc_month = mo, wc_day = d, wc_hour = h, wc_minute = mi, wc_dow = weekday n\<rparr>"
proof -
  define r where "r = 3600000 * h + 60000 * mi"
  have r: "0 \<le> r" "r < DAY_MS" using assms by (auto simp: r_def)
  have t: "(DAY_MS * n + r) div DAY_MS = n" "(DAY_MS * n + r) mod DAY_MS = r" using r by simp_all
  have h: "r = 60000 * mi + h * 3600000" "r = 0 + (mi + h * 60) * 60000" by (simp_all add: r_def)
  have "r div 3600000 = h" using assms by (subst h(1)) simp
  moreover have "r div 60000 = mi + h * 60" by (subst h(2)) simp
  moreover have "(mi + h * 60) mod 60 = mi" using assms by simp
  moreover have "DAY_MS * n + 3600000 * h + 60000 * mi - 60000 * off + fixed_zone off tz x = DAY_MS * n + r" for x
    by (simp add: r_def fixed_zone_def)
  ultimately show ?thesis using t assms(5) by (simp only: wall_clock_parts_def Let_def) simp
qed

lemma wall_clock_to_ms_fixed:
  assumes "0 \<le> h" "h \<le> 23" "0 \<le> mi" "mi \<le> 59"
  shows "wall_clock_to_ms (fixed_zone off) ((calendar_day (DAY_MS * n))\<lparr>wc_hour := h, wc_minute := mi\<rparr>) tz
           = Some (DAY_MS * n + 3600000 * h + 60000 * mi - 60000 * off)"
proof -
  obtain y mo d where c: "civil_of_days n = (y, mo, d)" by (cases "civil_of_days n")
  have "date_utc y mo d h mi = DAY_MS * n + 3600000 * h + 60000 * mi"
    by (simp add: date_utc_def civil_of_days_props(1) [OF c])
  with wall_clock_at [OF assms c, of off tz] show ?thesis
    by (simp add: wall_clock_to_ms_def calendar_day_def c Let_def round_trips_def)
qed

subsection \<open>Day by day\<close>

abbreviation (input) fire_instant :: "int \<Rightarrow> int \<Rightarrow> int \<Rightarrow> int \<Rightarrow> int" where
  "fire_instant off n h mi \<equiv> DAY_MS * n + 3600000 * h + 60000 * mi - 60000 * off"

definition day_fits :: "cron_fields \<Rightarrow> int \<Rightarrow> bool" where
  "day_fits f n = (case civil_of_days n of (y, mo, d) \<Rightarrow> matches_day f mo d (weekday n))"

lemma fires_at_fixed:
  assumes "cron_in_range f"
  shows "fires_at_cursor (fixed_zone off) f tz after (DAY_MS * n) =
    (if day_fits f n
     then concat (map (\<lambda>h. concat (map (\<lambda>mi. if after < fire_instant off n h mi then [fire_instant off n h mi] else []) (sort (cron_minute f))))
       (sort (cron_hour f)))
     else [])"
proof -
  have day: "matches_day f (wc_month (calendar_day (DAY_MS * n))) (wc_day (calendar_day (DAY_MS * n))) (wc_dow (calendar_day (DAY_MS * n))) = day_fits f n"
    by (simp add: calendar_day_def day_fits_def split: prod.split)
  have at: "wall_clock_to_ms (fixed_zone off) ((calendar_day (DAY_MS * n))\<lparr>wc_hour := h, wc_minute := mi\<rparr>) tz = Some (fire_instant off n h mi)"
    if "h \<in> set (cron_hour f)" "mi \<in> set (cron_minute f)" for h mi
    by (rule wall_clock_to_ms_fixed) (use assms that in \<open>auto simp: cron_in_range_def in_field_def list_all_iff\<close>)
  show ?thesis
    unfolding fires_at_cursor_def Let_def day fires_on_day_def by (simp add: at cong: list.map_cong_simp)
qed

lemma in_fires_at_fixed:
  assumes "cron_in_range f"
  shows "m \<in> set (fires_at_cursor (fixed_zone off) f tz after (DAY_MS * n)) \<longleftrightarrow>
    day_fits f n \<and> after < m \<and> (\<exists>h \<in> set (cron_hour f). \<exists>mi \<in> set (cron_minute f). m = fire_instant off n h mi)"
  by (auto simp: fires_at_fixed [OF assms])

lemma sorted_fires_at_fixed:
  assumes "cron_in_range f"
  shows "sorted_wrt (<) (fires_at_cursor (fixed_zone off) f tz after (DAY_MS * n))"
proof -
  have r: "0 \<le> mi \<and> mi \<le> 59" if "mi \<in> set (sort (cron_minute f))" for mi
    using assms that by (auto simp: cron_in_range_def in_field_def list_all_iff)
  have d: "sorted_wrt (<) (sort (cron_minute f))" "sorted_wrt (<) (sort (cron_hour f))"
    using assms by (simp_all add: cron_in_range_def in_field_def strictly_sorted)
  have "sorted_wrt (<) (concat (map (\<lambda>mi. if after < fire_instant off n h mi then [fire_instant off n h mi] else []) (sort (cron_minute f))))" for h
    by (rule sorted_concat [OF d(1)]) (auto split: if_splits)
  then show ?thesis
    unfolding fires_at_fixed [OF assms]
    by (auto intro!: sorted_concat [OF d(2)] split: if_splits dest!: r [simplified])
qed

subsection \<open>The whole window\<close>

definition every_minute :: "tz_database \<Rightarrow> cron_fields \<Rightarrow> string \<Rightarrow> int \<Rightarrow> int \<Rightarrow> nat \<Rightarrow> int list" where
  "every_minute db f tz after first_minute n =
     filter (\<lambda>m. after < m \<and> matches_minute f (wall_clock_parts db m tz)) (map (\<lambda>j. first_minute + 60000 * int j) [0..<n])"

lemma every_minute_sorted: "sorted_wrt (<) (every_minute db f tz after b n)"
  unfolding every_minute_def
  by (intro sorted_wrt_filter) (simp add: sorted_wrt_map sorted_wrt_iff_nth_less)

lemma in_every_minute:
  "m \<in> set (every_minute db f tz after b n)
    \<longleftrightarrow> after < m \<and> matches_minute f (wall_clock_parts db m tz) \<and> (\<exists>j < n. m = b + 60000 * int j)"
  by (auto simp: every_minute_def)

lemma matches_at:
  assumes "0 \<le> h" "h \<le> 23" "0 \<le> mi" "mi \<le> 59"
  shows "matches_minute f (wall_clock_parts (fixed_zone off) (fire_instant off n h mi) tz)
    \<longleftrightarrow> mi \<in> set (cron_minute f) \<and> h \<in> set (cron_hour f) \<and> day_fits f n"
proof -
  obtain y mo d where c: "civil_of_days n = (y, mo, d)" by (cases "civil_of_days n")
  show ?thesis by (simp add: wall_clock_at [OF assms c] matches_minute_def day_fits_def c)
qed

lemma search_start_fixed: "search_start (fixed_zone off) tz after = DAY_MS * ((after + 60000 * off) div DAY_MS)"
proof -
  obtain y m d where c: "civil_of_days ((after + 60000 * off) div DAY_MS) = (y, m, d)" by (cases "civil_of_days ((after + 60000 * off) div DAY_MS)")
  show ?thesis by (simp add: search_start_def wall_clock_parts_def fixed_zone_def Let_def c date_utc_def civil_of_days_props(1) [OF c])
qed

lemma all_fires_walk:
  fixes off after
  assumes "cron_in_range f"
  defines "s \<equiv> (after + 60000 * off) div DAY_MS"
  shows "all_fires (fixed_zone off) f tz after n = every_minute (fixed_zone off) f tz after (DAY_MS * s - 60000 * off) (1440 * n)"
proof (rule strict_sorted_equal)
  let ?g = "\<lambda>k. fires_at_cursor (fixed_zone off) f tz after (DAY_MS * (s + int k))"
  have all: "all_fires (fixed_zone off) f tz after n = concat (map ?g [0..<n])"
    by (simp add: all_fires_def search_start_fixed s_def distrib_left)
  have r: "0 \<le> mi \<and> mi \<le> 59" if "mi \<in> set (cron_minute f)" for mi
    using assms that by (auto simp: cron_in_range_def in_field_def list_all_iff)
  have rh: "0 \<le> h \<and> h \<le> 23" if "h \<in> set (cron_hour f)" for h
    using assms that by (auto simp: cron_in_range_def in_field_def list_all_iff)
  show "sorted_wrt (<) (all_fires (fixed_zone off) f tz after n)"
    unfolding all
  proof (rule sorted_concat)
    fix k l :: nat and x y
    assume k: "k < l" and x: "x \<in> set (?g k)" and y: "y \<in> set (?g l)"
    from x obtain h mi where h: "h \<in> set (cron_hour f)" "mi \<in> set (cron_minute f)" "x = fire_instant off (s + int k) h mi"
      unfolding in_fires_at_fixed [OF assms(1)] by blast
    from y obtain h' mi' where h': "h' \<in> set (cron_hour f)" "mi' \<in> set (cron_minute f)" "y = fire_instant off (s + int l) h' mi'"
      unfolding in_fires_at_fixed [OF assms(1)] by blast
    from r [OF h(2)] rh [OF h(1)] r [OF h'(2)] rh [OF h'(1)] k show "x < y" by (simp add: h(3) h'(3))
  qed (simp, rule sorted_fires_at_fixed [OF assms(1)])
  show "sorted_wrt (<) (every_minute (fixed_zone off) f tz after (DAY_MS * s - 60000 * off) (1440 * n))"
    by (rule every_minute_sorted)
  show "set (all_fires (fixed_zone off) f tz after n) = set (every_minute (fixed_zone off) f tz after (DAY_MS * s - 60000 * off) (1440 * n))"
    (is "?A = ?B")
  proof (rule set_eqI)
    fix m
    have "m \<in> ?A \<longleftrightarrow> after < m \<and> (\<exists>k < n. day_fits f (s + int k) \<and> (\<exists>h \<in> set (cron_hour f). \<exists>mi \<in> set (cron_minute f).
        m = fire_instant off (s + int k) h mi))"
      unfolding all set_concat set_map atLeast_upt [symmetric] UN_iff image_image in_fires_at_fixed [OF assms(1)] by auto
    also have "\<dots> \<longleftrightarrow> m \<in> ?B"
    proof
      assume L: "after < m \<and> (\<exists>k < n. day_fits f (s + int k) \<and> (\<exists>h \<in> set (cron_hour f). \<exists>mi \<in> set (cron_minute f).
        m = fire_instant off (s + int k) h mi))"
      then obtain k h mi where k: "k < n" "day_fits f (s + int k)" "h \<in> set (cron_hour f)" "mi \<in> set (cron_minute f)"
        and m: "m = fire_instant off (s + int k) h mi" by blast
      have b: "0 \<le> h" "h \<le> 23" "0 \<le> mi" "mi \<le> 59" using r [OF k(4)] rh [OF k(3)] by simp_all
      have "m = DAY_MS * s - 60000 * off + 60000 * int (1440 * k + nat (60 * h + mi))" using b by (simp add: m)
      moreover have "1440 * k + nat (60 * h + mi) < 1440 * n" using k(1) b by linarith
      moreover have "matches_minute f (wall_clock_parts (fixed_zone off) m tz)" unfolding m matches_at [OF b] using k by simp
      ultimately show "m \<in> ?B" using L unfolding in_every_minute by blast
    next
      assume "m \<in> ?B"
      then obtain j where j: "j < 1440 * n" "m = DAY_MS * s - 60000 * off + 60000 * int j" "after < m"
        and fits: "matches_minute f (wall_clock_parts (fixed_zone off) m tz)" unfolding in_every_minute by blast
      define k h mi where "k = j div 1440" and "h = int (j mod 1440 div 60)" and "mi = int (j mod 60)"
      have "j mod 1440 < 1440" by simp
      then have b: "0 \<le> h" "h \<le> 23" "0 \<le> mi" "mi \<le> 59" by (simp_all add: h_def mi_def div_less_iff_less_mult less_Suc_eq_le [symmetric])
      have "j = 1440 * k + (60 * (j mod 1440 div 60) + j mod 1440 mod 60)" unfolding k_def by simp
      then have "int j = 1440 * int k + 60 * h + mi" by (simp add: h_def mi_def mod_mod_cancel)
      then have m: "m = fire_instant off (s + int k) h mi" by (simp add: j(2))
      have "k < n" using j(1) by (simp add: k_def div_less_iff_less_mult mult.commute)
      with fits j(3) show "after < m \<and> (\<exists>k < n. day_fits f (s + int k) \<and> (\<exists>h \<in> set (cron_hour f). \<exists>mi \<in> set (cron_minute f).
        m = fire_instant off (s + int k) h mi))" unfolding m matches_at [OF b] by blast
    qed
    finally show "m \<in> ?A \<longleftrightarrow> m \<in> ?B" .
  qed
qed

text \<open>
  C5: the search that looks at days first finds exactly what a walk over every minute of its four years
  would: for any expression that parses, in a zone of one offset, from any moment and for any number
  of fires, nothing is missed, invented, repeated or out of order.
\<close>

theorem search_is_the_walk:
  "case parse_cron expr of Err _ \<Rightarrow> True
   | Ok f \<Rightarrow> next_fires (fixed_zone off) f tz after cnt
       = Some (take cnt (every_minute (fixed_zone off) f tz after (search_start (fixed_zone off) tz after - 60000 * off) (1440 * MAX_SCAN_DAYS)))"
  by (auto simp: next_fires_eq all_fires_walk search_start_fixed dest!: parse_cron_in_range split: result.split)

end
