(* ===== verification/SchedulePolicy.thy ===== *)
theory SchedulePolicy
  imports CronExact JsJson
begin

section \<open>Schedules and when they fire\<close>

text \<open>
  A schedule (\<open>src/shared/scheduled-task.ts\<close>), its run rows (\<open>src/shared/scheduled-run.ts\<close>), every
  question whether it fires (\<open>src/broker/scheduled-tasks/policy.ts\<close>), the preview of its next fire
  (\<open>src/shared/schedule-next-fire.ts\<close>), and what is recorded after an outage
  (\<open>src/broker/scheduled-tasks/catch-up.ts\<close>).
  The spawn and epic blocks of a schedule are values the engine hands on unread.
\<close>

subsection \<open>Schedules\<close>

datatype catch_up_mode = Catch_Up_Skip | Catch_Up_Once

datatype overlap_mode = Overlap_Skip | Overlap_Parallel

datatype schedule_action = Spawn | Board_Sweep | Epic_Start

record scheduled_task =
  task_id :: string
  task_name :: string
  enabled :: bool
  project_uri :: string
  task_cwd :: string
  task_sentinel :: "string option"
  cron :: "string option"
  run_at :: "int option"
  task_tz :: string
  start_at :: "int option"
  end_at :: "int option"
  max_runs :: "int option"
  catch_up :: catch_up_mode
  overlap :: overlap_mode
  task_action :: "schedule_action option"
  task_prompt :: "string option"
  task_epic :: "js_object option"
  profile_id :: "string option"
  task_spawn :: js_object
  order_id :: "string option"
  created_by :: string
  created_at :: int
  updated_at :: int
  last_run_at :: "int option"
  last_fired_minute_key :: "string option"
  run_count :: int
  consecutive_failures :: int

datatype run_trigger = Cron_Trigger | Manual_Trigger | Catch_Up_Trigger

datatype run_outcome = Spawned | Swept | Armed | Skipped_Overlap | Skipped_Disabled | Run_Error | Missed

record scheduled_run =
  run_id :: string
  schedule_id :: string
  fired_at :: int
  run_minute_key :: string
  run_trigger :: run_trigger
  run_outcome :: run_outcome
  run_conversation :: "string option"
  run_job :: "string option"
  run_error :: "string option"

definition schedule_action :: "scheduled_task \<Rightarrow> schedule_action" where
  "schedule_action t = (case task_action t of None \<Rightarrow> Spawn | Some a \<Rightarrow> a)"

subsection \<open>The policy\<close>

abbreviation (input) CATCH_UP_GRACE_MS :: int where "CATCH_UP_GRACE_MS \<equiv> 21600000"

definition MAX_CONSECUTIVE_FAILURES :: int where "MAX_CONSECUTIVE_FAILURES = 5"

definition MAX_MISSED_ROWS :: nat where "MAX_MISSED_ROWS = 20"

definition MAX_CONCURRENT_SCHEDULED_SPAWNS :: nat where "MAX_CONCURRENT_SCHEDULED_SPAWNS = 3"

datatype skip_reason = Disabled | Bad_Cron | Not_Started | Expired | Max_Runs | Not_Due | Already_Fired | One_Shot_Stale

datatype fire_decision = Fire string | Skip skip_reason

definition one_shot_key :: "int \<Rightarrow> string" where
  "one_shot_key due = ''once:'' @ int_str due"

definition decide_one_shot :: "scheduled_task \<Rightarrow> int \<Rightarrow> int \<Rightarrow> fire_decision" where
  "decide_one_shot t due now =
     (if now < due then Skip Not_Due
      else
        let key = one_shot_key due
        in if last_fired_minute_key t = Some key then Skip Already_Fired
           else if CATCH_UP_GRACE_MS < now - due then Skip One_Shot_Stale
           else Fire key)"

definition usable_cron :: "scheduled_task \<Rightarrow> cron_fields option" where
  "usable_cron t = (case cron t of None \<Rightarrow> None | Some e \<Rightarrow> (case parse_cron e of Err _ \<Rightarrow> None | Ok f \<Rightarrow> Some f))"

definition decide_fire :: "tz_database \<Rightarrow> scheduled_task \<Rightarrow> int \<Rightarrow> fire_decision" where
  "decide_fire db t now =
     (if \<not> enabled t then Skip Disabled
      else if (case start_at t of None \<Rightarrow> False | Some a \<Rightarrow> now < a) then Skip Not_Started
      else if (case end_at t of None \<Rightarrow> False | Some b \<Rightarrow> b < now) then Skip Expired
      else if (case max_runs t of None \<Rightarrow> False | Some n \<Rightarrow> n \<le> run_count t) then Skip Max_Runs
      else case run_at t of
        Some due \<Rightarrow> decide_one_shot t due now
      | None \<Rightarrow>
          (case usable_cron t of
             None \<Rightarrow> Skip Bad_Cron
           | Some f \<Rightarrow>
               let wall = wall_clock_parts db now (task_tz t); key = minute_key wall (task_tz t)
               in if \<not> matches_minute f wall then Skip Not_Due
                  else if last_fired_minute_key t = Some key then Skip Already_Fired
                  else Fire key))"

definition is_terminal_for :: "scheduled_task \<Rightarrow> skip_reason \<Rightarrow> bool" where
  "is_terminal_for t r \<longleftrightarrow>
     (if run_at t \<noteq> None \<and> r = Already_Fired then True else r \<in> {Expired, Max_Runs, One_Shot_Stale})"

text \<open>\<open>None\<close> is a search that never returns, which \<open>next_fires_eq\<close> excludes.\<close>

definition compute_missed_fires :: "tz_database \<Rightarrow> scheduled_task \<Rightarrow> int \<Rightarrow> nat \<Rightarrow> int list option" where
  "compute_missed_fires db t now cap =
     (if run_at t \<noteq> None then Some []
      else case usable_cron t of
        None \<Rightarrow> Some []
      | Some f \<Rightarrow>
          (case last_run_at t of
             None \<Rightarrow> Some []
           | Some since \<Rightarrow>
               if now \<le> since then Some []
               else map_option (\<lambda>fires. take cap (filter (\<lambda>ms. ms < now) fires)) (next_fires db f (task_tz t) since (Suc cap))))"

definition should_catch_up :: "scheduled_task \<Rightarrow> int list \<Rightarrow> int \<Rightarrow> bool" where
  "should_catch_up t missed now \<longleftrightarrow>
     (if catch_up t \<noteq> Catch_Up_Once \<or> missed = [] then False else now - last missed \<le> CATCH_UP_GRACE_MS)"

definition next_failure_state :: "int \<Rightarrow> bool \<Rightarrow> int \<times> bool" where
  "next_failure_state previous dispatch_ok =
     (if dispatch_ok then (0, False) else (previous + 1, MAX_CONSECUTIVE_FAILURES \<le> previous + 1))"

subsection \<open>The preview\<close>

definition next_fire_at :: "tz_database \<Rightarrow> scheduled_task \<Rightarrow> int \<Rightarrow> int option option" where
  "next_fire_at db t now =
     (if \<not> enabled t then Some None
      else if (case end_at t of None \<Rightarrow> False | Some b \<Rightarrow> b < now) then Some None
      else if (case max_runs t of None \<Rightarrow> False | Some n \<Rightarrow> n \<le> run_count t) then Some None
      else case run_at t of
        Some due \<Rightarrow> Some (if last_fired_minute_key t = Some (one_shot_key due) then None else Some due)
      | None \<Rightarrow>
          (case usable_cron t of
             None \<Rightarrow> Some None
           | Some f \<Rightarrow>
               let from = (case start_at t of None \<Rightarrow> now | Some a \<Rightarrow> if now < a then a - 1 else now)
               in map_option (\<lambda>fires. case fires of
                    [] \<Rightarrow> None
                  | next # _ \<Rightarrow> if (case end_at t of None \<Rightarrow> False | Some b \<Rightarrow> b < next) then None else Some next)
                  (next_fires db f (task_tz t) from 1)))"

subsection \<open>After an outage\<close>

definition missed_row :: "tz_database \<Rightarrow> string \<Rightarrow> scheduled_task \<Rightarrow> int \<Rightarrow> scheduled_run" where
  "missed_row db rid t due =
     \<lparr>run_id = rid, schedule_id = task_id t, fired_at = due, run_minute_key = minute_key (wall_clock_parts db due (task_tz t)) (task_tz t),
      run_trigger = Cron_Trigger, run_outcome = Missed, run_conversation = None, run_job = None, run_error = None\<rparr>"

text \<open>
  One schedule of the walk: the rows it writes, with ids from the supply after the rows there are, and
  whether it is caught up. The walk awaits the catch-up before the next schedule.
\<close>

definition reconcile_one ::
  "tz_database \<Rightarrow> (nat \<Rightarrow> string) \<Rightarrow> int \<Rightarrow> scheduled_task \<Rightarrow> scheduled_run list \<Rightarrow> (scheduled_run list \<times> bool) option" where
  "reconcile_one db new_id now t runs =
     map_option (\<lambda>missed.
         (runs @ map (\<lambda>(i, due). missed_row db (new_id (length runs + i)) t due) (zip [0..<length missed] missed),
          missed \<noteq> [] \<and> should_catch_up t missed now))
       (compute_missed_fires db t now MAX_MISSED_ROWS)"

subsection \<open>The preview and the tick\<close>

lemma wall_clock_minute: "wall_clock_parts (fixed_zone off) (60000 * (s div 60000)) tz = wall_clock_parts (fixed_zone off) s tz"
proof -
  let ?w = "s + 60000 * off"
  have w: "60000 * (s div 60000) + 60000 * off = 60000 * (?w div 60000)" by (simp add: algebra_simps)
  have d: "60000 * (?w div 60000) div DAY_MS = ?w div DAY_MS"
    using zdiv_zmult2_eq [of 1440 "?w" 60000] div_mult_mult1 [of "60000 :: int" "?w div 60000" 1440] by simp
  have "60000 * (?w div 60000) mod DAY_MS = ?w mod DAY_MS - ?w mod 60000"
    using d minus_mod_eq_mult_div [of "60000 * (?w div 60000)" DAY_MS] minus_mod_eq_mult_div [of "?w" DAY_MS] minus_mod_eq_mult_div [of "?w" 60000]
    by linarith
  moreover have "?w mod 60000 = ?w mod DAY_MS mod 60000" by (simp add: mod_mod_cancel)
  ultimately have m: "60000 * (?w div 60000) mod DAY_MS = 60000 * (?w mod DAY_MS div 60000)"
    using minus_mod_eq_mult_div [of "?w mod DAY_MS" 60000] by linarith
  have floor: "60000 * (x div 60000) div 3600000 = x div 3600000" for x :: int
    using zdiv_zmult2_eq [of 60 x 60000] div_mult_mult1 [of "60000 :: int" "x div 60000" 60] by simp
  have h: "60000 * (?w mod DAY_MS div 60000) div 3600000 = ?w mod DAY_MS div 3600000" by (rule floor)
  have "60000 * (s div 60000) + fixed_zone off tz x = 60000 * (?w div 60000)" "s + fixed_zone off tz x = ?w" for x
    using w by (simp_all add: fixed_zone_def)
  then show ?thesis unfolding wall_clock_parts_def Let_def by (simp only: d m h) (simp add: div_mult_mult1)
qed

text \<open>Between the moment a search starts from and the first it finds, no whole minute matches.\<close>

lemma first_fire_is_first:
  assumes "cron_in_range f" and "next_fires (fixed_zone off) f tz since 1 = Some (m # ms)" and "since div 60000 < s div 60000" "s < m"
  shows "\<not> matches_minute f (wall_clock_parts (fixed_zone off) s tz)"
proof
  assume fits: "matches_minute f (wall_clock_parts (fixed_zone off) s tz)"
  define b n where "b = DAY_MS * ((since + 60000 * off) div DAY_MS) - 60000 * off" and "n = 1440 * MAX_SCAN_DAYS"
  let ?xs = "every_minute (fixed_zone off) f tz since b n"
  have "take 1 ?xs = m # ms"
    using assms(2) by (simp add: next_fires_eq all_fires_walk [OF assms(1)] b_def n_def)
  then obtain rest where xs: "?xs = m # rest" by (cases ?xs) auto
  then have "m \<in> set ?xs" by simp
  then obtain j where j: "j < n" "m = b + 60000 * int j" unfolding in_every_minute by blast
  define s' where "s' = 60000 * (s div 60000)"
  have "b \<le> since" unfolding b_def using div_mult_mod_eq [of "since + 60000 * off" DAY_MS] pos_mod_sign [of DAY_MS "since + 60000 * off"] by linarith
  moreover have "since < 60000 * (since div 60000) + 60000" using div_mult_mod_eq [of since 60000] pos_mod_bound [of 60000 since] by linarith
  ultimately have s': "since < s'" "b \<le> s'" "s' \<le> s"
    using assms(3) div_mult_mod_eq [of s 60000] pos_mod_sign [of 60000 s] by (simp_all add: s'_def)
  define k where "k = nat (s div 60000 + off - 1440 * ((since + 60000 * off) div DAY_MS))"
  have "s' = b + 60000 * (s div 60000 + off - 1440 * ((since + 60000 * off) div DAY_MS))" by (simp add: s'_def b_def algebra_simps)
  with s'(2) have k: "s' = b + 60000 * int k" by (simp add: k_def)
  with s'(3) assms(4) j have "k < n" by simp
  with k have "\<exists>k < n. s' = b + 60000 * int k" by blast
  moreover have "matches_minute f (wall_clock_parts (fixed_zone off) s' tz)" using fits by (simp add: s'_def wall_clock_minute)
  ultimately have "s' \<in> set ?xs" using s'(1) unfolding in_every_minute by blast
  moreover have "sorted_wrt (<) (m # rest)" unfolding xs [symmetric] by (rule every_minute_sorted)
  ultimately have "m \<le> s'" unfolding xs by auto
  with s'(3) assms(4) show False by simp
qed

lemma usable_cron_in_range: "usable_cron t = Some f \<Longrightarrow> cron_in_range f"
  by (auto simp: usable_cron_def dest: parse_cron_in_range split: option.splits result.splits)

subsection \<open>A daily schedule\<close>

definition DAILY :: cron_fields where
  "DAILY = \<lparr>cron_minute = [0], cron_hour = [0], cron_dom = stride 1 31 1, cron_month = stride 1 12 1, cron_dow = stride 0 6 1,
     dom_restricted = False, dow_restricted = False\<rparr>"

definition nightly :: scheduled_task where
  "nightly =
     \<lparr>task_id = ''sch_1'', task_name = ''nightly'', enabled = True, project_uri = ''claude:///p'', task_cwd = ''/p'', task_sentinel = None,
      cron = Some ''0 0 * * *'', run_at = None, task_tz = ''UTC'', start_at = None, end_at = None, max_runs = None,
      catch_up = Catch_Up_Once, overlap = Overlap_Skip, task_action = None, task_prompt = Some ''go'', task_epic = None,
      profile_id = None, task_spawn = [], order_id = None, created_by = ''ann'', created_at = 0, updated_at = 0,
      last_run_at = None, last_fired_minute_key = None, run_count = 0, consecutive_failures = 0\<rparr>"

lemma parse_daily: "parse_cron ''0 0 * * *'' = Ok DAILY"
  by code_simp

lemma usable_nightly: "cron t = Some ''0 0 * * *'' \<Longrightarrow> usable_cron t = Some DAILY"
  by (simp add: usable_cron_def parse_daily)

lemma DAILY_in_range: "cron_in_range DAILY"
  by (rule parse_cron_in_range [OF parse_daily])

lemma daily_fits: "day_fits DAILY n"
proof -
  obtain y m d where c: "civil_of_days n = (y, m, d)" by (cases "civil_of_days n")
  have "m \<in> {1..12}" using civil_of_days_props(2,3) [OF c] by simp
  moreover have "set (stride 1 12 1) = {1..12}" by code_simp
  ultimately show ?thesis by (simp add: day_fits_def c matches_day_def DAILY_def)
qed

lemma daily_fires:
  assumes "cnt < 1464"
  shows "next_fires (fixed_zone 0) DAILY tz (DAY_MS * s) cnt = Some (map (\<lambda>k. DAY_MS * (s + int k)) [1..<Suc cnt])"
proof -
  have one: "fires_at_cursor (fixed_zone 0) DAILY tz (DAY_MS * s) (DAY_MS * n) = (if s < n then [DAY_MS * n] else [])" for n
    unfolding fires_at_fixed [OF DAILY_in_range] by (simp add: daily_fits) (simp add: DAILY_def)
  have "all_fires (fixed_zone 0) DAILY tz (DAY_MS * s) m = map (\<lambda>k. DAY_MS * (s + int k)) [1..<m]" for m
  proof (induction m)
    case (Suc m)
    have "DAY_MS * s + DAY_MS * int m = DAY_MS * (s + int m)" by simp
    then have "all_fires (fixed_zone 0) DAILY tz (DAY_MS * s) (Suc m)
        = all_fires (fixed_zone 0) DAILY tz (DAY_MS * s) m @ fires_at_cursor (fixed_zone 0) DAILY tz (DAY_MS * s) (DAY_MS * (s + int m))"
      by (simp add: all_fires_def search_start_fixed)
    with Suc.IH show ?case unfolding one by simp
  qed (simp add: all_fires_def)
  then have "next_fires (fixed_zone 0) DAILY tz (DAY_MS * s) cnt = Some (take cnt (map (\<lambda>k. DAY_MS * (s + int k)) [1..<1464]))"
    by (simp only: next_fires_eq MAX_SCAN_DAYS_def) simp
  also have "\<dots> = Some (map (\<lambda>k. DAY_MS * (s + int k)) [1..<Suc cnt])" unfolding take_map using assms by (subst take_upt) simp_all
  finally show ?thesis .
qed



end
