(* ===== verification/WorkOrder.thy ===== *)
theory WorkOrder
  imports JsJson
begin

section \<open>Work orders\<close>

text \<open>
  \<open>src/shared/order.ts\<close>: the \<open>order@1\<close> artifact and the validator that reads one from anything, written
  as if the input were hostile. A refusal is its message and the field it names.
\<close>

type_synonym 'a checked = "(string \<times> string, 'a) result"

subsection \<open>The artifact\<close>

record order_caps =
  cap_model :: "string option"
  cap_effort :: "string option"
  cap_agent :: "string option"
  cap_budget :: "rat option"
  cap_turns :: "int option"
  cap_mode :: "string option"
  cap_mcp_config :: "string option"

record work_order =
  order_id_name :: string
  order_title :: string
  order_seat :: string
  order_caps :: order_caps
  order_prompt :: "string option"
  order_instructions :: "string option"
  order_reservation :: "int option"
  order_name_prefix :: "string option"
  order_worktree :: "string option"
  order_min_trust :: "string option"
  order_flags :: "(string \<times> string) list option"
  order_permissions :: "string list option option"
  order_notes :: "string option"

definition ORDER_TRUST_RANK :: "string list" where
  "ORDER_TRUST_RANK = [''untrusted'', ''trusted'', ''benevolent'']"

definition ORDER_FLAG_ALLOWLIST :: "string list" where
  "ORDER_FLAG_ALLOWLIST = [''--model'', ''--effort'', ''--agent'', ''--max-budget-usd'', ''--max-turns'']"

definition EFFORTS :: "string list" where
  "EFFORTS = [''low'', ''medium'', ''high'', ''xhigh'', ''max'']"

definition MODES :: "string list" where
  "MODES = [''plan'', ''acceptEdits'', ''auto'', ''dontAsk'', ''bypassPermissions'']"

definition PROMPTS :: "string list" where
  "PROMPTS = [''werk-worker'', ''werk-verifier'', ''werk-master'', ''werk-planner'']"

definition SEAT_MAX :: nat where "SEAT_MAX = 32"

definition ORDER_INSTRUCTIONS_MAX :: nat where "ORDER_INSTRUCTIONS_MAX = 20000"

subsection \<open>Characters\<close>

definition between :: "char \<Rightarrow> char \<Rightarrow> char \<Rightarrow> bool" where
  "between a b c \<longleftrightarrow> (of_char a :: nat) \<le> of_char c \<and> (of_char c :: nat) \<le> of_char b"

text \<open>\<open>/^[\w .@:/[\]-]+$/\<close>\<close>

definition safe_char :: "char \<Rightarrow> bool" where
  "safe_char c \<longleftrightarrow> between (CHR ''A'') (CHR ''Z'') c \<or> between (CHR ''a'') (CHR ''z'') c \<or> between (CHR ''0'') (CHR ''9'') c
     \<or> c \<in> set ''_ .@:/[]-''"

definition is_command_line_safe :: "string \<Rightarrow> bool" where
  "is_command_line_safe v \<longleftrightarrow> 0 < length v \<and> list_all safe_char v"

text \<open>\<open>/^[a-z][a-z0-9-]*$/\<close> and \<open>/^[A-Z][A-Z0-9-]*@\d+$/\<close>, whose first \<open>@\<close> ends the name.\<close>

definition is_order_seat :: "string \<Rightarrow> bool" where
  "is_order_seat s \<longleftrightarrow>
     (case s of [] \<Rightarrow> False
      | c # cs \<Rightarrow> between (CHR ''a'') (CHR ''z'') c
          \<and> list_all (\<lambda>d. between (CHR ''a'') (CHR ''z'') d \<or> between (CHR ''0'') (CHR ''9'') d \<or> d = CHR ''-'') cs)"

definition is_order_id :: "string \<Rightarrow> bool" where
  "is_order_id s \<longleftrightarrow>
     (let name = takeWhile (\<lambda>d. between (CHR ''A'') (CHR ''Z'') d \<or> between (CHR ''0'') (CHR ''9'') d \<or> d = CHR ''-'') s;
          rest = drop (length name) s
      in name \<noteq> [] \<and> between (CHR ''A'') (CHR ''Z'') (hd name)
         \<and> (case rest of [] \<Rightarrow> False | c # v \<Rightarrow> c = CHR ''@'' \<and> v \<noteq> [] \<and> list_all (between (CHR ''0'') (CHR ''9'')) v))"

definition has_control_chars :: "string \<Rightarrow> bool" where
  "has_control_chars s \<longleftrightarrow>
     list_ex (\<lambda>c. let code = of_char c :: nat in if code = 9 \<or> code = 10 \<or> code = 13 then False else code < 32 \<or> code = 127) s"

definition compose_seat_prompt :: "work_order option \<Rightarrow> string \<Rightarrow> string" where
  "compose_seat_prompt order context_text =
     (case (case order of None \<Rightarrow> None | Some od \<Rightarrow> order_instructions od) of
        None \<Rightarrow> context_text
      | Some ins \<Rightarrow> if context_text = [] then ins else context_text @ [CHR 0x0A, CHR 0x0A] @ ins)"

subsection \<open>Fields\<close>

definition require_string :: "js_object \<Rightarrow> string \<Rightarrow> string checked" where
  "require_string r k =
     (case map_of r k of
        Some (J_Str s) \<Rightarrow> if s = [] then Err (k @ '' must be a non-empty string'', k) else Ok s
      | _ \<Rightarrow> Err (k @ '' must be a non-empty string'', k))"

definition require_command_line_safe :: "string \<Rightarrow> string \<Rightarrow> string checked" where
  "require_command_line_safe v field =
     (if is_command_line_safe v then Ok v else Err (field @ '' contains characters that may not reach a command line'', field))"

definition validate_seat :: "js_object \<Rightarrow> string checked" where
  "validate_seat r =
     and_then (require_string r ''seat'') (\<lambda>seat.
       if SEAT_MAX < length seat then Err (''seat must be at most '' @ nat_str SEAT_MAX @ '' characters'', ''seat'')
       else if \<not> is_order_seat seat then Err (''seat must be a lowercase-kebab name, e.g. werk-worker or doc-writer'', ''seat'')
       else Ok seat)"

definition optional_member :: "js_object \<Rightarrow> string \<Rightarrow> string list \<Rightarrow> string \<Rightarrow> string option checked" where
  "optional_member r k allowed field =
     (case map_of r k of
        None \<Rightarrow> Ok None
      | Some v \<Rightarrow>
          (case v of
             J_Str s \<Rightarrow> if s \<in> set allowed then Ok (Some s) else Err (field @ '' must be one of: '' @ join '', '' allowed, field)
           | _ \<Rightarrow> Err (field @ '' must be one of: '' @ join '', '' allowed, field)))"

definition optional_safe_string :: "js_object \<Rightarrow> string \<Rightarrow> string \<Rightarrow> string option checked" where
  "optional_safe_string r k field =
     (case map_of r k of
        None \<Rightarrow> Ok None
      | Some v \<Rightarrow>
          (case v of
             J_Str s \<Rightarrow> and_then (require_command_line_safe s field) (\<lambda>s. Ok (Some s))
           | _ \<Rightarrow> Err (field @ '' must be a string'', field)))"

definition is_integer :: "rat \<Rightarrow> bool" where
  "is_integer q \<longleftrightarrow> of_int (floor q) = q"

definition optional_count :: "js_object \<Rightarrow> string \<Rightarrow> string \<Rightarrow> int \<Rightarrow> int option checked" where
  "optional_count r k field least =
     (case map_of r k of
        None \<Rightarrow> Ok None
      | Some v \<Rightarrow>
          (case v of
             J_Num q \<Rightarrow>
               if is_integer q \<and> least \<le> floor q then Ok (Some (floor q)) else Err (field @ '' must be an integer >= '' @ int_str least, field)
           | _ \<Rightarrow> Err (field @ '' must be an integer >= '' @ int_str least, field)))"

definition as_record :: "json \<Rightarrow> string \<Rightarrow> js_object checked" where
  "as_record v field = (case v of J_Obj ob \<Rightarrow> Ok ob | _ \<Rightarrow> Err (field @ '' must be an object'', field))"

definition optional_instructions :: "json option \<Rightarrow> string option checked" where
  "optional_instructions input =
     (case input of
        None \<Rightarrow> Ok None
      | Some v \<Rightarrow> (case v of J_Str s \<Rightarrow> Ok (Some s) | _ \<Rightarrow> Err (''instructions must be a string'', ''instructions'')))"

definition validate_prompt_source :: "js_object \<Rightarrow> (string option \<times> string option) checked" where
  "validate_prompt_source r =
     and_then (optional_member r ''prompt'' PROMPTS ''prompt'') (\<lambda>prompt.
     and_then (optional_instructions (map_of r ''instructions'')) (\<lambda>ins.
       if prompt \<noteq> None \<and> ins \<noteq> None then Err (''an order sets either prompt or instructions, never both'', ''instructions'')
       else case ins of
         None \<Rightarrow>
           if prompt = None then Err (''an order must set prompt (one of: '' @ join '', '' PROMPTS @ '') or instructions'', ''prompt'')
           else Ok (prompt, None)
       | Some s \<Rightarrow>
           if s = [] then Err (''instructions must be a non-empty string'', ''instructions'')
           else if ORDER_INSTRUCTIONS_MAX < length s
             then Err (''instructions must be at most '' @ nat_str ORDER_INSTRUCTIONS_MAX @ '' characters'', ''instructions'')
           else if has_control_chars s
             then Err (''instructions may not contain control characters other than tab, newline and carriage return'', ''instructions'')
           else Ok (None, Some s)))"

definition validate_budget :: "json option \<Rightarrow> rat option checked" where
  "validate_budget input =
     (case input of
        None \<Rightarrow> Ok None
      | Some b \<Rightarrow>
          (case b of
             J_Num q \<Rightarrow> if 0 < q then Ok (Some q) else Err (''caps.maxBudgetUsd must be a positive finite number'', ''caps.maxBudgetUsd'')
           | _ \<Rightarrow> Err (''caps.maxBudgetUsd must be a positive finite number'', ''caps.maxBudgetUsd'')))"

definition validate_caps :: "json option \<Rightarrow> order_caps checked" where
  "validate_caps input =
     (case input of
        None \<Rightarrow>
          Ok \<lparr>cap_model = None, cap_effort = None, cap_agent = None, cap_budget = None, cap_turns = None, cap_mode = None, cap_mcp_config = None\<rparr>
      | Some v \<Rightarrow>
          and_then (as_record v ''caps'') (\<lambda>r.
          and_then (validate_budget (map_of r ''maxBudgetUsd'')) (\<lambda>budget.
          and_then (optional_safe_string r ''model'' ''caps.model'') (\<lambda>model.
          and_then (optional_member r ''effort'' EFFORTS ''caps.effort'') (\<lambda>effort.
          and_then (optional_safe_string r ''agent'' ''caps.agent'') (\<lambda>agent.
          and_then (optional_count r ''maxTurns'' ''caps.maxTurns'' 1) (\<lambda>turns.
          and_then (optional_member r ''permissionMode'' MODES ''caps.permissionMode'') (\<lambda>mode.
          and_then (optional_safe_string r ''mcpConfigPath'' ''caps.mcpConfigPath'') (\<lambda>mcp.
            Ok \<lparr>cap_model = model, cap_effort = effort, cap_agent = agent, cap_budget = budget, cap_turns = turns, cap_mode = mode,
                cap_mcp_config = mcp\<rparr>)))))))))"

fun validate_flag_entries :: "js_object \<Rightarrow> (string \<times> string) list \<Rightarrow> (string \<times> string) list checked" where
  "validate_flag_entries [] out = Ok out"
| "validate_flag_entries ((flag, v) # es) out =
     (if flag \<notin> set ORDER_FLAG_ALLOWLIST
      then Err (''flag '' @ [CHR 0x22] @ flag @ [CHR 0x22] @ '' is not on the order flag allowlist ('' @ join '' '' ORDER_FLAG_ALLOWLIST @ '')'',
                ''flags.'' @ flag)
      else case v of
        J_Str s \<Rightarrow> and_then (require_command_line_safe s (''flags.'' @ flag)) (\<lambda>s. validate_flag_entries es (AList.update flag s out))
      | _ \<Rightarrow> Err (''flags.'' @ flag @ '' must be a string'', ''flags.'' @ flag))"

definition validate_flags :: "json option \<Rightarrow> (string \<times> string) list option checked" where
  "validate_flags input =
     (case input of
        None \<Rightarrow> Ok None
      | Some v \<Rightarrow> and_then (as_record v ''flags'') (\<lambda>r. and_then (validate_flag_entries r []) (\<lambda>out. Ok (Some out))))"

definition validate_deny :: "json option \<Rightarrow> string list option checked" where
  "validate_deny input =
     (case input of
        None \<Rightarrow> Ok None
      | Some d \<Rightarrow>
          (case d of
             J_Arr vs \<Rightarrow>
               if list_ex (\<lambda>x. \<not> is_string x \<or> x = J_Str []) vs
               then Err (''permissions.deny must be an array of non-empty strings'', ''permissions.deny'')
               else Ok (Some (json_strings vs))
           | _ \<Rightarrow> Err (''permissions.deny must be an array of non-empty strings'', ''permissions.deny'')))"

definition validate_permissions :: "json option \<Rightarrow> string list option option checked" where
  "validate_permissions input =
     (case input of
        None \<Rightarrow> Ok None
      | Some v \<Rightarrow>
          and_then (as_record v ''permissions'') (\<lambda>r.
            if map_of r ''allow'' \<noteq> None
            then Err (''permissions.allow is not part of order@1 -- an order may only ever REMOVE capability'', ''permissions.allow'')
            else and_then (validate_deny (map_of r ''deny'')) (\<lambda>deny. Ok (Some deny))))"

definition validate_worktree :: "json option \<Rightarrow> string option checked" where
  "validate_worktree input =
     (case input of
        None \<Rightarrow> Ok None
      | Some v \<Rightarrow>
          and_then (as_record v ''worktree'') (\<lambda>r.
            case map_of r ''prefix'' of
              Some (J_Str p) \<Rightarrow>
                if p = [] then Ok (Some []) else and_then (require_command_line_safe p ''worktree.prefix'') (\<lambda>p. Ok (Some p))
            | _ \<Rightarrow> Err (''worktree.prefix must be a string'', ''worktree.prefix'')))"

subsection \<open>The validator\<close>

definition validate_order :: "json \<Rightarrow> work_order checked" where
  "validate_order input =
     and_then (as_record input ''order'') (\<lambda>r.
       if map_of r ''kind'' \<noteq> Some (J_Str ''order@1'') then Err (''kind must be '' @ [CHR 0x22] @ ''order@1'' @ [CHR 0x22], ''kind'')
       else
         and_then (require_string r ''id'') (\<lambda>ident.
         if \<not> is_order_id ident then Err (''id must look like NAME@VERSION, e.g. WERK-WORKER@1'', ''id'')
         else
         and_then (validate_seat r) (\<lambda>seat.
         and_then (validate_prompt_source r) (\<lambda>(prompt, ins).
         and_then (require_string r ''title'') (\<lambda>title.
         and_then (validate_caps (map_of r ''caps'')) (\<lambda>caps.
         and_then (optional_count r ''reservation'' ''reservation'' 0) (\<lambda>reservation.
         and_then (optional_safe_string r ''namePrefix'' ''namePrefix'') (\<lambda>prefix.
         and_then (validate_worktree (map_of r ''worktree'')) (\<lambda>worktree.
         and_then (optional_member r ''minTrust'' ORDER_TRUST_RANK ''minTrust'') (\<lambda>trust.
         and_then (validate_flags (map_of r ''flags'')) (\<lambda>flags.
         and_then (validate_permissions (map_of r ''permissions'')) (\<lambda>perms.
           Ok \<lparr>order_id_name = ident, order_title = title, order_seat = seat, order_caps = caps, order_prompt = prompt,
               order_instructions = ins, order_reservation = reservation, order_name_prefix = prefix, order_worktree = worktree,
               order_min_trust = trust, order_flags = flags, order_permissions = perms,
               order_notes = (case map_of r ''notes'' of Some (J_Str n) \<Rightarrow> Some n | _ \<Rightarrow> None)\<rparr>))))))))))))"

subsection \<open>What a validated order is\<close>

definition optionally :: "('a \<Rightarrow> bool) \<Rightarrow> 'a option \<Rightarrow> bool" where
  "optionally P v = (case v of None \<Rightarrow> True | Some x \<Rightarrow> P x)"

lemma optionally_simps [simp]: "optionally P None" "optionally P (Some x) = P x"
  by (simp_all add: optionally_def)

definition valid_caps :: "order_caps \<Rightarrow> bool" where
  "valid_caps c \<longleftrightarrow> optionally is_command_line_safe (cap_model c) \<and> optionally is_command_line_safe (cap_agent c)
     \<and> optionally is_command_line_safe (cap_mcp_config c) \<and> optionally (\<lambda>e. e \<in> set EFFORTS) (cap_effort c)
     \<and> optionally (\<lambda>m. m \<in> set MODES) (cap_mode c) \<and> optionally (\<lambda>b. 0 < b) (cap_budget c) \<and> optionally (\<lambda>n. 1 \<le> n) (cap_turns c)"

definition valid_flags :: "(string \<times> string) list \<Rightarrow> bool" where
  "valid_flags fs \<longleftrightarrow> distinct (map fst fs) \<and> list_all (\<lambda>(k, v). k \<in> set ORDER_FLAG_ALLOWLIST \<and> is_command_line_safe v) fs"

definition one_prompt_source :: "string option \<Rightarrow> string option \<Rightarrow> bool" where
  "one_prompt_source prompt ins \<longleftrightarrow>
     (case (prompt, ins) of
        (Some p, None) \<Rightarrow> p \<in> set PROMPTS
      | (None, Some s) \<Rightarrow> s \<noteq> [] \<and> length s \<le> ORDER_INSTRUCTIONS_MAX \<and> \<not> has_control_chars s
      | _ \<Rightarrow> False)"

definition valid_order :: "work_order \<Rightarrow> bool" where
  "valid_order od \<longleftrightarrow> is_order_id (order_id_name od) \<and> is_order_seat (order_seat od) \<and> length (order_seat od) \<le> SEAT_MAX
     \<and> order_title od \<noteq> [] \<and> one_prompt_source (order_prompt od) (order_instructions od) \<and> valid_caps (order_caps od)
     \<and> optionally (\<lambda>n. 0 \<le> n) (order_reservation od) \<and> optionally is_command_line_safe (order_name_prefix od)
     \<and> optionally (\<lambda>p. p = [] \<or> is_command_line_safe p) (order_worktree od)
     \<and> optionally (\<lambda>t. t \<in> set ORDER_TRUST_RANK) (order_min_trust od) \<and> optionally valid_flags (order_flags od)
     \<and> optionally (optionally (list_all (\<lambda>r. r \<noteq> []))) (order_permissions od)"

lemma optional_safe_string_ok: "optional_safe_string r k f = Ok v \<Longrightarrow> optionally is_command_line_safe v"
  by (auto simp: optional_safe_string_def require_command_line_safe_def split: option.splits json.splits if_splits)

lemma optional_member_ok: "optional_member r k xs f = Ok v \<Longrightarrow> optionally (\<lambda>x. x \<in> set xs) v"
  by (auto simp: optional_member_def split: option.splits json.splits if_splits)

lemma optional_count_ok: "optional_count r k f n = Ok v \<Longrightarrow> optionally (\<lambda>x. n \<le> x) v"
  by (auto simp: optional_count_def split: option.splits json.splits if_splits)

lemma require_string_ok: "require_string r k = Ok v \<Longrightarrow> v \<noteq> []"
  by (auto simp: require_string_def split: option.splits json.splits if_splits)

lemma validate_seat_ok: "validate_seat r = Ok v \<Longrightarrow> is_order_seat v \<and> length v \<le> SEAT_MAX"
  by (auto simp: validate_seat_def split: if_splits)

lemma validate_prompt_source_ok: "validate_prompt_source r = Ok (p, i) \<Longrightarrow> one_prompt_source p i"
  unfolding validate_prompt_source_def and_then_is_Ok
  by (elim exE conjE) (auto simp: one_prompt_source_def dest!: optional_member_ok split: option.splits if_splits)

lemma validate_budget_ok: "validate_budget v = Ok b \<Longrightarrow> optionally (\<lambda>b. 0 < b) b"
  by (auto simp: validate_budget_def split: option.splits json.splits if_splits)

lemma validate_deny_ok: "validate_deny v = Ok d \<Longrightarrow> optionally (list_all (\<lambda>r. r \<noteq> [])) d"
  by (auto simp: validate_deny_def json_strings_def list_all_iff list_ex_iff is_string_def split: option.splits json.splits if_splits)

lemma validate_caps_ok:
  assumes "validate_caps v = Ok c"
  shows "valid_caps c"
proof (cases v)
  case (Some w)
  from assms obtain r budget model effort agent turns mode mcp where
    f: "validate_budget (map_of r ''maxBudgetUsd'') = Ok budget" "optional_safe_string r ''model'' ''caps.model'' = Ok model"
      "optional_member r ''effort'' EFFORTS ''caps.effort'' = Ok effort" "optional_safe_string r ''agent'' ''caps.agent'' = Ok agent"
      "optional_count r ''maxTurns'' ''caps.maxTurns'' 1 = Ok turns" "optional_member r ''permissionMode'' MODES ''caps.permissionMode'' = Ok mode"
      "optional_safe_string r ''mcpConfigPath'' ''caps.mcpConfigPath'' = Ok mcp"
    and c: "c = \<lparr>cap_model = model, cap_effort = effort, cap_agent = agent, cap_budget = budget, cap_turns = turns, cap_mode = mode,
                cap_mcp_config = mcp\<rparr>"
    unfolding validate_caps_def Some by auto
  show ?thesis
    using validate_budget_ok [OF f(1)] optional_safe_string_ok [OF f(2)] optional_member_ok [OF f(3)] optional_safe_string_ok [OF f(4)]
      optional_count_ok [OF f(5)] optional_member_ok [OF f(6)] optional_safe_string_ok [OF f(7)]
    by (simp add: valid_caps_def c)
qed (use assms in \<open>auto simp: validate_caps_def valid_caps_def\<close>)

lemma validate_flag_entries_ok: "validate_flag_entries es out = Ok fs \<Longrightarrow> valid_flags out \<Longrightarrow> valid_flags fs"
proof (induction es out rule: validate_flag_entries.induct)
  case (2 flag v es out)
  from 2(2) obtain s where s: "v = J_Str s" "flag \<in> set ORDER_FLAG_ALLOWLIST" "is_command_line_safe s"
    "validate_flag_entries es (AList.update flag s out) = Ok fs"
    by (auto simp: require_command_line_safe_def split: json.splits if_splits)
  have "valid_flags (AList.update flag s out)"
    using 2(3) s(2,3) by (induction out) (auto simp: valid_flags_def dom_update split: if_splits)
  with 2(1) s show ?case by (simp add: require_command_line_safe_def)
qed simp

lemma validate_flags_ok: "validate_flags v = Ok fs \<Longrightarrow> optionally valid_flags fs"
  by (auto simp: validate_flags_def valid_flags_def [of "[]"] dest!: validate_flag_entries_ok split: option.splits)

lemma validate_permissions_ok: "validate_permissions v = Ok p \<Longrightarrow> optionally (optionally (list_all (\<lambda>r. r \<noteq> []))) p"
  by (auto simp: validate_permissions_def dest: validate_deny_ok split: option.splits if_splits)

lemma validate_worktree_ok: "validate_worktree v = Ok w \<Longrightarrow> optionally (\<lambda>p. p = [] \<or> is_command_line_safe p) w"
proof (cases v)
  case (Some j)
  assume "validate_worktree v = Ok w"
  then obtain r where r: "(case map_of r ''prefix'' of
              Some (J_Str p) \<Rightarrow>
                if p = [] then Ok (Some []) else and_then (require_command_line_safe p ''worktree.prefix'') (\<lambda>p. Ok (Some p))
            | _ \<Rightarrow> Err (''worktree.prefix must be a string'', ''worktree.prefix'')) = Ok w"
    by (auto simp: validate_worktree_def Some)
  then show ?thesis by (auto simp: require_command_line_safe_def split: option.splits json.splits if_splits)
qed (simp add: validate_worktree_def)

lemma validate_order_ok:
  assumes "validate_order raw = Ok od"
  shows "valid_order od"
proof -
  from assms obtain r where "validate_order raw = Ok od" "as_record raw ''order'' = Ok r" by (auto simp: validate_order_def)
  then obtain ident seat prompt ins title caps reservation prefix worktree trust flags perms where
    f: "require_string r ''id'' = Ok ident" "is_order_id ident" "validate_seat r = Ok seat" "validate_prompt_source r = Ok (prompt, ins)"
      "require_string r ''title'' = Ok title" "validate_caps (map_of r ''caps'') = Ok caps"
      "optional_count r ''reservation'' ''reservation'' 0 = Ok reservation" "optional_safe_string r ''namePrefix'' ''namePrefix'' = Ok prefix"
      "validate_worktree (map_of r ''worktree'') = Ok worktree" "optional_member r ''minTrust'' ORDER_TRUST_RANK ''minTrust'' = Ok trust"
      "validate_flags (map_of r ''flags'') = Ok flags" "validate_permissions (map_of r ''permissions'') = Ok perms"
    and od: "od = \<lparr>order_id_name = ident, order_title = title, order_seat = seat, order_caps = caps, order_prompt = prompt,
               order_instructions = ins, order_reservation = reservation, order_name_prefix = prefix, order_worktree = worktree,
               order_min_trust = trust, order_flags = flags, order_permissions = perms,
               order_notes = (case map_of r ''notes'' of Some (J_Str n) \<Rightarrow> Some n | _ \<Rightarrow> None)\<rparr>"
    unfolding validate_order_def by (auto split: if_splits prod.splits)
  show ?thesis
    using f(2) validate_seat_ok [OF f(3)] validate_prompt_source_ok [OF f(4)] require_string_ok [OF f(5)] validate_caps_ok [OF f(6)]
      optional_count_ok [OF f(7)] optional_safe_string_ok [OF f(8)] validate_worktree_ok [OF f(9)] optional_member_ok [OF f(10)]
      validate_flags_ok [OF f(11)] validate_permissions_ok [OF f(12)]
    by (simp add: valid_order_def od)
qed

subsection \<open>Reading a validated order again\<close>

text \<open>An order as the plain object it is: absent fields are absent keys.\<close>

definition entry :: "string \<Rightarrow> json option \<Rightarrow> js_object" where
  "entry k v = (case v of None \<Rightarrow> [] | Some j \<Rightarrow> [(k, j)])"

lemma map_of_entry [simp]: "map_of (entry k v @ rest) l = (if l = k then (case v of None \<Rightarrow> map_of rest l | Some j \<Rightarrow> Some j) else map_of rest l)"
  "map_of (entry k v) l = (if l = k then v else None)"
  by (auto simp: entry_def split: option.split)

definition caps_json :: "order_caps \<Rightarrow> json" where
  "caps_json c = J_Obj (entry ''model'' (map_option J_Str (cap_model c)) @ entry ''effort'' (map_option J_Str (cap_effort c))
     @ entry ''agent'' (map_option J_Str (cap_agent c)) @ entry ''maxBudgetUsd'' (map_option J_Num (cap_budget c))
     @ entry ''maxTurns'' (map_option (\<lambda>n. J_Num (of_int n)) (cap_turns c)) @ entry ''permissionMode'' (map_option J_Str (cap_mode c))
     @ entry ''mcpConfigPath'' (map_option J_Str (cap_mcp_config c)))"

definition order_object :: "work_order \<Rightarrow> js_object" where
  "order_object od = ([(''kind'', J_Str ''order@1''), (''id'', J_Str (order_id_name od)), (''title'', J_Str (order_title od)),
       (''seat'', J_Str (order_seat od)), (''caps'', caps_json (order_caps od))]
     @ entry ''prompt'' (map_option J_Str (order_prompt od)) @ entry ''instructions'' (map_option J_Str (order_instructions od))
     @ entry ''reservation'' (map_option (\<lambda>n. J_Num (of_int n)) (order_reservation od))
     @ entry ''namePrefix'' (map_option J_Str (order_name_prefix od))
     @ entry ''worktree'' (map_option (\<lambda>p. J_Obj [(''prefix'', J_Str p)]) (order_worktree od))
     @ entry ''minTrust'' (map_option J_Str (order_min_trust od))
     @ entry ''flags'' (map_option (\<lambda>fs. J_Obj (map (\<lambda>(k, v). (k, J_Str v)) fs)) (order_flags od))
     @ entry ''permissions'' (map_option (\<lambda>p. J_Obj (entry ''deny'' (map_option (\<lambda>ds. J_Arr (map J_Str ds)) p))) (order_permissions od))
     @ entry ''notes'' (map_option J_Str (order_notes od)))"

definition order_json :: "work_order \<Rightarrow> json" where
  "order_json od = J_Obj (order_object od)"

lemma optional_safe_string_back:
  "map_of r k = map_option J_Str v \<Longrightarrow> optionally is_command_line_safe v \<Longrightarrow> optional_safe_string r k f = Ok v"
  by (cases v) (simp_all add: optional_safe_string_def require_command_line_safe_def)

lemma optional_member_back: "map_of r k = map_option J_Str v \<Longrightarrow> optionally (\<lambda>x. x \<in> set xs) v \<Longrightarrow> optional_member r k xs f = Ok v"
  by (cases v) (simp_all add: optional_member_def)

lemma optional_count_back:
  "map_of r k = map_option (\<lambda>n. J_Num (of_int n)) v \<Longrightarrow> optionally (\<lambda>x. n \<le> x) v \<Longrightarrow> optional_count r k f n = Ok v"
  by (cases v) (simp_all add: optional_count_def is_integer_def)

lemma validate_budget_back: "optionally (\<lambda>b. 0 < b) v \<Longrightarrow> validate_budget (map_option J_Num v) = Ok v"
  by (cases v) (simp_all add: validate_budget_def)

lemma validate_caps_back: "valid_caps c \<Longrightarrow> validate_caps (Some (caps_json c)) = Ok c"
proof -
  assume v: "valid_caps c"
  define r where "r = entry ''model'' (map_option J_Str (cap_model c)) @ entry ''effort'' (map_option J_Str (cap_effort c))
     @ entry ''agent'' (map_option J_Str (cap_agent c)) @ entry ''maxBudgetUsd'' (map_option J_Num (cap_budget c))
     @ entry ''maxTurns'' (map_option (\<lambda>n. J_Num (of_int n)) (cap_turns c)) @ entry ''permissionMode'' (map_option J_Str (cap_mode c))
     @ entry ''mcpConfigPath'' (map_option J_Str (cap_mcp_config c))"
  have "optional_safe_string r ''model'' f = Ok (cap_model c)" "optional_member r ''effort'' EFFORTS f = Ok (cap_effort c)"
    "optional_safe_string r ''agent'' f = Ok (cap_agent c)" "optional_count r ''maxTurns'' f 1 = Ok (cap_turns c)"
    "optional_member r ''permissionMode'' MODES f = Ok (cap_mode c)" "optional_safe_string r ''mcpConfigPath'' f = Ok (cap_mcp_config c)" for f
    by (rule optional_safe_string_back optional_member_back optional_count_back;
      use v in \<open>simp add: r_def valid_caps_def del: map_of_append split: option.split\<close>)+
  moreover have "map_of r ''maxBudgetUsd'' = map_option J_Num (cap_budget c)" by (simp add: r_def del: map_of_append split: option.split)
  ultimately show ?thesis
    using v by (simp add: validate_caps_def caps_json_def as_record_def validate_budget_back valid_caps_def flip: r_def)
qed

lemma validate_flag_entries_back:
  "list_all (\<lambda>(k, v). k \<in> set ORDER_FLAG_ALLOWLIST \<and> is_command_line_safe v) fs \<Longrightarrow> distinct (map fst (out @ fs)) \<Longrightarrow>
     validate_flag_entries (map (\<lambda>(k, v). (k, J_Str v)) fs) out = Ok (out @ fs)"
proof (induction fs arbitrary: out)
  case (Cons x fs)
  obtain k v where x: "x = (k, v)" by (cases x)
  have "AList.update k v out = out @ [(k, v)]"
    using Cons.prems(2) by (induction out) (auto simp: x)
  with Cons x show ?case by (simp add: require_command_line_safe_def)
qed simp

lemma validate_flags_back: "optionally valid_flags v \<Longrightarrow> validate_flags (map_option (\<lambda>fs. J_Obj (map (\<lambda>(k, v). (k, J_Str v)) fs)) v) = Ok v"
  by (cases v) (auto simp: validate_flags_def as_record_def valid_flags_def validate_flag_entries_back)

lemma validate_deny_back: "optionally (list_all (\<lambda>r. r \<noteq> [])) v \<Longrightarrow> validate_deny (map_option (\<lambda>ds. J_Arr (map J_Str ds)) v) = Ok v"
  by (cases v) (auto simp: validate_deny_def is_string_def list_ex_iff list_all_iff)

lemma validate_permissions_back:
  "optionally (optionally (list_all (\<lambda>r. r \<noteq> []))) v \<Longrightarrow>
     validate_permissions (map_option (\<lambda>p. J_Obj (entry ''deny'' (map_option (\<lambda>ds. J_Arr (map J_Str ds)) p))) v) = Ok v"
  by (cases v) (simp_all add: validate_permissions_def as_record_def validate_deny_back)

lemma validate_worktree_back:
  "optionally (\<lambda>p. p = [] \<or> is_command_line_safe p) v \<Longrightarrow> validate_worktree (map_option (\<lambda>p. J_Obj [(''prefix'', J_Str p)]) v) = Ok v"
  by (cases v) (auto simp: validate_worktree_def as_record_def require_command_line_safe_def)

lemma validate_order_back:
  assumes "valid_order od"
  shows "validate_order (order_json od) = Ok od"
proof -
  define r where "r = order_object od"
  have r: "order_json od = J_Obj r" by (simp add: order_json_def r_def)
  have k: "map_of r ''kind'' = Some (J_Str ''order@1'')" "map_of r ''id'' = Some (J_Str (order_id_name od))"
    "map_of r ''title'' = Some (J_Str (order_title od))" "map_of r ''seat'' = Some (J_Str (order_seat od))"
    "map_of r ''caps'' = Some (caps_json (order_caps od))" "map_of r ''prompt'' = map_option J_Str (order_prompt od)"
    "map_of r ''instructions'' = map_option J_Str (order_instructions od)"
    "map_of r ''reservation'' = map_option (\<lambda>n. J_Num (of_int n)) (order_reservation od)"
    "map_of r ''namePrefix'' = map_option J_Str (order_name_prefix od)"
    "map_of r ''worktree'' = map_option (\<lambda>p. J_Obj [(''prefix'', J_Str p)]) (order_worktree od)"
    "map_of r ''minTrust'' = map_option J_Str (order_min_trust od)"
    "map_of r ''flags'' = map_option (\<lambda>fs. J_Obj (map (\<lambda>(k, v). (k, J_Str v)) fs)) (order_flags od)"
    "map_of r ''permissions'' = map_option (\<lambda>p. J_Obj (entry ''deny'' (map_option (\<lambda>ds. J_Arr (map J_Str ds)) p))) (order_permissions od)"
    "map_of r ''notes'' = map_option J_Str (order_notes od)"
    by (simp_all add: r_def order_object_def del: map_of_append split: option.split)
  note v = assms [unfolded valid_order_def]
  have source: "validate_prompt_source r = Ok (order_prompt od, order_instructions od)"
    using v optional_member_back [OF k(6), of PROMPTS "''prompt''"]
    by (auto simp: validate_prompt_source_def k(7) optional_instructions_def one_prompt_source_def split: option.splits)
  have "optional_count r ''reservation'' ''reservation'' 0 = Ok (order_reservation od)"
    "optional_safe_string r ''namePrefix'' ''namePrefix'' = Ok (order_name_prefix od)"
    "optional_member r ''minTrust'' ORDER_TRUST_RANK ''minTrust'' = Ok (order_min_trust od)"
    using v by (auto intro: optional_count_back [OF k(8)] optional_safe_string_back [OF k(9)] optional_member_back [OF k(11)])
  moreover have "require_string r ''id'' = Ok (order_id_name od)" "require_string r ''title'' = Ok (order_title od)"
    "validate_seat r = Ok (order_seat od)"
    using v by (auto simp: require_string_def validate_seat_def k is_order_id_def is_order_seat_def split: list.splits)
  moreover have "(case map_of r ''notes'' of Some (J_Str n) \<Rightarrow> Some n | _ \<Rightarrow> None) = order_notes od"
    unfolding k(14) by (cases "order_notes od") simp_all
  ultimately show ?thesis
    using v source
    by (simp add: validate_order_def r as_record_def k(1) k(5) k(10) k(12) k(13) validate_caps_back validate_worktree_back
        validate_flags_back validate_permissions_back)
qed

text \<open>
  C20: an order read from anything at all is refused with the field to blame or safe to spend: its id and
  seat have their form, exactly one source of its prompt is set, every string that may reach a command
  line holds only characters of the allow list, its flags are on the flag allow list and nothing in it
  adds a permission; and written out and read again it is the same order.
\<close>

theorem order_survives_its_file:
  "case validate_order raw of
     Err _ \<Rightarrow> True
   | Ok od \<Rightarrow> valid_order od \<and> validate_order (order_json od) = Ok od"
  using validate_order_ok validate_order_back by (auto split: result.split prod.split)

text \<open>
  The character check does not make a value one argument: a model name with a space and a flag of no
  allow list in it is command line safe, and an order may carry it.
\<close>

theorem a_safe_value_may_hold_a_flag:
  "is_command_line_safe ''opus --dangerously-skip-permissions''
   \<and> validate_flags (Some (J_Obj [(''--model'', J_Str ''opus --dangerously-skip-permissions'')]))
       = Ok (Some [(''--model'', ''opus --dangerously-skip-permissions'')])
   \<and> ''--dangerously-skip-permissions'' \<notin> set ORDER_FLAG_ALLOWLIST"
  by code_simp

end
