(* ===== verification/JsRegex.thy ===== *)
theory JsRegex
  imports JsPrelude
begin

section \<open>Regular expressions\<close>

text \<open>
  \<open>new RegExp(source).test(s)\<close> for the portable subset the code keeps to: characters, classes, groups,
  alternation, \<open>*\<close>, \<open>+\<close>, \<open>?\<close> and the two anchors. A position is what is left of the string, with
  whether it is the whole of it. What an expression matches is a relation; the search that decides it
  runs, and agrees with the relation.
\<close>

datatype re =
    Empty
  | Class bool "(char \<times> char) list"
  | Line_Start
  | Line_End
  | Seq re re
  | Alt re re
  | Star re

type_synonym position = "bool \<times> string"

definition in_class :: "bool \<Rightarrow> (char \<times> char) list \<Rightarrow> char \<Rightarrow> bool" where
  "in_class negated ranges c \<longleftrightarrow>
     list_ex (\<lambda>(a, b). if a = b then c = a else of_char a \<le> (of_char c :: nat) \<and> (of_char c :: nat) \<le> of_char b) ranges \<noteq> negated"

subsection \<open>What an expression matches\<close>

inductive spans :: "re \<Rightarrow> position \<Rightarrow> position \<Rightarrow> bool" where
  span_Empty: "spans Empty p p"
| span_Class: "in_class n rs c \<Longrightarrow> spans (Class n rs) (b, c # s) (False, s)"
| span_Start: "spans Line_Start (True, s) (True, s)"
| span_End: "spans Line_End (b, []) (b, [])"
| span_Seq: "spans r p q \<Longrightarrow> spans r' q q' \<Longrightarrow> spans (Seq r r') p q'"
| span_Left: "spans r p q \<Longrightarrow> spans (Alt r r') p q"
| span_Right: "spans r' p q \<Longrightarrow> spans (Alt r r') p q"
| span_Done: "spans (Star r) p p"
| span_More: "spans r p q \<Longrightarrow> spans (Star r) q q' \<Longrightarrow> spans (Star r) p q'"

inductive_cases span_EmptyE: "spans Empty p q"
inductive_cases span_ClassE: "spans (Class n rs) p q"
inductive_cases span_StartE: "spans Line_Start p q"
inductive_cases span_EndE: "spans Line_End p q"
inductive_cases span_SeqE: "spans (Seq r r') p q"
inductive_cases span_AltE: "spans (Alt r r') p q"

lemmas span_cases = span_EmptyE span_ClassE span_StartE span_EndE span_SeqE span_AltE

text \<open>A match never goes back, and one that moves nothing changes nothing.\<close>

lemma spans_progress: "spans r p q \<Longrightarrow> length (snd q) \<le> length (snd p) \<and> (length (snd q) = length (snd p) \<longrightarrow> q = p)"
  by (induction rule: spans.induct) auto

subsection \<open>The search\<close>

fun repeated :: "(position \<Rightarrow> position list) \<Rightarrow> nat \<Rightarrow> position \<Rightarrow> position list" where
  "repeated f 0 p = [p]"
| "repeated f (Suc n) p = p # concat (map (repeated f n) (filter (\<lambda>q. length (snd q) < length (snd p)) (f p)))"

primrec ends :: "re \<Rightarrow> position \<Rightarrow> position list" where
  "ends Empty p = [p]"
| "ends (Class n rs) p = (case snd p of [] \<Rightarrow> [] | c # s \<Rightarrow> if in_class n rs c then [(False, s)] else [])"
| "ends Line_Start p = (if fst p then [p] else [])"
| "ends Line_End p = (if snd p = [] then [p] else [])"
| "ends (Seq r r') p = concat (map (ends r') (ends r p))"
| "ends (Alt r r') p = ends r p @ ends r' p"
| "ends (Star r) p = repeated (ends r) (length (snd p)) p"

lemma repeated_sound:
  assumes "\<And>p q. q \<in> set (f p) \<Longrightarrow> spans r p q"
  shows "q \<in> set (repeated f n p) \<Longrightarrow> spans (Star r) p q"
proof (induction n arbitrary: p)
  case (Suc n)
  show ?case
  proof (cases "q = p")
    case False
    with Suc.prems obtain p' where "p' \<in> set (f p)" "q \<in> set (repeated f n p')" by auto
    with Suc.IH [of p'] assms [of p' p] show ?thesis by (blast intro: span_More)
  qed (simp add: span_Done)
qed (simp add: span_Done)

lemma repeated_complete:
  "spans (Star r) p q \<Longrightarrow> (\<And>p q. spans r p q \<Longrightarrow> q \<in> set (f p)) \<Longrightarrow> length (snd p) \<le> n \<Longrightarrow> q \<in> set (repeated f n p)"
proof (induction "Star r" p q arbitrary: n rule: spans.induct)
  case (span_Done p)
  show ?case by (cases n) simp_all
next
  case (span_More p q q')
  show ?case
  proof (cases "length (snd q) = length (snd p)")
    case True
    with spans_progress [OF span_More(1)] have "q = p" by simp
    with span_More show ?thesis by simp
  next
    case False
    with spans_progress [OF span_More(1)] have less: "length (snd q) < length (snd p)" by simp
    with span_More.prems(2) obtain m where n: "n = Suc m" by (cases n) auto
    with less span_More.prems(2) have "length (snd q) \<le> m" by simp
    then have "q' \<in> set (repeated f m q)" using span_More.hyps(4) span_More.prems(1) by blast
    moreover have "q \<in> set (f p)" by (rule span_More.prems(1) [OF span_More.hyps(1)])
    ultimately have "\<exists>u. u \<in> set (f p) \<and> length (snd u) < length (snd p) \<and> q' \<in> set (repeated f m u)" using less by blast
    then show ?thesis unfolding n by auto
  qed
qed

lemma ends_spans: "q \<in> set (ends r p) \<longleftrightarrow> spans r p q"
proof (induction r arbitrary: p q)
  case (Star r)
  then show ?case
    using repeated_sound [of "ends r" r q "length (snd p)" p] repeated_complete [of r p q "ends r" "length (snd p)"] by auto
next
  case (Class n rs)
  show ?case by (cases p; cases "snd p") (auto intro: span_Class elim: span_cases)
next
  case (Line_End)
  show ?case by (cases p) (auto intro: span_End elim: span_cases)
next
  case (Line_Start)
  show ?case by (cases p; cases "fst p") (auto intro: span_Start elim: span_cases)
next
  case (Seq r r')
  have "q \<in> set (ends (Seq r r') p) \<longleftrightarrow> (\<exists>m. m \<in> set (ends r p) \<and> q \<in> set (ends r' m))" by auto
  also have "\<dots> \<longleftrightarrow> spans (Seq r r') p q" unfolding Seq.IH by (blast intro: span_Seq elim: span_SeqE)
  finally show ?case .
next
  case (Alt r r')
  then show ?case by (auto intro: span_Left span_Right elim: span_AltE)
qed (auto intro: span_Empty elim: span_EmptyE)

fun starts :: "bool \<Rightarrow> string \<Rightarrow> position list" where
  "starts b [] = [(b, [])]"
| "starts b (c # s) = (b, c # s) # starts False s"

definition re_test :: "re \<Rightarrow> string \<Rightarrow> bool" where
  "re_test r s = list_ex (\<lambda>p. ends r p \<noteq> []) (starts True s)"

lemma in_starts: "(b', s') \<in> set (starts b s) \<longleftrightarrow> (\<exists>pre. s = pre @ s' \<and> b' = (if pre = [] then b else False))"
proof (induction s arbitrary: b)
  case (Cons c s)
  then show ?case by (auto simp: Cons_eq_append_conv split: if_splits)
qed auto

lemma re_test_iff: "re_test r s \<longleftrightarrow> (\<exists>pre rest q. s = pre @ rest \<and> spans r (pre = [], rest) q)"
proof -
  have ends: "ends r p \<noteq> [] \<longleftrightarrow> (\<exists>q. spans r p q)" for p
    using ends_spans [of _ r p] by (cases "ends r p") auto
  show ?thesis
  proof
    assume "re_test r s"
    then obtain b rest where "(b, rest) \<in> set (starts True s)" "ends r (b, rest) \<noteq> []" by (auto simp: re_test_def list_ex_iff)
    then obtain pre q where "s = pre @ rest" "b = (pre = [])" "spans r (b, rest) q" unfolding in_starts ends by (auto split: if_splits)
    then show "\<exists>pre rest q. s = pre @ rest \<and> spans r (pre = [], rest) q" by blast
  next
    assume "\<exists>pre rest q. s = pre @ rest \<and> spans r (pre = [], rest) q"
    then obtain pre rest q where s: "s = pre @ rest" and q: "spans r (pre = [], rest) q" by blast
    have "(pre = [], rest) \<in> set (starts True s)" by (auto simp: in_starts s)
    moreover have "ends r (pre = [], rest) \<noteq> []" using q unfolding ends by blast
    ultimately show "re_test r s" unfolding re_test_def list_ex_iff by blast
  qed
qed

subsection \<open>Sources\<close>

text \<open>
  A source is read left to right. The open groups are frames of finished alternatives and the sequence
  being read, innermost first; an open class is what it holds so far.
\<close>

record re_reader =
  re_frames :: "(re list \<times> re list) list"
  re_class :: "string option"
  re_escaped :: bool

fun seq_of :: "re list \<Rightarrow> re" where
  "seq_of [] = Empty"
| "seq_of [r] = r"
| "seq_of (r # r' # rs) = Seq r (seq_of (r' # rs))"

fun alt_of :: "re list \<Rightarrow> re list \<Rightarrow> re" where
  "alt_of [] rs = seq_of rs"
| "alt_of (a # as) rs = Alt a (alt_of as rs)"

abbreviation (input) one :: "char \<Rightarrow> re" where "one c \<equiv> Class False [(c, c)]"

fun ranges_of :: "string \<Rightarrow> (char \<times> char) list" where
  "ranges_of (a # m # b # cs) = (if m = CHR ''-'' then (a, b) # ranges_of cs else (a, a) # ranges_of (m # b # cs))"
| "ranges_of (a # cs) = (a, a) # ranges_of cs"
| "ranges_of [] = []"

definition class_of :: "string \<Rightarrow> re" where
  "class_of cs = (case cs of [] \<Rightarrow> Class False [] | c # ds \<Rightarrow> if c = CHR ''^'' then Class True (ranges_of ds) else Class False (ranges_of cs))"

definition push_re :: "re \<Rightarrow> re_reader \<Rightarrow> re_reader option" where
  "push_re r st = (case re_frames st of [] \<Rightarrow> None | (as, rs) # fs \<Rightarrow> Some (st\<lparr>re_frames := (as, rs @ [r]) # fs\<rparr>))"

definition postfix_re :: "(re \<Rightarrow> re) \<Rightarrow> re_reader \<Rightarrow> re_reader option" where
  "postfix_re g st =
     (case re_frames st of
        [] \<Rightarrow> None
      | (as, rs) # fs \<Rightarrow> if rs = [] then None else Some (st\<lparr>re_frames := (as, butlast rs @ [g (last rs)]) # fs\<rparr>))"

definition read_re_char :: "char \<Rightarrow> re_reader \<Rightarrow> re_reader option" where
  "read_re_char c st =
     (case re_class st of
        Some cs \<Rightarrow>
          if c = CHR '']'' then push_re (class_of cs) (st\<lparr>re_class := None\<rparr>) else Some (st\<lparr>re_class := Some (cs @ [c])\<rparr>)
      | None \<Rightarrow>
          if re_escaped st then push_re (one c) (st\<lparr>re_escaped := False\<rparr>)
          else if c = CHR 0x5C then Some (st\<lparr>re_escaped := True\<rparr>)
          else if c = CHR ''['' then Some (st\<lparr>re_class := Some []\<rparr>)
          else if c = CHR ''('' then Some (st\<lparr>re_frames := ([], []) # re_frames st\<rparr>)
          else if c = CHR '')'' then
            (case re_frames st of
               (as, rs) # f # fs \<Rightarrow> push_re (alt_of as rs) (st\<lparr>re_frames := f # fs\<rparr>)
             | _ \<Rightarrow> None)
          else if c = CHR ''|'' then
            (case re_frames st of [] \<Rightarrow> None | (as, rs) # fs \<Rightarrow> Some (st\<lparr>re_frames := (as @ [seq_of rs], []) # fs\<rparr>))
          else if c = CHR ''*'' then postfix_re Star st
          else if c = CHR ''+'' then postfix_re (\<lambda>r. Seq r (Star r)) st
          else if c = CHR ''?'' then postfix_re (\<lambda>r. Alt r Empty) st
          else if c = CHR ''^'' then push_re Line_Start st
          else if c = CHR ''$'' then push_re Line_End st
          else push_re (one c) st)"

fun read_re :: "string \<Rightarrow> re_reader \<Rightarrow> re option" where
  "read_re [] st =
     (if re_class st \<noteq> None \<or> re_escaped st then None
      else case re_frames st of [(as, rs)] \<Rightarrow> Some (alt_of as rs) | _ \<Rightarrow> None)"
| "read_re (c # cs) st = (case read_re_char c st of None \<Rightarrow> None | Some st' \<Rightarrow> read_re cs st')"

definition regexp :: "string \<Rightarrow> re option" where
  "regexp src = read_re src \<lparr>re_frames = [([], [])], re_class = None, re_escaped = False\<rparr>"

text \<open>A source the subset does not read would throw; every source of the code is read.\<close>

definition regexp_test :: "string \<Rightarrow> string \<Rightarrow> bool" where
  "regexp_test src s = (case regexp src of None \<Rightarrow> False | Some r \<Rightarrow> re_test r s)"

subsection \<open>Words in an expression\<close>

lemma spans_one: "spans (one c) (b, c # t) (False, t)"
  by (rule span_Class) (simp add: in_class_def)

lemma spans_class_star: "list_all (in_class n rs) x \<Longrightarrow> spans (Star (Class n rs)) (False, x @ t) (False, t)"
  by (induction x) (auto intro: span_Done span_More [OF span_Class])

text \<open>The same, read backwards: what a matched expression says of the string.\<close>

lemma spans_one_iff: "spans (one c) (b, s) q \<longleftrightarrow> (\<exists>t. s = c # t \<and> q = (False, t))"
  by (auto intro: spans_one elim: span_ClassE simp: in_class_def)

lemma spans_Empty_iff: "spans Empty p q \<longleftrightarrow> q = p"
  by (auto intro: span_Empty elim: span_EmptyE)

lemma spans_Alt_iff: "spans (Alt r r') p q \<longleftrightarrow> spans r p q \<or> spans r' p q"
  by (auto intro: span_Left span_Right elim: span_AltE)

lemma spans_End_iff: "spans Line_End (b, s) q \<longleftrightarrow> s = [] \<and> q = (b, [])"
  by (auto intro: span_End elim: span_EndE)

lemma spans_Seq_iff: "spans (Seq r r') p q \<longleftrightarrow> (\<exists>m. spans r p m \<and> spans r' m q)"
  by (blast intro: span_Seq elim: span_SeqE)

lemma spans_seq_iff: "spans (seq_of (r # rs)) p q \<longleftrightarrow> (\<exists>m. spans r p m \<and> spans (seq_of rs) m q)"
  by (cases rs) (simp_all add: spans_Empty_iff spans_Seq_iff del: split_paired_Ex)

lemma spans_word_iff: "s \<noteq> [] \<Longrightarrow> spans (seq_of (map (\<lambda>c. one c) s @ rs)) (b, t) q \<longleftrightarrow> (\<exists>t'. t = s @ t' \<and> spans (seq_of rs) (False, t') q)"
proof (induction s arbitrary: b t)
  case (Cons c s)
  have "spans (seq_of (map (\<lambda>c. one c) (c # s) @ rs)) (b, t) q \<longleftrightarrow> (\<exists>u. t = c # u \<and> spans (seq_of (map (\<lambda>c. one c) s @ rs)) (False, u) q)"
    unfolding list.map append_Cons spans_seq_iff spans_one_iff by blast
  also have "\<dots> \<longleftrightarrow> (\<exists>t'. t = (c # s) @ t' \<and> spans (seq_of rs) (False, t') q)"
    using Cons.IH [of False] by (cases "s = []") auto
  finally show ?case .
qed simp

lemma spans_class_star_iff: "spans (Star (Class n rs)) (False, t) q \<longleftrightarrow> (\<exists>x t'. t = x @ t' \<and> list_all (in_class n rs) x \<and> q = (False, t'))"
proof
  assume "spans (Star (Class n rs)) (False, t) q"
  then show "\<exists>x t'. t = x @ t' \<and> list_all (in_class n rs) x \<and> q = (False, t')"
  proof (induction "Star (Class n rs)" "(False, t)" q arbitrary: t rule: spans.induct)
    case span_Done
    show ?case by (rule exI [of _ "[]"]) simp
  next
    case (span_More p q)
    then obtain c u where c: "t = c # u" "in_class n rs c" "p = (False, u)" by (auto elim: span_ClassE)
    with span_More obtain x t' where "u = x @ t'" "list_all (in_class n rs) x" "q = (False, t')" by blast
    with c have "t = (c # x) @ t' \<and> list_all (in_class n rs) (c # x) \<and> q = (False, t')" by simp
    then show ?case by blast
  qed
qed (auto intro: spans_class_star)

lemma regexp_test_iff: "regexp src = Some r \<Longrightarrow> regexp_test src s \<longleftrightarrow> (\<exists>pre rest q. s = pre @ rest \<and> spans r (pre = [], rest) q)"
  by (simp add: regexp_test_def re_test_iff)

end
