(* ===== verification/DenyFloor.thy ===== *)
theory DenyFloor
  imports JsJson JsRegex
begin

section \<open>The deny floor of unattended work\<close>

text \<open>
  \<open>src/shared/unattended-permissions.ts\<close>: what an unattended worker may never do, as rules, as
  regular expressions over a shell command, and folded into whatever settings it is launched with.
  The rules and the hook are read by the harness, which is not modelled.
\<close>

definition DEFAULT_ALLOW :: "string list" where
  "DEFAULT_ALLOW =
     [''Read'', ''Edit'', ''Write'', ''Glob'', ''Grep'', ''LS'', ''NotebookEdit'', ''TodoWrite'', ''Task'', ''Bash(bun test:*)'',
      ''Bash(bun run test:*)'', ''Bash(bun run lint:*)'', ''Bash(bun run lint:boundary:*)'', ''Bash(bun run typecheck:*)'',
      ''Bash(bun run build:*)'', ''Bash(bun install:*)'', ''Bash(bun x:*)'', ''Bash(bunx:*)'', ''Bash(git add:*)'',
      ''Bash(git commit:*)'', ''Bash(git status:*)'', ''Bash(git diff:*)'', ''Bash(git log:*)'', ''Bash(git show:*)'',
      ''Bash(git branch:*)'', ''Bash(git checkout -b:*)'', ''Bash(git switch -c:*)'', ''Bash(git push origin HEAD:*)'',
      ''Bash(ls:*)'', ''Bash(cat:*)'', ''Bash(rg:*)'', ''Bash(grep:*)'', ''Bash(find:*)'', ''Bash(echo:*)'', ''Bash(mkdir:*)'']"

definition DENY_FLOOR_RULES :: "string list" where
  "DENY_FLOOR_RULES =
     [''Bash(git push --force:*)'', ''Bash(git push -f:*)'', ''Bash(git push --force-with-lease:*)'', ''Bash(git push origin main:*)'',
      ''Bash(git push origin master:*)'', ''Bash(sudo:*)'', ''Bash(kill:*)'', ''Bash(killall:*)'', ''Bash(pkill:*)'', ''Bash(imsg:*)'',
      ''Bash(shutdown:*)'', ''Bash(reboot:*)'']"

definition DENY_FLOOR_PATTERNS :: "(string \<times> string) list" where
  "DENY_FLOOR_PATTERNS =
     [(''git +push[^&|;]*(--force|--force-with-lease|-f( |$))'', ''force-push''),
      (''git +push([^&|;]* )?(origin +)?(main|master)( |$)'', ''push to mainline''),
      (''(^| )sudo '', ''sudo (privilege escalation)''),
      (''rm +(-[a-zA-Z]+ +)*(/|~)( |/|$)'', ''delete of / or ~ (outside worktree)''),
      (''(^| )(kill|killall|pkill) '', ''process kill''),
      (''(^| )(imsg|osascript) '', ''external send (iMessage / AppleScript)''),
      (''curl [^&|;]*(-X +(POST|PUT|PATCH|DELETE)|--data|-d )'', ''curl write/exfil''),
      (''wget [^&|;]*--post'', ''wget POST (exfil)'')]"

definition DENY_FLOOR_REGEX :: string where
  "DENY_FLOOR_REGEX = join ''|'' (map (\<lambda>(ere, _). ''('' @ ere @ '')'') DENY_FLOOR_PATTERNS)"

definition violates_deny_floor :: "string \<Rightarrow> string option \<Rightarrow> string option" where
  "violates_deny_floor tool command =
     (case command of
        None \<Rightarrow> None
      | Some c \<Rightarrow>
          if tool \<noteq> ''Bash'' \<or> c = [] then None
          else map_option snd (find (\<lambda>(ere, _). regexp_test ere c) DENY_FLOOR_PATTERNS))"

subsection \<open>The hook\<close>

definition DENY_FLOOR_BLOCK_REASON :: string where
  "DENY_FLOOR_BLOCK_REASON =
     ''BLOCKED by the unattended deny-floor: this command is in the catastrophic set ''
     @ ''(force-push / push to main / external send / sudo / kill / delete outside the worktree). ''
     @ ''Do NOT retry or work around it. STOP and write a blocked-report.''"

definition deny_floor_hook_command :: string where
  "deny_floor_hook_command =
     (let block_json = ''{'' @ quoted ''decision'' @ '':'' @ quoted ''block'' @ '','' @ quoted ''reason'' @ '':'' @ quoted DENY_FLOOR_BLOCK_REASON @ ''}''
      in ''read -r data; ''
         @ ''cmd=$(echo '' @ [CHR 0x22] @ ''$data'' @ [CHR 0x22] @ '' | jq -r '' @ [CHR 0x27] @ ''select((.tool_name // '' @ [CHR 0x22, CHR 0x22]
         @ '')=='' @ [CHR 0x22] @ ''Bash'' @ [CHR 0x22] @ '') | .tool_input.command // empty'' @ [CHR 0x27] @ '' 2>/dev/null); ''
         @ ''if [ -n '' @ [CHR 0x22] @ ''$cmd'' @ [CHR 0x22] @ '' ] && echo '' @ [CHR 0x22] @ ''$cmd'' @ [CHR 0x22] @ '' | grep -qE '' @ [CHR 0x27]
         @ DENY_FLOOR_REGEX @ [CHR 0x27] @ ''; then ''
         @ ''echo '' @ quoted block_json @ ''; fi'')"

definition deny_floor_hook_entry :: json where
  "deny_floor_hook_entry =
     J_Obj [(''matcher'', J_Str []), (''hooks'', J_Arr [J_Obj [(''type'', J_Str ''command''), (''command'', J_Str deny_floor_hook_command)]])]"

subsection \<open>The settings\<close>

definition build_unattended_settings :: "string list \<Rightarrow> string list \<Rightarrow> js_object" where
  "build_unattended_settings allow deny =
     [(''permissions'', J_Obj
         [(''allow'', J_Arr (map J_Str (js_set (DEFAULT_ALLOW @ allow)))), (''deny'', J_Arr (map J_Str (js_set (DENY_FLOOR_RULES @ deny))))]),
      (''hooks'', J_Obj [(''PreToolUse'', J_Arr [deny_floor_hook_entry])])]"

definition is_deny_floor_entry :: "json \<Rightarrow> string \<Rightarrow> bool" where
  "is_deny_floor_entry entry command =
     (case entry of
        J_Obj e \<Rightarrow>
          (case map_of e ''hooks'' of
             Some (J_Arr hooks) \<Rightarrow> list_ex (\<lambda>h. case h of J_Obj ho \<Rightarrow> map_of ho ''command'' = Some (J_Str command) | _ \<Rightarrow> False) hooks
           | _ \<Rightarrow> False)
      | _ \<Rightarrow> False)"

definition read_object :: "js_object \<Rightarrow> string \<Rightarrow> string \<Rightarrow> (string, js_object option) result" where
  "read_object bag k reason =
     (case present (map_of bag k) of None \<Rightarrow> Ok None | Some (J_Obj ob) \<Rightarrow> Ok (Some ob) | Some _ \<Rightarrow> Err reason)"

definition read_array :: "(json list \<Rightarrow> bool) \<Rightarrow> js_object \<Rightarrow> string \<Rightarrow> string \<Rightarrow> (string, json list option) result" where
  "read_array valid bag k reason =
     (case present (map_of bag k) of None \<Rightarrow> Ok None | Some (J_Arr vs) \<Rightarrow> if valid vs then Ok (Some vs) else Err reason | Some _ \<Rightarrow> Err reason)"

record inline_shape =
  shape_permissions :: "js_object option"
  shape_deny :: "string list option"
  shape_hooks :: "js_object option"
  shape_pre_tool_use :: "json list option"

definition or_empty :: "js_object option \<Rightarrow> js_object" where
  "or_empty ob = (case ob of None \<Rightarrow> [] | Some x \<Rightarrow> x)"

definition validate_inline_shape :: "js_object \<Rightarrow> (string, inline_shape) result" where
  "validate_inline_shape settings =
     (case read_object settings ''permissions'' ''settingsInline.permissions is not an object'' of
        Err e \<Rightarrow> Err e
      | Ok permissions \<Rightarrow>
     (case read_array (list_all is_string) (or_empty permissions) ''deny'' ''settingsInline.permissions.deny is not an array of strings'' of
        Err e \<Rightarrow> Err e
      | Ok deny \<Rightarrow>
     (case read_object settings ''hooks'' ''settingsInline.hooks is not an object'' of
        Err e \<Rightarrow> Err e
      | Ok hooks \<Rightarrow>
     (case read_array (\<lambda>_. True) (or_empty hooks) ''PreToolUse'' ''settingsInline.hooks.PreToolUse is not an array'' of
        Err e \<Rightarrow> Err e
      | Ok pre \<Rightarrow>
          Ok \<lparr>shape_permissions = permissions, shape_deny = map_option json_strings deny, shape_hooks = hooks, shape_pre_tool_use = pre\<rparr>))))"

definition fold_floor :: "js_object \<Rightarrow> inline_shape \<Rightarrow> js_object" where
  "fold_floor s sh =
     (let deny = js_set ((case shape_deny sh of None \<Rightarrow> [] | Some d \<Rightarrow> d) @ DENY_FLOOR_RULES);
          entries = (case shape_pre_tool_use sh of None \<Rightarrow> [] | Some es \<Rightarrow> es);
          next_pre = (if list_ex (\<lambda>e. is_deny_floor_entry e deny_floor_hook_command) entries then entries
                      else entries @ [deny_floor_hook_entry])
      in AList.update ''hooks'' (J_Obj (AList.update ''PreToolUse'' (J_Arr next_pre) (or_empty (shape_hooks sh))))
           (AList.update ''permissions'' (J_Obj (AList.update ''deny'' (J_Arr (map J_Str deny)) (or_empty (shape_permissions sh)))) s))"

definition apply_deny_floor :: "js_object option \<Rightarrow> (string, js_object) result" where
  "apply_deny_floor settings =
     (case settings of
        None \<Rightarrow>
          Ok [(''permissions'', J_Obj [(''deny'', J_Arr (map J_Str DENY_FLOOR_RULES))]),
              (''hooks'', J_Obj [(''PreToolUse'', J_Arr [deny_floor_hook_entry])])]
      | Some s \<Rightarrow> (case validate_inline_shape s of Err e \<Rightarrow> Err e | Ok sh \<Rightarrow> Ok (fold_floor s sh)))"

subsection \<open>Folding the floor in\<close>

definition floor_denied :: "js_object \<Rightarrow> bool" where
  "floor_denied s =
     (case map_of s ''permissions'' of
        Some (J_Obj p) \<Rightarrow>
          (case map_of p ''deny'' of
             Some (J_Arr ds) \<Rightarrow> list_all (\<lambda>r. J_Str r \<in> set ds) DENY_FLOOR_RULES
           | _ \<Rightarrow> False)
      | _ \<Rightarrow> False)"

definition floor_guarded :: "js_object \<Rightarrow> bool" where
  "floor_guarded s =
     (case map_of s ''hooks'' of
        Some (J_Obj h) \<Rightarrow>
          (case map_of h ''PreToolUse'' of
             Some (J_Arr es) \<Rightarrow> list_ex (\<lambda>e. is_deny_floor_entry e deny_floor_hook_command) es
           | _ \<Rightarrow> False)
      | _ \<Rightarrow> False)"

definition carries_floor :: "js_object \<Rightarrow> bool" where
  "carries_floor s \<longleftrightarrow> floor_denied s \<and> floor_guarded s"

text \<open>What a fragment says of a key of its \<open>permissions\<close> or \<open>hooks\<close>.\<close>

definition setting :: "string \<Rightarrow> string \<Rightarrow> js_object \<Rightarrow> json option" where
  "setting block k s = (case map_of s block of Some (J_Obj ob) \<Rightarrow> map_of ob k | _ \<Rightarrow> None)"

lemma hook_entry_is_floor: "is_deny_floor_entry deny_floor_hook_entry deny_floor_hook_command"
  by (simp add: is_deny_floor_entry_def deny_floor_hook_entry_def)

lemma update_same: "map_of m k = Some v \<Longrightarrow> AList.update k v m = m"
  by (induction m) (auto split: if_splits)

lemma js_set_absorb: "distinct xs \<Longrightarrow> set ys \<subseteq> set xs \<Longrightarrow> js_set (xs @ ys) = xs"
proof -
  assume a: "distinct xs" "set ys \<subseteq> set xs"
  have "remdups (us @ vs) = remdups vs" if "set us \<subseteq> set vs" for us vs :: "'a list"
    using that by (induction us) auto
  from this [of "rev ys" "rev xs"] a show ?thesis by (simp add: js_set_def distinct_remdups_id)
qed

lemma read_object_get:
  "read_object s k e = Ok ob \<Longrightarrow> (case map_of s k of None \<Rightarrow> ob = None | Some J_Null \<Rightarrow> ob = None | Some (J_Obj p) \<Rightarrow> ob = Some p | _ \<Rightarrow> False)"
  by (auto simp: read_object_def present_def split: if_splits option.splits json.splits)

lemma read_array_get:
  "read_array v s k e = Ok ar \<Longrightarrow> (case map_of s k of None \<Rightarrow> ar = None | Some J_Null \<Rightarrow> ar = None | Some (J_Arr vs) \<Rightarrow> ar = Some vs \<and> v vs | _ \<Rightarrow> False)"
  by (auto simp: read_array_def present_def split: if_splits option.splits json.splits)

lemma floor_shape:
  assumes "apply_deny_floor settings = Ok s"
  obtains p h d es where
    "map_of s ''permissions'' = Some (J_Obj p)" "map_of p ''deny'' = Some (J_Arr (map J_Str (js_set (d @ DENY_FLOOR_RULES))))"
    "map_of s ''hooks'' = Some (J_Obj h)" "map_of h ''PreToolUse'' = Some (J_Arr es)"
    "list_ex (\<lambda>e. is_deny_floor_entry e deny_floor_hook_command) es"
proof (cases settings)
  case None
  have "js_set ([] @ DENY_FLOOR_RULES) = DENY_FLOOR_RULES" by (simp add: js_set_distinct DENY_FLOOR_RULES_def)
  with None assms show ?thesis
    by (intro that [of "[(''deny'', J_Arr (map J_Str DENY_FLOOR_RULES))]" "[]" "[(''PreToolUse'', J_Arr [deny_floor_hook_entry])]" "[deny_floor_hook_entry]"])
      (auto simp: apply_deny_floor_def hook_entry_is_floor)
next
  case (Some s0)
  with assms obtain sh where "validate_inline_shape s0 = Ok sh" by (auto simp: apply_deny_floor_def split: result.splits)
  with Some assms show ?thesis
    by (intro that) (auto simp: apply_deny_floor_def fold_floor_def Let_def hook_entry_is_floor)
qed

lemma floor_carried:
  assumes "apply_deny_floor settings = Ok s"
  shows "carries_floor s"
proof (rule floor_shape [OF assms])
  fix p h d es
  assume "map_of s ''permissions'' = Some (J_Obj p)" "map_of p ''deny'' = Some (J_Arr (map J_Str (js_set (d @ DENY_FLOOR_RULES))))"
    "map_of s ''hooks'' = Some (J_Obj h)" "map_of h ''PreToolUse'' = Some (J_Arr es)"
    "list_ex (\<lambda>e. is_deny_floor_entry e deny_floor_hook_command) es"
  then show ?thesis by (auto simp: carries_floor_def floor_denied_def floor_guarded_def list_all_iff)
qed

lemma floor_idempotent:
  assumes "apply_deny_floor settings = Ok s"
  shows "apply_deny_floor (Some s) = Ok s"
proof (rule floor_shape [OF assms])
  fix p h d es
  assume p: "map_of s ''permissions'' = Some (J_Obj p)" "map_of p ''deny'' = Some (J_Arr (map J_Str (js_set (d @ DENY_FLOOR_RULES))))"
    and h: "map_of s ''hooks'' = Some (J_Obj h)" "map_of h ''PreToolUse'' = Some (J_Arr es)"
    and g: "list_ex (\<lambda>e. is_deny_floor_entry e deny_floor_hook_command) es"
  have "js_set (js_set (d @ DENY_FLOOR_RULES) @ DENY_FLOOR_RULES) = js_set (d @ DENY_FLOOR_RULES)"
    by (rule js_set_absorb) auto
  with p h g show ?thesis
    by (simp add: apply_deny_floor_def fold_floor_def validate_inline_shape_def read_object_def read_array_def present_def or_empty_def update_same)
qed

text \<open>What the floor does not touch: every other key, everything else in \<open>permissions\<close> and \<open>hooks\<close>.\<close>

lemma floor_keeps:
  assumes "apply_deny_floor (Some s) = Ok s'"
  shows "k \<noteq> ''permissions'' \<Longrightarrow> k \<noteq> ''hooks'' \<Longrightarrow> map_of s' k = map_of s k"
    and "k \<noteq> ''deny'' \<Longrightarrow> setting ''permissions'' k s' = setting ''permissions'' k s"
    and "k \<noteq> ''PreToolUse'' \<Longrightarrow> setting ''hooks'' k s' = setting ''hooks'' k s"
proof -
  from assms obtain sh where sh: "validate_inline_shape s = Ok sh" by (auto simp: apply_deny_floor_def split: result.splits)
  then have v: "read_object s ''permissions'' ''settingsInline.permissions is not an object'' = Ok (shape_permissions sh)"
    "read_object s ''hooks'' ''settingsInline.hooks is not an object'' = Ok (shape_hooks sh)"
    by (auto simp: validate_inline_shape_def split: result.splits)
  have old: "map_of (or_empty ob) k = setting b k s" if "read_object s b e = Ok ob" for ob b e
    using read_object_get [OF that] by (auto simp: or_empty_def setting_def split: option.splits json.splits)
  have s': "s' = fold_floor s sh" using assms sh by (simp add: apply_deny_floor_def)
  show "k \<noteq> ''permissions'' \<Longrightarrow> k \<noteq> ''hooks'' \<Longrightarrow> map_of s' k = map_of s k"
    by (simp add: s' fold_floor_def Let_def)
  show "k \<noteq> ''deny'' \<Longrightarrow> setting ''permissions'' k s' = setting ''permissions'' k s"
    unfolding old [OF v(1), symmetric] by (simp add: s' fold_floor_def Let_def setting_def)
  show "k \<noteq> ''PreToolUse'' \<Longrightarrow> setting ''hooks'' k s' = setting ''hooks'' k s"
    unfolding old [OF v(2), symmetric] by (simp add: s' fold_floor_def Let_def setting_def)
qed

definition denies :: "js_object \<Rightarrow> string \<Rightarrow> bool" where
  "denies s rule = (case setting ''permissions'' ''deny'' s of Some (J_Arr ds) \<Rightarrow> J_Str rule \<in> set ds | _ \<Rightarrow> False)"

lemma in_json_strings: "J_Str x \<in> set vs \<Longrightarrow> x \<in> set (json_strings vs)"
  by (force simp: json_strings_def)

lemma json_strings_in: "x \<in> set (json_strings vs) \<Longrightarrow> J_Str x \<in> set vs"
  by (auto simp: json_strings_def split: json.splits)

lemma floor_keeps_denied:
  assumes "apply_deny_floor (Some s) = Ok s'" "denies s rule"
  shows "denies s' rule"
proof -
  from assms(1) obtain sh where sh: "validate_inline_shape s = Ok sh" and s': "s' = fold_floor s sh"
    by (auto simp: apply_deny_floor_def split: result.splits)
  from assms(2) obtain p ds where p: "map_of s ''permissions'' = Some (J_Obj p)" "map_of p ''deny'' = Some (J_Arr ds)" "J_Str rule \<in> set ds"
    by (auto simp: denies_def setting_def split: option.splits json.splits)
  have "shape_deny sh = Some (json_strings ds)"
    using sh by (auto simp: validate_inline_shape_def read_object_def read_array_def present_def p or_empty_def split: result.splits if_splits)
  with p(3) show ?thesis
    by (auto simp: s' fold_floor_def Let_def denies_def setting_def dest: in_json_strings)
qed

text \<open>The rules a fragment denies and its hooks before a tool use, in order.\<close>

definition denied_rules :: "js_object \<Rightarrow> string list" where
  "denied_rules s = (case setting ''permissions'' ''deny'' s of Some (J_Arr ds) \<Rightarrow> json_strings ds | _ \<Rightarrow> [])"

definition tool_hooks :: "js_object \<Rightarrow> json list" where
  "tool_hooks s = (case setting ''hooks'' ''PreToolUse'' s of Some (J_Arr es) \<Rightarrow> es | _ \<Rightarrow> [])"

lemma floor_extends:
  assumes "apply_deny_floor (Some s) = Ok s'"
  shows "set (denied_rules s') = set (denied_rules s) \<union> set DENY_FLOOR_RULES"
    and "tool_hooks s' = (if list_ex (\<lambda>e. is_deny_floor_entry e deny_floor_hook_command) (tool_hooks s) then tool_hooks s
      else tool_hooks s @ [deny_floor_hook_entry])"
proof -
  from assms obtain sh where sh: "validate_inline_shape s = Ok sh" and s': "s' = fold_floor s sh"
    by (auto simp: apply_deny_floor_def split: result.splits)
  have strings: "json_strings (map J_Str xs) = xs" for xs by (induction xs) (simp_all add: json_strings_def List.map_filter_simps)
  obtain deny where p: "read_object s ''permissions'' ''settingsInline.permissions is not an object'' = Ok (shape_permissions sh)"
    "read_array (list_all is_string) (or_empty (shape_permissions sh)) ''deny'' ''settingsInline.permissions.deny is not an array of strings'' = Ok deny"
    "shape_deny sh = map_option json_strings deny"
    and h: "read_object s ''hooks'' ''settingsInline.hooks is not an object'' = Ok (shape_hooks sh)"
    "read_array (\<lambda>_. True) (or_empty (shape_hooks sh)) ''PreToolUse'' ''settingsInline.hooks.PreToolUse is not an array'' = Ok (shape_pre_tool_use sh)"
    using sh by (auto simp: validate_inline_shape_def split: result.splits)
  have old: "map_of (or_empty ob) k = setting b k s" if "read_object s b e = Ok ob" for ob b e k
    using read_object_get [OF that] by (auto simp: or_empty_def setting_def split: option.splits json.splits)
  have "denied_rules s = (case shape_deny sh of None \<Rightarrow> [] | Some d \<Rightarrow> d)"
    using read_array_get [OF p(2)] unfolding old [OF p(1)] p(3) by (auto simp: denied_rules_def split: option.splits json.splits)
  moreover have "setting ''permissions'' ''deny'' s' = Some (J_Arr (map J_Str (js_set ((case shape_deny sh of None \<Rightarrow> [] | Some d \<Rightarrow> d) @ DENY_FLOOR_RULES))))"
    by (simp add: s' fold_floor_def Let_def setting_def)
  then have "denied_rules s' = js_set ((case shape_deny sh of None \<Rightarrow> [] | Some d \<Rightarrow> d) @ DENY_FLOOR_RULES)"
    by (simp add: denied_rules_def strings)
  ultimately show "set (denied_rules s') = set (denied_rules s) \<union> set DENY_FLOOR_RULES" by simp
  have "tool_hooks s = (case shape_pre_tool_use sh of None \<Rightarrow> [] | Some es \<Rightarrow> es)"
    using read_array_get [OF h(2)] unfolding old [OF h(1)] by (auto simp: tool_hooks_def split: option.splits json.splits)
  moreover have "setting ''hooks'' ''PreToolUse'' s' = Some (J_Arr (let es = (case shape_pre_tool_use sh of None \<Rightarrow> [] | Some es \<Rightarrow> es)
      in if list_ex (\<lambda>e. is_deny_floor_entry e deny_floor_hook_command) es then es else es @ [deny_floor_hook_entry]))"
    by (simp add: s' fold_floor_def Let_def setting_def)
  then have "tool_hooks s' = (let es = (case shape_pre_tool_use sh of None \<Rightarrow> [] | Some es \<Rightarrow> es)
      in if list_ex (\<lambda>e. is_deny_floor_entry e deny_floor_hook_command) es then es else es @ [deny_floor_hook_entry])"
    by (simp add: tool_hooks_def)
  ultimately show "tool_hooks s' = (if list_ex (\<lambda>e. is_deny_floor_entry e deny_floor_hook_command) (tool_hooks s) then tool_hooks s
      else tool_hooks s @ [deny_floor_hook_entry])" by (simp add: Let_def)
qed

text \<open>
  C15: folding the floor into settings somebody else wrote adds and never takes away: settings of a shape
  it cannot be expressed in are refused, and otherwise the rules denied are those that were and those of
  the floor, the hooks before a tool use are those that were, in order, with the guard hook at the
  end unless it was among them, every other key, permission (the allow list above all) and hook is as it
  was, and folding it in again changes nothing.
\<close>

theorem floor_only_adds:
  "case apply_deny_floor (Some s) of
     Err _ \<Rightarrow> True
   | Ok s' \<Rightarrow> carries_floor s' \<and> apply_deny_floor (Some s') = Ok s'
       \<and> set (denied_rules s') = set (denied_rules s) \<union> set DENY_FLOOR_RULES
       \<and> tool_hooks s' = tool_hooks s
         @ (if list_ex (\<lambda>e. is_deny_floor_entry e deny_floor_hook_command) (tool_hooks s) then [] else [deny_floor_hook_entry])
       \<and> (if k \<in> {''permissions'', ''hooks''} then True else map_of s' k = map_of s k)
       \<and> (if k = ''deny'' then True else setting ''permissions'' k s' = setting ''permissions'' k s)
       \<and> (if k = ''PreToolUse'' then True else setting ''hooks'' k s' = setting ''hooks'' k s)"
proof (cases "apply_deny_floor (Some s)")
  case (Ok s')
  from floor_carried [OF Ok] floor_idempotent [OF Ok] floor_keeps [OF Ok, of k] floor_extends [OF Ok] show ?thesis
    unfolding Ok result.case by (intro conjI) auto
qed simp

subsection \<open>What the patterns catch\<close>

definition blocks :: "string \<Rightarrow> bool" where
  "blocks c \<longleftrightarrow> violates_deny_floor ''Bash'' (Some c) \<noteq> None"

text \<open>What the shell hook decides: \<open>grep -E\<close> looks at the command line by line.\<close>

definition hook_blocks :: "string \<Rightarrow> bool" where
  "hook_blocks c \<longleftrightarrow> c \<noteq> [] \<and> list_ex (regexp_test DENY_FLOOR_REGEX) (split_on (CHR 0x0A) c)"

abbreviation (input) plain_arguments :: re where "plain_arguments \<equiv> Class True [(CHR ''&'', CHR ''&''), (CHR ''|'', CHR ''|''), (CHR '';'', CHR '';'')]"

abbreviation (input) spaces :: re where "spaces \<equiv> Seq (one (CHR '' '')) (Star (one (CHR '' '')))"

abbreviation (input) word :: "string \<Rightarrow> re list" where "word s \<equiv> map (\<lambda>c. one c) s"

lemma force_push_source:
  "regexp ''git +push[^&|;]*(--force|--force-with-lease|-f( |$))'' =
     Some (seq_of (word ''git'' @ spaces # word ''push'' @
       [Star plain_arguments,
        Alt (seq_of (word ''--force'')) (Alt (seq_of (word ''--force-with-lease'')) (seq_of (word ''-f'' @ [Alt (one (CHR '' '')) Line_End])))]))"
  by code_simp

lemma mainline_source:
  "regexp ''git +push([^&|;]* )?(origin +)?(main|master)( |$)'' =
     Some (seq_of (word ''git'' @ spaces # word ''push'' @
       [Alt (seq_of [Star plain_arguments, one (CHR '' '')]) Empty, Alt (seq_of (word ''origin'' @ [spaces])) Empty,
        Alt (seq_of (word ''main'')) (seq_of (word ''master'')), Alt (one (CHR '' '')) Line_End]))"
  by code_simp

definition one_command :: "string \<Rightarrow> bool" where
  "one_command x \<longleftrightarrow> list_all (\<lambda>c. c \<noteq> CHR ''&'' \<and> c \<noteq> CHR ''|'' \<and> c \<noteq> CHR '';'') x"

text \<open>
  The commands that push by force, and those that push with the main branch as a word of its own: from
  \<open>push\<close> to the word nothing ends the command, though anything may stand there and after it.
\<close>

definition git_push :: "nat \<Rightarrow> string" where
  "git_push n = ''git'' @ replicate (Suc n) (CHR '' '') @ ''push''"

definition ends_word :: "string \<Rightarrow> bool" where
  "ends_word after \<longleftrightarrow> after = [] \<or> hd after = CHR '' ''"

definition forced_push :: "string \<Rightarrow> bool" where
  "forced_push c \<longleftrightarrow> (\<exists>before n x flag after. c = before @ git_push n @ x @ flag @ after \<and> one_command x
     \<and> (flag = ''--force'' \<or> flag = ''-f'' \<and> ends_word after))"

definition mainline_push :: "string \<Rightarrow> bool" where
  "mainline_push c \<longleftrightarrow> (\<exists>before n y branch after. c = before @ git_push n @ y @ branch @ after \<and> branch \<in> {''main'', ''master''} \<and> ends_word after
     \<and> (y = [] \<or> (one_command y \<and> last y = CHR '' '')))"

lemma one_command_iff: "list_all (in_class True [(CHR ''&'', CHR ''&''), (CHR ''|'', CHR ''|''), (CHR '';'', CHR '';'')]) x \<longleftrightarrow> one_command x"
  by (auto simp: one_command_def in_class_def list_all_iff)

lemma all_spaces_iff: "list_all (in_class False [(CHR '' '', CHR '' '')]) x \<longleftrightarrow> (\<exists>n. x = replicate n (CHR '' ''))"
proof -
  have "in_class False [(CHR '' '', CHR '' '')] = (\<lambda>c. c = CHR '' '')" by (auto simp: in_class_def)
  then have "list_all (in_class False [(CHR '' '', CHR '' '')]) x \<longleftrightarrow> x = replicate (length x) (CHR '' '')"
    by (induction x) auto
  then show ?thesis by (metis length_replicate)
qed

lemma spaces_iff: "spans spaces (b, t) q \<longleftrightarrow> (\<exists>n t'. t = replicate (Suc n) (CHR '' '') @ t' \<and> q = (False, t'))"
proof -
  have "spans spaces (b, t) q \<longleftrightarrow> (\<exists>u. t = CHR '' '' # u \<and> spans (Star (one (CHR '' ''))) (False, u) q)"
    unfolding spans_Seq_iff spans_one_iff by blast
  also have "\<dots> \<longleftrightarrow> (\<exists>u x t'. t = CHR '' '' # u \<and> u = x @ t' \<and> (\<exists>n. x = replicate n (CHR '' '')) \<and> q = (False, t'))"
    unfolding spans_class_star_iff all_spaces_iff by blast
  also have "\<dots> \<longleftrightarrow> (\<exists>n t'. t = CHR '' '' # replicate n (CHR '' '') @ t' \<and> q = (False, t'))" by blast
  finally show ?thesis by simp
qed

lemma git_push_iff:
  "spans (seq_of (word ''git'' @ spaces # word ''push'' @ rs)) (b, t) q \<longleftrightarrow> (\<exists>n t'. t = git_push n @ t' \<and> spans (seq_of rs) (False, t') q)"
proof -
  have push: "spans (seq_of (word ''push'' @ rs)) (False, u) q \<longleftrightarrow> (\<exists>t'. u = ''push'' @ t' \<and> spans (seq_of rs) (False, t') q)" for u
    by (rule spans_word_iff) simp
  have "spans (seq_of (spaces # word ''push'' @ rs)) (False, u) q
      \<longleftrightarrow> (\<exists>n t'. u = replicate (Suc n) (CHR '' '') @ ''push'' @ t' \<and> spans (seq_of rs) (False, t') q)" for u
    unfolding spans_seq_iff [of spaces] spaces_iff using push by blast
  moreover have "spans (seq_of (word ''git'' @ spaces # word ''push'' @ rs)) (b, t) q
      \<longleftrightarrow> (\<exists>u. t = ''git'' @ u \<and> spans (seq_of (spaces # word ''push'' @ rs)) (False, u) q)"
    by (rule spans_word_iff) simp
  ultimately show ?thesis unfolding git_push_def append_assoc by blast
qed

text \<open>What is matched one expression after the other.\<close>

lemma then_matches:
  assumes "\<And>m. spans r (False, t) m \<longleftrightarrow> (\<exists>x u. t = x @ u \<and> P x \<and> m = (False, u))" "\<And>u. (\<exists>q. spans (seq_of rs) (False, u) q) \<longleftrightarrow> Q u"
  shows "(\<exists>q. spans (seq_of (r # rs)) (False, t) q) \<longleftrightarrow> (\<exists>x u. t = x @ u \<and> P x \<and> Q u)"
  unfolding spans_seq_iff assms(1) assms(2) [symmetric] by blast

lemma regrouped:
  "(\<exists>y u. t = y @ u \<and> Y y \<and> (\<exists>z v. u = z @ v \<and> Z z \<and> T v)) \<longleftrightarrow> (\<exists>w v. t = w @ v \<and> (\<exists>y z. w = y @ z \<and> Y y \<and> Z z) \<and> T v)"
proof -
  have "(\<exists>w v. t = w @ v \<and> (\<exists>y z. w = y @ z \<and> Y y \<and> Z z) \<and> T v) \<longleftrightarrow> (\<exists>y z v. t = (y @ z) @ v \<and> Y y \<and> Z z \<and> T v)" by blast
  then show ?thesis unfolding append_assoc by blast
qed

lemma after_git_push:
  assumes "regexp src = Some (seq_of (word ''git'' @ spaces # word ''push'' @ rs))" "\<And>t. (\<exists>q. spans (seq_of rs) (False, t) q) \<longleftrightarrow> Q t"
  shows "regexp_test src c \<longleftrightarrow> (\<exists>before n t. c = before @ git_push n @ t \<and> Q t)"
  unfolding regexp_test_iff [OF assms(1)] git_push_iff assms(2) [symmetric] by blast

lemma arguments_iff: "spans (Star plain_arguments) (False, t) m \<longleftrightarrow> (\<exists>x u. t = x @ u \<and> one_command x \<and> m = (False, u))"
  unfolding spans_class_star_iff one_command_iff ..

lemma forced_push_iff: "regexp_test ''git +push[^&|;]*(--force|--force-with-lease|-f( |$))'' c \<longleftrightarrow> forced_push c"
proof -
  let ?flag = "Alt (seq_of (word ''--force'')) (Alt (seq_of (word ''--force-with-lease'')) (seq_of (word ''-f'' @ [Alt (one (CHR '' '')) Line_End])))"
  have force: "spans (seq_of (word ''--force'' @ [])) (False, t) q \<longleftrightarrow> (\<exists>t'. t = ''--force'' @ t' \<and> q = (False, t'))" for t q
    unfolding spans_word_iff [of "''--force''", OF list.distinct(2)] by (simp add: spans_Empty_iff)
  have lease: "spans (seq_of (word ''--force-with-lease'' @ [])) (False, t) q \<longleftrightarrow> (\<exists>t'. t = ''--force-with-lease'' @ t' \<and> q = (False, t'))" for t q
    unfolding spans_word_iff [of "''--force-with-lease''", OF list.distinct(2)] by (simp add: spans_Empty_iff)
  have short: "(\<exists>q. spans (seq_of (word ''-f'' @ [Alt (one (CHR '' '')) Line_End])) (False, t) q) \<longleftrightarrow> (\<exists>after. t = ''-f'' @ after \<and> ends_word after)" for t
  proof -
    have "(\<exists>q. spans (Alt (one (CHR '' '')) Line_End) (False, u) q) \<longleftrightarrow> ends_word u" for u
      by (cases u) (auto simp: spans_Alt_iff spans_one_iff spans_End_iff ends_word_def)
    then show ?thesis unfolding spans_word_iff [of "''-f''", OF list.distinct(2)] by auto
  qed
  have flag: "(\<exists>q. spans ?flag (False, t) q) \<longleftrightarrow> (\<exists>flag after. t = flag @ after \<and> (flag = ''--force'' \<or> flag = ''-f'' \<and> ends_word after))" for t
  proof -
    have "(\<exists>q. spans ?flag (False, t) q) \<longleftrightarrow> (\<exists>t'. t = ''--force'' @ t') \<or> (\<exists>t'. t = ''--force-with-lease'' @ t') \<or> (\<exists>after. t = ''-f'' @ after \<and> ends_word after)"
      unfolding spans_Alt_iff short [symmetric] using force [of t] lease [of t] by auto
    moreover have "\<exists>u. t = ''--force'' @ u" if "t = ''--force-with-lease'' @ t'" for t' using that by simp
    ultimately show ?thesis by blast
  qed
  have "(\<exists>q. spans (seq_of [Star plain_arguments, ?flag]) (False, t) q)
      \<longleftrightarrow> (\<exists>x u. t = x @ u \<and> one_command x \<and> (\<exists>flag after. u = flag @ after \<and> (flag = ''--force'' \<or> flag = ''-f'' \<and> ends_word after)))" for t
    by (rule then_matches [OF arguments_iff]) (simp only: seq_of.simps flag)
  from after_git_push [OF force_push_source this] show ?thesis
    unfolding forced_push_def by blast
qed

lemma mainline_push_iff: "regexp_test ''git +push([^&|;]* )?(origin +)?(main|master)( |$)'' c \<longleftrightarrow> mainline_push c"
proof -
  let ?args = "Alt (seq_of [Star plain_arguments, one (CHR '' '')]) Empty" and ?origin = "Alt (seq_of (word ''origin'' @ [spaces])) Empty"
    and ?branch = "Alt (seq_of (word ''main'')) (seq_of (word ''master''))" and ?close = "Alt (one (CHR '' '')) Line_End"
  have args: "spans ?args (False, t) m \<longleftrightarrow> (\<exists>y t'. t = y @ t' \<and> m = (False, t') \<and> (y = [] \<or> (\<exists>x. y = x @ '' '' \<and> one_command x)))" for t m
  proof -
    have "spans (seq_of [Star plain_arguments, one (CHR '' '')]) (False, t) m \<longleftrightarrow> (\<exists>x t'. t = x @ '' '' @ t' \<and> one_command x \<and> m = (False, t'))"
      unfolding seq_of.simps(3) seq_of.simps(2) spans_Seq_iff spans_class_star_iff one_command_iff by (auto simp: spans_one_iff)
    then show ?thesis unfolding spans_Alt_iff spans_Empty_iff by auto
  qed
  have origin: "spans ?origin (False, t) m \<longleftrightarrow> (\<exists>z t'. t = z @ t' \<and> m = (False, t') \<and> (z = [] \<or> (\<exists>n. z = ''origin'' @ replicate (Suc n) (CHR '' ''))))" for t m
  proof -
    have "spans (seq_of (word ''origin'' @ [spaces])) (False, t) m \<longleftrightarrow> (\<exists>n t'. t = ''origin'' @ replicate (Suc n) (CHR '' '') @ t' \<and> m = (False, t'))"
      unfolding spans_word_iff [of "''origin''", OF list.distinct(2)] seq_of.simps(2) spaces_iff by auto
    then show ?thesis unfolding spans_Alt_iff spans_Empty_iff by auto
  qed
  have branch: "spans ?branch (False, t) m \<longleftrightarrow> (\<exists>b t'. t = b @ t' \<and> m = (False, t') \<and> b \<in> {''main'', ''master''})" for t m
  proof -
    have "spans (seq_of (word ''main'' @ [])) (False, t) m \<longleftrightarrow> (\<exists>t'. t = ''main'' @ t' \<and> m = (False, t'))"
      "spans (seq_of (word ''master'' @ [])) (False, t) m \<longleftrightarrow> (\<exists>t'. t = ''master'' @ t' \<and> m = (False, t'))"
      unfolding spans_word_iff [of "''main''", OF list.distinct(2)] spans_word_iff [of "''master''", OF list.distinct(2)]
      by (simp_all add: spans_Empty_iff)
    then show ?thesis unfolding spans_Alt_iff append_Nil2 by auto
  qed
  have close: "(\<exists>q. spans ?close (False, t) q) \<longleftrightarrow> ends_word t" for t
    by (cases t) (auto simp: spans_Alt_iff spans_one_iff spans_End_iff ends_word_def)
  have ending: "(\<exists>q. spans (seq_of [?branch, ?close]) (False, t) q) \<longleftrightarrow> (\<exists>b after. t = b @ after \<and> b \<in> {''main'', ''master''} \<and> ends_word after)" for t
  proof -
    have "spans ?branch (False, t) m \<longleftrightarrow> (\<exists>b u. t = b @ u \<and> b \<in> {''main'', ''master''} \<and> m = (False, u))" for t m using branch [of t m] by blast
    from then_matches [where rs = "[?close]" and Q = ends_word, OF this] show ?thesis by (simp only: seq_of.simps close)
  qed
  let ?y = "\<lambda>y. y = [] \<or> (\<exists>x. y = x @ '' '' \<and> one_command x)" and ?z = "\<lambda>z. z = [] \<or> (\<exists>n. z = ''origin'' @ replicate (Suc n) (CHR '' ''))"
    and ?tail = "\<lambda>t. \<exists>b after. t = b @ after \<and> b \<in> {''main'', ''master''} \<and> ends_word after"
  have "spans ?origin (False, t) m \<longleftrightarrow> (\<exists>z u. t = z @ u \<and> ?z z \<and> m = (False, u))" for t m using origin [of t m] by blast
  note rest = then_matches [OF this ending]
  have "spans ?args (False, t) m \<longleftrightarrow> (\<exists>y u. t = y @ u \<and> ?y y \<and> m = (False, u))" for t m using args [of t m] by blast
  note all = then_matches [OF this rest]
  have words: "(\<exists>y z. w = y @ z \<and> ?y y \<and> ?z z) \<longleftrightarrow> w = [] \<or> (one_command w \<and> last w = CHR '' '')" for w
  proof
    assume "\<exists>y z. w = y @ z \<and> ?y y \<and> ?z z"
    then obtain y z where w: "w = y @ z" "?y y" "?z z" by blast
    have "one_command y \<and> (y \<noteq> [] \<longrightarrow> last y = CHR '' '')" using w(2) by (auto simp: one_command_def)
    moreover have "one_command z \<and> (z \<noteq> [] \<longrightarrow> last z = CHR '' '')" using w(3) by (auto simp: one_command_def list_all_iff)
    ultimately show "w = [] \<or> (one_command w \<and> last w = CHR '' '')" using w(1) by (cases "z = []") (auto simp: one_command_def)
  next
    assume w: "w = [] \<or> (one_command w \<and> last w = CHR '' '')"
    have "?y w"
    proof (cases "w = []")
      case False
      with w have "w = butlast w @ '' ''" by (metis append_butlast_last_id)
      moreover have "one_command (butlast w)" using w False by (auto simp: one_command_def list_all_iff dest: in_set_butlastD)
      ultimately show ?thesis by blast
    qed simp
    then show "\<exists>y z. w = y @ z \<and> ?y y \<and> ?z z" by (intro exI [of _ w] exI [of _ "[]"]) simp
  qed
  have "(\<exists>q. spans (seq_of [?args, ?origin, ?branch, ?close]) (False, t) q)
      \<longleftrightarrow> (\<exists>w u. t = w @ u \<and> (w = [] \<or> (one_command w \<and> last w = CHR '' '')) \<and> ?tail u)" for t
    unfolding all words [symmetric] by (rule regrouped)
  from after_git_push [OF mainline_source this] show ?thesis
    unfolding mainline_push_def by blast
qed


text \<open>
  A push to the main branch that names it in a refspec gets past the floor, in the predicate and in
  the hook, and it begins with a command the default allow list admits for the worker's own branch.
\<close>

theorem refspec_passes_the_floor:
  "\<not> blocks ''git push origin HEAD:main'' \<and> \<not> hook_blocks ''git push origin HEAD:main''
   \<and> ''Bash(git push origin HEAD:*)'' \<in> set DEFAULT_ALLOW"
proof -
  have "\<not> blocks ''git push origin HEAD:main''" by code_simp
  moreover have "\<not> hook_blocks ''git push origin HEAD:main''" by code_simp
  ultimately show ?thesis by (simp add: DEFAULT_ALLOW_def)
qed

text \<open>
  The predicate and the hook share their patterns and still disagree: the hook's \<open>grep\<close> reads a command
  line by line, where the predicate's anchors know only its two ends.
\<close>

theorem predicate_and_hook_disagree:
  "hook_blocks (''git push origin main'' @ [CHR 0x0A] @ ''echo ok'') \<and> \<not> blocks (''git push origin main'' @ [CHR 0x0A] @ ''echo ok'')"
proof -
  have "hook_blocks (''git push origin main'' @ [CHR 0x0A] @ ''echo ok'')" by code_simp
  moreover have "\<not> blocks (''git push origin main'' @ [CHR 0x0A] @ ''echo ok'')" by code_simp
  ultimately show ?thesis by simp
qed

end
