(* ===== verification/SpawnGate.thy ===== *)
theory SpawnGate
  imports WorkOrder DenyFloor
begin

section \<open>Who may spawn what\<close>

text \<open>
  \<open>src/shared/spawn-permissions.ts\<close>, the one gate every spawn path asks, and
  \<open>src/shared/order-caps.ts\<close>, which composes the caps of a work order with what its caller decided and
  puts the result through that gate. A request is the plain object it is on the wire.
\<close>

subsection \<open>The gate\<close>

datatype caller_kind = Http | Ws | Mcp

record spawn_caller =
  caller_kind :: caller_kind
  has_spawn_permission :: bool
  trust_level :: string
  caller_project :: "string option"
  caller_permission_mode :: "string option"
  target_same_project :: bool

datatype spawn_eval =
    Eval_Ok
  | Eval_Reject string "string option" string
  | Eval_Needs_Approval string

definition SENSITIVE_ENV_KEYS :: "string list" where
  "SENSITIVE_ENV_KEYS = [''HOME'', ''PATH'', ''USER'', ''SHELL'', ''LOGNAME'', ''SUDO_USER'', ''ANTHROPIC_API_KEY'']"

definition env_keys :: "js_object \<Rightarrow> string list" where
  "env_keys req = (case map_of req ''env'' of Some (J_Obj e) \<Rightarrow> map fst e | _ \<Rightarrow> [])"

definition evaluate_spawn_permission :: "spawn_caller \<Rightarrow> js_object \<Rightarrow> spawn_eval" where
  "evaluate_spawn_permission ctx req =
     (if \<not> has_spawn_permission ctx then Eval_Reject ''Spawn permission required'' None ''spawn_permission''
      else if caller_permission_mode ctx = Some ''bypassPermissions'' \<and> target_same_project ctx then Eval_Ok
      else if map_of req ''permissionMode'' = Some (J_Str ''bypassPermissions'') \<and> trust_level ctx \<noteq> ''benevolent''
      then Eval_Reject ''bypassPermissions mode requires benevolent trust'' (Some ''permissionMode'') ''benevolent''
      else case find (\<lambda>k. k \<in> set SENSITIVE_ENV_KEYS \<and> trust_level ctx \<noteq> ''benevolent'') (env_keys req) of
        Some k \<Rightarrow>
          Eval_Reject (''Override of sensitive env '' @ [CHR 0x22] @ k @ [CHR 0x22] @ '' requires benevolent trust'') (Some ''env'') ''benevolent''
      | None \<Rightarrow>
          if caller_kind ctx = Mcp \<and> trust_level ctx \<noteq> ''benevolent''
          then Eval_Needs_Approval ''Spawn via MCP from a non-benevolent caller requires user approval''
          else Eval_Ok)"

definition assert_spawn_allowed :: "spawn_caller \<Rightarrow> js_object \<Rightarrow> (string \<times> string option \<times> string, unit) result" where
  "assert_spawn_allowed ctx req =
     (case evaluate_spawn_permission ctx req of
        Eval_Ok \<Rightarrow> Ok ()
      | Eval_Needs_Approval _ \<Rightarrow> Err (''Spawn via MCP requires benevolent trust on caller project'', None, ''benevolent'')
      | Eval_Reject reason field required \<Rightarrow> Err (reason, field, required))"

definition map_project_trust :: "string option \<Rightarrow> string" where
  "map_project_trust trust = (if trust = Some ''benevolent'' then ''benevolent'' else ''trusted'')"

subsection \<open>Caps\<close>

record cap_base =
  base_model :: "string option"
  base_effort :: "string option"
  base_agent :: "string option"
  base_mcp_config :: "string option"
  base_budget :: "rat option"
  base_turns :: "rat option"
  base_mode :: "string option"
  base_deny :: "string list option"

definition narrowest :: "rat option \<Rightarrow> rat option \<Rightarrow> rat option" where
  "narrowest base order =
     (case base of None \<Rightarrow> order | Some b \<Rightarrow> (case order of None \<Rightarrow> base | Some od \<Rightarrow> Some (min b od)))"

definition MODE_LADDER :: "string list" where
  "MODE_LADDER = [''plan'', ''dontAsk'', ''acceptEdits'', ''auto'', ''bypassPermissions'']"

fun rank_in :: "string list \<Rightarrow> string \<Rightarrow> nat option" where
  "rank_in [] m = None"
| "rank_in (x # xs) m = (if x = m then Some 0 else map_option Suc (rank_in xs m))"

text \<open>An unknown mode has no rank, and a comparison with \<open>undefined\<close> is false.\<close>

definition rank_less :: "string list \<Rightarrow> string \<Rightarrow> string \<Rightarrow> bool" where
  "rank_less ladder a b = (case (rank_in ladder a, rank_in ladder b) of (Some i, Some j) \<Rightarrow> i < j | _ \<Rightarrow> False)"

definition narrowest_mode :: "string option \<Rightarrow> string option \<Rightarrow> string option" where
  "narrowest_mode base order =
     (case base of
        None \<Rightarrow> order
      | Some b \<Rightarrow> (case order of None \<Rightarrow> base | Some od \<Rightarrow> Some (if rank_less MODE_LADDER od b then od else b)))"

definition rank_at_least :: "string list \<Rightarrow> string \<Rightarrow> string \<Rightarrow> bool" where
  "rank_at_least ladder a b = (case (rank_in ladder a, rank_in ladder b) of (Some i, Some j) \<Rightarrow> j \<le> i | _ \<Rightarrow> False)"

definition below_min_trust :: "work_order \<Rightarrow> string \<Rightarrow> string option" where
  "below_min_trust order caller =
     (case order_min_trust order of
        None \<Rightarrow> None
      | Some required \<Rightarrow>
          if rank_at_least ORDER_TRUST_RANK caller required then None
          else Some (''dispatching this order requires '' @ required @ '' trust (caller is '' @ caller @ '')''))"

definition effective_request :: "string option \<Rightarrow> js_object" where
  "effective_request mode = (''cwd'', J_Str ''.'') # (case mode of None \<Rightarrow> [] | Some m \<Rightarrow> if m = [] then [] else [(''permissionMode'', J_Str m)])"

definition first_of :: "'a option \<Rightarrow> 'a option \<Rightarrow> 'a option" where
  "first_of a b = (case a of None \<Rightarrow> b | Some _ \<Rightarrow> a)"

definition or_none :: "string list option \<Rightarrow> string list" where
  "or_none d = (case d of None \<Rightarrow> [] | Some rs \<Rightarrow> rs)"

definition order_deny :: "work_order \<Rightarrow> string list" where
  "order_deny order = (case order_permissions order of Some (Some d) \<Rightarrow> d | _ \<Rightarrow> [])"

definition compose_order_caps :: "work_order \<Rightarrow> cap_base \<Rightarrow> spawn_caller \<Rightarrow> (string \<times> string, cap_base) result" where
  "compose_order_caps order base caller =
     (let caps = order_caps order
      in case below_min_trust order (trust_level caller) of
        Some low \<Rightarrow> Err (''order '' @ order_id_name order @ '': '' @ low, ''minTrust'')
      | None \<Rightarrow>
          let mode = narrowest_mode (base_mode base) (cap_mode caps)
          in case evaluate_spawn_permission caller (effective_request mode) of
               Eval_Reject reason field _ \<Rightarrow>
                 Err (''order '' @ order_id_name order @ '': '' @ reason, case field of None \<Rightarrow> ''permissionMode'' | Some f \<Rightarrow> f)
             | Eval_Needs_Approval reason \<Rightarrow> Err (''order '' @ order_id_name order @ '': '' @ reason, ''permissionMode'')
             | Eval_Ok \<Rightarrow>
                 let deny = js_set (or_none (base_deny base) @ order_deny order)
                 in Ok \<lparr>base_model = first_of (base_model base) (cap_model caps),
                        base_effort = first_of (base_effort base) (cap_effort caps),
                        base_agent = first_of (base_agent base) (cap_agent caps),
                        base_mcp_config = first_of (base_mcp_config base) (cap_mcp_config caps),
                        base_budget = narrowest (base_budget base) (cap_budget caps),
                        base_turns = narrowest (base_turns base) (map_option of_int (cap_turns caps)),
                        base_mode = mode,
                        base_deny = (if deny = [] then None else Some deny)\<rparr>)"

definition internal_order_caller :: "string \<Rightarrow> spawn_caller" where
  "internal_order_caller trust =
     \<lparr>caller_kind = Ws, has_spawn_permission = True, trust_level = trust, caller_project = None, caller_permission_mode = None,
      target_same_project = False\<rparr>"

lemma composed_denies:
  assumes "compose_order_caps order base caller = Ok caps"
  shows "set (or_none (base_deny caps)) = set (or_none (base_deny base)) \<union> set (order_deny order)"
proof -
  let ?deny = "js_set (or_none (base_deny base) @ order_deny order)"
  have "or_none (if ds = [] then None else Some ds) = ds" for ds by (simp add: or_none_def)
  moreover have "base_deny caps = (if ?deny = [] then None else Some ?deny)"
    using assms by (auto simp: compose_order_caps_def Let_def split: option.splits spawn_eval.splits)
  ultimately have "set (or_none (base_deny caps)) = set ?deny" by simp
  then show ?thesis by simp
qed

subsection \<open>An order only narrows\<close>

definition at_most :: "('a \<Rightarrow> 'a \<Rightarrow> bool) \<Rightarrow> 'a option \<Rightarrow> 'a option \<Rightarrow> bool" where
  "at_most le x bound = (case bound of None \<Rightarrow> True | Some b \<Rightarrow> (case x of None \<Rightarrow> False | Some a \<Rightarrow> le a b))"

lemma narrowest_at_most: "at_most (\<le>) (narrowest a b) a" "at_most (\<le>) (narrowest a b) b"
  by (auto simp: at_most_def narrowest_def split: option.split)

lemma narrowest_mode_not_above:
  "at_most (\<lambda>m b. \<not> rank_less MODE_LADDER b m) (narrowest_mode a b) a" "at_most (\<lambda>m b. \<not> rank_less MODE_LADDER b m) (narrowest_mode a b) b"
  by (auto simp: at_most_def narrowest_mode_def rank_less_def split: option.split)

text \<open>The value is one of the two, and of one that says something.\<close>

definition one_of :: "'a option \<Rightarrow> 'a option \<Rightarrow> 'a option \<Rightarrow> bool" where
  "one_of x a b \<longleftrightarrow> x \<in> {a, b} \<and> (x = None \<longleftrightarrow> a = None \<and> b = None)"

lemma composed_one_of:
  "one_of (narrowest x y) x y" "one_of (narrowest_mode m n) m n" "one_of (first_of f g) f g"
  by (auto simp: one_of_def narrowest_def narrowest_mode_def first_of_def min_def split: option.split)

text \<open>
  C17: an order never widens what its caller decided, and is never widened itself: if its caps compose at
  all, permission mode, budget and turns exceed neither the caller's nor the order's and are one of the two, the
  rules denied are those of both, every choice the caller made of model, effort, agent or servers stands
  and the order fills only the gaps, the caller is trusted as far as the order asks, and a bypass is
  composed only under benevolent trust or inside a bypass the caller already has.
\<close>

theorem order_only_narrows:
  "case compose_order_caps order base caller of
     Err _ \<Rightarrow> True
   | Ok caps \<Rightarrow>
       at_most (\<lambda>m b. \<not> rank_less MODE_LADDER b m) (base_mode caps) (base_mode base)
       \<and> at_most (\<lambda>m b. \<not> rank_less MODE_LADDER b m) (base_mode caps) (cap_mode (order_caps order))
       \<and> at_most (\<le>) (base_budget caps) (base_budget base) \<and> at_most (\<le>) (base_budget caps) (cap_budget (order_caps order))
       \<and> at_most (\<le>) (base_turns caps) (base_turns base) \<and> at_most (\<le>) (base_turns caps) (map_option of_int (cap_turns (order_caps order)))
       \<and> one_of (base_mode caps) (base_mode base) (cap_mode (order_caps order)) \<and> one_of (base_budget caps) (base_budget base) (cap_budget (order_caps order))
       \<and> one_of (base_turns caps) (base_turns base) (map_option of_int (cap_turns (order_caps order)))
       \<and> set (or_none (base_deny caps)) = set (or_none (base_deny base)) \<union> set (order_deny order)
       \<and> at_most (=) (base_model caps) (base_model base) \<and> one_of (base_model caps) (base_model base) (cap_model (order_caps order))
       \<and> at_most (=) (base_effort caps) (base_effort base) \<and> one_of (base_effort caps) (base_effort base) (cap_effort (order_caps order))
       \<and> at_most (=) (base_agent caps) (base_agent base) \<and> one_of (base_agent caps) (base_agent base) (cap_agent (order_caps order))
       \<and> at_most (=) (base_mcp_config caps) (base_mcp_config base)
       \<and> one_of (base_mcp_config caps) (base_mcp_config base) (cap_mcp_config (order_caps order))
       \<and> (case order_min_trust order of None \<Rightarrow> True | Some t \<Rightarrow> rank_at_least ORDER_TRUST_RANK (trust_level caller) t)
       \<and> (if base_mode caps = Some ''bypassPermissions''
          then trust_level caller = ''benevolent'' \<or> (caller_permission_mode caller = Some ''bypassPermissions'' \<and> target_same_project caller)
          else True)"
proof (cases "compose_order_caps order base caller")
  case (Ok caps)
  let ?mode = "narrowest_mode (base_mode base) (cap_mode (order_caps order))"
  from Ok have trust: "below_min_trust order (trust_level caller) = None"
    by (simp add: compose_order_caps_def Let_def split: option.splits)
  from Ok have gate: "evaluate_spawn_permission caller (effective_request ?mode) = Eval_Ok"
    by (simp add: compose_order_caps_def Let_def trust split: spawn_eval.splits)
  from Ok have caps: "base_model caps = first_of (base_model base) (cap_model (order_caps order))"
    "base_effort caps = first_of (base_effort base) (cap_effort (order_caps order))"
    "base_agent caps = first_of (base_agent base) (cap_agent (order_caps order))"
    "base_mcp_config caps = first_of (base_mcp_config base) (cap_mcp_config (order_caps order))"
    "base_budget caps = narrowest (base_budget base) (cap_budget (order_caps order))"
    "base_turns caps = narrowest (base_turns base) (map_option of_int (cap_turns (order_caps order)))"
    "base_mode caps = ?mode"
    by (auto simp: compose_order_caps_def Let_def trust gate)
  have selection: "at_most (=) (first_of a b) a" for a b :: "string option"
    by (auto simp: at_most_def first_of_def split: option.split)
  have bypass: "trust_level caller = ''benevolent'' \<or> (caller_permission_mode caller = Some ''bypassPermissions'' \<and> target_same_project caller)"
    if "?mode = Some ''bypassPermissions''"
    using gate that by (auto simp: evaluate_spawn_permission_def effective_request_def split: if_splits)
  note denies = composed_denies [OF Ok]
  have "(case order_min_trust order of None \<Rightarrow> True | Some t \<Rightarrow> rank_at_least ORDER_TRUST_RANK (trust_level caller) t)"
    using trust by (auto simp: below_min_trust_def split: option.splits if_splits)
  with denies bypass show ?thesis
    unfolding Ok result.case by (simp add: caps(1-7) selection narrowest_at_most narrowest_mode_not_above composed_one_of)
qed simp

end
