(* ===== verification/ScheduleFire.thy ===== *)
theory ScheduleFire
  imports SchedulePolicy SpawnGate
begin

section \<open>What a fire does\<close>

text \<open>
  \<open>src/broker/scheduled-tasks/fire.ts\<close> up to the dispatch: the spawn request a schedule and its work order
  make, the deny floor on it, and the plan of the three actions; \<open>seat-reservation.ts\<close>, which gives out
  the scheduler's slots; and the one seat order a schedule may name,
  \<open>src/shared/werk-refiner-order.ts\<close>.
\<close>

subsection \<open>The seat order\<close>

definition text_of :: "string list \<Rightarrow> string" where
  "text_of ls = join [CHR 0x0A] ls"

definition EPIC_SOFT_LINK_STEP :: string where
  "EPIC_SOFT_LINK_STEP = text_of
     [''Soft-link it to an epic, but ONLY if you are sure. If an OPEN EPICS list'',
      ''   appears in this prompt and the card is CLEARLY that epic'' @ [CHR 0x27] @ ''s work, set'',
      ''   '' @ [CHR 0x60] @ ''epic: <epic-id>'' @ [CHR 0x60] @ '' in the card'' @ [CHR 0x27] @ ''s own frontmatter. Not sure? Leave it unset --'',
      ''   a wrong '' @ [CHR 0x60] @ ''epic:'' @ [CHR 0x60] @ '' drags the card into another epic'' @ [CHR 0x27] @ ''s rollup and dispatch, which'',
      ''   is worse than no parent at all. Never edit the epic'' @ [CHR 0x27] @ ''s own card: parenthood is'',
      ''   declared by the child'']"

definition WERK_REFINER_INSTRUCTIONS :: string where
  "WERK_REFINER_INSTRUCTIONS = text_of
     [''REFINE this card -- do not implement it.'',
      ''1. Read the card file for full context, and the code it points at'',
      ''2. Rewrite the description so it is specific about what must happen'',
      ''3. Add missing tags and set an appropriate priority'',
      ''4. Break it into smaller, actionable sub-tasks if it is too large'',
      ''5. Note any dependencies on other cards'',
      ''6. '' @ EPIC_SOFT_LINK_STEP,
      ''7. REMOVE the '' @ [CHR 0x60] @ ''needs-refine'' @ [CHR 0x60] @ '' tag from the card'' @ [CHR 0x27] @ ''s '' @ [CHR 0x60] @ ''tags:'' @ [CHR 0x60] @ '' line -- the tag is the'',
      ''   queue, and a card you refined but left tagged comes back to you forever'',
      ''8. Set '' @ [CHR 0x60] @ ''model:'' @ [CHR 0x60] @ '' to the model this work actually needs ('' @ [CHR 0x60] @ ''haiku'' @ [CHR 0x60] @ '', '' @ [CHR 0x60] @ ''sonnet'' @ [CHR 0x60] @ '','',
      ''   '' @ [CHR 0x60] @ ''opus'' @ [CHR 0x60] @ '', '' @ [CHR 0x60] @ ''fable'' @ [CHR 0x60] @ '') and say WHY in one line in the body. You have just read the'',
      ''   card and the code it points at, so you are the one who knows whether this is a'',
      ''   rename-three-symbols job or a design job -- that judgement is thrown away'',
      ''   unless you write it down. It is a HINT: a seat'' @ [CHR 0x27] @ ''s own order may clamp it down,'',
      ''   never up.'',
      '''',
      ''Edit the card file itself. Do NOT change the card'' @ [CHR 0x27] @ ''s status (you cannot -- the'',
      ''status verb is denied to this seat), and do NOT start implementing the work.'']"

definition WERK_REFINER_ORDER :: work_order where
  "WERK_REFINER_ORDER =
     \<lparr>order_id_name = ''WERK-REFINER@1'', order_title = ''WerkRefiner -- makes a rough card buildable, and drains #needs-refine'',
      order_seat = ''werk-refiner'',
      order_caps = \<lparr>cap_model = Some ''claude-haiku-4-5'', cap_effort = Some ''low'', cap_agent = None, cap_budget = Some (1 / 2),
        cap_turns = Some 30, cap_mode = Some ''auto'', cap_mcp_config = None\<rparr>,
      order_prompt = None, order_instructions = Some WERK_REFINER_INSTRUCTIONS, order_reservation = Some 1,
      order_name_prefix = Some ''refine '', order_worktree = None, order_min_trust = Some ''benevolent'', order_flags = None,
      order_permissions = Some (Some [''mcp__rclaude__project_set_status'']),
      order_notes = Some (''Spent by a scheduled task against #needs-refine cards. Removes the tag it drains and changes no statuses. ''
        @ ''Must run BEFORE the nightly board sweep: refinement bumps card mtimes, and the sweep short-circuits on the ''
        @ ''board'' @ [CHR 0x27] @ ''s max mtime -- refine after the snapshot and every night looks like movement.'')\<rparr>"

definition SEAT_ORDERS :: "(string \<times> work_order) list" where
  "SEAT_ORDERS = [(''WERK-REFINER@1'', WERK_REFINER_ORDER)]"

definition seat_order :: "string option \<Rightarrow> work_order option" where
  "seat_order ident = (case ident of None \<Rightarrow> None | Some i \<Rightarrow> map_of SEAT_ORDERS i)"

subsection \<open>Slots\<close>

definition ceiling_reason :: "nat \<Rightarrow> string" where
  "ceiling_reason n = ''scheduler at its concurrency ceiling ('' @ nat_str n @ '')''"

definition reservation_reason :: "string \<Rightarrow> int \<Rightarrow> nat \<Rightarrow> string" where
  "reservation_reason ident r n = ''order '' @ ident @ '' holds its reserved '' @ int_str r @ '' of '' @ nat_str n @ '' scheduler slots''"

text \<open>\<open>None\<close> admits.\<close>

definition decide_seat_admission :: "work_order option \<Rightarrow> int \<Rightarrow> int \<Rightarrow> nat \<Rightarrow> string option" where
  "decide_seat_admission order in_flight for_order limit =
     (if int limit \<le> in_flight then Some (ceiling_reason limit)
      else case order of
        None \<Rightarrow> None
      | Some od \<Rightarrow>
          (case order_reservation od of
             None \<Rightarrow> None
           | Some declared \<Rightarrow>
               let reservation = min declared (int limit)
               in if reservation \<le> 0 then Some (reservation_reason (order_id_name od) 0 limit)
                  else if reservation \<le> for_order then Some (reservation_reason (order_id_name od) reservation limit)
                  else None))"

subsection \<open>The request\<close>

record launch_profile =
  profile_spawn :: js_object
  profile_sentinel :: "string option"

fun replace_first :: "char \<Rightarrow> char \<Rightarrow> string \<Rightarrow> string" where
  "replace_first a b [] = []"
| "replace_first a b (c # cs) = (if c = a then b # cs else c # replace_first a b cs)"

definition build_spawn_request :: "scheduled_task \<Rightarrow> launch_profile option \<Rightarrow> int \<Rightarrow> work_order option \<Rightarrow> js_object" where
  "build_spawn_request t profile fired order =
     (let stamp = replace_first (CHR ''T'') (CHR '' '') (take 16 (to_iso fired));
          base = spread (spread [] (case profile of None \<Rightarrow> [] | Some p \<Rightarrow> profile_spawn p)) (task_spawn t)
      in with_key ''description'' (Some (J_Str (''Scheduled run of '' @ [CHR 0x22] @ task_name t @ [CHR 0x22] @ '' (''
             @ (case cron t of None \<Rightarrow> ''undefined'' | Some c \<Rightarrow> c) @ '' '' @ task_tz t @ '')'')))
         (with_key ''name'' (Some (J_Str (take 80 (task_name t @ '' '' @ stamp))))
         (with_key ''sentinel'' (map_option J_Str (first_of (task_sentinel t) (case profile of None \<Rightarrow> None | Some p \<Rightarrow> profile_sentinel p)))
         (with_key ''prompt'' (Some (J_Str (compose_seat_prompt order (case task_prompt t of None \<Rightarrow> [] | Some p \<Rightarrow> p))))
         (with_key ''cwd'' (Some (J_Str (task_cwd t))) base)))))"

text \<open>The fields the schema of a request has typed, and \<open>settingsInline\<close>, which it leaves open.\<close>

definition string_field :: "js_object \<Rightarrow> string \<Rightarrow> string option" where
  "string_field r k = (case map_of r k of Some (J_Str s) \<Rightarrow> Some s | _ \<Rightarrow> None)"

definition number_field :: "js_object \<Rightarrow> string \<Rightarrow> rat option" where
  "number_field r k = (case map_of r k of Some (J_Num q) \<Rightarrow> Some q | _ \<Rightarrow> None)"

definition settings_inline :: "js_object \<Rightarrow> js_object option" where
  "settings_inline r = (case map_of r ''settingsInline'' of Some (J_Obj s) \<Rightarrow> Some s | _ \<Rightarrow> None)"

definition inline_deny :: "js_object option \<Rightarrow> (string, string list) result" where
  "inline_deny settings =
     (case settings of
        None \<Rightarrow> Ok []
      | Some s \<Rightarrow>
          (case read_object s ''permissions'' ''settingsInline.permissions is not an object'' of
             Err e \<Rightarrow> Err e
           | Ok None \<Rightarrow> Ok []
           | Ok (Some p) \<Rightarrow>
               (case read_array (list_all is_string) p ''deny'' ''settingsInline.permissions.deny is not an array of strings'' of
                  Err e \<Rightarrow> Err e
                | Ok None \<Rightarrow> Ok []
                | Ok (Some vs) \<Rightarrow> Ok (json_strings vs))))"

definition with_deny_rules :: "js_object option \<Rightarrow> string list \<Rightarrow> js_object" where
  "with_deny_rules settings deny =
     (case settings of
        None \<Rightarrow> build_unattended_settings [] deny
      | Some s \<Rightarrow>
          let permissions = (case map_of s ''permissions'' of Some (J_Obj p) \<Rightarrow> p | _ \<Rightarrow> [])
          in AList.update ''permissions'' (J_Obj (AList.update ''deny'' (J_Arr (map J_Str deny)) permissions)) s)"

definition caps_object :: "cap_base \<Rightarrow> js_object" where
  "caps_object c =
     entry ''model'' (map_option J_Str (base_model c)) @ entry ''effort'' (map_option J_Str (base_effort c))
     @ entry ''agent'' (map_option J_Str (base_agent c)) @ entry ''mcpConfigPath'' (map_option J_Str (base_mcp_config c))
     @ entry ''maxBudgetUsd'' (map_option J_Num (base_budget c)) @ entry ''maxTurns'' (map_option J_Num (base_turns c))
     @ entry ''permissionMode'' (map_option J_Str (base_mode c))"

definition apply_order_to_request :: "js_object \<Rightarrow> work_order option \<Rightarrow> (string, js_object) result" where
  "apply_order_to_request req order =
     (case order of
        None \<Rightarrow> Ok req
      | Some od \<Rightarrow>
          (case inline_deny (settings_inline req) of
             Err why \<Rightarrow> Err (''order '' @ order_id_name od @ '': cannot apply its deny rules -- '' @ why)
           | Ok existing \<Rightarrow>
               (case compose_order_caps od
                       \<lparr>base_model = string_field req ''model'', base_effort = string_field req ''effort'', base_agent = string_field req ''agent'',
                        base_mcp_config = string_field req ''mcpConfigPath'', base_budget = number_field req ''maxBudgetUsd'',
                        base_turns = number_field req ''maxTurns'', base_mode = string_field req ''permissionMode'', base_deny = Some existing\<rparr>
                       (internal_order_caller ''benevolent'') of
                  Err (why, _) \<Rightarrow> Err why
                | Ok caps \<Rightarrow>
                    let next = spread req (caps_object caps); deny = or_none (base_deny caps)
                    in Ok (if list_ex (\<lambda>r. r \<notin> set existing) deny
                           then with_key ''settingsInline'' (Some (J_Obj (with_deny_rules (settings_inline req) deny))) next
                           else next))))"

definition apply_deny_floor_to_request :: "js_object \<Rightarrow> (string, js_object) result" where
  "apply_deny_floor_to_request req =
     (if map_of req ''settingsInline'' = None \<and> map_of req ''settingsPath'' \<noteq> None
      then Err (''cannot apply the unattended deny-floor: this spawn carries a settingsPath and no settingsInline, ''
        @ ''and an inline fragment would silently replace that file -- move the settings inline'')
      else case apply_deny_floor (settings_inline req) of
        Err why \<Rightarrow> Err (''cannot apply the unattended deny-floor -- '' @ why)
      | Ok s \<Rightarrow> Ok (with_key ''settingsInline'' (Some (J_Obj s)) req))"

subsection \<open>The plan\<close>

datatype fire_work = Dispatch js_object | Run_Board_Sweep | Start_Epic_Run

record fire_env =
  env_now :: int
  owner_may_spawn :: "string \<Rightarrow> bool"
  is_conversation_alive :: "string \<Rightarrow> bool"
  get_launch_profile :: "string \<Rightarrow> string \<Rightarrow> launch_profile option"
  board_sweep_wired :: bool
  epic_start_wired :: bool
  morning_report_enabled :: "string \<Rightarrow> bool"
  epics_scanner_refusal :: "string \<Rightarrow> string option"

definition plan_non_spawn :: "fire_env \<Rightarrow> scheduled_task \<Rightarrow> (string, fire_work) result option" where
  "plan_non_spawn env t =
     (case schedule_action t of
        Board_Sweep \<Rightarrow> Some (if board_sweep_wired env then Ok Run_Board_Sweep else Err ''this broker has no board-sweep runner wired'')
      | Epic_Start \<Rightarrow> Some (if epic_start_wired env then Ok Start_Epic_Run else Err ''this broker has no epic-start runner wired'')
      | Spawn \<Rightarrow> None)"

definition plan_fire :: "fire_env \<Rightarrow> scheduled_task \<Rightarrow> int \<Rightarrow> work_order option \<Rightarrow> (string, fire_work) result" where
  "plan_fire env t fired order =
     (case plan_non_spawn env t of
        Some p \<Rightarrow> p
      | None \<Rightarrow>
          let profile = (case profile_id t of None \<Rightarrow> None | Some p \<Rightarrow> if p = [] then None else get_launch_profile env p (created_by t))
          in and_then (apply_order_to_request (build_spawn_request t profile fired order) order) (\<lambda>req.
             and_then (apply_deny_floor_to_request req) (\<lambda>floored. Ok (Dispatch floored))))"

definition work_outcome :: "fire_work \<Rightarrow> run_outcome" where
  "work_outcome w = (case w of Dispatch _ \<Rightarrow> Spawned | Run_Board_Sweep \<Rightarrow> Swept | Start_Epic_Run \<Rightarrow> Armed)"

definition scanner_opt_out :: "fire_env \<Rightarrow> scheduled_task \<Rightarrow> string option" where
  "scanner_opt_out env t =
     (case schedule_action t of
        Board_Sweep \<Rightarrow>
          if morning_report_enabled env (project_uri t) then None
          else Some (''the morning report is not enabled for '' @ project_uri t)
      | Epic_Start \<Rightarrow> epics_scanner_refusal env (project_uri t)
      | Spawn \<Rightarrow> None)"

subsection \<open>No fire launches unfloored\<close>

lemma inline_deny_denies: "inline_deny (Some s) = Ok ds \<Longrightarrow> x \<in> set ds \<Longrightarrow> denies s x"
  by (auto simp: inline_deny_def denies_def setting_def dest: json_strings_in dest!: read_object_get read_array_get
      split: result.splits option.splits json.splits)

lemma with_deny_rules_denies: "x \<in> set ds \<Longrightarrow> denies (with_deny_rules settings ds) x"
  by (cases settings) (auto simp: with_deny_rules_def build_unattended_settings_def denies_def setting_def Let_def)

lemma caps_object_keys: "k \<in> {''cwd'', ''prompt'', ''settingsInline'', ''settingsPath''} \<Longrightarrow> map_of (caps_object c) k = None"
  by (auto simp: caps_object_def simp del: map_of_append)

lemma entry_distinct:
  "distinct (map fst (entry k v))"
  "k \<notin> fst ` set rest \<Longrightarrow> distinct (map fst rest) \<Longrightarrow> distinct (map fst (entry k v @ rest))"
  "x \<noteq> k \<Longrightarrow> x \<notin> fst ` set (entry k v)"
  "x \<noteq> k \<Longrightarrow> x \<notin> fst ` set rest \<Longrightarrow> x \<notin> fst ` set (entry k v @ rest)"
  by (cases v; auto simp: entry_def)+

lemma caps_object_distinct: "distinct (map fst (caps_object c))"
  unfolding caps_object_def by (intro entry_distinct; simp)

lemma apply_order_keeps:
  assumes "apply_order_to_request req order = Ok req'"
  shows "k \<in> {''cwd'', ''prompt''} \<Longrightarrow> map_of req' k = map_of req k"
    and "order = Some od \<Longrightarrow> rule \<in> set (order_deny od) \<Longrightarrow> (case settings_inline req' of None \<Rightarrow> False | Some s \<Rightarrow> denies s rule)"
proof -
  show "map_of req' k = map_of req k" if k: "k \<in> {''cwd'', ''prompt''}"
  proof (cases order)
    case (Some od)
    have "map_of (spread req (caps_object c)) k = map_of req k" for c
    proof -
      have "map_of (caps_object c) k = None" by (rule caps_object_keys) (use k in auto)
      then show ?thesis by (simp add: map_of_spread [OF caps_object_distinct])
    qed
    with assms Some k show ?thesis
      by (auto simp: apply_order_to_request_def Let_def split: result.splits prod.splits if_splits)
  qed (use assms in \<open>simp add: apply_order_to_request_def\<close>)
  assume o: "order = Some od" "rule \<in> set (order_deny od)"
  with assms obtain existing caps where e: "inline_deny (settings_inline req) = Ok existing"
    and c: "compose_order_caps od
                       \<lparr>base_model = string_field req ''model'', base_effort = string_field req ''effort'', base_agent = string_field req ''agent'',
                        base_mcp_config = string_field req ''mcpConfigPath'', base_budget = number_field req ''maxBudgetUsd'',
                        base_turns = number_field req ''maxTurns'', base_mode = string_field req ''permissionMode'', base_deny = Some existing\<rparr>
                       (internal_order_caller ''benevolent'') = Ok caps"
    and r: "req' = (if list_ex (\<lambda>r. r \<notin> set existing) (or_none (base_deny caps))
                 then with_key ''settingsInline'' (Some (J_Obj (with_deny_rules (settings_inline req) (or_none (base_deny caps))))) (spread req (caps_object caps))
                 else spread req (caps_object caps))"
    by (auto simp: apply_order_to_request_def Let_def split: result.splits prod.splits)
  have rule: "rule \<in> set (or_none (base_deny caps))" using composed_denies [OF c] o(2) by auto
  show "case settings_inline req' of None \<Rightarrow> False | Some s \<Rightarrow> denies s rule"
  proof (cases "list_ex (\<lambda>r. r \<notin> set existing) (or_none (base_deny caps))")
    case True
    then show ?thesis using rule by (simp add: r settings_inline_def with_deny_rules_denies)
  next
    case False
    with rule have "rule \<in> set existing" by (auto simp: list_ex_iff)
    moreover from this e obtain s where s: "settings_inline req = Some s"
      by (cases "settings_inline req") (auto simp: inline_deny_def)
    ultimately have "denies s rule" using e by (simp add: inline_deny_denies)
    have "settings_inline req' = settings_inline req"
      using False caps_object_keys [of "''settingsInline''" caps]
      by (simp add: r settings_inline_def map_of_spread [OF caps_object_distinct])
    with s \<open>denies s rule\<close> show ?thesis by simp
  qed
qed

lemma floored_request:
  assumes "apply_deny_floor_to_request req = Ok req'"
  shows "k \<noteq> ''settingsInline'' \<Longrightarrow> map_of req' k = map_of req k"
    and "case settings_inline req' of None \<Rightarrow> False | Some s \<Rightarrow> carries_floor s"
    and "(case settings_inline req of None \<Rightarrow> False | Some s \<Rightarrow> denies s rule) \<Longrightarrow> (case settings_inline req' of None \<Rightarrow> False | Some s \<Rightarrow> denies s rule)"
proof -
  from assms obtain s where s: "apply_deny_floor (settings_inline req) = Ok s" "req' = with_key ''settingsInline'' (Some (J_Obj s)) req"
    by (auto simp: apply_deny_floor_to_request_def split: if_splits result.splits)
  then have i: "settings_inline req' = Some s" by (simp add: settings_inline_def)
  show "k \<noteq> ''settingsInline'' \<Longrightarrow> map_of req' k = map_of req k" by (simp add: s(2))
  show "case settings_inline req' of None \<Rightarrow> False | Some s \<Rightarrow> carries_floor s" using floor_carried [OF s(1)] by (simp add: i)
  show "(case settings_inline req of None \<Rightarrow> False | Some s \<Rightarrow> denies s rule) \<Longrightarrow> (case settings_inline req' of None \<Rightarrow> False | Some s \<Rightarrow> denies s rule)"
    using s(1) by (auto simp: i split: option.splits dest: floor_keeps_denied)
qed

lemma build_request_owns:
  "map_of (build_spawn_request t profile fired order) ''cwd'' = Some (J_Str (task_cwd t))"
  "map_of (build_spawn_request t profile fired order) ''prompt''
     = Some (J_Str (compose_seat_prompt order (case task_prompt t of None \<Rightarrow> [] | Some p \<Rightarrow> p)))"
  by (simp_all add: build_spawn_request_def Let_def)

text \<open>
  C14: whatever a scheduled fire launches carries the whole deny floor, its rules and its guard hook, and
  every rule of the order it spends, however the schedule's own settings and the launch profile are
  written; nothing either of them holds redirects it to another directory or replaces the prompt.
\<close>

theorem no_fire_launches_unfloored:
  "case plan_fire env t fired order of
     Ok (Dispatch req) \<Rightarrow>
       (case settings_inline req of
          None \<Rightarrow> False
        | Some s \<Rightarrow> carries_floor s \<and> list_all (denies s) (case order of None \<Rightarrow> [] | Some od \<Rightarrow> order_deny od))
       \<and> map_of req ''cwd'' = Some (J_Str (task_cwd t))
       \<and> map_of req ''prompt'' = Some (J_Str (compose_seat_prompt order (case task_prompt t of None \<Rightarrow> [] | Some p \<Rightarrow> p)))
   | _ \<Rightarrow> True"
proof -
  {
    fix req
    assume "plan_fire env t fired order = Ok (Dispatch req)"
    then obtain profile req1 where a: "apply_order_to_request (build_spawn_request t profile fired order) order = Ok req1"
      and f: "apply_deny_floor_to_request req1 = Ok req"
      by (auto simp: plan_fire_def plan_non_spawn_def Let_def split: schedule_action.splits if_splits)
    have "map_of req k = map_of (build_spawn_request t profile fired order) k" if "k \<in> {''cwd'', ''prompt''}" for k
      using floored_request(1) [OF f, of k] apply_order_keeps(1) [OF a that] that by auto
    moreover obtain s where s: "settings_inline req = Some s" "carries_floor s"
      using floored_request(2) [OF f] by (auto split: option.splits)
    moreover have "denies s rule" if "order = Some od" "rule \<in> set (order_deny od)" for od rule
      using floored_request(3) [OF f apply_order_keeps(2) [OF a that]] s(1) by simp
    ultimately have "(case settings_inline req of
          None \<Rightarrow> False
        | Some s \<Rightarrow> carries_floor s \<and> list_all (denies s) (case order of None \<Rightarrow> [] | Some od \<Rightarrow> order_deny od))
       \<and> map_of req ''cwd'' = Some (J_Str (task_cwd t))
       \<and> map_of req ''prompt'' = Some (J_Str (compose_seat_prompt order (case task_prompt t of None \<Rightarrow> [] | Some p \<Rightarrow> p)))"
      by (cases order) (simp_all add: build_request_owns list_all_iff)
  }
  then show ?thesis by (simp split: result.split fire_work.split)
qed

end
