(* ===== verification/ScheduleOutage.thy ===== *)
theory ScheduleOutage
  imports SchedulePolicy
begin

section \<open>Once a minute, and after an outage\<close>

text \<open>
  What \<open>src/broker/scheduled-tasks/policy.ts\<close> and \<open>catch-up.ts\<close> come to over time: a schedule ticked
  through a zone of one offset and through a change of it, and the walk over what an outage missed.
\<close>

subsection \<open>Ticks\<close>

text \<open>
  The instants of \<open>tick()\<close> at which a schedule fires, with the marker \<open>claimAndFire\<close> of
  \<open>src/broker/scheduled-tasks/engine.ts\<close> writes before it fires.
\<close>

fun tick_fires :: "tz_database \<Rightarrow> scheduled_task \<Rightarrow> int list \<Rightarrow> int list" where
  "tick_fires db t [] = []"
| "tick_fires db t (now # later) =
     (case decide_fire db t now of
        Skip _ \<Rightarrow> tick_fires db t later
      | Fire key \<Rightarrow> now # tick_fires db (t\<lparr>last_fired_minute_key := Some key, updated_at := now\<rparr>) later)"

lemma same_minute_wall: "a div 60000 = b div 60000 \<Longrightarrow> wall_clock_parts (fixed_zone off) a tz = wall_clock_parts (fixed_zone off) b tz"
  by (metis wall_clock_minute)

lemma decide_fire_key:
  assumes "decide_fire db t now = Fire key"
  shows "last_fired_minute_key t \<noteq> Some key"
    "run_at t = None \<Longrightarrow> key = minute_key (wall_clock_parts db now (task_tz t)) (task_tz t)"
    "run_at t = Some due \<Longrightarrow> key = one_shot_key due"
  using assms by (auto simp: decide_fire_def decide_one_shot_def Let_def split: if_splits option.splits)

definition last_fire_key :: "tz_database \<Rightarrow> scheduled_task \<Rightarrow> int \<Rightarrow> string" where
  "last_fire_key db t at_ms =
     (case run_at t of Some due \<Rightarrow> one_shot_key due | None \<Rightarrow> minute_key (wall_clock_parts db at_ms (task_tz t)) (task_tz t))"

lemma last_fire_key_marker [simp]:
  "last_fire_key db (t\<lparr>last_fired_minute_key := k, updated_at := u\<rparr>) m = last_fire_key db t m"
  by (simp add: last_fire_key_def cong: option.case_cong)

lemma decide_fire_new_key: "decide_fire db t now = Fire key \<Longrightarrow> key = last_fire_key db t now \<and> last_fired_minute_key t \<noteq> Some key"
  using decide_fire_key [of db t now key] by (auto simp: last_fire_key_def split: option.split)

lemma later_fires:
  assumes "sorted (b # nows)" and "last_fired_minute_key t = Some (last_fire_key (fixed_zone off) t b)"
  shows "sorted_wrt (<) (b div 60000 # map (\<lambda>m. m div 60000) (tick_fires (fixed_zone off) t nows))"
  using assms
proof (induction nows arbitrary: b t)
  case (Cons now nows)
  let ?db = "fixed_zone off"
  show ?case
  proof (cases "decide_fire ?db t now")
    case (Fire key)
    let ?t = "t\<lparr>last_fired_minute_key := Some key, updated_at := now\<rparr>"
    from decide_fire_new_key [OF Fire] have key: "key = last_fire_key ?db t now" "last_fired_minute_key t \<noteq> Some key" by auto
    have "b div 60000 \<noteq> now div 60000"
      using key Cons.prems(2) same_minute_wall [of b now off] by (auto simp: last_fire_key_def split: option.splits)
    moreover have "b div 60000 \<le> now div 60000" using Cons.prems(1) by (simp add: zdiv_mono1)
    moreover have "sorted_wrt (<) (now div 60000 # map (\<lambda>m. m div 60000) (tick_fires ?db ?t nows))"
      by (rule Cons.IH) (use Cons.prems(1) key(1) in simp_all)
    ultimately show ?thesis using Fire by auto
  next
    case (Skip r)
    have "sorted_wrt (<) (b div 60000 # map (\<lambda>m. m div 60000) (tick_fires ?db t nows))"
      by (rule Cons.IH) (use Cons.prems in simp_all)
    with Skip show ?thesis by simp
  qed
qed simp

lemma ticks_once:
  assumes "sorted nows"
  shows "sorted_wrt (<) (map (\<lambda>m. m div 60000) (tick_fires (fixed_zone off) t nows))"
  using assms
proof (induction nows)
  case (Cons now nows)
  show ?case
  proof (cases "decide_fire (fixed_zone off) t now")
    case (Fire key)
    have "sorted_wrt (<) (now div 60000 # map (\<lambda>m. m div 60000)
        (tick_fires (fixed_zone off) (t\<lparr>last_fired_minute_key := Some key, updated_at := now\<rparr>) nows))"
      by (rule later_fires) (use Cons.prems decide_fire_new_key [OF Fire] in simp_all)
    with Fire show ?thesis by simp
  qed (use Cons in simp)
qed simp

text \<open>The instants of ticks that start at one and follow each other after the given waits.\<close>

fun instants :: "int \<Rightarrow> nat list \<Rightarrow> int list" where
  "instants now [] = [now]"
| "instants now (g # gs) = now # instants (now + int g) gs"

lemma instants_sorted: "sorted (instants now gs) \<and> (\<forall>x \<in> set (instants now gs). now \<le> x)"
proof (induction gs arbitrary: now)
  case (Cons g gs)
  from Cons [of "now + int g"] show ?case by auto
qed simp

text \<open>
  In a zone of one offset a schedule fires at most once in any minute, however often it is ticked in
  it: with ticks at any instants in order, the minutes of its fires strictly increase.
\<close>

theorem fires_once_a_minute:
  "sorted_wrt (<) (map (\<lambda>m. m div 60000) (tick_fires (fixed_zone off) t (instants start gaps)))"
  by (rule ticks_once) (simp add: instants_sorted)

subsection \<open>The hour that happens twice\<close>

text \<open>Berlin in the night of 25 October 2026: two hours ahead until 01:00 UTC, one hour after.\<close>

definition berlin_2026 :: tz_database where
  "berlin_2026 = (\<lambda>_ ms. if ms < 1792890000000 then 7200000 else 3600000)"

definition half_hourly :: scheduled_task where
  "half_hourly = nightly\<lparr>cron := Some ''*/30 2 * * *'', task_tz := ''Europe/Berlin''\<rparr>"

definition HALF_HOURLY :: cron_fields where
  "HALF_HOURLY = \<lparr>cron_minute = [0, 30], cron_hour = [2], cron_dom = stride 1 31 1, cron_month = stride 1 12 1, cron_dow = stride 0 6 1,
     dom_restricted = False, dow_restricted = False\<rparr>"

lemma parse_half_hourly: "parse_cron ''*/30 2 * * *'' = Ok HALF_HOURLY"
  by code_simp

lemma berlin_walls:
  "wall_clock_parts berlin_2026 1792886400000 ''Europe/Berlin'' = \<lparr>wc_year = 2026, wc_month = 10, wc_day = 25, wc_hour = 2, wc_minute = 0, wc_dow = 0\<rparr>"
  "wall_clock_parts berlin_2026 1792888200000 ''Europe/Berlin'' = \<lparr>wc_year = 2026, wc_month = 10, wc_day = 25, wc_hour = 2, wc_minute = 30, wc_dow = 0\<rparr>"
  "wall_clock_parts berlin_2026 1792890000000 ''Europe/Berlin'' = \<lparr>wc_year = 2026, wc_month = 10, wc_day = 25, wc_hour = 2, wc_minute = 0, wc_dow = 0\<rparr>"
  "wall_clock_parts berlin_2026 1792891800000 ''Europe/Berlin'' = \<lparr>wc_year = 2026, wc_month = 10, wc_day = 25, wc_hour = 2, wc_minute = 30, wc_dow = 0\<rparr>"
  by code_simp+

lemma berlin_keys:
  "minute_key \<lparr>wc_year = 2026, wc_month = 10, wc_day = 25, wc_hour = 2, wc_minute = 0, wc_dow = 0\<rparr> ''Europe/Berlin'' = ''2026-10-25T02:00@Europe/Berlin''"
  "minute_key \<lparr>wc_year = 2026, wc_month = 10, wc_day = 25, wc_hour = 2, wc_minute = 30, wc_dow = 0\<rparr> ''Europe/Berlin'' = ''2026-10-25T02:30@Europe/Berlin''"
  by code_simp+

lemma half_hourly_due:
  "matches_minute HALF_HOURLY \<lparr>wc_year = 2026, wc_month = 10, wc_day = 25, wc_hour = 2, wc_minute = 0, wc_dow = 0\<rparr>"
  "matches_minute HALF_HOURLY \<lparr>wc_year = 2026, wc_month = 10, wc_day = 25, wc_hour = 2, wc_minute = 30, wc_dow = 0\<rparr>"
  by code_simp+

text \<open>
  A schedule that fires more than once in the repeated hour fires in both passes of it: the marker
  holds only the last minute fired, and the second pass repeats the first one's minutes, not its last.
  The four ticks are 02:00 and 02:30 summer time and 02:00 and 02:30 winter time.
\<close>

theorem repeated_hour_fires_twice:
  "tick_fires berlin_2026 half_hourly [1792886400000, 1792888200000, 1792890000000, 1792891800000]
     = [1792886400000, 1792888200000, 1792890000000, 1792891800000]
   \<and> map (\<lambda>m. minute_key (wall_clock_parts berlin_2026 m ''Europe/Berlin'') ''Europe/Berlin'') [1792886400000, 1792890000000]
     = [''2026-10-25T02:00@Europe/Berlin'', ''2026-10-25T02:00@Europe/Berlin'']"
  by (simp add: decide_fire_def half_hourly_def nightly_def usable_cron_def parse_half_hourly berlin_walls berlin_keys half_hourly_due)

subsection \<open>The outage\<close>

lemma fires_of_search:
  assumes "next_fires db f tz since cnt = Some out" "m \<in> set out"
  shows "since < m \<and> matches_minute f (wall_clock_parts db m tz)"
proof -
  from assms have "m \<in> set (all_fires db f tz since MAX_SCAN_DAYS)" by (auto simp: next_fires_eq dest: in_set_takeD)
  then show ?thesis using fires_match by (auto simp: all_fires_def)
qed

lemma compute_missed_total: "compute_missed_fires db t now cap \<noteq> None"
  by (auto simp: compute_missed_fires_def next_fires_eq split: option.split)

lemma compute_missed_sound:
  assumes "compute_missed_fires db t now cap = Some missed"
  shows "length missed \<le> cap"
    and "list_all (\<lambda>m. case (last_run_at t, usable_cron t) of
        (Some since, Some f) \<Rightarrow> since < m \<and> m < now \<and> matches_minute f (wall_clock_parts db m (task_tz t))
      | _ \<Rightarrow> False) missed"
proof -
  show "length missed \<le> cap"
    using assms by (auto simp: compute_missed_fires_def split: if_splits option.splits)
  show "list_all (\<lambda>m. case (last_run_at t, usable_cron t) of
        (Some since, Some f) \<Rightarrow> since < m \<and> m < now \<and> matches_minute f (wall_clock_parts db m (task_tz t))
      | _ \<Rightarrow> False) missed"
    using assms by (auto simp: compute_missed_fires_def list_all_iff split: if_splits option.splits dest!: in_set_takeD dest: fires_of_search)
qed

text \<open>
  The rows an outage leaves are true and few: whatever the schedule and the zone, the walk ends and
  writes at most twenty rows, each of a moment after the last run and before now at which the
  expression matches, in the name of the schedule and marked as missed; earlier rows stay.
\<close>

theorem outage_rows_are_true:
  "case reconcile_one db new_id now t runs of
     None \<Rightarrow> False
   | Some (runs', _) \<Rightarrow>
       take (length runs) runs' = runs \<and> length runs' \<le> length runs + 20
       \<and> list_all (\<lambda>r. schedule_id r = task_id t \<and> run_outcome r = Missed
           \<and> (case (last_run_at t, usable_cron t) of
                (Some since, Some f) \<Rightarrow> since < fired_at r \<and> fired_at r < now \<and> matches_minute f (wall_clock_parts db (fired_at r) (task_tz t))
              | _ \<Rightarrow> False)) (drop (length runs) runs')"
proof -
  obtain missed where m: "compute_missed_fires db t now MAX_MISSED_ROWS = Some missed"
    using compute_missed_total [of db t now MAX_MISSED_ROWS] by blast
  note s = compute_missed_sound [OF m]
  have l: "length missed \<le> 20" using s(1) by (simp add: MAX_MISSED_ROWS_def)
  show ?thesis
    unfolding reconcile_one_def m using l s(2) by (auto simp: missed_row_def list_all_iff dest!: set_zip_rightD)
qed

lemma nightly_outage:
  assumes "d \<le> 1000"
  shows "compute_missed_fires (fixed_zone 0) (nightly\<lparr>last_run_at := Some (DAY_MS * s), end_at := e\<rparr>) (DAY_MS * (s + int d) + 60000) 20
    = Some (map (\<lambda>k. DAY_MS * (s + int k)) [1..<Suc (min d 20)])"
proof -
  let ?t = "nightly\<lparr>last_run_at := Some (DAY_MS * s), end_at := e\<rparr>"
  let ?g = "\<lambda>k. DAY_MS * (s + int k)"
  have u: "usable_cron ?t = Some DAILY" by (rule usable_nightly) (simp add: nightly_def)
  have "filter (\<lambda>ms. ms < DAY_MS * (s + int d) + 60000) (map ?g [1..<22]) = map ?g (filter (\<lambda>k. k \<le> d) [1..<22])"
    unfolding filter_map by (rule arg_cong [of _ _ "map ?g"], rule filter_cong) (auto simp: distrib_left)
  also have "filter (\<lambda>k. k \<le> d) [1..<22] = [1..<Suc (min d 21)]"
    by (rule sorted_distinct_set_unique) (auto simp del: upt_Suc simp: sorted_wrt_filter)
  finally have f: "filter (\<lambda>ms. ms < DAY_MS * (s + int d) + 60000) (map ?g [1..<22]) = map ?g [1..<Suc (min d 21)]" .
  have "take 20 (map ?g [1..<Suc (min d 21)]) = map ?g [1..<Suc (min d 20)]"
    unfolding take_map by (cases "d \<le> 20") (simp_all del: upt_Suc add: min_def)
  moreover have "run_at ?t = None" "last_run_at ?t = Some (DAY_MS * s)" by (simp_all add: nightly_def)
  ultimately show ?thesis
    using daily_fires [of 21 "task_tz ?t" s] f
    by (simp add: compute_missed_fires_def u del: upt_Suc)
qed

text \<open>
  With more than twenty misses the catch-up is judged by the twentieth oldest, not the most recent:
  after a month without the broker a nightly schedule that asks for a catch-up gets none, though its
  last miss is a minute old and would be due.
\<close>

theorem catch_up_judges_an_old_miss:
  "let t = nightly\<lparr>last_run_at := Some (DAY_MS * s)\<rparr>; now = DAY_MS * (s + 30) + 60000
   in compute_missed_fires (fixed_zone 0) t now MAX_MISSED_ROWS = Some (map (\<lambda>k. DAY_MS * (s + int k)) [1..<21])
     \<and> catch_up t = Catch_Up_Once \<and> \<not> should_catch_up t (map (\<lambda>k. DAY_MS * (s + int k)) [1..<21]) now
     \<and> matches_minute DAILY (wall_clock_parts (fixed_zone 0) (DAY_MS * (s + 30)) (task_tz t))
     \<and> now - DAY_MS * (s + 30) \<le> CATCH_UP_GRACE_MS"
proof -
  have "nightly\<lparr>last_run_at := x\<rparr> = nightly\<lparr>last_run_at := x, end_at := None\<rparr>" for x by (simp add: nightly_def)
  moreover have "matches_minute DAILY (wall_clock_parts (fixed_zone 0) (DAY_MS * (s + 30)) tz)" for tz
    using matches_at [of 0 0 DAILY 0 "s + 30" tz] by (simp add: daily_fits) (simp add: DAILY_def)
  moreover have "last (map (\<lambda>k. DAY_MS * (s + int k)) [1..<21]) = DAY_MS * (s + 20)" by (subst last_map) simp_all
  ultimately show ?thesis
    using nightly_outage [where d = 30 and s = s and e = None]
    by (simp add: Let_def MAX_MISSED_ROWS_def should_catch_up_def) (simp add: nightly_def)
qed

text \<open>
  A catch-up ignores the window: a schedule whose end passed during the outage has rows written for
  moments after it and is caught up, at a moment when its own clock calls it expired.
\<close>

theorem catch_up_ignores_the_window:
  "let t = nightly\<lparr>last_run_at := Some (DAY_MS * s), end_at := Some (DAY_MS * s + 60000)\<rparr>; now = DAY_MS * (s + 3) + 60000
   in compute_missed_fires (fixed_zone 0) t now MAX_MISSED_ROWS = Some [DAY_MS * (s + 1), DAY_MS * (s + 2), DAY_MS * (s + 3)]
     \<and> should_catch_up t [DAY_MS * (s + 1), DAY_MS * (s + 2), DAY_MS * (s + 3)] now
     \<and> decide_fire (fixed_zone 0) t now = Skip Expired"
  using nightly_outage [where d = 3 and s = s and e = "Some (DAY_MS * s + 60000)"]
  by (simp add: Let_def MAX_MISSED_ROWS_def should_catch_up_def decide_fire_def upt_rec) (simp add: nightly_def)

text \<open>
  The walk over an outage is not idempotent: it moves nothing the next walk looks at, so for a schedule
  that skips what it missed, a second walk at the same moment writes every row of the first again.
\<close>

theorem walking_again_writes_again:
  "case reconcile_one db new_id now (t\<lparr>catch_up := Catch_Up_Skip\<rparr>) runs of
     None \<Rightarrow> False
   | Some (runs', caught_up) \<Rightarrow> \<not> caught_up
       \<and> (case reconcile_one db new_id now (t\<lparr>catch_up := Catch_Up_Skip\<rparr>) runs' of
            None \<Rightarrow> False
          | Some (runs'', _) \<Rightarrow> map fired_at (drop (length runs') runs'') = map fired_at (drop (length runs) runs'))"
proof -
  let ?t = "t\<lparr>catch_up := Catch_Up_Skip\<rparr>"
  obtain missed where m: "compute_missed_fires db ?t now MAX_MISSED_ROWS = Some missed"
    using compute_missed_total [of db ?t now MAX_MISSED_ROWS] by blast
  have "map fired_at (map (\<lambda>(i, due). missed_row db (f i) ?t due) (zip [0..<length missed] missed)) = missed" for f
    by (rule nth_equalityI) (simp_all add: missed_row_def)
  then show ?thesis by (simp add: reconcile_one_def m should_catch_up_def)
qed

end
