(* ===== verification/ScheduleEngine.thy ===== *)
theory ScheduleEngine
  imports ScheduleFire ScheduleOutage
begin

section \<open>The schedule engine\<close>

text \<open>
  \<open>src/broker/scheduled-tasks/engine.ts\<close> with the rest of \<open>fire.ts\<close> and the store of
  \<open>src/broker/store/memory/scheduled-tasks.ts\<close>: what happens between two awaits is one event, so a
  sequence of events is any interleaving of ticks, dispatches that settle, the walk over an outage,
  buttons and edits. \<open>now()\<close> is read once an event. Log lines, notifications and broadcasts are left out.
\<close>

subsection \<open>State\<close>

text \<open>A dispatch that has not settled: the schedule as it was claimed, and what the rest of the fire needs.\<close>

record flight =
  fl_task :: scheduled_task
  fl_key :: string
  fl_trigger :: run_trigger
  fl_fired :: int
  fl_work :: fire_work
  fl_order :: "string option"
  fl_walk :: bool

text \<open>A fire that is over and whose schedule is still in \<open>firing\<close>: the \<open>finally\<close> of \<open>claimAndFire\<close> is to come.\<close>

record settling =
  sl_task :: string
  sl_walk :: bool

record outage_walk =
  wk_now :: int
  wk_rest :: "scheduled_task list"
  wk_waiting :: bool

record engine =
  en_tasks :: "scheduled_task list"
  en_runs :: "scheduled_run list"
  en_serial :: nat
  en_firing :: "string list"
  en_dispatching :: int
  en_by_order :: "(string \<times> int) list"
  en_flights :: "flight list"
  en_settling :: "settling list"
  en_walk :: outage_walk

record engine_params =
  ep_zones :: tz_database
  ep_new_id :: "nat \<Rightarrow> string"
  ep_limit :: nat

record dispatch_outcome =
  do_ok :: bool
  do_conversation :: "string option"
  do_job :: "string option"
  do_error :: "string option"

subsection \<open>The store\<close>

fun upsert :: "scheduled_task \<Rightarrow> scheduled_task list \<Rightarrow> scheduled_task list" where
  "upsert t [] = [t]"
| "upsert t (u # us) = (if task_id u = task_id t then t # us else u # upsert t us)"

definition get_task :: "scheduled_task list \<Rightarrow> string \<Rightarrow> scheduled_task option" where
  "get_task ts i = find (\<lambda>t. task_id t = i) ts"

definition list_enabled :: "scheduled_task list \<Rightarrow> scheduled_task list" where
  "list_enabled ts = sort_by (\<lambda>a b. created_at a \<le> created_at b) (filter enabled ts)"

definition delete_task :: "string \<Rightarrow> engine \<Rightarrow> engine" where
  "delete_task i st =
     st\<lparr>en_tasks := filter (\<lambda>t. task_id t \<noteq> i) (en_tasks st), en_runs := filter (\<lambda>r. schedule_id r \<noteq> i) (en_runs st)\<rparr>"

definition runs_for :: "scheduled_run list \<Rightarrow> string \<Rightarrow> scheduled_run list" where
  "runs_for rs i = sort_by (\<lambda>a b. fired_at b \<le> fired_at a) (filter (\<lambda>r. schedule_id r = i) rs)"

definition list_runs :: "scheduled_run list \<Rightarrow> string \<Rightarrow> nat \<Rightarrow> scheduled_run list" where
  "list_runs rs i limit = take (max 1 limit) (runs_for rs i)"

definition prune_runs :: "nat \<Rightarrow> int \<Rightarrow> scheduled_run list \<Rightarrow> scheduled_run list" where
  "prune_runs keep cutoff rs =
     (let young = filter (\<lambda>r. cutoff \<le> fired_at r) rs;
          dropped = concat (map (\<lambda>i. map run_id (drop (max 1 keep) (runs_for young i))) (js_set (map schedule_id young)))
      in filter (\<lambda>r. run_id r \<notin> set dropped) young)"

subsection \<open>Bookkeeping\<close>

definition add_run :: "engine_params \<Rightarrow> (string \<Rightarrow> scheduled_run) \<Rightarrow> engine \<Rightarrow> engine" where
  "add_run p r st = st\<lparr>en_runs := en_runs st @ [r (ep_new_id p (en_serial st))], en_serial := Suc (en_serial st)\<rparr>"

definition persist :: "scheduled_task \<Rightarrow> engine \<Rightarrow> engine" where
  "persist t st = st\<lparr>en_tasks := upsert t (en_tasks st)\<rparr>"

definition claim_slot :: "string option \<Rightarrow> engine \<Rightarrow> engine" where
  "claim_slot ident st =
     st\<lparr>en_dispatching := en_dispatching st + 1,
        en_by_order := (case ident of
            None \<Rightarrow> en_by_order st
          | Some i \<Rightarrow> AList.update i ((case map_of (en_by_order st) i of None \<Rightarrow> 0 | Some n \<Rightarrow> n) + 1) (en_by_order st))\<rparr>"

definition release_slot :: "string option \<Rightarrow> engine \<Rightarrow> engine" where
  "release_slot ident st =
     st\<lparr>en_dispatching := en_dispatching st - 1,
        en_by_order := (case ident of
            None \<Rightarrow> en_by_order st
          | Some i \<Rightarrow>
              let left = (case map_of (en_by_order st) i of None \<Rightarrow> 1 | Some n \<Rightarrow> n) - 1
              in if 0 < left then AList.update i left (en_by_order st) else AList.delete i (en_by_order st))\<rparr>"

definition settle_task :: "scheduled_task \<Rightarrow> int \<Rightarrow> bool \<Rightarrow> int \<Rightarrow> scheduled_task" where
  "settle_task t now ok fired =
     (case next_failure_state (consecutive_failures t) ok of (failures, disable) \<Rightarrow>
        t\<lparr>last_run_at := Some fired, run_count := (if ok then run_count t + 1 else run_count t), consecutive_failures := failures,
          enabled := (if disable then False else enabled t), updated_at := now\<rparr>)"

definition run_row :: "scheduled_task \<Rightarrow> int \<Rightarrow> string \<Rightarrow> run_trigger \<Rightarrow> run_outcome \<Rightarrow> string option \<Rightarrow> string option \<Rightarrow> string option
    \<Rightarrow> string \<Rightarrow> scheduled_run" where
  "run_row t fired key trigger oc conv job err rid =
     \<lparr>run_id = rid, schedule_id = task_id t, fired_at = fired, run_minute_key = key, run_trigger = trigger, run_outcome = oc,
      run_conversation = conv, run_job = job, run_error = err\<rparr>"

definition last_spawned_conversation :: "scheduled_run list \<Rightarrow> string \<Rightarrow> string option" where
  "last_spawned_conversation rs i =
     (case find (\<lambda>r. run_outcome r = Spawned \<and> run_conversation r \<notin> {None, Some []}) (list_runs rs i 20) of
        None \<Rightarrow> None
      | Some r \<Rightarrow> run_conversation r)"

definition live_conversation_for :: "fire_env \<Rightarrow> engine \<Rightarrow> scheduled_task \<Rightarrow> string option" where
  "live_conversation_for env st t =
     (case last_spawned_conversation (en_runs st) (task_id t) of
        None \<Rightarrow> None
      | Some c \<Rightarrow> if is_conversation_alive env c then Some c else None)"

subsection \<open>A fire\<close>

text \<open>Up to the dispatch, or to its end when it is refused.\<close>

definition fire_schedule :: "engine_params \<Rightarrow> fire_env \<Rightarrow> scheduled_task \<Rightarrow> string \<Rightarrow> run_trigger \<Rightarrow> int option \<Rightarrow> bool \<Rightarrow> engine \<Rightarrow> engine" where
  "fire_schedule p env t key trigger fired_at_opt walk st =
     (let fired = (case fired_at_opt of None \<Rightarrow> env_now env | Some f \<Rightarrow> f);
          finish = (\<lambda>oc conv err s. (add_run p (run_row t fired key trigger oc conv None err) s)
            \<lparr>en_settling := en_settling s @ [\<lparr>sl_task = task_id t, sl_walk = walk\<rparr>]\<rparr>)
      in if \<not> owner_may_spawn env (created_by t) then
           finish Run_Error None (Some (''owner '' @ [CHR 0x22] @ created_by t @ [CHR 0x22] @ '' no longer has spawn permission''))
             (persist (t\<lparr>enabled := False, updated_at := env_now env\<rparr>) st)
         else case scanner_opt_out env t of
           Some why \<Rightarrow> finish Skipped_Disabled None (Some why) st
         | None \<Rightarrow>
        (case (if overlap t = Overlap_Skip then live_conversation_for env st t else None) of
           Some live \<Rightarrow> finish Skipped_Overlap (Some live) None st
         | None \<Rightarrow>
             let order = seat_order (order_id t); ident = map_option order_id_name order
             in case decide_seat_admission order (en_dispatching st)
                   (case ident of None \<Rightarrow> 0 | Some i \<Rightarrow> (case map_of (en_by_order st) i of None \<Rightarrow> 0 | Some n \<Rightarrow> n)) (ep_limit p) of
                  Some why \<Rightarrow> finish Skipped_Overlap None (Some why) st
                | None \<Rightarrow>
               (case plan_fire env t fired order of
                  Err why \<Rightarrow> finish Run_Error None (Some why) (persist (settle_task t (env_now env) False fired) st)
                | Ok work \<Rightarrow>
                    (claim_slot ident st)\<lparr>en_flights := en_flights st @
                      [\<lparr>fl_task = t, fl_key = key, fl_trigger = trigger, fl_fired = fired, fl_work = work, fl_order = ident, fl_walk = walk\<rparr>]\<rparr>)))"

text \<open>After the dispatch.\<close>

definition settle_row :: "flight \<Rightarrow> dispatch_outcome \<Rightarrow> string \<Rightarrow> scheduled_run" where
  "settle_row f out =
     (if do_ok out
      then run_row (fl_task f) (fl_fired f) (fl_key f) (fl_trigger f) (work_outcome (fl_work f)) (do_conversation out) (do_job out) None
      else run_row (fl_task f) (fl_fired f) (fl_key f) (fl_trigger f) Run_Error None (do_job out)
             (Some (case do_error out of None \<Rightarrow> ''dispatch failed'' | Some e \<Rightarrow> e)))"

definition settle_flight :: "engine_params \<Rightarrow> fire_env \<Rightarrow> nat \<Rightarrow> dispatch_outcome \<Rightarrow> engine \<Rightarrow> engine" where
  "settle_flight p env i out st =
     (if length (en_flights st) \<le> i then st
      else
        let f = en_flights st ! i; t = fl_task f;
            st1 = (release_slot (fl_order f) st)\<lparr>en_flights := take i (en_flights st) @ drop (Suc i) (en_flights st)\<rparr>;
            st2 = persist (settle_task t (env_now env) (do_ok out) (fl_fired f)) st1
        in (add_run p (settle_row f out) st2)
             \<lparr>en_settling := en_settling st2 @ [\<lparr>sl_task = task_id t, sl_walk = fl_walk f\<rparr>]\<rparr>)"

subsection \<open>The engine\<close>

definition claim_and_fire :: "engine_params \<Rightarrow> fire_env \<Rightarrow> scheduled_task \<Rightarrow> string \<Rightarrow> run_trigger \<Rightarrow> bool \<Rightarrow> int option \<Rightarrow> bool \<Rightarrow> engine \<Rightarrow> engine" where
  "claim_and_fire p env t key trigger stamp fired_at_opt walk st =
     (let claimed = (if stamp then t\<lparr>last_fired_minute_key := Some key, updated_at := env_now env\<rparr> else t);
          st1 = st\<lparr>en_firing := js_set (en_firing st @ [task_id t])\<rparr>;
          st2 = (if stamp then persist claimed st1 else st1)
      in fire_schedule p env claimed key trigger fired_at_opt walk st2)"

definition disarm :: "fire_env \<Rightarrow> scheduled_task \<Rightarrow> engine \<Rightarrow> engine" where
  "disarm env t st = persist (t\<lparr>enabled := False, updated_at := env_now env\<rparr>) st"

definition record_stale_one_shot :: "engine_params \<Rightarrow> scheduled_task \<Rightarrow> int \<Rightarrow> engine \<Rightarrow> engine" where
  "record_stale_one_shot p t now st =
     (let due = (case run_at t of None \<Rightarrow> now | Some a \<Rightarrow> a)
      in add_run p (run_row t due (one_shot_key due) Cron_Trigger Missed None None
           (Some (''one-time run was due '' @ int_str ((now - due + 30000) div 60000) @ '' min ago -- too stale to run late''))) st)"

definition consider_one :: "engine_params \<Rightarrow> fire_env \<Rightarrow> scheduled_task \<Rightarrow> engine \<Rightarrow> engine" where
  "consider_one p env t st =
     (let now = env_now env
      in if task_id t \<in> set (en_firing st) then st
         else case decide_fire (ep_zones p) t now of
           Skip r \<Rightarrow>
             let st1 = (if r = One_Shot_Stale then record_stale_one_shot p t now st else st)
             in if is_terminal_for t r then disarm env t st1 else st1
         | Fire key \<Rightarrow> claim_and_fire p env t key Cron_Trigger True None False st)"

definition tick :: "engine_params \<Rightarrow> fire_env \<Rightarrow> engine \<Rightarrow> engine" where
  "tick p env st = foldl (\<lambda>s t. consider_one p env t s) st (list_enabled (en_tasks st))"

definition run_now :: "engine_params \<Rightarrow> fire_env \<Rightarrow> string \<Rightarrow> engine \<Rightarrow> engine" where
  "run_now p env i st =
     (case get_task (en_tasks st) i of
        None \<Rightarrow> st
      | Some t \<Rightarrow>
          if task_id t \<in> set (en_firing st) then st
          else
            let now = env_now env
            in claim_and_fire p env t (minute_key (wall_clock_parts (ep_zones p) now (task_tz t)) (task_tz t) @ ''#manual'')
                 Manual_Trigger False (Some now) False st)"

text \<open>One schedule of the walk over the outage; its moment is the start of the walk.\<close>

definition walk_on :: "engine_params \<Rightarrow> fire_env \<Rightarrow> engine \<Rightarrow> engine" where
  "walk_on p env st =
     (case wk_rest (en_walk st) of
        [] \<Rightarrow> st
      | t # rest \<Rightarrow>
          if wk_waiting (en_walk st) then st
          else
            let now = wk_now (en_walk st); n = length (en_runs st); st1 = st\<lparr>en_walk := (en_walk st)\<lparr>wk_rest := rest\<rparr>\<rparr>
            in case reconcile_one (ep_zones p) (\<lambda>k. ep_new_id p (en_serial st + (k - n))) now t (en_runs st) of
                 None \<Rightarrow> st1
               | Some (runs, caught_up) \<Rightarrow>
                   let st2 = st1\<lparr>en_runs := runs, en_serial := en_serial st + (length runs - n)\<rparr>
                   in if caught_up
                      then claim_and_fire p env t (minute_key (wall_clock_parts (ep_zones p) now (task_tz t)) (task_tz t)) Catch_Up_Trigger
                             True None True (st2\<lparr>en_walk := (en_walk st2)\<lparr>wk_waiting := True\<rparr>\<rparr>)
                      else st2)"

text \<open>The \<open>finally\<close> of \<open>claimAndFire\<close>.\<close>

definition clear_firing :: "nat \<Rightarrow> engine \<Rightarrow> engine" where
  "clear_firing i st =
     (if length (en_settling st) \<le> i then st
      else
        let s = en_settling st ! i
        in st\<lparr>en_firing := filter (\<lambda>x. x \<noteq> sl_task s) (en_firing st),
              en_settling := take i (en_settling st) @ drop (Suc i) (en_settling st),
              en_walk := (if sl_walk s then (en_walk st)\<lparr>wk_waiting := False\<rparr> else en_walk st)\<rparr>)"

subsection \<open>Events\<close>

datatype engine_event =
    Tick fire_env
  | Run_Now fire_env string
  | Walk_On fire_env
  | Settle fire_env nat dispatch_outcome
  | Clear nat
  | Prune int
  | Save scheduled_task
  | Delete string

abbreviation (input) SCHEDULE_RUN_RETENTION :: nat where "SCHEDULE_RUN_RETENTION \<equiv> 200"

abbreviation (input) SCHEDULE_RUN_RETENTION_MS :: int where "SCHEDULE_RUN_RETENTION_MS \<equiv> 7776000000"

fun engine_step :: "engine_params \<Rightarrow> engine_event \<Rightarrow> engine \<Rightarrow> engine" where
  "engine_step p (Tick env) st = tick p env st"
| "engine_step p (Run_Now env i) st = run_now p env i st"
| "engine_step p (Walk_On env) st = walk_on p env st"
| "engine_step p (Settle env i out) st = settle_flight p env i out st"
| "engine_step p (Clear i) st = clear_firing i st"
| "engine_step p (Prune now) st = st\<lparr>en_runs := prune_runs SCHEDULE_RUN_RETENTION (now - SCHEDULE_RUN_RETENTION_MS) (en_runs st)\<rparr>"
| "engine_step p (Save t) st = persist t st"
| "engine_step p (Delete i) st = delete_task i st"

definition engine_run :: "engine_params \<Rightarrow> engine_event list \<Rightarrow> engine \<Rightarrow> engine" where
  "engine_run p evs st = foldl (\<lambda>s e. engine_step p e s) st evs"

definition engine_start :: "scheduled_task list \<Rightarrow> scheduled_run list \<Rightarrow> nat \<Rightarrow> int \<Rightarrow> engine" where
  "engine_start tasks runs serial now =
     \<lparr>en_tasks = tasks, en_runs = runs, en_serial = serial, en_firing = [], en_dispatching = 0, en_by_order = [], en_flights = [],
      en_settling = [], en_walk = \<lparr>wk_now = now, wk_rest = list_enabled tasks, wk_waiting = False\<rparr>\<rparr>"

subsection \<open>Slots\<close>

definition flights_of :: "string \<Rightarrow> flight list \<Rightarrow> nat" where
  "flights_of i fs = length (filter (\<lambda>f. fl_order f = Some i) fs)"

definition counted :: "(string \<times> int) list \<Rightarrow> string \<Rightarrow> int" where
  "counted m i = (case map_of m i of None \<Rightarrow> 0 | Some n \<Rightarrow> n)"

definition slots_ok :: "nat \<Rightarrow> int \<times> (string \<times> int) list \<times> flight list \<Rightarrow> bool" where
  "slots_ok limit v = (case v of (n, m, fs) \<Rightarrow>
     n = int (length fs) \<and> length fs \<le> limit \<and> (\<forall>i. counted m i = int (flights_of i fs))
     \<and> list_all (\<lambda>(_, od). case order_reservation od of None \<Rightarrow> True | Some r \<Rightarrow> int (flights_of (order_id_name od) fs) \<le> max 0 r) SEAT_ORDERS)"

definition slot_view :: "engine \<Rightarrow> int \<times> (string \<times> int) list \<times> flight list" where
  "slot_view st = (en_dispatching st, en_by_order st, en_flights st)"

lemma slot_view_kept [simp]:
  "slot_view (add_run p r st) = slot_view st" "slot_view (persist t st) = slot_view st" "slot_view (delete_task i st) = slot_view st"
  "slot_view (disarm env t st) = slot_view st" "slot_view (record_stale_one_shot p t now st) = slot_view st"
  "slot_view (st\<lparr>en_settling := x\<rparr>) = slot_view st" "slot_view (st\<lparr>en_firing := fi\<rparr>) = slot_view st"
  "slot_view (st\<lparr>en_walk := w\<rparr>) = slot_view st" "slot_view (st\<lparr>en_runs := rs\<rparr>) = slot_view st"
  "slot_view (st\<lparr>en_runs := rs, en_serial := k\<rparr>) = slot_view st" "slot_view (clear_firing j st) = slot_view st"
  "slot_view (st\<lparr>en_firing := fi, en_settling := x, en_walk := w\<rparr>) = slot_view st"
  by (simp_all add: slot_view_def add_run_def persist_def delete_task_def disarm_def record_stale_one_shot_def clear_firing_def Let_def)

lemma flights_of_append [simp]: "flights_of i (fs @ gs) = flights_of i fs + flights_of i gs"
  by (simp add: flights_of_def)

lemma flights_of_Cons [simp]: "flights_of i (f # fs) = (if fl_order f = Some i then 1 else 0) + flights_of i fs"
  by (simp add: flights_of_def)

lemma flights_of_Nil [simp]: "flights_of i [] = 0"
  by (simp add: flights_of_def)

lemma seat_order_known: "seat_order x = Some od \<Longrightarrow> od = WERK_REFINER_ORDER"
  by (auto simp: seat_order_def SEAT_ORDERS_def split: option.splits if_splits)

lemma slots_claim:
  assumes "slots_ok limit (slot_view st)" "ident = map_option order_id_name (seat_order x)" "fl_order f = ident"
    and "decide_seat_admission (seat_order x) (en_dispatching st) (case ident of None \<Rightarrow> 0 | Some i \<Rightarrow> counted (en_by_order st) i) limit = None"
  shows "slots_ok limit (slot_view ((claim_slot ident st)\<lparr>en_flights := en_flights st @ [f]\<rparr>))"
proof -
  have room: "en_dispatching st < int limit" using assms(4) by (auto simp: decide_seat_admission_def split: if_splits)
  have share: "int (flights_of i (en_flights st)) + 1 \<le> max 0 r"
    if "ident = Some i" "i = order_id_name WERK_REFINER_ORDER" "order_reservation WERK_REFINER_ORDER = Some r" for i r
  proof -
    from that(1) assms(2) obtain od where od: "seat_order x = Some od" by auto
    with seat_order_known have "od = WERK_REFINER_ORDER" by blast
    with od assms(1,4) that show ?thesis
      by (auto simp: decide_seat_admission_def slots_ok_def slot_view_def Let_def split: if_splits)
  qed
  have claimed: "counted (en_by_order (claim_slot ident st)) i = counted (en_by_order st) i + (if ident = Some i then 1 else 0)" for i
    by (auto simp: claim_slot_def counted_def split: option.split)
  have one_more: "en_dispatching (claim_slot ident st) = en_dispatching st + 1" by (simp add: claim_slot_def)
  show ?thesis
  proof (cases "ident = Some (order_id_name WERK_REFINER_ORDER)")
    case True
    with share [OF True refl] assms(1,3) room claimed one_more show ?thesis
      by (simp add: slots_ok_def slot_view_def SEAT_ORDERS_def split: option.splits)
  next
    case False
    with assms(1,3) room claimed one_more show ?thesis
      by (simp add: slots_ok_def slot_view_def SEAT_ORDERS_def split: option.splits)
  qed
qed

lemma slots_release:
  assumes "slots_ok limit (slot_view st)" "en_flights st = fs @ f # gs"
  shows "slots_ok limit (slot_view ((release_slot (fl_order f) st)\<lparr>en_flights := fs @ gs\<rparr>))"
proof -
  have count: "flights_of j (en_flights st) = flights_of j (fs @ gs) + (if fl_order f = Some j then 1 else 0)" for j
    by (simp add: assms(2))
  have "counted (en_by_order (release_slot (fl_order f) st)) j = int (flights_of j (fs @ gs))" for j
  proof (cases "fl_order f = Some j")
    case True
    have "counted (en_by_order st) j = int (flights_of j (fs @ gs)) + 1"
      using assms(1) count [of j] True by (simp add: slots_ok_def slot_view_def)
    then have "map_of (en_by_order st) j = Some (int (flights_of j (fs @ gs)) + 1)" by (auto simp: counted_def split: option.splits)
    with True show ?thesis by (auto simp: release_slot_def counted_def delete_conv' Let_def)
  next
    case False
    then have "counted (en_by_order (release_slot (fl_order f) st)) j = counted (en_by_order st) j"
      by (cases "fl_order f") (auto simp: release_slot_def counted_def delete_conv' Let_def)
    with assms(1) count [of j] False show ?thesis by (simp add: slots_ok_def slot_view_def)
  qed
  moreover have "en_dispatching (release_slot (fl_order f) st) = en_dispatching st - 1" by (simp add: release_slot_def)
  ultimately show ?thesis
    using assms(1) count [of "order_id_name WERK_REFINER_ORDER"]
    by (simp add: assms(2) slots_ok_def slot_view_def SEAT_ORDERS_def split: option.splits if_splits)
qed

text \<open>A fire is refused and over, leaving a row, or in flight, having taken a slot.\<close>

lemma fire_cases:
  obtains (Refused) s row where
    "fire_schedule p env t key trigger fo walk st = (add_run p row s)\<lparr>en_settling := en_settling s @ [\<lparr>sl_task = task_id t, sl_walk = walk\<rparr>]\<rparr>"
    "s = st \<or> (\<exists>u. s = persist u st \<and> task_id u = task_id t)" "\<And>rid. run_id (row rid) = rid \<and> schedule_id (row rid) = task_id t"
  | (Launched) f fired work where
    "fire_schedule p env t key trigger fo walk st = (claim_slot (fl_order f) st)\<lparr>en_flights := en_flights st @ [f]\<rparr>"
    "f = \<lparr>fl_task = t, fl_key = key, fl_trigger = trigger, fl_fired = fired, fl_work = work,
       fl_order = map_option order_id_name (seat_order (order_id t)), fl_walk = walk\<rparr>"
    "plan_fire env t fired (seat_order (order_id t)) = Ok work" "owner_may_spawn env (created_by t)"
    "decide_seat_admission (seat_order (order_id t)) (en_dispatching st)
       (case fl_order f of None \<Rightarrow> 0 | Some i \<Rightarrow> counted (en_by_order st) i) (ep_limit p) = None"
proof -
  let ?fired = "case fo of None \<Rightarrow> env_now env | Some f \<Rightarrow> f" and ?order = "seat_order (order_id t)"
  let ?ident = "map_option order_id_name ?order"
  let ?census = "case ?ident of None \<Rightarrow> 0 | Some i \<Rightarrow> counted (en_by_order st) i"
  note unfold = fire_schedule_def Let_def counted_def [symmetric]
  show thesis
  proof (cases "owner_may_spawn env (created_by t)")
    case False
    then show thesis
      by (intro Refused [where s = "persist (t\<lparr>enabled := False, updated_at := env_now env\<rparr>) st" and row = "run_row t ?fired key trigger Run_Error None None
          (Some (''owner '' @ [CHR 0x22] @ created_by t @ [CHR 0x22] @ '' no longer has spawn permission''))"])
        (simp only: unfold if_True, auto simp: run_row_def)
  next
    case owner: True
    show thesis
    proof (cases "scanner_opt_out env t")
      case (Some why)
      show thesis
        by (intro Refused [where s = st and row = "run_row t ?fired key trigger Skipped_Disabled None None (Some why)"])
          (simp only: unfold owner Some not_True_eq_False if_False option.case, auto simp: run_row_def)
    next
      case opted: None
      show thesis
      proof (cases "if overlap t = Overlap_Skip then live_conversation_for env st t else None")
        case (Some c)
        show thesis
          by (intro Refused [where s = st and row = "run_row t ?fired key trigger Skipped_Overlap (Some c) None None"])
            (simp only: unfold owner opted Some not_True_eq_False if_False option.case, auto simp: run_row_def)
      next
        case live: None
        show thesis
        proof (cases "decide_seat_admission ?order (en_dispatching st) ?census (ep_limit p)")
          case (Some why)
          show thesis
            by (intro Refused [where s = st and row = "run_row t ?fired key trigger Skipped_Overlap None None (Some why)"])
              (simp only: unfold owner opted live Some not_True_eq_False if_False option.case, auto simp: run_row_def)
        next
          case room: None
          show thesis
          proof (cases "plan_fire env t ?fired ?order")
            case (Err why)
            show thesis
              by (intro Refused [where s = "persist (settle_task t (env_now env) False ?fired) st" and row = "run_row t ?fired key trigger Run_Error None None (Some why)"])
                (simp only: unfold owner opted live room Err not_True_eq_False if_False option.case result.case, auto simp: run_row_def settle_task_def split: prod.split)
          next
            case (Ok work)
            have "fire_schedule p env t key trigger fo walk st = (claim_slot ?ident st)\<lparr>en_flights := en_flights st @
              [\<lparr>fl_task = t, fl_key = key, fl_trigger = trigger, fl_fired = ?fired, fl_work = work, fl_order = ?ident, fl_walk = walk\<rparr>]\<rparr>"
              by (simp only: unfold owner opted live room Ok not_True_eq_False if_False option.case result.case)
            moreover have "decide_seat_admission ?order (en_dispatching st)
                (case fl_order \<lparr>fl_task = t, fl_key = key, fl_trigger = trigger, fl_fired = ?fired, fl_work = work, fl_order = ?ident, fl_walk = walk\<rparr> of
                   None \<Rightarrow> 0 | Some i \<Rightarrow> counted (en_by_order st) i) (ep_limit p) = None"
              using room by (simp only: flight.simps)
            ultimately show thesis by (intro Launched [OF _ refl Ok owner]) (simp_all only: flight.simps)
          qed
        qed
      qed
    qed
  qed
qed

lemma slots_fire:
  assumes "slots_ok (ep_limit p) (slot_view st)"
  shows "slots_ok (ep_limit p) (slot_view (fire_schedule p env t key trigger fo walk st))"
proof (cases rule: fire_cases [of p env t key trigger fo walk st])
  case (Refused s row)
  with assms show ?thesis by auto
next
  case (Launched f fired work)
  from slots_claim [OF assms _ _ Launched(5)] Launched(2) show ?thesis unfolding Launched(1) by simp
qed

lemma slots_claim_and_fire:
  "slots_ok (ep_limit p) (slot_view st) \<Longrightarrow> slots_ok (ep_limit p) (slot_view (claim_and_fire p env t key trigger stamp fo walk st))"
  by (simp add: claim_and_fire_def Let_def slots_fire)

lemma slots_consider: "slots_ok (ep_limit p) (slot_view st) \<Longrightarrow> slots_ok (ep_limit p) (slot_view (consider_one p env t st))"
  by (simp add: consider_one_def Let_def slots_claim_and_fire split: fire_decision.split)

lemma slots_tick: "slots_ok (ep_limit p) (slot_view st) \<Longrightarrow> slots_ok (ep_limit p) (slot_view (foldl (\<lambda>s t. consider_one p env t s) st ts))"
  by (induction ts arbitrary: st) (simp_all add: slots_consider)

lemma settle_flight_eq:
  assumes "en_flights st = fs @ f # gs" "length fs = i"
  shows "settle_flight p env i out st =
      (add_run p (settle_row f out) (persist (settle_task (fl_task f) (env_now env) (do_ok out) (fl_fired f))
        ((release_slot (fl_order f) st)\<lparr>en_flights := fs @ gs\<rparr>)))
        \<lparr>en_settling := en_settling st @ [\<lparr>sl_task = task_id (fl_task f), sl_walk = fl_walk f\<rparr>]\<rparr>"
  by (simp add: settle_flight_def assms(1) Let_def persist_def release_slot_def assms(2) [symmetric])

lemma slots_settle:
  assumes "slots_ok (ep_limit p) (slot_view st)"
  shows "slots_ok (ep_limit p) (slot_view (settle_flight p env i out st))"
proof (cases "i < length (en_flights st)")
  case True
  obtain fs f gs where fs: "en_flights st = fs @ f # gs" "length fs = i"
    using id_take_nth_drop [OF True] True by (metis length_take less_imp_le_nat min.absorb2)
  from slots_release [OF assms fs(1)] show ?thesis by (simp add: settle_flight_eq [OF fs])
qed (use assms in \<open>simp add: settle_flight_def\<close>)

lemma slots_step: "slots_ok (ep_limit p) (slot_view st) \<Longrightarrow> slots_ok (ep_limit p) (slot_view (engine_step p e st))"
proof (cases e)
  case (Walk_On env)
  assume ok: "slots_ok (ep_limit p) (slot_view st)"
  have "slots_ok (ep_limit p) (slot_view (walk_on p env st))"
    using ok by (auto simp: walk_on_def Let_def slots_claim_and_fire split: list.split option.split)
  with Walk_On show ?thesis by simp
qed (auto simp: tick_def slots_tick run_now_def Let_def slots_claim_and_fire slots_settle split: option.split)

lemma slots_run: "slots_ok (ep_limit p) (slot_view st) \<Longrightarrow> slots_ok (ep_limit p) (slot_view (engine_run p evs st))"
  unfolding engine_run_def by (induction evs arbitrary: st) (simp_all add: slots_step)

lemma slots_start: "slots_ok limit (slot_view (engine_start tasks runs serial now))"
  by (auto simp: slots_ok_def slot_view_def engine_start_def counted_def SEAT_ORDERS_def split: option.split)

text \<open>
  C7: however ticks, buttons, edits, catch-ups and dispatches interleave, the slots in use are the
  dispatches in flight, never more than the ceiling, and no seat order ever holds more of them than it
  reserves, so a deep backlog of one role leaves the rest to everybody else.
\<close>

theorem no_role_eats_the_scheduler:
  "let st = engine_run p evs (engine_start tasks runs serial now)
   in en_dispatching st = int (length (en_flights st)) \<and> length (en_flights st) \<le> ep_limit p
     \<and> list_all (\<lambda>(_, od). case order_reservation od of None \<Rightarrow> True
         | Some r \<Rightarrow> int (flights_of (order_id_name od) (en_flights st)) \<le> max 0 r) SEAT_ORDERS"
  using slots_run [OF slots_start, of p evs tasks runs serial now] by (simp add: Let_def slots_ok_def slot_view_def)

subsection \<open>One fire of a schedule at a time\<close>

definition held :: "engine \<Rightarrow> string list" where
  "held st = map (\<lambda>f. task_id (fl_task f)) (en_flights st) @ map sl_task (en_settling st)"

definition exclusive :: "engine \<Rightarrow> bool" where
  "exclusive st \<longleftrightarrow> distinct (held st) \<and> set (held st) \<subseteq> set (en_firing st)
     \<and> list_all (\<lambda>t. catch_up t = Catch_Up_Skip) (wk_rest (en_walk st))"

lemma held_kept [simp]:
  "held (add_run p r st) = held st" "held (persist t st) = held st" "held (delete_task i st) = held st" "held (disarm env t st) = held st"
  "held (record_stale_one_shot p t now st) = held st" "held (st\<lparr>en_firing := fi\<rparr>) = held st" "held (st\<lparr>en_walk := w\<rparr>) = held st"
  "held (st\<lparr>en_runs := rs\<rparr>) = held st" "held (st\<lparr>en_runs := rs, en_serial := k\<rparr>) = held st"
  by (simp_all add: held_def add_run_def persist_def delete_task_def disarm_def record_stale_one_shot_def Let_def)

lemma exclusive_kept [simp]:
  "exclusive (add_run p r st) = exclusive st" "exclusive (persist t st) = exclusive st" "exclusive (delete_task i st) = exclusive st"
  "exclusive (disarm env t st) = exclusive st" "exclusive (record_stale_one_shot p t now st) = exclusive st"
  "exclusive (st\<lparr>en_runs := rs\<rparr>) = exclusive st"
  by (simp_all add: exclusive_def held_def add_run_def persist_def delete_task_def disarm_def record_stale_one_shot_def Let_def)

lemma held_fire: "mset (held (fire_schedule p env t key trigger fo walk st)) = add_mset (task_id t) (mset (held st))"
  and firing_fire: "en_firing (fire_schedule p env t key trigger fo walk st) = en_firing st"
  and walk_fire: "en_walk (fire_schedule p env t key trigger fo walk st) = en_walk st"
proof (atomize (full), cases rule: fire_cases [of p env t key trigger fo walk st])
  case (Refused s row)
  have s: "en_flights s = en_flights st" "en_settling s = en_settling st" "en_firing s = en_firing st" "en_walk s = en_walk st"
    using Refused(2) by (auto simp: persist_def)
  show "mset (held (fire_schedule p env t key trigger fo walk st)) = add_mset (task_id t) (mset (held st))
    \<and> en_firing (fire_schedule p env t key trigger fo walk st) = en_firing st \<and> en_walk (fire_schedule p env t key trigger fo walk st) = en_walk st"
    unfolding Refused(1) by (simp add: held_def add_run_def s)
next
  case (Launched f fired work)
  have "task_id (fl_task f) = task_id t" by (simp add: Launched(2))
  then show "mset (held (fire_schedule p env t key trigger fo walk st)) = add_mset (task_id t) (mset (held st))
    \<and> en_firing (fire_schedule p env t key trigger fo walk st) = en_firing st \<and> en_walk (fire_schedule p env t key trigger fo walk st) = en_walk st"
    unfolding Launched(1) by (simp add: held_def claim_slot_def)
qed

lemma exclusive_claim:
  assumes "exclusive st" "task_id t \<notin> set (en_firing st)"
  shows "exclusive (claim_and_fire p env t key trigger stamp fo walk st)"
proof -
  define u where "u = (if stamp then t\<lparr>last_fired_minute_key := Some key, updated_at := env_now env\<rparr> else t)"
  define s where "s = (let s1 = st\<lparr>en_firing := js_set (en_firing st @ [task_id t])\<rparr> in if stamp then persist u s1 else s1)"
  have c: "claim_and_fire p env t key trigger stamp fo walk st = fire_schedule p env u key trigger fo walk s"
    by (simp add: claim_and_fire_def u_def s_def Let_def)
  have s: "held s = held st" "set (en_firing s) = insert (task_id t) (set (en_firing st))" "en_walk s = en_walk st" "task_id u = task_id t"
    by (auto simp: s_def u_def Let_def persist_def held_def)
  note m = held_fire [of p env u key trigger fo walk s, unfolded s(1,4)]
  have "set (held (fire_schedule p env u key trigger fo walk s)) = insert (task_id t) (set (held st))"
    using arg_cong [OF m, of set_mset] by simp
  moreover have "distinct (held (fire_schedule p env u key trigger fo walk s))"
  proof -
    have "task_id t \<notin> set (held st)" "distinct (held st)" using assms by (auto simp: exclusive_def)
    then have "distinct (task_id t # held st)" by simp
    with m show ?thesis by (metis mset.simps(2) mset_eq_imp_distinct_iff)
  qed
  ultimately show ?thesis
    using assms(1) unfolding c by (auto simp: exclusive_def firing_fire walk_fire s(2,3))
qed

lemma exclusive_consider: "exclusive st \<Longrightarrow> exclusive (consider_one p env t st)"
proof (cases "task_id t \<in> set (en_firing st)")
  case False
  assume "exclusive st"
  with False show ?thesis by (auto simp: consider_one_def Let_def intro: exclusive_claim split: fire_decision.split)
qed (simp add: consider_one_def)

lemma exclusive_tick: "exclusive st \<Longrightarrow> exclusive (foldl (\<lambda>s t. consider_one p env t s) st ts)"
  by (induction ts arbitrary: st) (simp_all add: exclusive_consider)

lemma exclusive_settle: "exclusive st \<Longrightarrow> exclusive (settle_flight p env i out st)"
proof (cases "i < length (en_flights st)")
  case True
  assume ex: "exclusive st"
  obtain fs f gs where fs: "en_flights st = fs @ f # gs" "length fs = i"
    using id_take_nth_drop [OF True] True by (metis length_take less_imp_le_nat min.absorb2)
  let ?s = "settle_flight p env i out st"
  have k: "mset (held ?s) = mset (held st)" "en_firing ?s = en_firing st" "en_walk ?s = en_walk st"
    unfolding settle_flight_eq [OF fs] by (simp_all add: held_def fs(1) add_run_def persist_def release_slot_def)
  have "set (held ?s) = set (held st)" "distinct (held ?s) = distinct (held st)"
    using arg_cong [OF k(1), of set_mset] mset_eq_imp_distinct_iff [OF k(1)] by simp_all
  with ex k(2,3) show ?thesis by (simp add: exclusive_def)
qed (simp add: settle_flight_def)

lemma exclusive_clear: "exclusive st \<Longrightarrow> exclusive (clear_firing i st)"
proof (cases "i < length (en_settling st)")
  case True
  assume ex: "exclusive st"
  obtain xs x ys where xs: "en_settling st = xs @ x # ys" "length xs = i"
    using id_take_nth_drop [OF True] True by (metis length_take less_imp_le_nat min.absorb2)
  have h: "held st = map (\<lambda>f. task_id (fl_task f)) (en_flights st) @ map sl_task xs @ sl_task x # map sl_task ys"
    "held (clear_firing i st) = map (\<lambda>f. task_id (fl_task f)) (en_flights st) @ map sl_task xs @ map sl_task ys"
    by (simp_all add: held_def clear_firing_def xs(1) Let_def xs(2) [symmetric])
  have "en_firing (clear_firing i st) = filter (\<lambda>y. y \<noteq> sl_task x) (en_firing st)" "wk_rest (en_walk (clear_firing i st)) = wk_rest (en_walk st)"
    by (simp_all add: clear_firing_def xs(1) Let_def xs(2) [symmetric])
  moreover have "distinct (us @ vs @ ws) \<and> set (us @ vs @ ws) \<subseteq> set (filter (\<lambda>y. y \<noteq> a) zs)"
    if "distinct (us @ vs @ a # ws)" "set (us @ vs @ a # ws) \<subseteq> set zs" for us vs ws zs and a :: string
    using that by auto
  ultimately show ?thesis using ex unfolding exclusive_def h by metis
qed (simp add: clear_firing_def)

lemma exclusive_walk: "exclusive st \<Longrightarrow> exclusive (walk_on p env st)"
proof (cases "wk_rest (en_walk st)")
  case (Cons t rest)
  assume ex: "exclusive st"
  with Cons have skip: "catch_up t = Catch_Up_Skip" by (simp add: exclusive_def)
  have drop: "exclusive (st\<lparr>en_walk := (en_walk st)\<lparr>wk_rest := rest\<rparr>\<rparr>)" "exclusive (st\<lparr>en_walk := (en_walk st)\<lparr>wk_rest := rest\<rparr>, en_runs := rs, en_serial := k\<rparr>)" for rs k
    using ex Cons by (simp_all add: exclusive_def held_def)
  show ?thesis
  proof (cases "reconcile_one (ep_zones p) (\<lambda>k. ep_new_id p (en_serial st + (k - length (en_runs st)))) (wk_now (en_walk st)) t (en_runs st)")
    case None
    with ex drop show ?thesis by (simp add: walk_on_def Cons Let_def)
  next
    case (Some x)
    then have "\<not> snd x" using skip by (auto simp: reconcile_one_def should_catch_up_def)
    with ex drop Some show ?thesis by (cases x) (simp add: walk_on_def Cons Let_def)
  qed
qed (simp add: walk_on_def)

lemma exclusive_step: "exclusive st \<Longrightarrow> exclusive (engine_step p e st)"
proof (cases e)
  case (Run_Now env i)
  assume "exclusive st"
  with Run_Now show ?thesis by (auto simp: run_now_def Let_def intro: exclusive_claim split: option.split)
qed (simp_all add: tick_def exclusive_tick exclusive_settle exclusive_clear exclusive_walk)

lemma exclusive_run: "exclusive st \<Longrightarrow> exclusive (engine_run p evs st)"
  unfolding engine_run_def by (induction evs arbitrary: st) (simp_all add: exclusive_step)

text \<open>
  C16: a schedule never has two dispatches at once, and a fire that is over is cleared before the next,
  through every interleaving of slow dispatches, ticks, the button and edits, as long as the start of
  the engine has nothing to catch up.
\<close>

theorem one_dispatch_of_a_schedule:
  assumes "list_all (\<lambda>t. catch_up t = Catch_Up_Skip) (list_enabled tasks)"
  shows "distinct (map (\<lambda>f. task_id (fl_task f)) (en_flights (engine_run p evs (engine_start tasks runs serial now))))"
proof -
  have "exclusive (engine_start tasks runs serial now)" using assms by (simp add: exclusive_def held_def engine_start_def)
  from exclusive_run [OF this, of p evs] show ?thesis by (simp add: exclusive_def held_def)
qed

end
