(* ===== verification/ScheduleRaces.thy ===== *)
theory ScheduleRaces
  imports ScheduleEngine
begin

section \<open>Histories and races of the schedule engine\<close>

text \<open>
  What every fire leaves behind, when a failing schedule is disarmed, and two interleavings of
  \<open>src/broker/scheduled-tasks/engine.ts\<close> in which what is stored or run is not what was meant.
\<close>

subsection \<open>Every fire leaves a trace\<close>

lemma rows_claim:
  "length (en_runs (claim_and_fire p env t key trigger stamp fo walk st)) + length (en_flights (claim_and_fire p env t key trigger stamp fo walk st))
     = Suc (length (en_runs st) + length (en_flights st))"
proof -
  define u where "u = (if stamp then t\<lparr>last_fired_minute_key := Some key, updated_at := env_now env\<rparr> else t)"
  define s where "s = (let s1 = st\<lparr>en_firing := js_set (en_firing st @ [task_id t])\<rparr> in if stamp then persist u s1 else s1)"
  have c: "claim_and_fire p env t key trigger stamp fo walk st = fire_schedule p env u key trigger fo walk s"
    by (simp add: claim_and_fire_def u_def s_def Let_def)
  have s: "en_runs s = en_runs st" "en_flights s = en_flights st" by (simp_all add: s_def Let_def persist_def)
  show ?thesis
  proof (cases rule: fire_cases [of p env u key trigger fo walk s])
    case (Refused s' row)
    then have "en_runs s' = en_runs s" "en_flights s' = en_flights s" by (auto simp: persist_def)
    with s show ?thesis unfolding c Refused(1) by (simp add: add_run_def)
  next
    case (Launched f fired work)
    show ?thesis unfolding c Launched(1) using s by (simp add: claim_slot_def)
  qed
qed

lemma rows_settle:
  "length (en_runs (settle_flight p env i out st)) + length (en_flights (settle_flight p env i out st))
     = length (en_runs st) + length (en_flights st)"
proof (cases "i < length (en_flights st)")
  case True
  obtain fs f gs where fs: "en_flights st = fs @ f # gs" "length fs = i"
    using id_take_nth_drop [OF True] True by (metis length_take less_imp_le_nat min.absorb2)
  show ?thesis unfolding settle_flight_eq [OF fs] by (simp add: add_run_def persist_def release_slot_def fs(1))
qed (simp add: settle_flight_def)


subsection \<open>Backing off\<close>

text \<open>
  A schedule is disarmed by its fifth failure in a row, not before it, and one that is launched in
  between starts counting again.
\<close>

theorem fifth_failure_disarms:
  "(enabled (((\<lambda>u. settle_task u now False fired) ^^ n) (t\<lparr>enabled := True, consecutive_failures := 0\<rparr>)) \<longleftrightarrow> n < 5)
   \<and> consecutive_failures (settle_task t now True fired) = 0 \<and> enabled (settle_task t now True fired) = enabled t"
proof -
  let ?u = "\<lambda>n. ((\<lambda>u. settle_task u now False fired) ^^ n) (t\<lparr>enabled := True, consecutive_failures := 0\<rparr>)"
  have "consecutive_failures (?u n) = int n \<and> (enabled (?u n) \<longleftrightarrow> n < 5)" for n
    by (induction n) (auto simp: settle_task_def next_failure_state_def MAX_CONSECUTIVE_FAILURES_def)
  then show ?thesis by (simp add: settle_task_def next_failure_state_def)
qed

subsection \<open>Edits during a dispatch\<close>

lemma get_upsert [simp]: "get_task (upsert t ts) (task_id t) = Some t"
  by (induction ts) (auto simp: get_task_def)

text \<open>
  C37: an edit made while a dispatch is in flight is undone when it settles: the schedule is stored as it
  was claimed, with the fire's bookkeeping, so one switched off meanwhile is on again, and one deleted
  meanwhile is back.
\<close>

theorem settling_undoes_an_edit:
  "case en_flights st of
     [] \<Rightarrow> True
   | f # _ \<Rightarrow>
       let t = fl_task f; settled = Some (settle_task t (env_now env) (do_ok out) (fl_fired f))
       in get_task (en_tasks (engine_run p [Save (t\<lparr>enabled := False\<rparr>), Settle env 0 out] st)) (task_id t) = settled
         \<and> get_task (en_tasks (engine_run p [Delete (task_id t), Settle env 0 out] st)) (task_id t) = settled
         \<and> (if do_ok out then map_option enabled settled = Some (enabled t) else True)"
proof (cases "en_flights st")
  case (Cons f fs)
  have id: "task_id (settle_task (fl_task f) n ok k) = task_id (fl_task f)" for n ok k
    by (simp add: settle_task_def split: prod.split)
  have "get_task (en_tasks (settle_flight p env 0 out s)) (task_id (fl_task f)) = Some (settle_task (fl_task f) (env_now env) (do_ok out) (fl_fired f))"
    if "en_flights s = f # fs" for s
    using settle_flight_eq [of s "[]" f fs 0 p env out] that get_upsert [of "settle_task (fl_task f) (env_now env) (do_ok out) (fl_fired f)"]
    by (simp add: add_run_def persist_def release_slot_def id)
  then show ?thesis
    using Cons by (simp add: engine_run_def Let_def persist_def delete_task_def) (simp add: settle_task_def next_failure_state_def)
qed simp

subsection \<open>A calm day\<close>

definition calm :: "int \<Rightarrow> fire_env" where
  "calm now =
     \<lparr>env_now = now, owner_may_spawn = (\<lambda>_. True), is_conversation_alive = (\<lambda>_. False), get_launch_profile = (\<lambda>_ _. None),
      board_sweep_wired = True, epic_start_wired = True, morning_report_enabled = (\<lambda>_. True), epics_scanner_refusal = (\<lambda>_. None)\<rparr>"

definition sweep :: "string \<Rightarrow> scheduled_task" where
  "sweep i = nightly\<lparr>task_id := i, task_action := Some Board_Sweep\<rparr>"

definition once :: "int \<Rightarrow> scheduled_task" where
  "once due = nightly\<lparr>task_id := ''sch_once'', cron := None, run_at := Some due\<rparr>"

definition utc_engine :: engine_params where
  "utc_engine = \<lparr>ep_zones = fixed_zone 0, ep_new_id = (\<lambda>n. ''schrun_'' @ nat_str n), ep_limit = 3\<rparr>"

theorem one_dispatch_of_a_schedule_witness:
  "distinct (map (\<lambda>f. task_id (fl_task f)) (en_flights (engine_run utc_engine [Run_Now (calm 0) ''sch_1'', Run_Now (calm 1) ''sch_1'']
     (engine_start [nightly\<lparr>catch_up := Catch_Up_Skip\<rparr>] [] 0 0))))"
  by (rule one_dispatch_of_a_schedule) (simp add: list_enabled_def nightly_def)

lemma calm_live [simp]: "live_conversation_for (calm now) st t = None"
  by (simp add: live_conversation_for_def calm_def split: option.split)

lemma calm_in_a_slot:
  assumes "task_action t = Some Board_Sweep" "order_id t = None" "en_dispatching st < 3"
  shows "fire_schedule utc_engine (calm now) t key trigger (Some fired) walk st
    = (claim_slot None st)\<lparr>en_flights := en_flights st @
        [\<lparr>fl_task = t, fl_key = key, fl_trigger = trigger, fl_fired = fired, fl_work = Run_Board_Sweep, fl_order = None, fl_walk = walk\<rparr>]\<rparr>"
proof -
  have "plan_fire (calm now) t fired None = Ok Run_Board_Sweep" "owner_may_spawn (calm now) (created_by t)" "scanner_opt_out (calm now) t = None"
    using assms(1) by (simp_all add: plan_fire_def plan_non_spawn_def schedule_action_def scanner_opt_out_def calm_def)
  moreover have "seat_order (order_id t) = None" using assms(2) by (simp add: seat_order_def)
  moreover have "decide_seat_admission None (en_dispatching st) 0 (ep_limit utc_engine) = None"
    using assms(3) by (simp add: decide_seat_admission_def utc_engine_def)
  ultimately show ?thesis by (simp add: fire_schedule_def)
qed

lemma calm_no_slot:
  assumes "schedule_action t = Spawn" "order_id t = None" "3 \<le> en_dispatching st"
  shows "fire_schedule utc_engine (calm now) t key trigger None walk st
    = (add_run utc_engine (run_row t now key trigger Skipped_Overlap None None (Some (ceiling_reason 3))) st)
        \<lparr>en_settling := en_settling st @ [\<lparr>sl_task = task_id t, sl_walk = walk\<rparr>]\<rparr>"
proof -
  have "owner_may_spawn (calm now) (created_by t)" "scanner_opt_out (calm now) t = None" "env_now (calm now) = now"
    using assms(1) by (simp_all add: scanner_opt_out_def calm_def)
  moreover have "seat_order (order_id t) = None" using assms(2) by (simp add: seat_order_def)
  moreover have "decide_seat_admission None (en_dispatching st) 0 (ep_limit utc_engine) = Some (ceiling_reason 3)"
    using assms(3) by (simp add: decide_seat_admission_def utc_engine_def)
  ultimately show ?thesis by (simp add: fire_schedule_def)
qed

lemma calm_button:
  assumes "get_task (en_tasks st) i = Some (sweep i)" "i \<notin> set (en_firing st)" "distinct (en_firing st)" "en_dispatching st < 3"
  shows "\<exists>f. task_id (fl_task f) = i \<and> engine_step utc_engine (Run_Now (calm now) i) st
    = st\<lparr>en_firing := en_firing st @ [i], en_dispatching := en_dispatching st + 1, en_flights := en_flights st @ [f]\<rparr>"
proof -
  have j: "js_set (en_firing st @ [i]) = en_firing st @ [i]" using assms(2,3) by (intro js_set_distinct) simp
  have f: "task_action (sweep i) = Some Board_Sweep" "order_id (sweep i) = None" "task_id (sweep i) = i" by (simp_all add: sweep_def nightly_def)
  show ?thesis
    using assms by (simp add: run_now_def claim_and_fire_def calm_in_a_slot f j claim_slot_def Let_def) (rule exI, rule conjI [rotated], rule refl, simp add: f)
qed

lemma three_buttons:
  assumes "st = engine_start [sweep ''a'', sweep ''b'', sweep ''c'', t] [] 0 now"
  shows "\<exists>fs. map (\<lambda>f. task_id (fl_task f)) fs = [''a'', ''b'', ''c'']
    \<and> engine_run utc_engine [Run_Now (calm now) ''a'', Run_Now (calm now) ''b'', Run_Now (calm now) ''c''] st
      = st\<lparr>en_firing := [''a'', ''b'', ''c''], en_dispatching := 3, en_flights := fs\<rparr>"
proof -
  have ids: "task_id (sweep i) = i" for i by (simp add: sweep_def)
  note found = assms engine_start_def get_task_def ids
  from calm_button [of st "''a''" now] obtain f where f: "task_id (fl_task f) = ''a''"
    "engine_step utc_engine (Run_Now (calm now) ''a'') st = st\<lparr>en_firing := [''a''], en_dispatching := 1, en_flights := [f]\<rparr>"
    by (auto simp: found)
  from calm_button [of "st\<lparr>en_firing := [''a''], en_dispatching := 1, en_flights := [f]\<rparr>" "''b''" now] obtain g where g: "task_id (fl_task g) = ''b''"
    "engine_step utc_engine (Run_Now (calm now) ''b'') (st\<lparr>en_firing := [''a''], en_dispatching := 1, en_flights := [f]\<rparr>)
      = st\<lparr>en_firing := [''a'', ''b''], en_dispatching := 2, en_flights := [f, g]\<rparr>"
    by (auto simp: found)
  from calm_button [of "st\<lparr>en_firing := [''a'', ''b''], en_dispatching := 2, en_flights := [f, g]\<rparr>" "''c''" now] obtain h where h: "task_id (fl_task h) = ''c''"
    "engine_step utc_engine (Run_Now (calm now) ''c'') (st\<lparr>en_firing := [''a'', ''b''], en_dispatching := 2, en_flights := [f, g]\<rparr>)
      = st\<lparr>en_firing := [''a'', ''b'', ''c''], en_dispatching := 3, en_flights := [f, g, h]\<rparr>"
    by (auto simp: found)
  have "engine_run utc_engine [Run_Now (calm now) ''a'', Run_Now (calm now) ''b'', Run_Now (calm now) ''c''] st
      = st\<lparr>en_firing := [''a'', ''b'', ''c''], en_dispatching := 3, en_flights := [f, g, h]\<rparr>"
    by (simp only: engine_run_def foldl_Cons foldl_Nil f(2) g(2) h(2))
  moreover have "map (\<lambda>f. task_id (fl_task f)) [f, g, h] = [''a'', ''b'', ''c'']" by (simp add: f(1) g(1) h(1))
  ultimately show ?thesis by (intro exI [of _ "[f, g, h]"] conjI)
qed

lemma tick_of_four:
  assumes "en_tasks st = [sweep ''a'', sweep ''b'', sweep ''c'', t]" "enabled t" "created_at t = 0" "en_firing st = [''a'', ''b'', ''c''] @ ys"
  shows "tick p env st = consider_one p env t st"
proof -
  have "list_enabled (en_tasks st) = [sweep ''a'', sweep ''b'', sweep ''c'', t]"
    using assms(1-3) by (simp add: list_enabled_def sweep_def nightly_def)
  moreover have "consider_one p env (sweep i) st = st" if "i \<in> {''a'', ''b'', ''c''}" for i
    using that assms(4) by (auto simp: consider_one_def sweep_def Let_def)
  ultimately show ?thesis by (simp add: tick_def)
qed

text \<open>
  A one-shot that comes due while the slots are taken is spent without running: it is marked as fired
  before it is refused, so the next tick calls it already fired and disarms it for good.
\<close>

theorem refused_one_shot_is_spent:
  "let st = engine_run utc_engine
       [Run_Now (calm due) ''a'', Run_Now (calm due) ''b'', Run_Now (calm due) ''c'', Tick (calm due), Clear 0, Tick (calm (due + 60000))]
       (engine_start [sweep ''a'', sweep ''b'', sweep ''c'', once due] [] 0 due)
   in map (\<lambda>t. (task_id t, enabled t)) (en_tasks st) = [(''a'', True), (''b'', True), (''c'', True), (''sch_once'', False)]
     \<and> map (\<lambda>r. (schedule_id r, run_outcome r)) (en_runs st) = [(''sch_once'', Skipped_Overlap)]
     \<and> map (\<lambda>f. task_id (fl_task f)) (en_flights st) = [''a'', ''b'', ''c'']"
proof -
  define s0 where "s0 = engine_start [sweep ''a'', sweep ''b'', sweep ''c'', once due] [] 0 due"
  obtain fs where fs: "map (\<lambda>f. task_id (fl_task f)) fs = [''a'', ''b'', ''c'']"
    "engine_run utc_engine [Run_Now (calm due) ''a'', Run_Now (calm due) ''b'', Run_Now (calm due) ''c''] s0
      = s0\<lparr>en_firing := [''a'', ''b'', ''c''], en_dispatching := 3, en_flights := fs\<rparr>"
    using three_buttons [OF s0_def] by (elim exE conjE) (rule that)
  define s1 where "s1 = s0\<lparr>en_firing := [''a'', ''b'', ''c''], en_dispatching := 3, en_flights := fs\<rparr>"
  define spent where "spent = (once due)\<lparr>last_fired_minute_key := Some (one_shot_key due), updated_at := due\<rparr>"
  define row where "row = run_row spent due (one_shot_key due) Cron_Trigger Skipped_Overlap None None (Some (ceiling_reason 3)) (ep_new_id utc_engine 0)"
  define s2 where "s2 = s1\<lparr>en_tasks := [sweep ''a'', sweep ''b'', sweep ''c'', spent], en_runs := [row], en_serial := 1,
      en_firing := [''a'', ''b'', ''c'', ''sch_once''], en_settling := [\<lparr>sl_task = ''sch_once'', sl_walk = False\<rparr>]\<rparr>"
  have now: "env_now (calm x) = x" for x by (simp add: calm_def)
  have ids: "task_id (sweep i) = i" for i by (simp add: sweep_def)
  have once: "task_id (once due) = ''sch_once''" "enabled (once due)" "created_at (once due) = 0" by (simp_all add: once_def nightly_def)
  have fire: "decide_fire (ep_zones utc_engine) (once due) due = Fire (one_shot_key due)"
    by (simp add: decide_fire_def decide_one_shot_def once_def nightly_def Let_def)
  have upd: "js_set [''a'', ''b'', ''c'', ''sch_once''] = [''a'', ''b'', ''c'', ''sch_once'']" by (rule js_set_distinct) simp
  have "tick utc_engine (calm due) s1 = consider_one utc_engine (calm due) (once due) s1"
    by (rule tick_of_four [where ys = "[]"]) (simp_all add: s1_def s0_def engine_start_def once)
  also have "\<dots> = claim_and_fire utc_engine (calm due) (once due) (one_shot_key due) Cron_Trigger True None False s1"
    by (simp add: consider_one_def now fire once s1_def)
  also have "\<dots> = s2"
    unfolding claim_and_fire_def Let_def if_True now spent_def [symmetric]
    by (subst calm_no_slot) (simp_all add: spent_def s1_def s2_def persist_def once add_run_def s0_def engine_start_def ids upd row_def
        schedule_action_def once_def nightly_def)
  finally have t1: "engine_step utc_engine (Tick (calm due)) s1 = s2" by simp
  define s3 where "s3 = s2\<lparr>en_firing := [''a'', ''b'', ''c''], en_settling := []\<rparr>"
  have t2: "engine_step utc_engine (Clear 0) s2 = s3"
    by (simp add: clear_firing_def s2_def s3_def)
  have over: "decide_fire (ep_zones utc_engine) spent (due + 60000) = Skip Already_Fired" "is_terminal_for spent Already_Fired"
    "task_id spent = ''sch_once''" "enabled spent" "created_at spent = 0"
    by (simp_all add: decide_fire_def decide_one_shot_def is_terminal_for_def spent_def once_def nightly_def Let_def)
  have "tick utc_engine (calm (due + 60000)) s3 = consider_one utc_engine (calm (due + 60000)) spent s3"
    by (rule tick_of_four [where ys = "[]"]) (simp_all add: s3_def s2_def s1_def s0_def over)
  also have "\<dots> = disarm (calm (due + 60000)) spent s3"
  proof -
    have "''sch_once'' \<notin> set (en_firing s3)" by (simp add: s3_def)
    then show ?thesis by (simp add: consider_one_def now over Let_def)
  qed
  finally have t3: "engine_step utc_engine (Tick (calm (due + 60000))) s3 = disarm (calm (due + 60000)) spent s3" by simp
  have "engine_run utc_engine
       [Run_Now (calm due) ''a'', Run_Now (calm due) ''b'', Run_Now (calm due) ''c'', Tick (calm due), Clear 0, Tick (calm (due + 60000))] s0
     = disarm (calm (due + 60000)) spent s3"
    using fs(2) [folded s1_def] t1 t2 t3 by (simp only: engine_run_def foldl_Cons foldl_Nil)
  then show ?thesis
    unfolding Let_def s0_def [symmetric]
    by (simp only:) (simp add: disarm_def persist_def s3_def s2_def s1_def s0_def fs(1) over ids engine_start_def row_def run_row_def,
      simp add: sweep_def nightly_def)
qed

end
