(* ===== verification/Selection.thy ===== *)
theory Selection
  imports EpicHeadroom
begin

section \<open>Which profile a spawn runs on\<close>

text \<open>
  \<open>src/sentinel/selection.ts\<close>: a literal name, a balanced pick over the profiles of a pool by what is
  known of their usage, or a weighted random one. The ranks are taken over the rationals; the random
  source is an argument. Of a profile and of the configuration only what the picker reads is kept.
\<close>

subsection \<open>Configuration and telemetry\<close>

record resolved_profile =
  profile_name :: string
  profile_pool :: "string option"
  profile_weight :: rat

datatype selection_token = Sel_Default | Sel_Balanced | Sel_Random

record sentinel_config =
  default_selection :: selection_token
  default_pool :: string
  config_profiles :: "(string \<times> resolved_profile) list"

record usage_headroom =
  five_hour_used :: rat
  seven_day_used :: rat
  ms_until_five_hour_reset :: rat
  ms_until_seven_day_reset :: rat
  usage_stale :: bool

datatype picker = Picked_Fixed | Picked_Balanced | Picked_Random | Picked_Default

record pick_result =
  picked :: resolved_profile
  picked_by :: picker
  requested_pool :: string
  candidate_names :: "string list"
  pick_reason :: string

record pick_options =
  pick_input :: "string option"
  pick_pool :: "string option"
  live_load :: "string \<Rightarrow> rat"
  pick_usage :: "string \<Rightarrow> usage_headroom option"
  pick_rand :: rat

definition DEFAULT_PROFILE_NAME :: string where
  "DEFAULT_PROFILE_NAME = ''default''"

subsection \<open>Ranks\<close>

abbreviation (input) MIN_RESET_MS :: rat where "MIN_RESET_MS \<equiv> 60000"

abbreviation (input) FIVE_HOUR_WEIGHT :: rat where "FIVE_HOUR_WEIGHT \<equiv> 6 / 10"

abbreviation (input) DRAIN_WEIGHT :: rat where "DRAIN_WEIGHT \<equiv> 3 / 10"

abbreviation (input) LOAD_WEIGHT :: rat where "LOAD_WEIGHT \<equiv> 1 / 10"

definition clamp100 :: "rat \<Rightarrow> rat" where
  "clamp100 x = max 0 (min 100 x)"

definition load_rank :: "(string \<Rightarrow> rat) \<Rightarrow> resolved_profile \<Rightarrow> rat" where
  "load_rank load p = 1 / (1 + max 0 (load (profile_name p)) / profile_weight p)"

definition hours_until :: "rat \<Rightarrow> rat" where
  "hours_until ms = max MIN_RESET_MS ms / 3600000"

definition eligible_blend :: "(string \<Rightarrow> rat) \<Rightarrow> resolved_profile \<Rightarrow> usage_headroom \<Rightarrow> rat" where
  "eligible_blend load p u =
     (let five_headroom_rank = max 0 ((GATE_FIVE_HOUR_PCT - clamp100 (five_hour_used u)) / GATE_FIVE_HOUR_PCT);
          headroom7d = 100 - clamp100 (seven_day_used u);
          drain_pressure = headroom7d / hours_until (ms_until_seven_day_reset u);
          drain_rank = drain_pressure / (1 + drain_pressure)
      in FIVE_HOUR_WEIGHT * five_headroom_rank + DRAIN_WEIGHT * drain_rank + LOAD_WEIGHT * load_rank load p)"

definition rank_candidate :: "(string \<Rightarrow> rat) \<Rightarrow> (string \<Rightarrow> usage_headroom option) \<Rightarrow> resolved_profile \<Rightarrow> rat" where
  "rank_candidate load usage p =
     (let unknown = 1 / 4 + 1 / 4 * load_rank load p
      in case usage (profile_name p) of
           None \<Rightarrow> unknown
         | Some u \<Rightarrow>
             if usage_stale u then unknown
             else if GATE_FIVE_HOUR_PCT \<le> clamp100 (five_hour_used u)
               then 1 / 4 * (1 / (1 + hours_until (ms_until_five_hour_reset u)))
             else 1 / 2 + 1 / 2 * eligible_blend load p u)"

subsection \<open>The picks\<close>

definition has_fresh :: "(string \<Rightarrow> usage_headroom option) \<Rightarrow> resolved_profile \<Rightarrow> bool" where
  "has_fresh usage p \<longleftrightarrow> (case usage (profile_name p) of None \<Rightarrow> False | Some u \<Rightarrow> \<not> usage_stale u)"

definition pick_balanced ::
  "resolved_profile list \<Rightarrow> (string \<Rightarrow> rat) \<Rightarrow> (string \<Rightarrow> usage_headroom option) \<Rightarrow> resolved_profile \<times> bool" where
  "pick_balanced candidates load usage =
     (case foldl (\<lambda>(best, best_rank, any_fresh) p.
         let rank = rank_candidate load usage p; fresh = any_fresh \<or> has_fresh usage p
         in if best_rank < rank then (p, rank, fresh) else (best, best_rank, fresh))
       (hd candidates, rank_candidate load usage (hd candidates), has_fresh usage (hd candidates)) (tl candidates)
      of (best, _, any_fresh) \<Rightarrow> (best, any_fresh))"

fun weighted_walk :: "resolved_profile list \<Rightarrow> rat \<Rightarrow> resolved_profile option" where
  "weighted_walk [] r = None"
| "weighted_walk (p # ps) r = (if r - profile_weight p < 0 then Some p else weighted_walk ps (r - profile_weight p))"

definition pick_weighted_random :: "resolved_profile list \<Rightarrow> rat \<Rightarrow> resolved_profile" where
  "pick_weighted_random candidates rand =
     (case weighted_walk candidates (rand * sum_list (map profile_weight candidates)) of
        Some p \<Rightarrow> p
      | None \<Rightarrow> last candidates)"

definition require_profile :: "sentinel_config \<Rightarrow> string \<Rightarrow> (string, resolved_profile) result" where
  "require_profile cfg name =
     (case map_of (config_profiles cfg) name of
        None \<Rightarrow> Err (''sentinel selection: profile \"'' @ name @ ''\" missing from config (this is a bug)'')
      | Some p \<Rightarrow> Ok p)"

definition profiles_in_pool :: "intl \<Rightarrow> sentinel_config \<Rightarrow> string \<Rightarrow> resolved_profile list" where
  "profiles_in_pool i cfg pool =
     sort_by (\<lambda>a b. locale_compare i (profile_name a) (profile_name b) \<le> 0)
       (filter (\<lambda>p. profile_pool p = Some pool \<and> 0 < profile_weight p) (map snd (config_profiles cfg)))"

definition default_pick :: "sentinel_config \<Rightarrow> string \<Rightarrow> string \<Rightarrow> (string, pick_result) result" where
  "default_pick cfg pool reason =
     (case require_profile cfg DEFAULT_PROFILE_NAME of
        Err e \<Rightarrow> Err e
      | Ok p \<Rightarrow> Ok \<lparr>picked = p, picked_by = Picked_Default, requested_pool = pool, candidate_names = [], pick_reason = reason\<rparr>)"

definition pick_by_mode :: "intl \<Rightarrow> sentinel_config \<Rightarrow> pick_options \<Rightarrow> selection_token \<Rightarrow> (string, pick_result) result" where
  "pick_by_mode i cfg opts mode =
     (if mode = Sel_Default then default_pick cfg [] ''default''
      else
        let pool = (case pick_pool opts of Some p \<Rightarrow> p | None \<Rightarrow> default_pool cfg); candidates = profiles_in_pool i cfg pool
        in if candidates = [] then default_pick cfg pool ''fallback:empty-pool''
           else if mode = Sel_Balanced then
             (case pick_balanced candidates (live_load opts) (pick_usage opts) of
                (p, any_fresh) \<Rightarrow>
                  Ok \<lparr>picked = p, picked_by = Picked_Balanced, requested_pool = pool, candidate_names = map profile_name candidates,
                      pick_reason = (if any_fresh then ''smart-balance'' else ''least-active'')\<rparr>)
           else
             Ok \<lparr>picked = pick_weighted_random candidates (pick_rand opts), picked_by = Picked_Random, requested_pool = pool,
                 candidate_names = map profile_name candidates, pick_reason = ''random''\<rparr>)"

definition pick_profile :: "intl \<Rightarrow> sentinel_config \<Rightarrow> pick_options \<Rightarrow> (string, pick_result) result" where
  "pick_profile i cfg opts =
     (case pick_input opts of
        Some input \<Rightarrow>
          if input \<notin> {[], ''balanced'', ''random''} then
            (case map_of (config_profiles cfg) input of
               None \<Rightarrow> Err (''sentinel selection: unknown profile \"'' @ input @ ''\" (known: '' @ comma (map fst (config_profiles cfg)) @ '')'')
             | Some p \<Rightarrow> Ok \<lparr>picked = p, picked_by = Picked_Fixed, requested_pool = [], candidate_names = [], pick_reason = ''literal''\<rparr>)
          else pick_by_mode i cfg opts (if input = ''balanced'' then Sel_Balanced else if input = ''random'' then Sel_Random else default_selection cfg)
      | None \<Rightarrow> pick_by_mode i cfg opts (default_selection cfg))"

subsection \<open>The bands\<close>

datatype usage_band = Gated | Unknown | Eligible

definition band_of :: "(string \<Rightarrow> usage_headroom option) \<Rightarrow> resolved_profile \<Rightarrow> usage_band" where
  "band_of usage p =
     (case usage (profile_name p) of
        None \<Rightarrow> Unknown
      | Some u \<Rightarrow> if usage_stale u then Unknown else if five_hour_used u < GATE_FIVE_HOUR_PCT then Eligible else Gated)"

fun band_no :: "usage_band \<Rightarrow> nat" where
  "band_no Gated = 0"
| "band_no Unknown = 1"
| "band_no Eligible = 2"

lemma clamp100_bounds: "0 \<le> clamp100 x" "clamp100 x \<le> 100" "GATE_FIVE_HOUR_PCT \<le> clamp100 x \<longleftrightarrow> \<not> x < GATE_FIVE_HOUR_PCT"
  by (auto simp: clamp100_def GATE_FIVE_HOUR_PCT_def)

lemma load_rank_bounds: "0 < profile_weight p \<Longrightarrow> 0 < load_rank load p \<and> load_rank load p \<le> 1"
  by (auto simp: load_rank_def divide_simps add_pos_nonneg)

lemma squash_nonneg: "0 \<le> (x :: rat) \<Longrightarrow> 0 \<le> x / (1 + x)"
  by simp

lemma eligible_blend_pos:
  assumes "0 < profile_weight p" "five_hour_used u < GATE_FIVE_HOUR_PCT"
  shows "0 < eligible_blend load p u"
proof -
  define x where "x = (100 - clamp100 (seven_day_used u)) / hours_until (ms_until_seven_day_reset u)"
  have "0 < hours_until ms" for ms by (simp add: hours_until_def less_max_iff_disj)
  then have "0 \<le> x" using clamp100_bounds(2) [of "seven_day_used u"] by (simp add: x_def less_imp_le)
  then have drain: "0 \<le> DRAIN_WEIGHT * (x / (1 + x))" by (intro mult_nonneg_nonneg squash_nonneg) simp_all
  have load: "0 < LOAD_WEIGHT * load_rank load p" using load_rank_bounds [OF assms(1), of load] by simp
  have room: "0 \<le> FIVE_HOUR_WEIGHT * max 0 ((GATE_FIVE_HOUR_PCT - clamp100 (five_hour_used u)) / GATE_FIVE_HOUR_PCT)" by simp
  show ?thesis
    using add_nonneg_pos [OF add_nonneg_nonneg [OF room drain] load] unfolding eligible_blend_def Let_def x_def .
qed

lemma rank_in_band:
  assumes "0 < profile_weight p"
  shows "case band_of usage p of
      Gated \<Rightarrow> rank_candidate load usage p < 1 / 4
    | Unknown \<Rightarrow> 1 / 4 < rank_candidate load usage p \<and> rank_candidate load usage p \<le> 1 / 2
    | Eligible \<Rightarrow> 1 / 2 < rank_candidate load usage p"
proof -
  have "0 < hours_until ms" for ms by (simp add: hours_until_def less_max_iff_disj)
  then have "1 / 4 * (1 / (1 + hours_until ms)) < 1 / 4" for ms by (simp add: divide_simps add_pos_pos)
  with load_rank_bounds [OF assms, of load] eligible_blend_pos [OF assms, of _ load] show ?thesis
    by (auto simp: band_of_def rank_candidate_def Let_def clamp100_bounds split: option.split)
qed

lemma rank_respects_bands:
  assumes "0 < profile_weight p" "0 < profile_weight q" "rank_candidate load usage p \<le> rank_candidate load usage q"
  shows "band_no (band_of usage p) \<le> band_no (band_of usage q)"
  using rank_in_band [OF assms(1), where usage = usage and load = load] rank_in_band [OF assms(2), where usage = usage and load = load] assms(3)
  by (cases "band_of usage p"; cases "band_of usage q") auto

lemma more_room_less_load: "1 / (1 + b) \<le> 1 / (1 + a) \<Longrightarrow> 0 \<le> a \<Longrightarrow> 0 \<le> b \<Longrightarrow> a \<le> (b :: rat)"
  using inverse_le_imp_le [of "1 + b" "1 + a"] by (simp add: inverse_eq_divide)

lemma less_load:
  assumes "load_rank load q \<le> load_rank load p" "0 < profile_weight p" "0 < profile_weight q"
  shows "max 0 (load (profile_name p)) / profile_weight p \<le> max 0 (load (profile_name q)) / profile_weight q"
proof -
  have "0 \<le> max 0 (load (profile_name c)) / profile_weight c" if "0 < profile_weight c" for c using that by (simp add: less_imp_le)
  from more_room_less_load [OF assms(1) [unfolded load_rank_def] this this] assms(2,3) show ?thesis by blast
qed

lemma unknown_rank: "\<not> has_fresh usage p \<Longrightarrow> rank_candidate load usage p = 1 / 4 + 1 / 4 * load_rank load p"
  by (auto simp: rank_candidate_def has_fresh_def Let_def split: option.splits)

text \<open>The scan keeps the first of the highest.\<close>

lemma balanced_fold:
  assumes "foldl (\<lambda>(best, best_rank, any_fresh) p.
         let rank = f p; fresh = any_fresh \<or> g p in if best_rank < (rank :: rat) then (p, rank, fresh) else (best, best_rank, fresh))
       (b, f b, g b) ps = (p, r, fresh)"
  shows "r = f p \<and> (fresh \<longleftrightarrow> list_ex g (b # ps))
    \<and> (\<exists>as bs. b # ps = as @ p # bs \<and> list_all (\<lambda>q. f q < f p) as \<and> list_all (\<lambda>q. f q \<le> f p) bs)"
  using assms
proof (induction ps arbitrary: p r fresh rule: rev_induct)
  case (snoc x ps)
  let ?step = "\<lambda>(best, best_rank, any_fresh) p.
     let rank = f p; fresh = any_fresh \<or> g p in if best_rank < (rank :: rat) then (p, rank, fresh) else (best, best_rank, fresh)"
  obtain p' r' fresh' where before: "foldl ?step (b, f b, g b) ps = (p', r', fresh')" by (cases "foldl ?step (b, f b, g b) ps")
  from snoc.IH [OF before] obtain as bs where ih: "r' = f p'" "fresh' \<longleftrightarrow> list_ex g (b # ps)" "b # ps = as @ p' # bs"
    "list_all (\<lambda>q. f q < f p') as" "list_all (\<lambda>q. f q \<le> f p') bs" by blast
  have step: "(p, r, fresh) = (if f p' < f x then (x, f x, fresh' \<or> g x) else (p', f p', fresh' \<or> g x))"
    using snoc.prems before ih(1) by (simp add: Let_def split: if_splits)
  show ?case
  proof (cases "f p' < f x")
    case True
    with ih have "list_all (\<lambda>q. f q < f x) (b # ps)" unfolding ih(3) by (auto simp: list_all_iff)
    then have "\<exists>as bs. b # ps @ [x] = as @ x # bs \<and> list_all (\<lambda>q. f q < f x) as \<and> list_all (\<lambda>q. f q \<le> f x) bs"
      by (intro exI [of _ "b # ps"] exI [of _ "[]"]) simp
    with True step ih(2) show ?thesis by auto
  next
    case False
    with ih have "b # ps @ [x] = as @ p' # (bs @ [x])" "list_all (\<lambda>q. f q \<le> f p') (bs @ [x])" by auto
    then have "\<exists>as bs. b # ps @ [x] = as @ p' # bs \<and> list_all (\<lambda>q. f q < f p') as \<and> list_all (\<lambda>q. f q \<le> f p') bs"
      using ih(4) by (intro exI [of _ as] exI [of _ "bs @ [x]"]) simp
    with False step ih(2) show ?thesis by auto
  qed
qed (auto intro!: exI [of _ "[]"])

lemma pick_balanced_first_best:
  assumes "candidates \<noteq> []" "pick_balanced candidates load usage = (p, any_fresh)"
  shows "(any_fresh \<longleftrightarrow> list_ex (has_fresh usage) candidates)
    \<and> (\<exists>as bs. candidates = as @ p # bs \<and> list_all (\<lambda>q. rank_candidate load usage q < rank_candidate load usage p) as
         \<and> list_all (\<lambda>q. rank_candidate load usage q \<le> rank_candidate load usage p) bs)"
proof -
  obtain b ps where c: "candidates = b # ps" using assms(1) by (cases candidates) auto
  let ?f = "rank_candidate load usage" and ?g = "has_fresh usage"
  let ?fold = "foldl (\<lambda>(best, best_rank, any_fresh) p. let rank = ?f p; fresh = any_fresh \<or> ?g p
       in if best_rank < rank then (p, rank, fresh) else (best, best_rank, fresh)) (b, ?f b, ?g b) ps"
  obtain p' r fresh where f: "?fold = (p', r, fresh)" by (cases ?fold) blast
  have "(p', fresh) = (p, any_fresh)" using assms(2) unfolding pick_balanced_def c list.sel f prod.case .
  with balanced_fold [OF f] show ?thesis unfolding c prod.inject by blast
qed

text \<open>A random pick is in proportion: a candidate is picked when the drawn point falls on its stretch.\<close>

lemma weighted_walk_stretch:
  assumes "list_all (\<lambda>p. 0 < profile_weight p) (as @ p # bs)" "distinct (as @ p # bs)"
    "sum_list (map profile_weight as) \<le> r" "r < sum_list (map profile_weight as) + profile_weight p"
  shows "weighted_walk (as @ p # bs) r = Some p"
  using assms
proof (induction as arbitrary: r)
  case (Cons a as)
  have "0 \<le> sum_list (map profile_weight as)"
    using Cons.prems(1) by (intro sum_list_nonneg) (auto simp: list_all_iff less_imp_le)
  with Cons show ?case by auto
qed simp

text \<open>
  C12: a balanced spawn never runs on a profile at the gate of its five-hour window, nor on one nothing is
  known of, while the pool has one known to be below the gate. What is picked is a profile of the
  requested pool with a positive weight; no candidate is in a better band; nothing before it in the
  order of names ranks as high and nothing after it higher; with nothing known of any, it is the one with
  the least load for its weight; and an empty pool is the default profile, never a failure of its own.
\<close>

theorem known_headroom_wins:
  "let pool = (case pick_pool opts of Some p \<Rightarrow> p | None \<Rightarrow> default_pool cfg); candidates = profiles_in_pool i cfg pool;
       rank = rank_candidate (live_load opts) (pick_usage opts); band = (\<lambda>p. band_no (band_of (pick_usage opts) p))
   in if candidates = [] then pick_by_mode i cfg opts Sel_Balanced = default_pick cfg pool ''fallback:empty-pool''
      else case pick_by_mode i cfg opts Sel_Balanced of
        Err _ \<Rightarrow> False
      | Ok res \<Rightarrow>
          let p = picked res; ahead = takeWhile (\<lambda>q. q \<noteq> p) candidates
          in p \<in> set (map snd (config_profiles cfg)) \<and> profile_pool p = Some pool \<and> 0 < profile_weight p
            \<and> list_all (\<lambda>q. band q \<le> band p \<and> rank q \<le> rank p) candidates \<and> list_all (\<lambda>q. rank q < rank p) ahead
            \<and> (pick_reason res = (if list_ex (has_fresh (pick_usage opts)) candidates then ''smart-balance'' else ''least-active''))
            \<and> (if list_ex (has_fresh (pick_usage opts)) candidates then True
               else list_all (\<lambda>q. max 0 (live_load opts (profile_name p)) / profile_weight p
                      \<le> max 0 (live_load opts (profile_name q)) / profile_weight q) candidates)"
proof -
  define pool candidates where "pool = (case pick_pool opts of Some p \<Rightarrow> p | None \<Rightarrow> default_pool cfg)" and "candidates = profiles_in_pool i cfg pool"
  let ?rank = "rank_candidate (live_load opts) (pick_usage opts)"
  have ok: "q \<in> set (map snd (config_profiles cfg))" "profile_pool q = Some pool" "0 < profile_weight q" if "q \<in> set candidates" for q
    using that by (auto simp: candidates_def profiles_in_pool_def)
  show ?thesis
  proof (cases "candidates = []")
    case True
    then show ?thesis unfolding pool_def [symmetric] candidates_def [symmetric] Let_def
      by (simp add: pick_by_mode_def Let_def flip: pool_def candidates_def)
  next
    case False
    obtain p fresh where pick: "pick_balanced candidates (live_load opts) (pick_usage opts) = (p, fresh)"
      by (cases "pick_balanced candidates (live_load opts) (pick_usage opts)")
    from pick_balanced_first_best [OF False pick] obtain as bs where
      fresh: "fresh \<longleftrightarrow> list_ex (has_fresh (pick_usage opts)) candidates" and at: "candidates = as @ p # bs"
      and as: "list_all (\<lambda>q. ?rank q < ?rank p) as" and bs: "list_all (\<lambda>q. ?rank q \<le> ?rank p) bs" by blast
    have p: "p \<in> set candidates" and top: "?rank q \<le> ?rank p" if "q \<in> set candidates" for q
      using that as bs unfolding at list_all_iff by (auto intro: less_imp_le)
    then have p: "p \<in> set candidates" unfolding at by simp
    have bands: "band_no (band_of (pick_usage opts) q) \<le> band_no (band_of (pick_usage opts) p)" if "q \<in> set candidates" for q
      by (rule rank_respects_bands [OF ok(3) [OF that] ok(3) [OF p] top [OF that]])
    have "takeWhile (\<lambda>q. q \<noteq> p) candidates = as"
      unfolding at using as by (subst takeWhile_append2) (auto simp: list_all_iff)
    moreover have least: "max 0 (live_load opts (profile_name p)) / profile_weight p \<le> max 0 (live_load opts (profile_name q)) / profile_weight q"
      if none: "\<not> list_ex (has_fresh (pick_usage opts)) candidates" and q: "q \<in> set candidates" for q
    proof (rule less_load)
      have "?rank c = 1 / 4 + 1 / 4 * load_rank (live_load opts) c" if "c \<in> set candidates" for c
        using none that by (intro unknown_rank) (simp add: list_ex_iff)
      with top [OF q] p q show "load_rank (live_load opts) q \<le> load_rank (live_load opts) p" by simp
    qed (simp_all add: ok p q)
    moreover have "pick_by_mode i cfg opts Sel_Balanced = Ok \<lparr>picked = p, picked_by = Picked_Balanced, requested_pool = pool,
        candidate_names = map profile_name candidates, pick_reason = (if fresh then ''smart-balance'' else ''least-active'')\<rparr>"
      using False by (simp add: pick_by_mode_def Let_def pick flip: pool_def candidates_def)
    ultimately show ?thesis
      using False as top bands ok [OF p] least unfolding pool_def [symmetric] candidates_def [symmetric] Let_def
      by (simp add: fresh list_all_iff)
  qed
qed

end
