(* ===== verification/Scanners.thy ===== *)
theory Scanners
  imports EpicReady EpicSweep
begin

section \<open>Scanners\<close>

text \<open>
  \<open>src/broker/scanners/scanner.ts\<close> and the scanners of cards: \<open>nightshift-scanner.ts\<close>,
  \<open>refine-scanner.ts\<close>, \<open>work-order-scanner.ts\<close>. A scanner selects cards by tag and either acts on each
  or refuses it into a named bucket; what is left over is reported. The contract is a locale that each
  of the three is an interpretation of. What the spawn of a seat answers is an argument: it was taken, it
  was refused, or it threw.
\<close>

subsection \<open>The contract\<close>

record 'b refusal =
  refused_unit :: string
  refused_bucket :: 'b
  refused_detail :: string

record 'b scan_outcome =
  scan_selected :: "string list"
  scan_acted :: "string list"
  scan_refused :: "'b refusal list"
  scan_idle :: "string option"

record 'b scan_report = "'b scan_outcome" +
  report_unaccounted :: "string list"
  report_crashed :: "string option"

datatype send_result = Sent | Spawn_Refused | Send_Threw string

definition unaccounted_units :: "('b, 'z) scan_outcome_scheme \<Rightarrow> string list" where
  "unaccounted_units out =
     (let covered = set (scan_acted out @ map refused_unit (scan_refused out)) in filter (\<lambda>u. u \<notin> covered) (scan_selected out))"

text \<open>The dispatches are sent one after the other; a throw is a refusal, and so is \<open>false\<close>.\<close>

definition dispatch_step ::
  "string \<Rightarrow> 'b \<Rightarrow> string list \<times> 'b refusal list \<times> string list \<Rightarrow> string \<times> send_result \<Rightarrow> string list \<times> 'b refusal list \<times> string list" where
  "dispatch_step tag failed acc x =
     (case acc of (acted, refused, lines) \<Rightarrow>
        case x of (u, res) \<Rightarrow>
          let refuse = refused @ [\<lparr>refused_unit = u, refused_bucket = failed, refused_detail = ''the spawn was refused''\<rparr>]
          in case res of
               Sent \<Rightarrow> (acted @ [u], refused, lines)
             | Spawn_Refused \<Rightarrow> (acted, refuse, lines)
             | Send_Threw e \<Rightarrow> (acted, refuse, lines @ [tag @ '' dispatch threw for '' @ u @ '': '' @ e]))"

definition dispatch_units ::
  "string \<Rightarrow> 'b \<Rightarrow> (string \<times> send_result) list \<Rightarrow> string list \<Rightarrow> 'b refusal list \<Rightarrow> string list \<times> 'b refusal list \<times> string list" where
  "dispatch_units tag failed units acted refused = foldl (dispatch_step tag failed) (acted, refused, []) units"

text \<open>A scan that throws is a report with nothing in it; the lines are those the runner itself logs.\<close>

definition run_scan :: "string \<Rightarrow> string list \<Rightarrow> (string, 'b scan_outcome) result \<Rightarrow> 'b scan_report \<times> string list" where
  "run_scan tag buckets scanned =
     (case scanned of
        Err e \<Rightarrow>
          (\<lparr>scan_selected = [], scan_acted = [], scan_refused = [], scan_idle = None, report_unaccounted = [], report_crashed = Some e\<rparr>,
           [tag @ '' scan crashed -- swallowing: '' @ e])
      | Ok out \<Rightarrow>
          let left = unaccounted_units out
          in (\<lparr>scan_selected = scan_selected out, scan_acted = scan_acted out, scan_refused = scan_refused out, scan_idle = scan_idle out,
               report_unaccounted = left, report_crashed = None\<rparr>,
              if left = [] then []
              else [tag @ '' DROPPED '' @ len_str left @ '' unit(s) with no reason given: '' @ comma left
                @ '' -- every selected unit must be acted on or refused into one of ['' @ comma buckets @ '']'']))"

text \<open>What a scanner owes: every selected unit is acted on or refused, and nothing else is.\<close>

locale accounting_scan =
  fixes scan :: "'d \<Rightarrow> 'b scan_outcome"
  assumes covers: "set (scan_selected (scan d)) = set (scan_acted (scan d)) \<union> set (map refused_unit (scan_refused (scan d)))"
begin

lemma nothing_unaccounted: "unaccounted_units (scan d) = []"
  using covers [of d] by (auto simp: unaccounted_units_def Let_def filter_empty_conv)

lemma quiet: "snd (run_scan tag buckets (Ok (scan d))) = []"
  by (simp add: run_scan_def nothing_unaccounted Let_def)

lemma reported: "report_unaccounted (fst (run_scan tag buckets (Ok (scan d)))) = []"
  by (simp add: run_scan_def nothing_unaccounted Let_def)

end

text \<open>One place each: as often acted on and refused together as selected.\<close>

locale exact_scan = accounting_scan +
  assumes once: "mset (scan_selected (scan d)) = mset (scan_acted (scan d)) + mset (map refused_unit (scan_refused (scan d)))"
begin

lemma acted_not_refused: "distinct (scan_selected (scan d)) \<Longrightarrow> set (scan_acted (scan d)) \<inter> set (map refused_unit (scan_refused (scan d))) = {}"
proof -
  assume d: "distinct (scan_selected (scan d))"
  have "mset (scan_selected (scan d)) = mset (scan_acted (scan d) @ map refused_unit (scan_refused (scan d)))" by (simp add: once)
  with d have "distinct (scan_acted (scan d) @ map refused_unit (scan_refused (scan d)))" by (metis mset_eq_imp_distinct_iff)
  then show ?thesis by simp
qed

end

lemma dispatch_units_mset:
  "dispatch_units tag failed units acted refused = (a, r, lines)
    \<Longrightarrow> mset a + mset (map refused_unit r) = mset acted + mset (map refused_unit refused) + mset (map fst units)"
proof (induction units arbitrary: a r lines rule: rev_induct)
  case (snoc x units)
  obtain u res where x: "x = (u, res)" by (cases x)
  obtain a' r' lines' where before: "dispatch_units tag failed units acted refused = (a', r', lines')" by (cases "dispatch_units tag failed units acted refused")
  from snoc.prems before snoc.IH [OF before] show ?case
    by (auto simp: dispatch_units_def dispatch_step_def x Let_def split: send_result.splits)
qed (simp add: dispatch_units_def)

definition status_name :: "task_status \<Rightarrow> string" where
  "status_name s =
     (case s of Inbox \<Rightarrow> ''inbox'' | Open \<Rightarrow> ''open'' | In_Progress \<Rightarrow> ''in-progress'' | In_Review \<Rightarrow> ''in-review'' | Done \<Rightarrow> ''done''
      | Archived \<Rightarrow> ''archived'')"

definition refuse_lane :: "card list \<Rightarrow> 'b \<Rightarrow> (card \<Rightarrow> string) \<Rightarrow> 'b refusal list" where
  "refuse_lane cards b detail = map (\<lambda>c. \<lparr>refused_unit = slug c, refused_bucket = b, refused_detail = detail c\<rparr>) cards"

lemma refuse_lane_units [simp]: "map refused_unit (refuse_lane cards b detail) = map slug cards"
  by (simp add: refuse_lane_def)

text \<open>Without a reaper: the liveness and output a scanner is handed.\<close>

definition plain_env :: "(conversation \<Rightarrow> bool) \<Rightarrow> (conversation \<Rightarrow> bool) \<Rightarrow> sweep_env" where
  "plain_env live output = \<lparr>is_live = live, produced_output = output, seat_reaper = (\<lambda>_. None), werk_master_reaper = (\<lambda>_. None)\<rparr>"

definition lane_group :: "string \<Rightarrow> string \<Rightarrow> sweep_env \<Rightarrow> conversation list \<Rightarrow> epic_group" where
  "lane_group e project env convs =
     (case map_of (group_epic_conversations env convs) e of None \<Rightarrow> empty_group e project | Some g \<Rightarrow> g)"

subsection \<open>The night run\<close>

datatype night_bucket = Closed_Lane | Live_Conversation | Unreadable | Over_Cap

definition NIGHTSHIFT_TAG :: string where
  "NIGHTSHIFT_TAG = ''nightshift''"

record night_item =
  item_id :: string
  item_title :: string
  item_project :: string
  item_status :: string
  item_source :: string
  item_ref :: string
  item_created :: string
  item_body :: string
  item_estimate :: "rat option"

text \<open>A card read with its body: the title, the slug and the body of it are what a task takes.\<close>

record night_card =
  read_slug :: string
  read_title :: string
  read_body :: string

record night_scan_deps =
  night_cards :: "card list"
  night_convs :: "conversation list"
  night_live :: "conversation \<Rightarrow> bool"
  night_read :: "string \<Rightarrow> night_card option"
  night_project :: string
  night_total :: nat
  night_now :: int

definition priority_rank :: "card \<Rightarrow> nat" where
  "priority_rank c = (case priority c of None \<Rightarrow> 1 | Some High \<Rightarrow> 0 | Some Medium \<Rightarrow> 1 | Some Low \<Rightarrow> 2)"

definition by_priority_then_age :: "intl \<Rightarrow> card \<Rightarrow> card \<Rightarrow> bool" where
  "by_priority_then_age i =
     then_by priority_rank (\<lambda>a b.
       if locale_compare i (card_created a) (card_created b) \<noteq> 0 then locale_compare i (card_created a) (card_created b) \<le> 0
       else locale_compare i (slug a) (slug b) \<le> 0)"

definition ordinal :: "nat \<Rightarrow> string" where
  "ordinal n = replicate (3 - length (nat_str n)) (CHR ''0'') @ nat_str n"

definition card_to_nightshift_task :: "night_card \<Rightarrow> string \<Rightarrow> nat \<Rightarrow> int \<Rightarrow> night_item" where
  "card_to_nightshift_task c project n now =
     \<lparr>item_id = ordinal n, item_title = read_title c, item_project = project, item_status = ''queued'', item_source = ''board'', item_ref = read_slug c, item_created = to_iso now,
      item_body = read_body c, item_estimate = None\<rparr>"

definition live_card_ids :: "night_scan_deps \<Rightarrow> string set" where
  "live_card_ids d =
     set (concat (map (\<lambda>v. case Option.bind (conv_tag v) launch_card of
         None \<Rightarrow> [] | Some c \<Rightarrow> if c \<noteq> [] \<and> night_live d v then [c] else []) (night_convs d)))"

definition tagged_cards :: "intl \<Rightarrow> night_scan_deps \<Rightarrow> card list" where
  "tagged_cards i d = sort_by (by_priority_then_age i) (filter (\<lambda>c. NIGHTSHIFT_TAG \<in> set (tags c)) (night_cards d))"

definition refused_night :: "card \<Rightarrow> night_bucket \<Rightarrow> string \<Rightarrow> night_bucket refusal" where
  "refused_night c b detail = \<lparr>refused_unit = slug c, refused_bucket = b, refused_detail = detail\<rparr>"

definition night_step ::
  "night_scan_deps \<Rightarrow> string list \<times> night_bucket refusal list \<times> night_item list \<Rightarrow> card
    \<Rightarrow> string list \<times> night_bucket refusal list \<times> night_item list" where
  "night_step d acc c =
     (case acc of (acted, refused, admitted) \<Rightarrow>
        if card_status c \<in> {Done, Archived} then
          (acted, refused @ [refused_night c Closed_Lane (''card is in `'' @ status_name (card_status c) @ ''`'')], admitted)
        else if slug c \<in> live_card_ids d then
          (acted, refused @ [refused_night c Live_Conversation ''a live conversation is on this card''], admitted)
        else if night_total d \<le> length acted then
          (acted, refused @ [refused_night c Over_Cap (''run opens with at most '' @ nat_str (night_total d) @ '' task(s)'')], admitted)
        else case night_read d (slug c) of
          None \<Rightarrow> (acted, refused @ [refused_night c Unreadable ''the card could not be read at dispatch time''], admitted)
        | Some full \<Rightarrow> (acted @ [slug c], refused, admitted @ [card_to_nightshift_task full (night_project d) (length acted + 1) (night_now d)]))"

definition night_idle_reason :: "nat \<Rightarrow> nat \<Rightarrow> string option" where
  "night_idle_reason selected acted =
     (if 0 < acted then None
      else if selected = 0 then Some (''no cards tagged #'' @ NIGHTSHIFT_TAG)
      else Some (nat_str selected @ '' card(s) tagged #'' @ NIGHTSHIFT_TAG @ '', none of them runnable''))"

definition scan_nightshift :: "intl \<Rightarrow> night_scan_deps \<Rightarrow> night_bucket scan_outcome \<times> night_item list" where
  "scan_nightshift i d =
     (let tagged = tagged_cards i d
      in case foldl (night_step d) ([], [], []) tagged of
           (acted, refused, admitted) \<Rightarrow>
             (\<lparr>scan_selected = map slug tagged, scan_acted = acted, scan_refused = refused,
               scan_idle = night_idle_reason (length tagged) (length acted)\<rparr>, admitted))"

text \<open>What the pass over the cards has done: as many tasks as cards acted on, numbered, within the cap.\<close>

definition night_so_far :: "night_scan_deps \<Rightarrow> card list \<Rightarrow> string list \<times> night_bucket refusal list \<times> night_item list \<Rightarrow> bool" where
  "night_so_far d cs acc \<longleftrightarrow>
     (case acc of (acted, refused, admitted) \<Rightarrow>
        mset (map slug cs) = mset acted + mset (map refused_unit refused)
        \<and> map item_id admitted = map (\<lambda>k. ordinal (k + 1)) [0..<length acted] \<and> length acted \<le> night_total d
        \<and> (list_ex (\<lambda>r. refused_bucket r = Over_Cap) refused \<longrightarrow> length acted = night_total d))"

lemma night_so_far_step:
  assumes "night_so_far d cs acc"
  shows "night_so_far d (cs @ [c]) (night_step d acc c)"
proof -
  obtain acted refused admitted where acc: "acc = (acted, refused, admitted)" by (cases acc)
  show ?thesis
  proof (cases "night_read d (slug c)")
    case None
    with assms show ?thesis by (auto simp: acc night_so_far_def night_step_def refused_night_def)
  next
    case (Some full)
    with assms show ?thesis by (auto simp: acc night_so_far_def night_step_def refused_night_def card_to_nightshift_task_def)
  qed
qed

lemma night_fold: "night_so_far d cs (foldl (night_step d) ([], [], []) cs)"
  by (induction cs rule: rev_induct) (simp_all add: night_so_far_step, simp add: night_so_far_def)

interpretation night_scan: exact_scan "\<lambda>d. fst (scan_nightshift i d)" for i
proof
  show once: "mset (scan_selected (fst (scan_nightshift i d)))
      = mset (scan_acted (fst (scan_nightshift i d))) + mset (map refused_unit (scan_refused (fst (scan_nightshift i d))))" for d
    using night_fold [of d "tagged_cards i d"] by (auto simp: scan_nightshift_def night_so_far_def Let_def split: prod.splits)
  show "set (scan_selected (fst (scan_nightshift i d)))
      = set (scan_acted (fst (scan_nightshift i d))) \<union> set (map refused_unit (scan_refused (fst (scan_nightshift i d))))" for d
    using arg_cong [OF once [of d], of set_mset] by simp
qed

subsection \<open>The refiner\<close>

datatype refine_bucket =
    Refine_Not_Actionable | Refine_Live | Refine_Unspawnable | Refine_Already_Run | Refine_Held_Back | Order_Refused | Refine_Dispatch_Failed

definition REFINE_EPIC_ID :: string where
  "REFINE_EPIC_ID = ''refine''"

text \<open>
  What compiling the seat of a card answers, a refusal with its reason or a seat, and what the spawn of
  that seat answers, are arguments.
\<close>

record seat_scan_deps =
  scan_cards :: "card list"
  scan_convs :: "conversation list"
  scan_live :: "conversation \<Rightarrow> bool"
  scan_output :: "conversation \<Rightarrow> bool"
  scan_concurrency :: int
  scan_project :: string
  compile_refusal :: "card \<Rightarrow> string option"
  send_seat :: "card \<Rightarrow> send_result"

record refine_liveness =
  refine_live :: "string set"
  refine_settled :: "string set"
  refine_dead :: "string set"

definition REFUSAL_RULES :: "((card \<Rightarrow> refine_liveness \<Rightarrow> bool) \<times> refine_bucket \<times> (card \<Rightarrow> string)) list" where
  "REFUSAL_RULES =
     [(\<lambda>c _. epic_bucket (card_status c) \<noteq> Not_Started, Refine_Not_Actionable,
       \<lambda>c. ''tagged `'' @ NEEDS_REFINE_TAG @ ''` but sitting in `'' @ status_name (card_status c)
         @ ''` -- a werk-refiner rewrites a card nobody is building yet''),
      (\<lambda>c l. slug c \<in> refine_live l, Refine_Live, \<lambda>_. ''a werk-refiner is already working it''),
      (\<lambda>c l. slug c \<in> refine_dead l, Refine_Unspawnable, \<lambda>_. ''werk-refiner seats keep dying before producing anything; not retried''),
      (\<lambda>c l. slug c \<in> refine_settled l, Refine_Already_Run,
       \<lambda>_. ''a werk-refiner already ran for this card and the tag is still on -- re-tag it to re-authorise'')]"

definition triage_selected :: "card list \<Rightarrow> refine_liveness \<Rightarrow> card list \<times> refine_bucket refusal list" where
  "triage_selected selected l =
     foldl (\<lambda>(candidates, refused) c.
         case find (\<lambda>(claims, _, _). claims c l) REFUSAL_RULES of
           Some (_, b, detail) \<Rightarrow> (candidates, refused @ [\<lparr>refused_unit = slug c, refused_bucket = b, refused_detail = detail c\<rparr>])
         | None \<Rightarrow> (candidates @ [c], refused)) ([], []) selected"

definition compile_seats :: "seat_scan_deps \<Rightarrow> card list \<Rightarrow> (string \<times> send_result) list \<times> refine_bucket refusal list" where
  "compile_seats d candidates =
     foldl (\<lambda>(units, refused) c.
         case compile_refusal d c of
           None \<Rightarrow> (units @ [(slug c, send_seat d c)], refused)
         | Some e \<Rightarrow> (units, refused @ [\<lparr>refused_unit = slug c, refused_bucket = Order_Refused, refused_detail = e\<rparr>])) ([], []) candidates"

definition refine_idle_reason :: "nat \<Rightarrow> refine_bucket refusal list \<Rightarrow> string" where
  "refine_idle_reason n refused =
     (let count = (\<lambda>b. length (filter (\<lambda>r. refused_bucket r = b) refused))
      in if 0 < count Refine_Unspawnable then
           nat_str (count Refine_Unspawnable) @ '' card(s) whose werk-refiner seats keep dying before producing anything, no longer retried''
         else if 0 < count Refine_Already_Run then
           nat_str (count Refine_Already_Run) @ '' card(s) a werk-refiner already ran for, still tagged -- re-tag to re-authorise''
         else if 0 < count Refine_Held_Back then nat_str (count Refine_Held_Back) @ '' card(s) rough but held back by the werk-refiner ceiling''
         else nat_str n @ '' card(s) carry `'' @ NEEDS_REFINE_TAG @ ''`, none of them refinable right now'')"

definition refine_group :: "seat_scan_deps \<Rightarrow> epic_group" where
  "refine_group d = lane_group REFINE_EPIC_ID (scan_project d) (plain_env (scan_live d) (scan_output d)) (scan_convs d)"

definition scan_refine :: "seat_scan_deps \<Rightarrow> refine_bucket scan_outcome" where
  "scan_refine d =
     (let selected = filter (\<lambda>c. NEEDS_REFINE_TAG \<in> set (tags c)) (scan_cards d)
      in if selected = [] then
           \<lparr>scan_selected = [], scan_acted = [], scan_refused = [], scan_idle = Some (''no card carries `'' @ NEEDS_REFINE_TAG @ ''`'')\<rparr>
         else
           let g = refine_group d;
               (candidates, refused) = triage_selected selected
                 \<lparr>refine_live = set (group_in_flight g), refine_settled = set (settled g), refine_dead = set (EpicSweep.unlaunchable g)\<rparr>;
               slots = nat (max 0 (scan_concurrency d - int (length (group_in_flight g))));
               held = refuse_lane (drop slots candidates) Refine_Held_Back
                 (\<lambda>_. ''rough, but the werk-refiner ceiling ('' @ int_str (scan_concurrency d) @ '') is full'');
               (units, unordered) = compile_seats d (take slots candidates);
               (acted, refused', _) = dispatch_units ''[refine]'' Refine_Dispatch_Failed units [] (refused @ held @ unordered)
           in \<lparr>scan_selected = map slug selected, scan_acted = acted, scan_refused = refused',
               scan_idle = (if acted \<noteq> [] then None else Some (refine_idle_reason (length selected) refused'))\<rparr>)"

lemma triage_selected_mset:
  "triage_selected selected l = (candidates, refused)
    \<Longrightarrow> mset (map slug selected) = mset (map slug candidates) + mset (map refused_unit refused)"
proof -
  have fold: "(case foldl (\<lambda>(candidates, refused) c.
         case find (\<lambda>(claims, _, _). claims c l) REFUSAL_RULES of
           Some (_, b, detail) \<Rightarrow> (candidates, refused @ [\<lparr>refused_unit = slug c, refused_bucket = b, refused_detail = detail c\<rparr>])
         | None \<Rightarrow> (candidates @ [c], refused)) ([], []) selected of
      (candidates, refused) \<Rightarrow> mset (map slug selected) = mset (map slug candidates) + mset (map refused_unit refused))"
    by (induction selected rule: rev_induct) (auto split: option.splits)
  assume "triage_selected selected l = (candidates, refused)"
  with fold show ?thesis by (simp add: triage_selected_def)
qed

lemma compile_seats_mset:
  "compile_seats d candidates = (units, refused) \<Longrightarrow> mset (map slug candidates) = mset (map fst units) + mset (map refused_unit refused)"
proof -
  have fold: "(case foldl (\<lambda>(units, refused) c.
         case compile_refusal d c of
           None \<Rightarrow> (units @ [(slug c, send_seat d c)], refused)
         | Some e \<Rightarrow> (units, refused @ [\<lparr>refused_unit = slug c, refused_bucket = Order_Refused, refused_detail = e\<rparr>])) ([], []) candidates of
      (units, refused) \<Rightarrow> mset (map slug candidates) = mset (map fst units) + mset (map refused_unit refused))"
    by (induction candidates rule: rev_induct) (auto split: option.splits)
  assume "compile_seats d candidates = (units, refused)"
  with fold show ?thesis by (simp add: compile_seats_def)
qed

lemma scan_refine_once:
  "mset (scan_selected (scan_refine d)) = mset (scan_acted (scan_refine d)) + mset (map refused_unit (scan_refused (scan_refine d)))"
proof -
  define selected where "selected = filter (\<lambda>c. NEEDS_REFINE_TAG \<in> set (tags c)) (scan_cards d)"
  show ?thesis
  proof (cases "selected = []")
    case False
    let ?g = "refine_group d"
    let ?slots = "nat (max 0 (scan_concurrency d - int (length (group_in_flight ?g))))"
    let ?detail = "\<lambda>_. ''rough, but the werk-refiner ceiling ('' @ int_str (scan_concurrency d) @ '') is full''"
    obtain candidates refused where t: "triage_selected selected
        \<lparr>refine_live = set (group_in_flight ?g), refine_settled = set (settled ?g), refine_dead = set (EpicSweep.unlaunchable ?g)\<rparr> = (candidates, refused)"
      by (rule prod.exhaust)
    obtain units unordered where c: "compile_seats d (take ?slots candidates) = (units, unordered)" by (rule prod.exhaust)
    obtain acted refused' lines where
      x: "dispatch_units ''[refine]'' Refine_Dispatch_Failed units [] (refused @ refuse_lane (drop ?slots candidates) Refine_Held_Back ?detail @ unordered)
        = (acted, refused', lines)" by (rule prod_cases3)
    have "scan_selected (scan_refine d) = map slug selected" "scan_acted (scan_refine d) = acted" "scan_refused (scan_refine d) = refused'"
      unfolding scan_refine_def Let_def selected_def [symmetric] if_not_P [OF False] t c x prod.case by simp_all
    moreover have "mset (map slug candidates) = mset (map slug (take ?slots candidates)) + mset (map slug (drop ?slots candidates))"
      by (metis append_take_drop_id map_append mset_append)
    ultimately show ?thesis
      using triage_selected_mset [OF t] compile_seats_mset [OF c] dispatch_units_mset [OF x] by simp
  qed (simp add: scan_refine_def selected_def)
qed

interpretation refine_scan: exact_scan scan_refine
proof
  show "set (scan_selected (scan_refine d)) = set (scan_acted (scan_refine d)) \<union> set (map refused_unit (scan_refused (scan_refine d)))" for d
    using arg_cong [OF scan_refine_once [of d], of set_mset] by simp
qed (rule scan_refine_once)

subsection \<open>Work orders\<close>

datatype work_bucket =
    Epic_Owned | Work_Live | Work_Already_Run | Work_Held_Back | Waiting_On_Deps | Needs_Werk_Master | Work_Unspawnable | Awaiting_Verdict
  | Work_Not_Actionable | Work_Dispatch_Failed

definition READY_TAG :: string where
  "READY_TAG = ''ready''"

definition WORK_ORDER_EPIC_ID :: string where
  "WORK_ORDER_EPIC_ID = ''work-order''"

definition epic_owned :: "card list \<Rightarrow> card list" where
  "epic_owned cards = filter (\<lambda>c. epic c \<noteq> None) cards"

definition plan_refusals :: "epic_plan \<Rightarrow> work_bucket refusal list" where
  "plan_refusals p =
     refuse_lane (held_back p) Work_Held_Back (\<lambda>_. ''ready, but the work-order concurrency ceiling is full'')
     @ refuse_lane (map fst (waiting_on_deps p)) Waiting_On_Deps (\<lambda>c. ''waiting on '' @ comma (deps c))
     @ refuse_lane (questions p) Needs_Werk_Master (\<lambda>_. ''a question for the werk-master, not a unit of work'')
     @ refuse_lane (unspawnable p) Work_Unspawnable (\<lambda>_. ''seats keep dying before producing anything; not retried'')
     @ refuse_lane (verify p) Awaiting_Verdict (\<lambda>_. ''in review -- this scanner dispatches werk-workers only'')"

definition work_group :: "seat_scan_deps \<Rightarrow> epic_group" where
  "work_group d = lane_group WORK_ORDER_EPIC_ID (scan_project d) (plain_env (scan_live d) (scan_output d)) (scan_convs d)"

definition early_refusals :: "card list \<Rightarrow> epic_group \<Rightarrow> work_bucket refusal list" where
  "early_refusals selected g =
     (let owned = epic_owned selected; owned_ids = set (map slug owned); alive = set (group_in_flight g); ran = set (settled g)
      in refuse_lane owned Epic_Owned (\<lambda>c. ''belongs to epic `'' @ (case epic c of None \<Rightarrow> [] | Some e \<Rightarrow> e) @ ''` -- that run dispatches it'')
         @ refuse_lane (filter (\<lambda>c. slug c \<notin> owned_ids \<and> slug c \<in> alive) selected) Work_Live (\<lambda>_. ''a seat is already working it'')
         @ refuse_lane (filter (\<lambda>c. slug c \<notin> owned_ids \<and> slug c \<notin> alive \<and> slug c \<in> ran) selected) Work_Already_Run
             (\<lambda>_. ''a work-order seat already ran for this card; move it or drop `ready` to re-authorise''))"

definition work_plan_input :: "seat_scan_deps \<Rightarrow> epic_group \<Rightarrow> string set \<Rightarrow> tagged_plan_input" where
  "work_plan_input d g refused_ids =
     \<lparr>board_cards = scan_cards d, concurrency = scan_concurrency d, in_flight = group_in_flight g, in_verify = group_in_verify g,
      unspawnable_ids = Some (EpicSweep.unlaunchable g), dispatch_counts = None, settled_ids = None, capabilities = None, landings = None,
      cohort_tag = READY_TAG, exclude = Some refused_ids\<rparr>"

definition scan_work_orders :: "intl \<Rightarrow> seat_scan_deps \<Rightarrow> work_bucket scan_outcome" where
  "scan_work_orders i d =
     (let selected = filter (\<lambda>c. READY_TAG \<in> set (tags c)) (scan_cards d)
      in if selected = [] then
           \<lparr>scan_selected = [], scan_acted = [], scan_refused = [], scan_idle = Some (''no card carries `'' @ READY_TAG @ ''`'')\<rparr>
         else
           let g = work_group d;
               early = early_refusals selected g;
               p = plan_tagged i (work_plan_input d g (set (map refused_unit early)));
               (acted, refused, _) = dispatch_units ''[work-order]'' Work_Dispatch_Failed (map (\<lambda>c. (slug c, send_seat d c)) (dispatch p)) []
                 (early @ plan_refusals p);
               accounted = set (acted @ map refused_unit refused);
               rest = refuse_lane (filter (\<lambda>c. slug c \<notin> accounted) selected) Work_Not_Actionable
                 (\<lambda>c. ''tagged `'' @ READY_TAG @ ''` but sitting in `'' @ status_name (card_status c) @ ''`'')
           in \<lparr>scan_selected = map slug selected, scan_acted = acted, scan_refused = refused @ rest,
               scan_idle = (if acted \<noteq> [] then None
                 else case idle_reason p of Some r \<Rightarrow> Some r | None \<Rightarrow> Some (len_str selected @ '' card(s) selected, none ready''))\<rparr>)"

lemma plan_tagged_within:
  "set (dispatch (plan_tagged i input) @ held_back (plan_tagged i input) @ map fst (waiting_on_deps (plan_tagged i input))
      @ questions (plan_tagged i input) @ unspawnable (plan_tagged i input) @ verify (plan_tagged i input))
    \<subseteq> {c \<in> set (board_cards input). cohort_tag input \<in> set (tags c) \<and> (case exclude input of None \<Rightarrow> True | Some x \<Rightarrow> slug c \<notin> x)}"
proof -
  let ?kids = "map (\<lambda>c. to_epic_child c (done_card_ids (board_cards input)))
    (filter (\<lambda>c. \<not> (case exclude input of None \<Rightarrow> False | Some x \<Rightarrow> slug c \<in> x))
      (filter (\<lambda>c. cohort_tag input \<in> set (tags c)) (board_cards input)))"
  have kids: "child_card ` set ?kids
      \<subseteq> {c \<in> set (board_cards input). cohort_tag input \<in> set (tags c) \<and> (case exclude input of None \<Rightarrow> True | Some x \<Rightarrow> slug c \<notin> x)}"
    by (auto split: option.splits)
  have "set (dispatch p @ held_back p @ map fst (waiting_on_deps p) @ questions p @ unspawnable p @ verify p) \<subseteq> child_card ` set (cohort_children co)"
    if "p = fold_cohort i co input" for p co
  proof -
    have "set (dispatch p) \<union> set (held_back p) \<subseteq> child_card ` set (cohort_children co)"
      using fold_lanes(9) [of i co input] unfolding that set_append [symmetric] by (auto simp del: set_append)
    moreover have "set (map fst (waiting_on_deps p)) \<subseteq> child_card ` set (cohort_children co)"
      unfolding that fold_lanes by auto
    moreover have "set (questions p) \<union> set (unspawnable p) \<union> set (verify p) \<subseteq> child_card ` set (cohort_children co)"
      unfolding that fold_lanes by auto
    ultimately show ?thesis by auto
  qed
  note within = this [OF plan_tagged_def [unfolded Let_def], unfolded cohort.simps]
  show ?thesis by (rule order_trans [OF within kids])
qed

lemma dispatch_units_cover:
  assumes "dispatch_units tag failed units acted refused = (a, r, lines)"
  shows "set a \<union> refused_unit ` set r = set acted \<union> refused_unit ` set refused \<union> fst ` set units"
  using arg_cong [OF dispatch_units_mset [OF assms], of set_mset] by auto

lemma early_within: "refused_unit ` set (early_refusals selected g) \<subseteq> slug ` set selected"
proof -
  have "set (map refused_unit (early_refusals selected g)) \<subseteq> set (map slug selected)"
    by (auto simp: early_refusals_def Let_def epic_owned_def)
  then show ?thesis by simp
qed

lemma plan_refusals_units:
  "set (map refused_unit (plan_refusals p)) = set (map slug (held_back p @ map fst (waiting_on_deps p) @ questions p @ unspawnable p @ verify p))"
  by (simp add: plan_refusals_def)

interpretation work_scan: accounting_scan "scan_work_orders i" for i
proof
  fix d :: seat_scan_deps
  define selected where "selected = filter (\<lambda>c. READY_TAG \<in> set (tags c)) (scan_cards d)"
  show "set (scan_selected (scan_work_orders i d)) = set (scan_acted (scan_work_orders i d)) \<union> set (map refused_unit (scan_refused (scan_work_orders i d)))"
  proof (cases "selected = []")
    case False
    define early p where "early = early_refusals selected (work_group d)"
      and "p = plan_tagged i (work_plan_input d (work_group d) (set (map refused_unit early)))"
    obtain acted refused lines where
      x: "dispatch_units ''[work-order]'' Work_Dispatch_Failed (map (\<lambda>c. (slug c, send_seat d c)) (dispatch p)) [] (early @ plan_refusals p) = (acted, refused, lines)"
      by (rule prod_cases3)
    let ?rest = "refuse_lane (filter (\<lambda>c. slug c \<notin> set (acted @ map refused_unit refused)) selected) Work_Not_Actionable
      (\<lambda>c. ''tagged `'' @ READY_TAG @ ''` but sitting in `'' @ status_name (card_status c) @ ''`'')"
    have out: "scan_selected (scan_work_orders i d) = map slug selected" "scan_acted (scan_work_orders i d) = acted"
      "scan_refused (scan_work_orders i d) = refused @ ?rest"
      unfolding scan_work_orders_def Let_def selected_def [symmetric] if_not_P [OF False] early_def [symmetric] p_def [symmetric] x prod.case by simp_all
    have lanes: "set (dispatch p @ held_back p @ map fst (waiting_on_deps p) @ questions p @ unspawnable p @ verify p) \<subseteq> set selected"
      by (rule order_trans [OF plan_tagged_within [of i "work_plan_input d (work_group d) (set (map refused_unit early))", folded p_def]])
        (auto simp: selected_def work_plan_input_def)
    have units: "set acted \<union> refused_unit ` set refused
        = refused_unit ` set early \<union> slug ` set (dispatch p @ held_back p @ map fst (waiting_on_deps p) @ questions p @ unspawnable p @ verify p)"
      using dispatch_units_cover [OF x] plan_refusals_units [of p] unfolding set_map set_append image_Un by (auto simp: image_image)
    have "refused_unit ` set early \<subseteq> slug ` set selected" unfolding early_def by (rule early_within)
    with image_mono [OF lanes, of slug] have "set acted \<union> refused_unit ` set refused \<subseteq> slug ` set selected" unfolding units by blast
    moreover have "set (map refused_unit ?rest) = {s \<in> slug ` set selected. s \<notin> set acted \<union> refused_unit ` set refused}"
      unfolding refuse_lane_units by auto
    ultimately show ?thesis unfolding out map_append set_append set_map by blast
  qed (simp add: scan_work_orders_def selected_def)
qed

subsection \<open>What a pass promises\<close>

text \<open>
  C8: no scanner drops a card. Whatever the board, the seats and the answers to its spawns, every card a
  pass of the night run, of the refiner or of the work orders selected was acted on or refused with a
  name, nothing else was, and the runner logs no card as dropped; the night run and the refiner do it
  exactly once for each. The night run opens with at most its cap of tasks, numbered from one without a
  gap, and pushes a card out by the cap only when the cap is full.
\<close>

theorem every_selected_card_is_accounted:
  "let night = fst (scan_nightshift i n); refine = scan_refine d; work = scan_work_orders i w
   in snd (run_scan tag buckets (Ok night)) = [] \<and> snd (run_scan tag buckets' (Ok refine)) = [] \<and> snd (run_scan tag buckets'' (Ok work)) = []
     \<and> mset (scan_selected night) = mset (scan_acted night) + mset (map refused_unit (scan_refused night))
     \<and> mset (scan_selected refine) = mset (scan_acted refine) + mset (map refused_unit (scan_refused refine))
     \<and> set (scan_selected work) = set (scan_acted work) \<union> set (map refused_unit (scan_refused work))
     \<and> map item_id (snd (scan_nightshift i n)) = map (\<lambda>k. ordinal (k + 1)) [0..<length (scan_acted night)]
     \<and> length (scan_acted night) \<le> night_total n
     \<and> (if list_ex (\<lambda>r. refused_bucket r = Over_Cap) (scan_refused night) then length (scan_acted night) = night_total n else True)"
proof -
  have "map item_id (snd (scan_nightshift i n)) = map (\<lambda>k. ordinal (k + 1)) [0..<length (scan_acted (fst (scan_nightshift i n)))]
    \<and> length (scan_acted (fst (scan_nightshift i n))) \<le> night_total n
    \<and> (if list_ex (\<lambda>r. refused_bucket r = Over_Cap) (scan_refused (fst (scan_nightshift i n)))
       then length (scan_acted (fst (scan_nightshift i n))) = night_total n else True)"
    using night_fold [of n "tagged_cards i n"] by (auto simp: scan_nightshift_def night_so_far_def Let_def split: prod.splits)
  then show ?thesis
    unfolding Let_def using night_scan.quiet refine_scan.quiet work_scan.quiet night_scan.once refine_scan.once work_scan.covers by simp
qed

text \<open>The card is settled in the lane of the refiner: it had a seat, none is live, one produced something.\<close>

lemma settled_in_lane:
  assumes "list_ex (scan_output d) (seats_on (scan_convs d) REFINE_EPIC_ID c)" "\<not> list_ex (scan_live d) (seats_on (scan_convs d) REFINE_EPIC_ID c)"
  shows "c \<in> set (settled (refine_group d)) \<and> c \<notin> set (group_in_flight (refine_group d)) \<and> c \<notin> set (EpicSweep.unlaunchable (refine_group d))"
proof -
  let ?env = "plain_env (scan_live d) (scan_output d)"
  have env: "live_seat ?env v \<longleftrightarrow> scan_live d v" "produced_output ?env v \<longleftrightarrow> scan_output d v" for v
    by (simp_all add: live_seat_def plain_env_def)
  have ne: "seats_on (scan_convs d) REFINE_EPIC_ID c \<noteq> []" using assms(1) by auto
  then have "filter (\<lambda>v. epic_of v = Some REFINE_EPIC_ID) (scan_convs d) \<noteq> []" by (auto simp: seats_on_def filter_empty_conv)
  with lanes_of_seats [where env = ?env and convs = "scan_convs d" and e = REFINE_EPIC_ID] obtain g where
    g: "map_of (group_epic_conversations ?env (scan_convs d)) REFINE_EPIC_ID = Some g"
    and lanes: "is_lane (group_in_flight g) {c. list_ex (live_seat ?env) (seats_on (scan_convs d) REFINE_EPIC_ID c)}"
      "is_lane (settled g) {c. seats_on (scan_convs d) REFINE_EPIC_ID c \<noteq> [] \<and> \<not> list_ex (live_seat ?env) (seats_on (scan_convs d) REFINE_EPIC_ID c)
        \<and> list_ex (produced_output ?env) (seats_on (scan_convs d) REFINE_EPIC_ID c)}"
      "is_lane (EpicSweep.unlaunchable g) {c. \<not> list_ex (live_seat ?env) (seats_on (scan_convs d) REFINE_EPIC_ID c)
        \<and> \<not> list_ex (produced_output ?env) (seats_on (scan_convs d) REFINE_EPIC_ID c) \<and> 3 \<le> length (seats_on (scan_convs d) REFINE_EPIC_ID c)}"
    by (auto simp: Let_def split: option.splits)
  have "live_seat ?env = scan_live d" "produced_output ?env = scan_output d" by (simp_all add: env fun_eq_iff)
  with lanes assms ne show ?thesis by (simp add: refine_group_def lane_group_def g is_lane_def)
qed

lemma triage_candidates:
  "c \<in> set (fst (triage_selected selected l)) \<longleftrightarrow> c \<in> set selected \<and> find (\<lambda>(claims, _, _). claims c l) REFUSAL_RULES = None"
  "r \<in> set (snd (triage_selected selected l)) \<longleftrightarrow> (\<exists>c b detail claims. c \<in> set selected
     \<and> find (\<lambda>(claims, _, _). claims c l) REFUSAL_RULES = Some (claims, b, detail) \<and> r = \<lparr>refused_unit = slug c, refused_bucket = b, refused_detail = detail c\<rparr>)"
  unfolding triage_selected_def by (induction selected rule: rev_induct) (auto split: option.split prod.split)

lemma dispatch_units_within:
  "dispatch_units tag failed units acted refused = (a, r, lines) \<Longrightarrow> set a \<subseteq> set acted \<union> fst ` set units \<and> set refused \<subseteq> set r"
proof (induction units arbitrary: a r lines rule: rev_induct)
  case (snoc x units)
  obtain u res where x: "x = (u, res)" by (cases x)
  obtain a' r' lines' where before: "dispatch_units tag failed units acted refused = (a', r', lines')" by (rule prod_cases3)
  from snoc.prems before snoc.IH [OF before] show ?case
    by (auto simp: dispatch_units_def dispatch_step_def x Let_def split: send_result.splits)
qed (simp add: dispatch_units_def)

lemma compile_seats_within: "fst ` set (fst (compile_seats d candidates)) \<subseteq> slug ` set candidates"
proof -
  obtain units refused where c: "compile_seats d candidates = (units, refused)" by (rule prod.exhaust)
  from arg_cong [OF compile_seats_mset [OF c], of set_mset] show ?thesis by (auto simp: c)
qed

text \<open>
  C36: re-tagging a card authorises nothing. Once a refiner of a card has ended having produced anything,
  the card is refused as already run at every later pass while no seat on it is live, with the advice to
  re-tag it: what was done to the board in between, tag off and on again included, is no part of the
  answer, because only the conversations are asked, and they are kept.
\<close>

theorem retagging_authorises_nothing:
  assumes "list_ex (scan_output d) (seats_on (scan_convs d) REFINE_EPIC_ID (slug c))"
    and "\<not> list_ex (scan_live d) (seats_on (scan_convs d) REFINE_EPIC_ID (slug c))"
    and "c \<in> set board" "NEEDS_REFINE_TAG \<in> set (tags c)" "epic_bucket (card_status c) = Not_Started"
  shows "let pass = scan_refine (d\<lparr>scan_cards := board\<rparr>)
    in slug c \<notin> set (scan_acted pass)
      \<and> \<lparr>refused_unit = slug c, refused_bucket = Refine_Already_Run,
          refused_detail = ''a werk-refiner already ran for this card and the tag is still on -- re-tag it to re-authorise''\<rparr> \<in> set (scan_refused pass)"
proof -
  let ?d = "d\<lparr>scan_cards := board\<rparr>"
  define selected where "selected = filter (\<lambda>c. NEEDS_REFINE_TAG \<in> set (tags c)) (scan_cards ?d)"
  have c: "c \<in> set selected" using assms(3,4) by (simp add: selected_def)
  then have ne: "selected \<noteq> []" by auto
  let ?g = "refine_group ?d"
  let ?l = "\<lparr>refine_live = set (group_in_flight ?g), refine_settled = set (settled ?g), refine_dead = set (EpicSweep.unlaunchable ?g)\<rparr>"
  let ?slots = "nat (max 0 (scan_concurrency ?d - int (length (group_in_flight ?g))))"
  let ?detail = "\<lambda>_. ''rough, but the werk-refiner ceiling ('' @ int_str (scan_concurrency ?d) @ '') is full''"
  have lane: "slug c \<in> refine_settled ?l" "slug c \<notin> refine_live ?l" "slug c \<notin> refine_dead ?l"
    using settled_in_lane [of ?d "slug c"] assms(1,2) by simp_all
  obtain candidates refused where t: "triage_selected selected ?l = (candidates, refused)" by (rule prod.exhaust)
  obtain units unordered where comp: "compile_seats ?d (take ?slots candidates) = (units, unordered)" by (rule prod.exhaust)
  obtain acted refused' lines where
    x: "dispatch_units ''[refine]'' Refine_Dispatch_Failed units [] (refused @ refuse_lane (drop ?slots candidates) Refine_Held_Back ?detail @ unordered)
      = (acted, refused', lines)" by (rule prod_cases3)
  have out: "scan_acted (scan_refine ?d) = acted" "scan_refused (scan_refine ?d) = refused'"
    unfolding scan_refine_def Let_def selected_def [symmetric] if_not_P [OF ne] t comp x prod.case by simp_all
  have claimed: "find (\<lambda>(claims, _, _). claims e ?l) REFUSAL_RULES \<noteq> None" if "slug e = slug c" for e
    using lane that by (simp add: REFUSAL_RULES_def)
  have "slug c \<notin> slug ` set candidates" using claimed triage_candidates(1) [of _ selected ?l] t by force
  moreover have "fst ` set units \<subseteq> slug ` set candidates"
    using order_trans [OF compile_seats_within [of ?d "take ?slots candidates"] image_mono [OF set_take_subset]] unfolding comp fst_conv .
  moreover have "set acted \<subseteq> fst ` set units" "set (refused @ refuse_lane (drop ?slots candidates) Refine_Held_Back ?detail @ unordered) \<subseteq> set refused'"
    using dispatch_units_within [OF x] by simp_all
  ultimately have "slug c \<notin> set acted" and kept: "set refused \<subseteq> set refused'"
    unfolding set_append by blast+
  have "\<lparr>refused_unit = slug c, refused_bucket = Refine_Already_Run,
      refused_detail = ''a werk-refiner already ran for this card and the tag is still on -- re-tag it to re-authorise''\<rparr> \<in> set refused"
    using triage_candidates(2) [of _ selected ?l] t c lane assms(5) by (force simp: REFUSAL_RULES_def)
  with kept \<open>slug c \<notin> set acted\<close> show ?thesis unfolding out Let_def by blast
qed

text \<open>A board of one card, refined once, its tag still on.\<close>

definition sample_rough :: card where
  "sample_rough = (hd sample_board)\<lparr>card_status := Open, tags := [NEEDS_REFINE_TAG]\<rparr>"

definition sample_refined :: seat_scan_deps where
  "sample_refined =
     \<lparr>scan_cards = [], scan_convs =
        [\<lparr>conv_id = ''v'', conv_project = ''p'', conv_status = ''ended'', last_activity = 0, agent_host_type = None,
          conv_tag = Some \<lparr>launch_epic = REFINE_EPIC_ID, launch_role = Werk_Worker, launch_card = Some (slug sample_rough), launch_gen = 0\<rparr>\<rparr>],
      scan_live = (\<lambda>_. False), scan_output = (\<lambda>_. True), scan_concurrency = 1, scan_project = ''p'', compile_refusal = (\<lambda>_. None),
      send_seat = (\<lambda>_. Sent)\<rparr>"

theorem retagging_authorises_nothing_witness:
  "slug sample_rough \<notin> set (scan_acted (scan_refine (sample_refined\<lparr>scan_cards := [sample_rough]\<rparr>)))"
proof -
  have "list_ex (scan_output sample_refined) (seats_on (scan_convs sample_refined) REFINE_EPIC_ID (slug sample_rough))"
    "\<not> list_ex (scan_live sample_refined) (seats_on (scan_convs sample_refined) REFINE_EPIC_ID (slug sample_rough))"
    "NEEDS_REFINE_TAG \<in> set (tags sample_rough)" "epic_bucket (card_status sample_rough) = Not_Started" by code_simp+
  from retagging_authorises_nothing [OF this(1,2) _ this(3,4), of "[sample_rough]"] show ?thesis by (simp add: Let_def)
qed

end
