(* ===== verification/Capacity.thy ===== *)
theory Capacity
  imports EpicHeadroom
begin

section \<open>Capacity admission\<close>

text \<open>
  \<open>src/broker/capacity-floor.ts\<close>, \<open>capacity-math.ts\<close>, \<open>capacity-decision.ts\<close>, \<open>capacity-ledger.ts\<close>,
  \<open>capacity-recovery.ts\<close> and the oracle of \<open>capacity-wiring.ts\<close>: every unattended dispatch reserves an
  estimate of its tokens on the emptiest profile, so that dispatches in parallel do not overshoot the
  gate of the five-hour window together. Amounts are exact rationals: a double rounds a sum of tokens
  that is not integral, the model does not. The random id of a decision is left out.
\<close>

subsection \<open>The floor\<close>

record capacity_floor =
  base_floor_fraction :: rat
  morning_ramp_multiplier :: rat
  ramp_hours :: rat

definition DEFAULT_CAPACITY_FLOOR :: capacity_floor where
  "DEFAULT_CAPACITY_FLOOR = \<lparr>base_floor_fraction = 1 / 10, morning_ramp_multiplier = 2, ramp_hours = 2\<rparr>"

abbreviation (input) HOUR_MS :: rat where "HOUR_MS \<equiv> 3600000"

definition clamp_fraction :: "rat \<Rightarrow> rat" where
  "clamp_fraction f = (if f \<le> 0 then 0 else min (95 / 100) f)"

definition time_aware_floor_fraction :: "capacity_floor \<Rightarrow> int \<Rightarrow> int option \<Rightarrow> rat" where
  "time_aware_floor_fraction cfg now window_end =
     (let base = clamp_fraction (base_floor_fraction cfg)
      in case window_end of
           None \<Rightarrow> base
         | Some e \<Rightarrow>
             if ramp_hours cfg \<le> 0 \<or> morning_ramp_multiplier cfg \<le> 1 then base
             else
               let peak = clamp_fraction (base * morning_ramp_multiplier cfg); ramp_ms = ramp_hours cfg * HOUR_MS; ms_left = of_int (e - now)
               in if ramp_ms \<le> ms_left then base
                  else if ms_left \<le> 0 then peak
                  else base + (peak - base) * ((ramp_ms - ms_left) / ramp_ms))"

subsection \<open>Headroom\<close>

record capacity_config =
  capacity_enabled :: bool
  window_token_budget :: rat
  default_estimate_tokens :: rat
  floor_config :: capacity_floor

definition DEFAULT_CAPACITY_CONFIG :: capacity_config where
  "DEFAULT_CAPACITY_CONFIG =
     \<lparr>capacity_enabled = False, window_token_budget = 10000000, default_estimate_tokens = 50000, floor_config = DEFAULT_CAPACITY_FLOOR\<rparr>"

text \<open>A percentage that is not a finite number is \<open>None\<close>.\<close>

record headroom_reading =
  oracle_pct :: "rat option"
  reset_at_ms :: "int option"

type_synonym headroom_oracle = "string \<Rightarrow> headroom_reading option"

record headroom =
  room_tokens :: rat
  room_pct :: "rat option"

definition clamp_pct :: "rat option \<Rightarrow> rat" where
  "clamp_pct p = (case p of None \<Rightarrow> 100 | Some x \<Rightarrow> max 0 (min 100 x))"

definition headroom_tokens :: "capacity_config \<Rightarrow> headroom_oracle \<Rightarrow> string \<Rightarrow> headroom" where
  "headroom_tokens cfg orc p =
     (case orc p of
        None \<Rightarrow> \<lparr>room_tokens = 0, room_pct = None\<rparr>
      | Some reading \<Rightarrow>
          let pct = clamp_pct (oracle_pct reading); room = max 0 (GATE_FIVE_HOUR_PCT - pct)
          in \<lparr>room_tokens = window_token_budget cfg * room / 100, room_pct = Some pct\<rparr>)"

definition floor_tokens :: "capacity_config \<Rightarrow> int \<Rightarrow> int option \<Rightarrow> rat" where
  "floor_tokens cfg now window_end = window_token_budget cfg * time_aware_floor_fraction (floor_config cfg) now window_end"

definition available_tokens :: "capacity_config \<Rightarrow> headroom_oracle \<Rightarrow> string \<Rightarrow> rat \<Rightarrow> int \<Rightarrow> int option \<Rightarrow> headroom" where
  "available_tokens cfg orc p outstanding now window_end =
     (let h = headroom_tokens cfg orc p; avail = room_tokens h - outstanding - floor_tokens cfg now window_end
      in \<lparr>room_tokens = max 0 avail, room_pct = room_pct h\<rparr>)"

definition or_default :: "string list \<Rightarrow> string list" where
  "or_default candidates = (if candidates = [] then [''default''] else candidates)"

definition pick_best ::
  "capacity_config \<Rightarrow> headroom_oracle \<Rightarrow> string list \<Rightarrow> (string \<Rightarrow> rat) \<Rightarrow> int \<Rightarrow> int option \<Rightarrow> string \<times> headroom" where
  "pick_best cfg orc candidates outstanding_for now window_end =
     (let profiles = or_default candidates; avail = (\<lambda>p. available_tokens cfg orc p (outstanding_for p) now window_end)
      in foldl (\<lambda>(best, best_avail) p. let a = avail p in if room_tokens best_avail < room_tokens a then (p, a) else (best, best_avail))
           (hd profiles, avail (hd profiles)) (tl profiles))"

definition compute_sleep :: "headroom_oracle \<Rightarrow> string list \<Rightarrow> int option" where
  "compute_sleep orc candidates =
     foldl (\<lambda>earliest p.
         case Option.bind (orc p) reset_at_ms of
           None \<Rightarrow> earliest
         | Some r \<Rightarrow> (case earliest of None \<Rightarrow> Some r | Some e \<Rightarrow> if r < e then Some r else Some e)) None candidates"

subsection \<open>Decisions\<close>

datatype capacity_verdict = Cap_Reserve | Cap_Settle | Cap_Deny | Cap_Sleep | Cap_Starve

record task_ctx =
  ctx_project :: string
  ctx_run :: string
  ctx_task :: string

record capacity_decision =
  cap_ctx :: task_ctx
  cap_profile :: string
  cap_verdict :: capacity_verdict
  cap_at :: int
  cap_reason :: string
  cap_estimate :: "rat option"
  cap_headroom :: "int option"
  cap_outstanding :: "int option"
  cap_floor :: "int option"
  cap_available :: "int option"
  cap_pct :: "int option"
  cap_sleep :: "int option"

text \<open>\<open>Math.round(n).toLocaleString('en-US')\<close>: groups of three digits from the right.\<close>

fun group_thousands :: "string \<Rightarrow> string" where
  "group_thousands (a # b # c # d # ds) = a # b # c # CHR '','' # group_thousands (d # ds)"
| "group_thousands ds = ds"

definition fmt :: "rat \<Rightarrow> string" where
  "fmt n = (let r = math_round n; ds = rev (group_thousands (rev (nat_str (nat \<bar>r\<bar>)))) in if r < 0 then CHR ''-'' # ds else ds)"

subsection \<open>The ledger\<close>

record reservation =
  res_profile :: string
  res_tokens :: rat
  res_at :: int
  res_ctx :: task_ctx

record capacity_ledger =
  reservations :: "(string \<times> reservation) list"
  emitted :: "capacity_decision list"

definition empty_ledger :: capacity_ledger where
  "empty_ledger = \<lparr>reservations = [], emitted = []\<rparr>"

definition record_decision :: "capacity_decision \<Rightarrow> capacity_ledger \<Rightarrow> capacity_ledger" where
  "record_decision d l = l\<lparr>emitted := emitted l @ [d]\<rparr>"

definition outstanding_tokens :: "capacity_ledger \<Rightarrow> string \<Rightarrow> rat" where
  "outstanding_tokens l p = sum_list (map (res_tokens \<circ> snd) (filter (\<lambda>x. res_profile (snd x) = p) (reservations l)))"

record reserve_terms =
  term_headroom :: rat
  term_outstanding :: rat
  term_floor :: rat
  term_available :: rat
  term_pct :: "rat option"

definition reserve_internal ::
  "task_ctx \<Rightarrow> string \<Rightarrow> rat \<Rightarrow> string \<Rightarrow> int \<Rightarrow> reserve_terms option \<Rightarrow> string option \<Rightarrow> capacity_ledger \<Rightarrow> capacity_ledger" where
  "reserve_internal ctx p est ref now terms reason l =
     record_decision
       \<lparr>cap_ctx = ctx, cap_profile = p, cap_verdict = Cap_Reserve, cap_at = now,
        cap_reason = (case reason of Some r \<Rightarrow> r | None \<Rightarrow> ''reserve '' @ fmt est @ '' tok on '' @ p @ '' ('' @ ref @ '')''),
        cap_estimate = Some est, cap_headroom = map_option (math_round \<circ> term_headroom) terms,
        cap_outstanding = map_option (math_round \<circ> term_outstanding) terms, cap_floor = map_option (math_round \<circ> term_floor) terms,
        cap_available = map_option (math_round \<circ> term_available) terms, cap_pct = map_option math_round (Option.bind terms term_pct),
        cap_sleep = None\<rparr>
       (l\<lparr>reservations := AList.update ref \<lparr>res_profile = p, res_tokens = est, res_at = now, res_ctx = ctx\<rparr> (reservations l)\<rparr>)"

definition reserve :: "task_ctx \<Rightarrow> string \<Rightarrow> rat \<Rightarrow> string \<Rightarrow> string option \<Rightarrow> int \<Rightarrow> capacity_ledger \<Rightarrow> capacity_ledger" where
  "reserve ctx p est ref reason now = reserve_internal ctx p est ref now None reason"

record admit_result =
  admitted_on :: "string option"
  sleep_until :: "int option"

definition best_for :: "capacity_config \<Rightarrow> headroom_oracle \<Rightarrow> string list \<Rightarrow> int \<Rightarrow> int option \<Rightarrow> capacity_ledger \<Rightarrow> string \<times> headroom" where
  "best_for cfg orc candidates now window_end l = pick_best cfg orc candidates (outstanding_tokens l) now window_end"

definition admit_best ::
  "capacity_config \<Rightarrow> headroom_oracle \<Rightarrow> task_ctx \<Rightarrow> string list \<Rightarrow> rat \<Rightarrow> string \<Rightarrow> int \<Rightarrow> int option \<Rightarrow> capacity_ledger
    \<Rightarrow> admit_result \<times> capacity_ledger" where
  "admit_best cfg orc ctx candidates est ref now window_end l =
     (let (best, avail) = best_for cfg orc candidates now window_end l;
          flr = floor_tokens cfg now window_end;
          outstanding = outstanding_tokens l best;
          room = headroom_tokens cfg orc best
      in if est \<le> room_tokens avail then
           (\<lparr>admitted_on = Some best, sleep_until = None\<rparr>,
            reserve_internal ctx best est ref now
              (Some \<lparr>term_headroom = room_tokens room, term_outstanding = outstanding, term_floor = flr, term_available = room_tokens avail,
                 term_pct = room_pct avail\<rparr>) None l)
         else
           let wake = compute_sleep orc (or_default candidates)
           in (\<lparr>admitted_on = None, sleep_until = wake\<rparr>,
               record_decision
                 \<lparr>cap_ctx = ctx, cap_profile = best, cap_verdict = Cap_Deny, cap_at = now,
                  cap_reason = ''deny: need '' @ fmt est @ '' tok, only '' @ fmt (room_tokens avail) @ '' available on '' @ best
                    @ '' (headroom '' @ fmt (room_tokens room) @ '' - outstanding '' @ fmt outstanding @ '' - floor '' @ fmt flr @ '')''
                    @ (case wake of None \<Rightarrow> [] | Some w \<Rightarrow> if w = 0 then [] else ''; wake at '' @ to_iso w),
                  cap_estimate = Some est, cap_headroom = Some (math_round (room_tokens room)),
                  cap_outstanding = Some (math_round outstanding), cap_floor = Some (math_round flr),
                  cap_available = Some (math_round (room_tokens avail)), cap_pct = map_option math_round (room_pct avail), cap_sleep = wake\<rparr> l))"

definition settle :: "string \<Rightarrow> rat option \<Rightarrow> int \<Rightarrow> capacity_ledger \<Rightarrow> capacity_ledger" where
  "settle ref actual now l =
     (case map_of (reservations l) ref of
        None \<Rightarrow> l
      | Some r \<Rightarrow>
          record_decision
            \<lparr>cap_ctx = res_ctx r, cap_profile = res_profile r, cap_verdict = Cap_Settle, cap_at = now,
             cap_reason = ''settle '' @ ref @ '' on '' @ res_profile r @ '': reserved '' @ fmt (res_tokens r) @ '' tok, actual ''
               @ (case actual of None \<Rightarrow> ''unknown'' | Some a \<Rightarrow> fmt a @ '' tok''),
             cap_estimate = Some (case actual of Some a \<Rightarrow> a | None \<Rightarrow> res_tokens r), cap_headroom = None, cap_outstanding = None,
             cap_floor = None, cap_available = None, cap_pct = None, cap_sleep = None\<rparr>
            (l\<lparr>reservations := AList.delete ref (reservations l)\<rparr>))"

definition starve ::
  "capacity_config \<Rightarrow> headroom_oracle \<Rightarrow> task_ctx \<Rightarrow> string list \<Rightarrow> rat \<Rightarrow> int \<Rightarrow> int option \<Rightarrow> capacity_ledger \<Rightarrow> string \<times> capacity_ledger" where
  "starve cfg orc ctx candidates est now window_end l =
     (let (p, avail) = best_for cfg orc candidates now window_end l;
          flr = floor_tokens cfg now window_end;
          reason = ''capacity: needed '' @ fmt est @ '' tok, only '' @ fmt (room_tokens avail) @ '' available on '' @ p
            @ '' (floor '' @ fmt flr @ '' reserved)''
      in (reason,
          record_decision
            \<lparr>cap_ctx = ctx, cap_profile = p, cap_verdict = Cap_Starve, cap_at = now, cap_reason = reason, cap_estimate = Some est,
             cap_headroom = None, cap_outstanding = None, cap_floor = Some (math_round flr),
             cap_available = Some (math_round (room_tokens avail)), cap_pct = map_option math_round (room_pct avail), cap_sleep = None\<rparr> l))"

subsection \<open>A restart, and the oracle\<close>

record inflight_conv =
  inflight_id :: string
  inflight_project :: string
  resolved_profile :: "string option"
  used_tokens :: rat
  inflight_run :: string
  inflight_task :: string

definition reconstruct_ledger :: "capacity_config \<Rightarrow> int \<Rightarrow> inflight_conv list \<Rightarrow> capacity_ledger \<Rightarrow> capacity_ledger" where
  "reconstruct_ledger cfg now convs l =
     foldl (\<lambda>l c.
         let p = (case resolved_profile c of None \<Rightarrow> ''default'' | Some p \<Rightarrow> p); est = max (default_estimate_tokens cfg) (used_tokens c)
         in reserve \<lparr>ctx_project = inflight_project c, ctx_run = inflight_run c, ctx_task = inflight_task c\<rparr> p est
              (inflight_run c @ '':'' @ inflight_task c)
              (Some (''reconstruct after restart: '' @ take 8 (inflight_id c) @ '' on '' @ p @ '' ('' @ fmt est @ '' tok in flight)'')) now l)
       l convs"

abbreviation (input) ORACLE_STALE_MS :: int where "ORACLE_STALE_MS \<equiv> 900000"

definition reading_from :: "profile_usage_snapshot option \<Rightarrow> headroom_reading option" where
  "reading_from snap =
     (case snap of
        None \<Rightarrow> None
      | Some s \<Rightarrow>
          if snap_error s \<or> snap_stale s = Some True then None
          else case five_hour s of
            None \<Rightarrow> None
          | Some w \<Rightarrow> Some \<lparr>oracle_pct = Some (used_percent w), reset_at_ms = date_parse (reset_at w)\<rparr>)"

text \<open>The polled usage of each connected sentinel, in order, with the moment it was polled.\<close>

fun build_oracle :: "int \<Rightarrow> (int \<times> profile_usage_snapshot list) option list \<Rightarrow> headroom_oracle" where
  "build_oracle now [] p = None"
| "build_oracle now (None # us) p = build_oracle now us p"
| "build_oracle now (Some (polled_at, snaps) # us) p =
     (if ORACLE_STALE_MS < now - polled_at then build_oracle now us p
      else case reading_from (find (\<lambda>s. snap_profile s = p) snaps) of
        Some reading \<Rightarrow> Some reading
      | None \<Rightarrow> build_oracle now us p)"

subsection \<open>What is reserved\<close>

lemma floor_fraction_bounds: "0 \<le> time_aware_floor_fraction cfg now e" "time_aware_floor_fraction cfg now e \<le> 95 / 100"
proof -
  have clamp: "0 \<le> clamp_fraction f" "clamp_fraction f \<le> 95 / 100" for f
    using min.cobounded1 [of "95 / 100" f] by (auto simp: clamp_fraction_def)
  have between: "0 \<le> a + (b - a) * t \<and> a + (b - a) * t \<le> c"
    if "0 \<le> a" "a \<le> c" "0 \<le> b" "b \<le> c" "0 \<le> t" "t \<le> 1" for a b c t :: rat
  proof -
    have "(1 - t) * a \<le> (1 - t) * c" "t * b \<le> t * c" "0 \<le> (1 - t) * a" "0 \<le> t * b"
      using that by (auto intro: mult_left_mono)
    then show ?thesis by (simp add: algebra_simps)
  qed
  define base peak ramp where "base = clamp_fraction (base_floor_fraction cfg)"
    and "peak = clamp_fraction (base * morning_ramp_multiplier cfg)" and "ramp = ramp_hours cfg * HOUR_MS"
  have inner: "0 \<le> base + (peak - base) * ((ramp - left) / ramp) \<and> base + (peak - base) * ((ramp - left) / ramp) \<le> 95 / 100"
    if "0 < left" "left < ramp" for left
    by (rule between) (use that clamp in \<open>simp_all add: base_def peak_def\<close>)
  show "0 \<le> time_aware_floor_fraction cfg now e" "time_aware_floor_fraction cfg now e \<le> 95 / 100"
    unfolding time_aware_floor_fraction_def Let_def base_def [symmetric] peak_def [symmetric] ramp_def [symmetric]
    using clamp inner by (auto simp: base_def peak_def split: option.split)
qed

definition reservations_nonneg :: "capacity_ledger \<Rightarrow> bool" where
  "reservations_nonneg l \<longleftrightarrow> list_all (\<lambda>x. 0 \<le> res_tokens (snd x)) (reservations l)"

definition profile_sum :: "(string \<times> reservation) list \<Rightarrow> string \<Rightarrow> rat" where
  "profile_sum m p = sum_list (map (res_tokens \<circ> snd) (filter (\<lambda>x. res_profile (snd x) = p) m))"

lemma profile_sum_simps [simp]:
  "profile_sum [] p = 0" "profile_sum (x # m) p = (if res_profile (snd x) = p then res_tokens (snd x) else 0) + profile_sum m p"
  by (simp_all add: profile_sum_def)

lemma outstanding_sum: "outstanding_tokens l p = profile_sum (reservations l) p"
  by (simp add: outstanding_tokens_def profile_sum_def)

lemma profile_sum_update:
  "list_all (\<lambda>x. 0 \<le> res_tokens (snd x)) m \<Longrightarrow> 0 \<le> res_tokens r
    \<Longrightarrow> profile_sum (AList.update ref r m) p \<le> profile_sum m p + (if res_profile r = p then res_tokens r else 0)
      \<and> list_all (\<lambda>x. 0 \<le> res_tokens (snd x)) (AList.update ref r m)"
  by (induction m) auto

lemma profile_sum_delete:
  "list_all (\<lambda>x. 0 \<le> res_tokens (snd x)) m
    \<Longrightarrow> profile_sum (AList.delete ref m) p \<le> profile_sum m p \<and> list_all (\<lambda>x. 0 \<le> res_tokens (snd x)) (AList.delete ref m)"
  by (induction m) (auto simp: AList.delete_eq)

lemma reservations_of [simp]:
  "reservations (record_decision d l) = reservations l"
  "reservations (reserve_internal ctx p est ref now terms reason l) = AList.update ref \<lparr>res_profile = p, res_tokens = est, res_at = now, res_ctx = ctx\<rparr> (reservations l)"
  "reservations (settle ref actual now l) = AList.delete ref (reservations l)"
  "reservations (snd (starve cfg orc ctx candidates est now e l)) = reservations l"
  by (auto simp: record_decision_def reserve_internal_def settle_def starve_def map_of_eq_None_iff delete_id case_prod_beta Let_def
    split: option.split)

text \<open>The best candidate: one of them, and none has more.\<close>

lemma pick_best_best:
  assumes "pick_best cfg orc candidates out now e = (p, a)"
  shows "p \<in> set (or_default candidates)" "a = available_tokens cfg orc p (out p) now e"
    "list_all (\<lambda>q. room_tokens (available_tokens cfg orc q (out q) now e) \<le> room_tokens a) (or_default candidates)"
proof -
  let ?av = "\<lambda>p. available_tokens cfg orc p (out p) now e"
  let ?step = "\<lambda>(best, best_avail) p. let a = ?av p in if room_tokens best_avail < room_tokens a then (p, a) else (best, best_avail)"
  have fold: "(case foldl ?step (b, ?av b) ps of (p, a) \<Rightarrow>
      p \<in> set (b # ps) \<and> a = ?av p \<and> list_all (\<lambda>q. room_tokens (?av q) \<le> room_tokens a) (b # ps))" for b ps
  proof (induction ps arbitrary: b)
    case (Cons x ps)
    from Cons.IH [of b] Cons.IH [of x] show ?case by (auto simp: Let_def)
  qed simp
  obtain b ps where "or_default candidates = b # ps" by (cases "or_default candidates") (auto simp: or_default_def split: if_splits)
  with fold [of b ps] assms
  have "p \<in> set (or_default candidates) \<and> a = ?av p \<and> list_all (\<lambda>q. room_tokens (?av q) \<le> room_tokens a) (or_default candidates)"
    by (auto simp: pick_best_def)
  then show "p \<in> set (or_default candidates)" "a = ?av p" "list_all (\<lambda>q. room_tokens (?av q) \<le> room_tokens a) (or_default candidates)"
    by auto
qed

text \<open>What an admission decides, and what it leaves reserved.\<close>

lemma admit_best_cases:
  fixes l :: capacity_ledger and cfg orc now e
  defines "avail q \<equiv> room_tokens (available_tokens cfg orc q (outstanding_tokens l q) now e)"
  assumes "admit_best cfg orc ctx candidates est ref now e l = (res, l')"
  shows "case admitted_on res of
      Some p \<Rightarrow> p \<in> set (or_default candidates) \<and> est \<le> avail p \<and> list_all (\<lambda>q. avail q \<le> avail p) (or_default candidates)
        \<and> reservations l' = AList.update ref \<lparr>res_profile = p, res_tokens = est, res_at = now, res_ctx = ctx\<rparr> (reservations l)
    | None \<Rightarrow> reservations l' = reservations l \<and> list_all (\<lambda>q. avail q < est) (or_default candidates)
        \<and> sleep_until res = compute_sleep orc (or_default candidates)"
proof -
  obtain p a where best: "best_for cfg orc candidates now e l = (p, a)" by (cases "best_for cfg orc candidates now e l")
  note b = pick_best_best [OF best [unfolded best_for_def]]
  then have a: "room_tokens a = avail p" by (simp add: avail_def)
  show ?thesis
  proof (cases "est \<le> room_tokens a")
    case True
    with assms(2) b best show ?thesis by (auto simp: admit_best_def Let_def avail_def)
  next
    case False
    with b(3) have "list_all (\<lambda>q. avail q < est) (or_default candidates)" unfolding list_all_iff avail_def by fastforce
    with False assms(2) best show ?thesis by (auto simp: admit_best_def Let_def)
  qed
qed

datatype ledger_call =
    Admit_Call task_ctx "string list" rat string
  | Settle_Call string "rat option"

fun ledger_step :: "capacity_config \<Rightarrow> headroom_oracle \<Rightarrow> int \<Rightarrow> int option \<Rightarrow> capacity_ledger \<Rightarrow> ledger_call \<Rightarrow> capacity_ledger" where
  "ledger_step cfg orc now e l (Admit_Call ctx candidates est ref) = snd (admit_best cfg orc ctx candidates est ref now e l)"
| "ledger_step cfg orc now e l (Settle_Call ref actual) = settle ref actual now l"

definition estimate_ok :: "ledger_call \<Rightarrow> bool" where
  "estimate_ok c \<longleftrightarrow> (case c of Admit_Call _ _ est _ \<Rightarrow> 0 \<le> est | _ \<Rightarrow> True)"

definition room_above_floor :: "capacity_config \<Rightarrow> headroom_oracle \<Rightarrow> int \<Rightarrow> int option \<Rightarrow> string \<Rightarrow> rat" where
  "room_above_floor cfg orc now e p = max 0 (room_tokens (headroom_tokens cfg orc p) - floor_tokens cfg now e)"

lemma available_eq:
  "room_tokens (available_tokens cfg orc p out now e) = max 0 (room_tokens (headroom_tokens cfg orc p) - out - floor_tokens cfg now e)"
  by (simp add: available_tokens_def Let_def)

lemma within_room_step:
  assumes "estimate_ok c" "reservations_nonneg l" "outstanding_tokens l p \<le> room_above_floor cfg orc now e p"
  shows "reservations_nonneg (ledger_step cfg orc now e l c)
    \<and> outstanding_tokens (ledger_step cfg orc now e l c) p \<le> room_above_floor cfg orc now e p"
proof (cases c)
  case (Admit_Call ctx candidates est ref)
  obtain res l' where a: "admit_best cfg orc ctx candidates est ref now e l = (res, l')" by force
  have est: "0 \<le> est" using assms(1) Admit_Call by (simp add: estimate_ok_def)
  show ?thesis
  proof (cases "admitted_on res")
    case None
    with admit_best_cases [OF a] assms show ?thesis by (simp add: Admit_Call a reservations_nonneg_def outstanding_sum)
  next
    case (Some q)
    let ?r = "\<lparr>res_profile = q, res_tokens = est, res_at = now, res_ctx = ctx\<rparr>"
    have l': "reservations l' = AList.update ref ?r (reservations l)"
      and fits: "est \<le> room_tokens (available_tokens cfg orc q (outstanding_tokens l q) now e)"
      using admit_best_cases [OF a] Some by simp_all
    have up: "profile_sum (reservations l') p \<le> profile_sum (reservations l) p + (if q = p then est else 0)"
      "list_all (\<lambda>x. 0 \<le> res_tokens (snd x)) (reservations l')"
      using profile_sum_update [of "reservations l" ?r ref p] assms(2) est unfolding l' reservations_nonneg_def by auto
    have "outstanding_tokens l p + (if q = p then est else 0) \<le> room_above_floor cfg orc now e p"
      using assms(3) fits by (auto simp: available_eq room_above_floor_def)
    with up show ?thesis by (simp add: Admit_Call a reservations_nonneg_def outstanding_sum)
  qed
next
  case (Settle_Call ref actual)
  with assms(2,3) profile_sum_delete [of "reservations l" ref p] show ?thesis
    by (simp add: reservations_nonneg_def outstanding_sum)
qed

lemma within_room_run:
  "list_all estimate_ok calls \<Longrightarrow> reservations_nonneg l \<Longrightarrow> outstanding_tokens l p \<le> room_above_floor cfg orc now e p
    \<Longrightarrow> reservations_nonneg (foldl (ledger_step cfg orc now e) l calls)
      \<and> outstanding_tokens (foldl (ledger_step cfg orc now e) l calls) p \<le> room_above_floor cfg orc now e p"
proof (induction calls arbitrary: l)
  case (Cons c calls)
  from within_room_step [of c l p cfg orc now e] Cons.prems have
    "reservations_nonneg (ledger_step cfg orc now e l c)" "outstanding_tokens (ledger_step cfg orc now e l c) p \<le> room_above_floor cfg orc now e p"
    by auto
  with Cons.IH Cons.prems show ?case by simp
qed simp

text \<open>
  C11: however many dispatches race under one reading of the oracle, together they never overshoot: what is
  reserved on a profile is at most its headroom below the gate less the floor. The next task is placed on the candidate with the most room, and refused
  only when no candidate has room for it, with nothing reserved and the soonest reset as its wake.
\<close>

theorem dispatches_never_overshoot:
  assumes "list_all estimate_ok calls"
  shows "let l = foldl (ledger_step cfg orc now e) empty_ledger calls;
      avail = (\<lambda>q. room_tokens (available_tokens cfg orc q (outstanding_tokens l q) now e));
      (res, l') = admit_best cfg orc ctx candidates est ref now e l
    in outstanding_tokens l p \<le> max 0 (room_tokens (headroom_tokens cfg orc p) - floor_tokens cfg now e)
      \<and> (case admitted_on res of
           Some q \<Rightarrow> q \<in> set (or_default candidates) \<and> est \<le> avail q \<and> list_all (\<lambda>r. avail r \<le> avail q) (or_default candidates)
         | None \<Rightarrow> reservations l' = reservations l \<and> list_all (\<lambda>r. avail r < est) (or_default candidates)
             \<and> sleep_until res = compute_sleep orc (or_default candidates))"
proof -
  let ?l = "foldl (ledger_step cfg orc now e) empty_ledger calls"
  obtain res l' where a: "admit_best cfg orc ctx candidates est ref now e ?l = (res, l')" by force
  have "outstanding_tokens ?l p \<le> room_above_floor cfg orc now e p"
    using within_room_run [OF assms, of empty_ledger p cfg orc now e]
    by (simp add: empty_ledger_def reservations_nonneg_def outstanding_tokens_def room_above_floor_def)
  with admit_best_cases [OF a] show ?thesis
    by (auto simp: a room_above_floor_def Let_def split: option.splits)
qed

theorem dispatches_never_overshoot_witness:
  "outstanding_tokens (foldl (ledger_step DEFAULT_CAPACITY_CONFIG (\<lambda>_. Some \<lparr>oracle_pct = Some 80, reset_at_ms = None\<rparr>) 0 None) empty_ledger
       [Admit_Call \<lparr>ctx_project = ''p'', ctx_run = ''r'', ctx_task = ''1''\<rparr> [''a''] 400000 ''r:1'',
        Admit_Call \<lparr>ctx_project = ''p'', ctx_run = ''r'', ctx_task = ''2''\<rparr> [''a''] 400000 ''r:2'']) ''a''
     \<le> max 0 (room_tokens (headroom_tokens DEFAULT_CAPACITY_CONFIG (\<lambda>_. Some \<lparr>oracle_pct = Some 80, reset_at_ms = None\<rparr>) ''a'')
         - floor_tokens DEFAULT_CAPACITY_CONFIG 0 None)"
  using dispatches_never_overshoot [of "[Admit_Call \<lparr>ctx_project = ''p'', ctx_run = ''r'', ctx_task = ''1''\<rparr> [''a''] 400000 ''r:1'',
      Admit_Call \<lparr>ctx_project = ''p'', ctx_run = ''r'', ctx_task = ''2''\<rparr> [''a''] 400000 ''r:2'']"]
  unfolding Let_def case_prod_beta by (simp add: estimate_ok_def del: foldl_Cons)

end
