(* ===== verification/Nightshift.thy ===== *)
theory Nightshift
  imports Scanners Capacity
begin

section \<open>The night run\<close>

text \<open>
  \<open>src/broker/nightshift-orchestrator.ts\<close> with the admission loop of \<open>src/broker/capacity-admission.ts\<close>: a
  run is opened on the cards the scanner admitted and advanced by a tick until nothing is pending and
  nothing in flight. The functions of the source are asynchronous, so a run here is a coroutine: its
  phase says at which \<open>await\<close> it is suspended, and one segment runs it from there to the next. Two runs
  interleave at those points and nowhere else, over one ledger. What a task came to is kept in a list
  beside the run; prompts and the files behind the sentinel are left out, whose calls always answer.
  Only a spawn may throw. Caps are natural numbers.
\<close>

subsection \<open>The window\<close>

text \<open>\<open>src/broker/nightshift-window.ts\<close>; the host zone is UTC. Days are 86400000 milliseconds.\<close>

abbreviation (input) NIGHT_DAY_MS :: int where "NIGHT_DAY_MS \<equiv> 86400000"

definition parse_clock :: "string \<Rightarrow> int option" where
  "parse_clock hhmm =
     (case split_on (CHR '':'') (trim hhmm) of
        [hs, ms] \<Rightarrow>
          if list_all is_digit hs \<and> list_all is_digit ms \<and> length hs \<in> {1, 2} \<and> length ms = 2 then
            let h = int (digits_val hs); m = int (digits_val ms) in if 23 < h \<or> 59 < m then None else Some (h * 60 + m)
          else None
      | _ \<Rightarrow> None)"

definition minutes_of_day :: "int \<Rightarrow> int" where
  "minutes_of_day now = now mod NIGHT_DAY_MS div 60000"

definition window_part :: "nat \<Rightarrow> string \<Rightarrow> string" where
  "window_part k window = (let ps = split_on (CHR ''-'') window in if k < length ps then ps ! k else [])"

definition within_window :: "string \<Rightarrow> int \<Rightarrow> bool" where
  "within_window window now =
     (case (parse_clock (window_part 0 window), parse_clock (window_part 1 window)) of
        (Some s, Some e) \<Rightarrow> let t = minutes_of_day now in if s \<le> e then s \<le> t \<and> t < e else s \<le> t \<or> t < e
      | _ \<Rightarrow> False)"

definition compute_window_end_ms :: "string option \<Rightarrow> int \<Rightarrow> int option" where
  "compute_window_end_ms window now =
     (if \<not> truthy window then None
      else case parse_clock (window_part 1 (the window)) of
        None \<Rightarrow> None
      | Some e \<Rightarrow> let end_ms = now - now mod NIGHT_DAY_MS + e * 60000 in Some (if end_ms \<le> now then end_ms + NIGHT_DAY_MS else end_ms))"

subsection \<open>Runs\<close>

datatype task_fate =
    Reaped
  | Spawn_Failed string
  | Skipped string

text \<open>Where the filling of the slots goes on after a dispatch: the admission loop at an index, or the plain drain.\<close>

datatype fill_at =
    Admit_At nat "int option" int
  | Drain

datatype run_phase =
    Resting
  | Reaping "(string \<times> string) list"
  | Filling
  | Dispatching night_item fill_at
  | Refilling fill_at
  | Starving "night_item list" int
  | Finalizing
  | Closing

record night_run =
  run_project :: string
  run_id :: string
  pending :: "night_item list"
  inflight :: "(string \<times> string) list"
  run_concurrency :: nat
  candidate_profiles :: "string list"
  window_end_ms :: "int option"
  sleep_until_ms :: "int option"
  run_phase :: run_phase
  opened_with :: "night_item list"
  fates :: "(string \<times> task_fate) list"

text \<open>
  \<open>advancing\<close> is any phase but the resting one. \<open>fates\<close> are the outcomes the run writes to the report
  files of the sentinel, in order, and \<open>opened_with\<close> the tasks it was opened with.
\<close>

record night_config =
  config_caps :: "nat option \<times> nat option"
  profiles_allowed :: "string list"
  config_window :: "string option"

definition resolve_caps :: "nat option \<times> nat option \<Rightarrow> nat \<times> nat" where
  "resolve_caps caps =
     (max 1 (case fst caps of Some n \<Rightarrow> n | None \<Rightarrow> 2), max 1 (case snd caps of Some n \<Rightarrow> n | None \<Rightarrow> 8))"

definition today_str :: "int \<Rightarrow> string" where
  "today_str now = take 10 (to_iso now)"

definition open_run :: "string \<Rightarrow> night_config \<Rightarrow> night_item list \<Rightarrow> int \<Rightarrow> night_run" where
  "open_run project cfg tasks now =
     \<lparr>run_project = project, run_id = today_str now, pending = tasks, inflight = [], run_concurrency = fst (resolve_caps (config_caps cfg)),
      candidate_profiles = (if profiles_allowed cfg \<noteq> [] then profiles_allowed cfg else [''default'']),
      window_end_ms = compute_window_end_ms (config_window cfg) now, sleep_until_ms = None, run_phase = Reaping [], opened_with = tasks, fates = []\<rparr>"

definition task_ref_of :: "string \<Rightarrow> string \<Rightarrow> string" where
  "task_ref_of run task = run @ '':'' @ task"

subsection \<open>What a segment is given\<close>

datatype spawn_answer = Spawn_Ok string | Spawn_Error string | Spawn_Throws

text \<open>The clock, the conversations (ended or not, with their tokens), the oracle, and the answer a suspended spawn came back with.\<close>

record night_world =
  world_now :: int
  world_conv :: "string \<Rightarrow> (bool \<times> rat) option"
  world_oracle :: headroom_oracle
  world_spawn :: spawn_answer

subsection \<open>Segments\<close>

fun reap_finished :: "night_world \<Rightarrow> (string \<times> string) list \<Rightarrow> night_run \<Rightarrow> capacity_ledger \<Rightarrow> night_run \<times> capacity_ledger" where
  "reap_finished w [] r l = (r\<lparr>run_phase := Filling\<rparr>, l)"
| "reap_finished w ((t, c) # rest) r l =
     (case world_conv w c of
        Some (False, _) \<Rightarrow> reap_finished w rest r l
      | v \<Rightarrow>
          (r\<lparr>inflight := AList.delete t (inflight r), fates := fates r @ [(t, Reaped)], run_phase := Reaping rest\<rparr>,
           settle (task_ref_of (run_id r) t) (map_option snd v) (world_now w) l))"

definition remove_nth :: "nat \<Rightarrow> 'a list \<Rightarrow> 'a list" where
  "remove_nth k xs = take k xs @ drop (Suc k) xs"

definition item_tokens :: "capacity_config \<Rightarrow> night_item \<Rightarrow> rat" where
  "item_tokens cfg x = (case item_estimate x of Some t \<Rightarrow> t | None \<Rightarrow> default_estimate_tokens cfg)"

definition item_ctx :: "night_run \<Rightarrow> night_item \<Rightarrow> task_ctx" where
  "item_ctx r x = \<lparr>ctx_project = run_project r, ctx_run = run_id r, ctx_task = item_id x\<rparr>"

definition sooner_wake :: "int option \<Rightarrow> int option \<Rightarrow> int option" where
  "sooner_wake s wake = (case s of None \<Rightarrow> wake | Some t \<Rightarrow> (case wake of None \<Rightarrow> Some t | Some e \<Rightarrow> if t < e then Some t else Some e))"

text \<open>The admission loop from an index; it suspends at a dispatch, and where it ends it may put the run to sleep.\<close>

function admit_available ::
  "capacity_config \<Rightarrow> night_world \<Rightarrow> int \<Rightarrow> nat \<Rightarrow> int option \<Rightarrow> night_run \<Rightarrow> capacity_ledger \<Rightarrow> night_run \<times> capacity_ledger" where
  "admit_available cfg w now k wake r l =
     (if length (inflight r) < run_concurrency r \<and> k < length (pending r) then
        (case admit_best cfg (world_oracle w) (item_ctx r (pending r ! k)) (candidate_profiles r) (item_tokens cfg (pending r ! k))
                (task_ref_of (run_id r) (item_id (pending r ! k))) now (window_end_ms r) l of
           (res, l') \<Rightarrow>
             if admitted_on res \<noteq> None
             then (r\<lparr>pending := remove_nth k (pending r), run_phase := Dispatching (pending r ! k) (Admit_At k wake now)\<rparr>, l')
             else admit_available cfg w now (Suc k) (sooner_wake (sleep_until res) wake) r l')
      else
        (r\<lparr>run_phase := Finalizing,
           sleep_until_ms := (if inflight r = [] \<and> pending r \<noteq> [] \<and> wake \<noteq> None then wake else sleep_until_ms r)\<rparr>, l))"
  by auto
termination by (relation "measure (\<lambda>(cfg, w, now, k, wake, r, l). length (pending r) - k)") auto

declare admit_available.simps [simp del]

definition fill_slots_legacy :: "night_run \<Rightarrow> capacity_ledger \<Rightarrow> night_run \<times> capacity_ledger" where
  "fill_slots_legacy r l =
     (if length (inflight r) < run_concurrency r then
        (case pending r of
           [] \<Rightarrow> (r\<lparr>run_phase := Finalizing\<rparr>, l)
         | x # xs \<Rightarrow> (r\<lparr>pending := xs, run_phase := Dispatching x Drain\<rparr>, l))
      else (r\<lparr>run_phase := Finalizing\<rparr>, l))"

definition fill_slots_with_admission :: "capacity_config \<Rightarrow> night_world \<Rightarrow> night_run \<Rightarrow> capacity_ledger \<Rightarrow> night_run \<times> capacity_ledger" where
  "fill_slots_with_admission cfg w r l =
     (let now = world_now w; closed = (case window_end_ms r of None \<Rightarrow> False | Some e \<Rightarrow> e \<le> now);
          asleep = (case sleep_until_ms r of None \<Rightarrow> False | Some s \<Rightarrow> now < s)
      in if closed then
           (if inflight r = [] \<and> pending r \<noteq> [] then (r\<lparr>pending := [], run_phase := Starving (pending r) now\<rparr>, l)
            else (r\<lparr>run_phase := Finalizing\<rparr>, l))
         else if asleep then (r\<lparr>run_phase := Finalizing\<rparr>, l)
         else admit_available cfg w now 0 None (r\<lparr>sleep_until_ms := None\<rparr>) l)"

definition fill_slots :: "capacity_config \<Rightarrow> night_world \<Rightarrow> night_run \<Rightarrow> capacity_ledger \<Rightarrow> night_run \<times> capacity_ledger" where
  "fill_slots cfg w r l = (if \<not> capacity_enabled cfg then fill_slots_legacy r l else fill_slots_with_admission cfg w r l)"

definition refill :: "capacity_config \<Rightarrow> night_world \<Rightarrow> fill_at \<Rightarrow> night_run \<Rightarrow> capacity_ledger \<Rightarrow> night_run \<times> capacity_ledger" where
  "refill cfg w fa r l = (case fa of Drain \<Rightarrow> fill_slots_legacy r l | Admit_At k wake now \<Rightarrow> admit_available cfg w now k wake r l)"

text \<open>
  The answer of a spawn: in flight; or failed, its reservation released; or thrown, which ends the
  advance with the task off the pending list and noted nowhere.
\<close>

definition dispatch_task ::
  "capacity_config \<Rightarrow> night_world \<Rightarrow> night_item \<Rightarrow> fill_at \<Rightarrow> night_run \<Rightarrow> capacity_ledger \<Rightarrow> night_run \<times> capacity_ledger" where
  "dispatch_task cfg w x fa r l =
     (case world_spawn w of
        Spawn_Ok c \<Rightarrow> refill cfg w fa (r\<lparr>inflight := AList.update (item_id x) c (inflight r)\<rparr>) l
      | Spawn_Error e \<Rightarrow>
          (r\<lparr>fates := fates r @ [(item_id x, Spawn_Failed (''spawn failed: '' @ e))], run_phase := Refilling fa\<rparr>,
           settle (task_ref_of (run_id r) (item_id x)) None (world_now w) l)
      | Spawn_Throws \<Rightarrow> (r\<lparr>run_phase := Resting\<rparr>, l))"

definition starve_all :: "capacity_config \<Rightarrow> night_world \<Rightarrow> night_item list \<Rightarrow> int \<Rightarrow> night_run \<Rightarrow> capacity_ledger \<Rightarrow> night_run \<times> capacity_ledger" where
  "starve_all cfg w xs now r l =
     (case xs of
        [] \<Rightarrow> (r\<lparr>run_phase := Finalizing\<rparr>, l)
      | x # rest \<Rightarrow>
          (case starve cfg (world_oracle w) (item_ctx r x) (candidate_profiles r) (item_tokens cfg x) now (window_end_ms r) l of
             (reason, l') \<Rightarrow> (r\<lparr>fates := fates r @ [(item_id x, Skipped reason)], run_phase := Starving rest now\<rparr>, l')))"

definition maybe_finalize :: "night_run \<Rightarrow> night_run" where
  "maybe_finalize r = r\<lparr>run_phase := (if pending r \<noteq> [] \<or> inflight r \<noteq> [] then Resting else Closing)\<rparr>"

text \<open>One segment of a suspended advance.\<close>

definition run_segment :: "capacity_config \<Rightarrow> night_world \<Rightarrow> night_run \<Rightarrow> capacity_ledger \<Rightarrow> night_run \<times> capacity_ledger" where
  "run_segment cfg w r l =
     (case run_phase r of
        Resting \<Rightarrow> (r, l)
      | Reaping rest \<Rightarrow> reap_finished w rest r l
      | Filling \<Rightarrow> fill_slots cfg w r l
      | Dispatching x fa \<Rightarrow> dispatch_task cfg w x fa r l
      | Refilling fa \<Rightarrow> refill cfg w fa r l
      | Starving xs now \<Rightarrow> starve_all cfg w xs now r l
      | Finalizing \<Rightarrow> (maybe_finalize r, l)
      | Closing \<Rightarrow> (r\<lparr>run_phase := Resting\<rparr>, l))"

definition advance_run :: "night_run \<Rightarrow> night_run" where
  "advance_run r = (if run_phase r \<noteq> Resting then r else r\<lparr>run_phase := Reaping (inflight r)\<rparr>)"

subsection \<open>The orchestrator\<close>

text \<open>
  The runs by number, the active one of each project, the starts that passed the check and await the
  sentinel, and the ledger. A tick may still hold a run that was closed since it listed the runs, so
  any run can be advanced.
\<close>

record night_state =
  night_runs :: "night_run list"
  active_runs :: "(string \<times> nat) list"
  starting :: "string list"
  night_ledger :: capacity_ledger

datatype night_event =
    Start_Checked string
  | Start_Refused string
  | Run_Opened string night_config intl night_scan_deps int
  | Run_Ticked nat
  | Segment nat night_world
  | Usage_Event

definition night_step_at :: "capacity_config \<Rightarrow> night_world \<Rightarrow> nat \<Rightarrow> night_state \<Rightarrow> night_state" where
  "night_step_at cfg w k st =
     (let r = night_runs st ! k
      in case run_segment cfg w r (night_ledger st) of
           (r', l') \<Rightarrow>
             st\<lparr>night_runs := (night_runs st)[k := r'], night_ledger := l',
                active_runs := (if run_phase r = Closing then AList.delete (run_project r) (active_runs st) else active_runs st)\<rparr>)"

definition open_nightshift :: "string \<Rightarrow> night_config \<Rightarrow> intl \<Rightarrow> night_scan_deps \<Rightarrow> int \<Rightarrow> night_state \<Rightarrow> night_state" where
  "open_nightshift p ncfg i sd now st =
     (let tasks = snd (scan_nightshift i (sd\<lparr>night_total := snd (resolve_caps (config_caps ncfg))\<rparr>)); st1 = st\<lparr>starting := remove1 p (starting st)\<rparr>
      in if tasks = [] then st1
         else st1\<lparr>night_runs := night_runs st @ [open_run p ncfg tasks now], active_runs := AList.update p (length (night_runs st)) (active_runs st)\<rparr>)"

text \<open>Fresh telemetry wakes every parked run; the advances it then starts are ticks.\<close>

definition note_capacity_usage_event :: "night_state \<Rightarrow> night_state" where
  [simp]: "note_capacity_usage_event st =
     st\<lparr>night_runs := map (\<lambda>(k, r). if k \<in> set (map snd (active_runs st)) then r\<lparr>sleep_until_ms := None\<rparr> else r) (enumerate 0 (night_runs st))\<rparr>"

fun night_event_step :: "capacity_config \<Rightarrow> night_state \<Rightarrow> night_event \<Rightarrow> night_state" where
  "night_event_step cfg st (Start_Checked p) =
     (if map_of (active_runs st) p \<noteq> None then st else st\<lparr>starting := starting st @ [p]\<rparr>)"
| "night_event_step cfg st (Start_Refused p) = st\<lparr>starting := remove1 p (starting st)\<rparr>"
| "night_event_step cfg st (Run_Opened p ncfg i sd now) = (if p \<in> set (starting st) then open_nightshift p ncfg i sd now st else st)"
| "night_event_step cfg st (Run_Ticked k) = st\<lparr>night_runs := (night_runs st)[k := advance_run (night_runs st ! k)]\<rparr>"
| "night_event_step cfg st (Segment k w) = (if k < length (night_runs st) then night_step_at cfg w k st else st)"
| "night_event_step cfg st Usage_Event = note_capacity_usage_event st"

definition night_start :: "capacity_config \<Rightarrow> int \<Rightarrow> inflight_conv list \<Rightarrow> night_state" where
  "night_start cfg now convs = \<lparr>night_runs = [], active_runs = [], starting = [], night_ledger = reconstruct_ledger cfg now convs empty_ledger\<rparr>"

definition night_after :: "capacity_config \<Rightarrow> night_event list \<Rightarrow> night_state \<Rightarrow> night_state" where
  "night_after cfg events st = foldl (night_event_step cfg) st events"

subsection \<open>Nothing is lost\<close>

definition balanced :: "string list \<Rightarrow> night_run \<Rightarrow> string list \<Rightarrow> bool" where
  "balanced lost r ids \<longleftrightarrow> distinct (map item_id (opened_with r))
     \<and> mset (map item_id (opened_with r)) = mset (map item_id (pending r)) + mset ids + mset (map fst (inflight r)) + mset (map fst (fates r)) + mset lost"

definition run_sound :: "string list \<Rightarrow> night_run \<Rightarrow> bool" where
  "run_sound lost r \<longleftrightarrow>
     (case run_phase r of
        Dispatching x _ \<Rightarrow> balanced lost r [item_id x] \<and> length (inflight r) < run_concurrency r
      | Starving xs _ \<Rightarrow> balanced lost r (map item_id xs) \<and> length (inflight r) \<le> run_concurrency r
      | Reaping rest \<Rightarrow>
          balanced lost r [] \<and> length (inflight r) \<le> run_concurrency r \<and> distinct (map fst rest) \<and> set rest \<subseteq> set (inflight r)
      | Closing \<Rightarrow> balanced lost r [] \<and> pending r = [] \<and> inflight r = []
      | _ \<Rightarrow> balanced lost r [] \<and> length (inflight r) \<le> run_concurrency r)"

text \<open>The task a segment throws away.\<close>

definition thrown_by :: "night_world \<Rightarrow> night_run \<Rightarrow> string list" where
  "thrown_by w r = (case run_phase r of Dispatching x _ \<Rightarrow> if world_spawn w = Spawn_Throws then [item_id x] else [] | _ \<Rightarrow> [])"

lemma balanced_cong:
  "opened_with r' = opened_with r \<Longrightarrow> pending r' = pending r \<Longrightarrow> inflight r' = inflight r \<Longrightarrow> fates r' = fates r \<Longrightarrow> balanced lost r' ids = balanced lost r ids"
  by (simp add: balanced_def)

lemma mset_delete:
  "(t, c) \<in> set m \<Longrightarrow> distinct (map fst m) \<Longrightarrow> mset (map fst m) = add_mset t (mset (map fst (AList.delete t m)))
    \<and> length (AList.delete t m) < length m"
proof (induction m)
  case (Cons x m)
  show ?case
  proof (cases "fst x = t")
    case True
    with Cons.prems(2) have "AList.delete t m = m" by (intro delete_id) simp
    with True show ?thesis by (cases x) (simp add: AList.delete_eq)
  next
    case False
    with Cons show ?thesis by (cases x) (auto simp: AList.delete_eq)
  qed
qed simp

lemma balanced_inflight: "balanced lost r ids \<Longrightarrow> distinct (map fst (inflight r))"
proof -
  assume b: "balanced lost r ids"
  then have "mset (map item_id (opened_with r)) = mset (map item_id (pending r) @ ids @ map fst (inflight r) @ map fst (fates r) @ lost)"
    by (simp add: balanced_def)
  with b have "distinct (map item_id (pending r) @ ids @ map fst (inflight r) @ map fst (fates r) @ lost)"
    unfolding balanced_def by (metis mset_eq_imp_distinct_iff)
  then show ?thesis by simp
qed

lemma reap_sound:
  "balanced lost r [] \<Longrightarrow> length (inflight r) \<le> run_concurrency r \<Longrightarrow> distinct (map fst rest) \<Longrightarrow> set rest \<subseteq> set (inflight r)
    \<Longrightarrow> run_sound lost (fst (reap_finished w rest r l))"
proof (induction w rest r l rule: reap_finished.induct)
  case (1 w r l)
  then show ?case by (simp add: run_sound_def balanced_def)
next
  case (2 w t c rest r l)
  show ?case
  proof (cases "\<exists>x. world_conv w c = Some (False, x)")
    case True
    with 2 show ?thesis by auto
  next
    case False
    let ?r = "r\<lparr>inflight := AList.delete t (inflight r), fates := fates r @ [(t, Reaped)], run_phase := Reaping rest\<rparr>"
    have at: "(t, c) \<in> set (inflight r)" using "2.prems"(4) by simp
    note del = mset_delete [OF at balanced_inflight [OF "2.prems"(1)]]
    have "set rest \<subseteq> set (AList.delete t (inflight r))"
      using "2.prems"(3,4) by (auto simp: AList.delete_eq image_iff)
    moreover have "balanced lost ?r []" using del "2.prems"(1) by (simp add: balanced_def)
    ultimately have "run_sound lost ?r" using del "2.prems"(2,3) by (simp add: run_sound_def)
    moreover have "fst (reap_finished w ((t, c) # rest) r l) = ?r"
      using False by (auto split: option.split bool.split)
    ultimately show ?thesis by simp
  qed
qed

lemma mset_remove_nth: "k < length xs \<Longrightarrow> mset (map f xs) = add_mset (f (xs ! k)) (mset (map f (remove_nth k xs)))"
proof -
  assume "k < length xs"
  then have "xs = take k xs @ xs ! k # drop (Suc k) xs" by (rule id_take_nth_drop)
  then have "map f xs = map f (take k xs) @ f (xs ! k) # map f (drop (Suc k) xs)" by (metis list.simps(9) map_append)
  then show ?thesis by (simp add: remove_nth_def)
qed

lemma admit_sound:
  "balanced lost r [] \<Longrightarrow> length (inflight r) \<le> run_concurrency r \<Longrightarrow> run_sound lost (fst (admit_available cfg w now k wake r l))"
proof (induction cfg w now k wake r l rule: admit_available.induct)
  case (1 cfg w now k wake r l)
  show ?case
  proof (cases "length (inflight r) < run_concurrency r \<and> k < length (pending r)")
    case True
    obtain res l' where a: "admit_best cfg (world_oracle w) (item_ctx r (pending r ! k)) (candidate_profiles r) (item_tokens cfg (pending r ! k))
        (task_ref_of (run_id r) (item_id (pending r ! k))) now (window_end_ms r) l = (res, l')" by (rule prod.exhaust)
    show ?thesis
    proof (cases "admitted_on res")
      case None
      with "1.IH" [OF True a [symmetric]] "1.prems" True show ?thesis by (simp add: admit_available.simps [of cfg w now k] a)
    next
      case (Some p)
      with "1.prems" True mset_remove_nth [of k "pending r" item_id] show ?thesis
        by (simp add: admit_available.simps [of cfg w now k] a run_sound_def balanced_def)
    qed
  next
    case False
    from "1.prems" show ?thesis
      unfolding admit_available.simps [of cfg w now k] if_not_P [OF False] by (simp add: run_sound_def balanced_def)
  qed
qed

lemma legacy_sound:
  "balanced lost r [] \<Longrightarrow> length (inflight r) \<le> run_concurrency r \<Longrightarrow> run_sound lost (fst (fill_slots_legacy r l))"
  by (auto simp: fill_slots_legacy_def run_sound_def balanced_def split: list.split)

lemma refill_sound:
  "balanced lost r [] \<Longrightarrow> length (inflight r) \<le> run_concurrency r \<Longrightarrow> run_sound lost (fst (refill cfg w fa r l))"
  by (cases fa) (simp_all add: refill_def admit_sound legacy_sound)

lemma fill_sound:
  assumes "balanced lost r []" "length (inflight r) \<le> run_concurrency r"
  shows "run_sound lost (fst (fill_slots cfg w r l))"
proof -
  have admit: "run_sound lost (fst (admit_available cfg w now 0 None (r\<lparr>sleep_until_ms := None\<rparr>) l))" for now
    using assms by (intro admit_sound) (simp_all add: balanced_def)
  have "run_sound lost (r\<lparr>run_phase := Finalizing\<rparr>)" "run_sound lost (r\<lparr>pending := [], run_phase := Starving (pending r) now\<rparr>)" for now
    using assms by (simp_all add: run_sound_def balanced_def)
  with legacy_sound [OF assms, of l] admit show ?thesis
    by (auto simp: fill_slots_def fill_slots_with_admission_def Let_def split: option.split)
qed

lemma update_new: "k \<notin> fst ` set m \<Longrightarrow> AList.update k v m = m @ [(k, v)]"
  by (induction m) auto

lemma dispatch_sound:
  assumes "balanced lost r [item_id x]" "length (inflight r) < run_concurrency r"
  shows "run_sound (lost @ (if world_spawn w = Spawn_Throws then [item_id x] else [])) (fst (dispatch_task cfg w x fa r l))"
proof (cases "world_spawn w")
  case (Spawn_Ok c)
  let ?r = "r\<lparr>inflight := AList.update (item_id x) c (inflight r)\<rparr>"
  have "mset (map item_id (opened_with r)) = mset (item_id x # map fst (inflight r) @ map item_id (pending r) @ map fst (fates r) @ lost)"
    using assms(1) by (simp add: balanced_def)
  then have "distinct (item_id x # map fst (inflight r) @ map item_id (pending r) @ map fst (fates r) @ lost)"
    using assms(1) unfolding balanced_def by (metis mset_eq_imp_distinct_iff)
  then have "AList.update (item_id x) c (inflight r) = inflight r @ [(item_id x, c)]" by (intro update_new) auto
  with assms have "balanced lost ?r []" "length (inflight ?r) \<le> run_concurrency ?r" by (simp_all add: balanced_def)
  from refill_sound [OF this] show ?thesis by (simp add: dispatch_task_def Spawn_Ok)
qed (use assms in \<open>simp_all add: dispatch_task_def run_sound_def balanced_def\<close>)

lemma segment_sound: "run_sound lost r \<Longrightarrow> run_sound (lost @ thrown_by w r) (fst (run_segment cfg w r l))"
proof (cases "run_phase r")
  case (Starving xs now)
  assume "run_sound lost r"
  with Starving show ?thesis
    by (auto simp: run_segment_def run_sound_def starve_all_def balanced_def thrown_by_def split: list.split prod.split)
next
  case (Dispatching x fa)
  assume "run_sound lost r"
  with Dispatching dispatch_sound [of lost r x] show ?thesis by (simp add: run_segment_def run_sound_def [of lost r] thrown_by_def)
qed (auto simp: run_segment_def run_sound_def [of lost r] reap_sound fill_sound refill_sound thrown_by_def,
     auto simp: run_sound_def maybe_finalize_def balanced_def)

lemma ordinal_inj: "ordinal m = ordinal n \<longleftrightarrow> m = n"
proof -
  have "digits_val (ordinal n) = n" for n by (simp add: ordinal_def digits_val_replicate)
  then show ?thesis by metis
qed

lemma scanned_distinct: "distinct (map item_id (snd (scan_nightshift i d)))"
proof -
  have "map item_id (snd (scan_nightshift i d)) = map (\<lambda>k. ordinal (k + 1)) [0..<length (scan_acted (fst (scan_nightshift i d)))]"
    using night_fold [of d "tagged_cards i d"] by (auto simp: scan_nightshift_def night_so_far_def Let_def split: prod.splits)
  then show ?thesis by (simp add: distinct_map inj_on_def ordinal_inj)
qed

lemma list_all_update: "list_all P xs \<Longrightarrow> P y \<Longrightarrow> list_all P (xs[k := y])"
  using set_update_subset_insert [of xs k y] by (auto simp: list_all_iff)

text \<open>
  The tasks whose spawn threw, by run, read off the events: a segment of run \<open>k\<close> that takes the answer
  of a spawn that threw.
\<close>

definition thrown_at :: "nat \<Rightarrow> night_event \<Rightarrow> night_state \<Rightarrow> string list" where
  "thrown_at k ev st =
     (case ev of Segment j w \<Rightarrow> if j = k \<and> k < length (night_runs st) then thrown_by w (night_runs st ! k) else [] | _ \<Rightarrow> [])"

fun thrown_in :: "capacity_config \<Rightarrow> nat \<Rightarrow> night_event list \<Rightarrow> night_state \<Rightarrow> string list" where
  "thrown_in cfg k [] st = []"
| "thrown_in cfg k (ev # evs) st = thrown_at k ev st @ thrown_in cfg k evs (night_event_step cfg st ev)"

definition all_sound :: "(nat \<Rightarrow> string list) \<Rightarrow> night_state \<Rightarrow> bool" where
  "all_sound lost st \<longleftrightarrow> (\<forall>k. if k < length (night_runs st) then run_sound (lost k) (night_runs st ! k) else lost k = [])"

lemma all_soundI:
  "(\<And>k. k < length (night_runs st) \<Longrightarrow> run_sound (lost k) (night_runs st ! k)) \<Longrightarrow> (\<And>k. \<not> k < length (night_runs st) \<Longrightarrow> lost k = [])
    \<Longrightarrow> all_sound lost st"
  by (simp add: all_sound_def)

lemma all_soundD:
  "all_sound lost st \<Longrightarrow> k < length (night_runs st) \<Longrightarrow> run_sound (lost k) (night_runs st ! k)"
  "all_sound lost st \<Longrightarrow> \<not> k < length (night_runs st) \<Longrightarrow> lost k = []"
  by (meson all_sound_def)+

lemma advance_sound: "run_sound lost r \<Longrightarrow> run_sound lost (advance_run r)"
  by (auto simp: advance_run_def run_sound_def balanced_def [of _ "_\<lparr>run_phase := _\<rparr>"] dest: balanced_inflight) (auto simp: balanced_def)

lemma event_sound:
  assumes "all_sound lost st"
  shows "all_sound (\<lambda>k. lost k @ thrown_at k ev st) (night_event_step cfg st ev)"
proof (cases ev)
  case (Run_Opened p ncfg i sd now)
  have fresh: "run_sound [] (open_run p ncfg (snd (scan_nightshift i d)) now)" for d
    by (simp add: run_sound_def open_run_def balanced_def scanned_distinct)
  show ?thesis
    by (rule all_soundI)
      (use assms fresh in \<open>auto simp: Run_Opened open_nightshift_def Let_def thrown_at_def nth_append less_Suc_eq all_soundD split: if_splits\<close>)
next
  case (Run_Ticked k)
  show ?thesis
  proof (rule all_soundI)
    fix j assume "j < length (night_runs (night_event_step cfg st ev))"
    with assms Run_Ticked show "run_sound (lost j @ thrown_at j ev st) (night_runs (night_event_step cfg st ev) ! j)"
      by (cases "j = k") (auto simp: thrown_at_def all_soundD(1) advance_sound)
  qed (use assms Run_Ticked in \<open>auto simp: thrown_at_def all_soundD(2)\<close>)
next
  case (Segment j w)
  have seg: "run_sound (lost j @ thrown_by w (night_runs st ! j)) (fst (run_segment cfg w (night_runs st ! j) (night_ledger st)))"
    if "j < length (night_runs st)"
    using that assms by (intro segment_sound) (rule all_soundD(1))
  show ?thesis
  proof (cases "j < length (night_runs st)")
    case True
    have "night_runs (night_event_step cfg st ev) = (night_runs st)[j := fst (run_segment cfg w (night_runs st ! j) (night_ledger st))]"
      by (simp add: Segment True night_step_at_def Let_def split: prod.split)
    with seg [OF True] assms show ?thesis
      by (intro all_soundI) (auto simp: Segment thrown_at_def nth_list_update all_soundD)
  next
    case False
    with assms show ?thesis by (intro all_soundI) (auto simp: Segment thrown_at_def all_soundD)
  qed
next
  case Usage_Event
  have "run_sound l (r\<lparr>sleep_until_ms := s\<rparr>) = run_sound l r" for l r s
    by (simp add: run_sound_def balanced_def split: run_phase.split)
  with assms show ?thesis
    by (intro all_soundI) (auto simp: Usage_Event thrown_at_def nth_enumerate_eq all_soundD)
qed (use assms in \<open>auto simp: thrown_at_def all_sound_def\<close>)

lemma runs_sound: "all_sound lost st \<Longrightarrow> all_sound (\<lambda>k. lost k @ thrown_in cfg k events st) (night_after cfg events st)"
  unfolding night_after_def
proof (induction events arbitrary: st lost)
  case (Cons ev evs)
  from Cons.IH [OF event_sound [OF Cons.prems, of ev cfg]] show ?case by simp
qed simp

definition in_hand :: "night_run \<Rightarrow> string list" where
  "in_hand r = (case run_phase r of Dispatching x _ \<Rightarrow> [item_id x] | Starving xs _ \<Rightarrow> map item_id xs | _ \<Rightarrow> [])"

definition dispatching :: "night_run \<Rightarrow> nat" where
  "dispatching r = (case run_phase r of Dispatching _ _ \<Rightarrow> 1 | _ \<Rightarrow> 0)"

lemma sound_says:
  "run_sound lost r \<Longrightarrow> distinct (map item_id (opened_with r))
    \<and> mset (map item_id (opened_with r)) = mset (map item_id (pending r)) + mset (in_hand r) + mset (map fst (inflight r)) + mset (map fst (fates r)) + mset lost
    \<and> length (inflight r) + dispatching r \<le> run_concurrency r
    \<and> (if run_phase r = Closing then mset (map item_id (opened_with r)) = mset (map fst (fates r)) + mset lost else True)"
  by (cases "run_phase r") (simp_all add: run_sound_def balanced_def in_hand_def dispatching_def)


subsection \<open>The ledger between runs\<close>

lemma task_ref_other_run: "length a = length b \<Longrightarrow> a \<noteq> b \<Longrightarrow> task_ref_of a t \<noteq> task_ref_of b u"
  by (simp add: task_ref_of_def)

lemma length_today_str [simp]: "length (today_str now) = 10"
proof -
  have pad: "1 \<le> length (pad w x)" for w x by (simp add: pad_def Let_def Suc_le_eq)
  have year: "1 \<le> length (year_str y)" for y by (simp add: year_str_def Suc_le_eq pad_def Let_def)
  obtain y m d where civil: "civil_of_days (now div 86400000) = (y, m, d)" by (rule prod_cases3)
  have "10 \<le> length (to_iso now)"
    using year [of y] pad [of 2 m] pad [of 2 d] by (simp add: to_iso_def Let_def civil)
  then show ?thesis by (simp add: today_str_def)
qed

text \<open>A segment of a run touches the reservations of that run alone, and keeps its name.\<close>

definition other_runs_kept :: "night_run \<Rightarrow> capacity_ledger \<Rightarrow> night_run \<times> capacity_ledger \<Rightarrow> bool" where
  "other_runs_kept r l x \<longleftrightarrow> run_id (fst x) = run_id r
     \<and> (\<forall>a t. length a = length (run_id r) \<longrightarrow> a \<noteq> run_id r
          \<longrightarrow> map_of (reservations (snd x)) (task_ref_of a t) = map_of (reservations l) (task_ref_of a t))"

lemma kept_run: "run_id r' = run_id r \<Longrightarrow> other_runs_kept r' l x \<Longrightarrow> other_runs_kept r l x"
  by (simp add: other_runs_kept_def)

lemma kept_same [simp]: "run_id r' = run_id r \<Longrightarrow> other_runs_kept r l (r', l)"
  by (simp add: other_runs_kept_def)

lemma kept_settle [simp]: "run_id r' = run_id r \<Longrightarrow> other_runs_kept r l (r', settle (task_ref_of (run_id r) t) actual now l)"
  by (auto simp: other_runs_kept_def delete_conv' dest: task_ref_other_run)

lemma kept_reap: "other_runs_kept r l (reap_finished w rest r l)"
  by (induction w rest r l rule: reap_finished.induct) (auto split: option.split bool.split)

lemma kept_admit: "other_runs_kept r l (admit_available cfg w now k wake r l)"
proof (induction cfg w now k wake r l rule: admit_available.induct)
  case (1 cfg w now k wake r l)
  show ?case
  proof (cases "length (inflight r) < run_concurrency r \<and> k < length (pending r)")
    case True
    obtain res l' where a: "admit_best cfg (world_oracle w) (item_ctx r (pending r ! k)) (candidate_profiles r) (item_tokens cfg (pending r ! k))
        (task_ref_of (run_id r) (item_id (pending r ! k))) now (window_end_ms r) l = (res, l')" by (rule prod.exhaust)
    have l': "map_of (reservations l') (task_ref_of b t) = map_of (reservations l) (task_ref_of b t)"
      if "length b = length (run_id r)" "b \<noteq> run_id r" for b t
      using admit_best_cases [OF a] task_ref_other_run [OF that] by (auto split: option.splits)
    show ?thesis
    proof (cases "admitted_on res")
      case None
      with "1.IH" [OF True a [symmetric]] l' show ?thesis
        unfolding admit_available.simps [of cfg w now k] if_P [OF True] a prod.case by (simp add: other_runs_kept_def)
    next
      case (Some p)
      with l' show ?thesis
        unfolding admit_available.simps [of cfg w now k] if_P [OF True] a prod.case by (simp add: other_runs_kept_def)
    qed
  next
    case False
    show ?thesis unfolding admit_available.simps [of cfg w now k] if_not_P [OF False] by simp
  qed
qed

lemma kept_legacy: "other_runs_kept r l (fill_slots_legacy r l)"
  by (auto simp: fill_slots_legacy_def split: list.split)

lemma kept_refill: "other_runs_kept r l (refill cfg w fa r l)"
  by (cases fa) (simp_all add: refill_def kept_admit kept_legacy)

lemma kept_fill: "other_runs_kept r l (fill_slots cfg w r l)"
  using kept_run [OF _ kept_admit, of "r\<lparr>sleep_until_ms := None\<rparr>" r]
  by (auto simp: fill_slots_def fill_slots_with_admission_def kept_legacy Let_def split: option.split)

lemma kept_dispatch: "other_runs_kept r l (dispatch_task cfg w x fa r l)"
  using kept_run [OF _ kept_refill, of "r\<lparr>inflight := AList.update (item_id x) c (inflight r)\<rparr>" r for c]
  by (cases "world_spawn w") (simp_all add: dispatch_task_def)

lemma kept_starve: "other_runs_kept r l (starve_all cfg w xs now r l)"
proof (cases xs)
  case (Cons x rest)
  obtain reason l' where s: "starve cfg (world_oracle w) (item_ctx r x) (candidate_profiles r) (item_tokens cfg x) now (window_end_ms r) l = (reason, l')"
    by (rule prod.exhaust)
  then have "reservations l' = reservations l" by (metis reservations_of(4) snd_conv)
  then show ?thesis by (simp add: starve_all_def Cons s other_runs_kept_def)
qed (simp add: starve_all_def)

lemma kept_segment: "other_runs_kept r l (run_segment cfg w r l)"
  by (cases "run_phase r")
    (simp_all add: run_segment_def kept_reap kept_fill kept_dispatch kept_refill kept_starve maybe_finalize_def)

text \<open>No run of the day in question.\<close>

definition none_of_the_day :: "string \<Rightarrow> night_state \<Rightarrow> bool" where
  "none_of_the_day day st \<longleftrightarrow> list_all (\<lambda>r. length (run_id r) = 10 \<and> run_id r \<noteq> day) (night_runs st)"

definition opens_on :: "string \<Rightarrow> night_event \<Rightarrow> bool" where
  "opens_on day ev \<longleftrightarrow> (case ev of Run_Opened _ _ _ _ now \<Rightarrow> today_str now = day | _ \<Rightarrow> False)"

lemma event_keeps_the_day:
  assumes "none_of_the_day day st" "\<not> opens_on day ev" "length day = 10"
  shows "none_of_the_day day (night_event_step cfg st ev)
    \<and> map_of (reservations (night_ledger (night_event_step cfg st ev))) (task_ref_of day t) = map_of (reservations (night_ledger st)) (task_ref_of day t)"
proof (cases ev)
  case (Run_Opened p ncfg i sd now)
  with assms show ?thesis by (auto simp: none_of_the_day_def opens_on_def open_nightshift_def open_run_def Let_def)
next
  case (Run_Ticked k)
  have "run_id (advance_run r) = run_id r" for r by (simp add: advance_run_def)
  moreover have "length (run_id (night_runs st ! k)) = 10 \<and> run_id (night_runs st ! k) \<noteq> day" if "k < length (night_runs st)"
    using assms(1) that by (simp add: none_of_the_day_def list_all_length)
  ultimately show ?thesis using assms(1)
    by (cases "k < length (night_runs st)") (simp_all add: Run_Ticked none_of_the_day_def list_all_update not_less list_update_beyond)
next
  case (Segment k w)
  show ?thesis
  proof (cases "k < length (night_runs st)")
    case True
    let ?r = "night_runs st ! k"
    obtain r' l' where s: "run_segment cfg w ?r (night_ledger st) = (r', l')" by (rule prod.exhaust)
    have r: "length (run_id ?r) = 10" "run_id ?r \<noteq> day" using assms(1) True by (simp_all add: none_of_the_day_def list_all_length)
    have "other_runs_kept ?r (night_ledger st) (r', l')" using kept_segment [of ?r "night_ledger st" cfg w] by (simp add: s)
    with r assms(3) have "run_id r' = run_id ?r" "map_of (reservations l') (task_ref_of day t) = map_of (reservations (night_ledger st)) (task_ref_of day t)"
      by (auto simp: other_runs_kept_def)
    with assms(1) r True show ?thesis by (simp add: Segment night_step_at_def s none_of_the_day_def list_all_update Let_def)
  qed (use assms(1) Segment in simp)
next
  case Usage_Event
  with assms(1) show ?thesis by (auto simp: none_of_the_day_def list_all_length nth_enumerate_eq)
qed (use assms(1) in \<open>simp_all add: none_of_the_day_def\<close>)

lemma run_keeps_the_day:
  "none_of_the_day day st \<Longrightarrow> list_all (\<lambda>ev. \<not> opens_on day ev) events \<Longrightarrow> length day = 10
    \<Longrightarrow> map_of (reservations (night_ledger (night_after cfg events st))) (task_ref_of day t) = map_of (reservations (night_ledger st)) (task_ref_of day t)"
proof (induction events arbitrary: st)
  case (Cons ev events)
  from event_keeps_the_day [of day st ev cfg t] Cons show ?case by (simp add: night_after_def)
qed (simp add: night_after_def)

lemma reconstructed: "c \<in> set convs \<Longrightarrow> map_of (reservations (reconstruct_ledger cfg now convs l)) (task_ref_of (inflight_run c) (inflight_task c)) \<noteq> None"
proof (induction convs arbitrary: l rule: rev_induct)
  case (snoc x convs)
  then show ?case by (auto simp: reconstruct_ledger_def reserve_def task_ref_of_def Let_def)
qed simp

text \<open>
  C40: after a restart the capacity of a worker that was in flight is never given back. The ledger is
  rebuilt with its reservation, but no run is, so whatever is opened, ticked, answered and ended on
  any later day, and although the worker itself has long ended, the reservation is there as it was.
\<close>

theorem reservations_outlive_a_restart:
  assumes "c \<in> set convs" "inflight_run c = today_str before"
    and "list_all (\<lambda>ev. \<not> opens_on (today_str before) ev) events"
  shows "let ref = task_ref_of (inflight_run c) (inflight_task c); start = night_start cfg now convs
    in map_of (reservations (night_ledger (night_after cfg events start))) ref = map_of (reservations (night_ledger start)) ref
      \<and> map_of (reservations (night_ledger start)) ref \<noteq> None"
  using run_keeps_the_day [of "today_str before" "night_start cfg now convs" events cfg "inflight_task c"] assms reconstructed [OF assms(1)]
  by (simp add: night_start_def none_of_the_day_def Let_def)

theorem reservations_outlive_a_restart_witness:
  "let worker = \<lparr>inflight_id = ''c1'', inflight_project = ''p'', resolved_profile = None, used_tokens = 0, inflight_run = today_str 0, inflight_task = ''001''\<rparr>
   in map_of (reservations (night_ledger (night_after DEFAULT_CAPACITY_CONFIG [Start_Checked ''p'', Usage_Event] (night_start DEFAULT_CAPACITY_CONFIG 1 [worker]))))
        (task_ref_of (today_str 0) ''001'') \<noteq> None"
  using reservations_outlive_a_restart [of "\<lparr>inflight_id = ''c1'', inflight_project = ''p'', resolved_profile = None, used_tokens = 0,
      inflight_run = today_str 0, inflight_task = ''001''\<rparr>" "[\<lparr>inflight_id = ''c1'', inflight_project = ''p'', resolved_profile = None, used_tokens = 0,
      inflight_run = today_str 0, inflight_task = ''001''\<rparr>]" 0 "[Start_Checked ''p'', Usage_Event]" DEFAULT_CAPACITY_CONFIG 1]
  by (simp add: opens_on_def Let_def)

subsection \<open>Two runs at once\<close>

lemma scanned_id:
  "k < length (snd (scan_nightshift i d)) \<Longrightarrow> item_id (snd (scan_nightshift i d) ! k) = ordinal (k + 1)"
proof -
  have ids: "map item_id (snd (scan_nightshift i d)) = map (\<lambda>k. ordinal (k + 1)) [0..<length (scan_acted (fst (scan_nightshift i d)))]"
    using night_fold [of d "tagged_cards i d"] by (auto simp: scan_nightshift_def night_so_far_def Let_def split: prod.splits)
  then have len: "length (snd (scan_nightshift i d)) = length (scan_acted (fst (scan_nightshift i d)))"
    by (metis length_map length_upt minus_nat.diff_0)
  assume k: "k < length (snd (scan_nightshift i d))"
  then have "item_id (snd (scan_nightshift i d) ! k) = map item_id (snd (scan_nightshift i d)) ! k" by simp
  with k len show ?thesis unfolding ids by simp
qed

lemma delete_of_updates:
  "AList.delete k (AList.update k v m) = AList.delete k m"
  by (induction m) (auto simp: AList.delete_eq)

text \<open>
  C38: two projects of one night share their reservations. A reservation is named by the day of its run
  and the number of its task, and not by the project, so the k-th task of one project admitted after the
  k-th of another takes its place in the ledger: from then on nothing is reserved for the first, and
  when either of the two ends, the ledger stands as if neither had been admitted.
\<close>

theorem two_projects_share_a_reservation:
  assumes "today_str now1 = today_str now2"
    and "k < length (snd (scan_nightshift i1 d1))" "k < length (snd (scan_nightshift i2 d2))"
    and "r1 = open_run p1 c1 (snd (scan_nightshift i1 d1)) now1" "r2 = open_run p2 c2 (snd (scan_nightshift i2 d2)) now2"
    and "ref1 = task_ref_of (run_id r1) (item_id (pending r1 ! k))" "ref2 = task_ref_of (run_id r2) (item_id (pending r2 ! k))"
    and "admit_best cfg orc1 (item_ctx r1 (pending r1 ! k)) (candidate_profiles r1) est1 ref1 t1 (window_end_ms r1) l = (res1, l1)"
    and "admit_best cfg orc2 (item_ctx r2 (pending r2 ! k)) (candidate_profiles r2) est2 ref2 t2 (window_end_ms r2) l1 = (res2, l2)"
    and "admitted_on res1 = Some q1" "admitted_on res2 = Some q2"
  shows "map_of (reservations l1) ref1 = Some \<lparr>res_profile = q1, res_tokens = est1, res_at = t1, res_ctx = item_ctx r1 (pending r1 ! k)\<rparr>
    \<and> map_of (reservations l2) ref1 = Some \<lparr>res_profile = q2, res_tokens = est2, res_at = t2, res_ctx = item_ctx r2 (pending r2 ! k)\<rparr>
    \<and> reservations (settle ref2 actual t3 l2) = reservations (settle ref1 None t1 l)"
proof -
  have ref: "ref2 = ref1"
    unfolding assms(4-7) by (simp add: open_run_def task_ref_of_def scanned_id assms(1-3))
  have l1: "reservations l1 = AList.update ref1 \<lparr>res_profile = q1, res_tokens = est1, res_at = t1, res_ctx = item_ctx r1 (pending r1 ! k)\<rparr> (reservations l)"
    using admit_best_cases [OF assms(8)] by (simp add: assms(10))
  have l2: "reservations l2 = AList.update ref1 \<lparr>res_profile = q2, res_tokens = est2, res_at = t2, res_ctx = item_ctx r2 (pending r2 ! k)\<rparr> (reservations l1)"
    using admit_best_cases [OF assms(9)] by (simp add: assms(11) ref)
  show ?thesis by (simp add: ref l2 l1 delete_of_updates)
qed

text \<open>A run that no project holds, and what keeps it so.\<close>

definition orphaned :: "nat \<Rightarrow> night_state \<Rightarrow> bool" where
  "orphaned k st \<longleftrightarrow> k < length (night_runs st) \<and> k \<notin> snd ` set (active_runs st)"

definition active_in_range :: "night_state \<Rightarrow> bool" where
  "active_in_range st \<longleftrightarrow> list_all (\<lambda>x. snd x < length (night_runs st)) (active_runs st)"

lemma update_values: "snd ` set (AList.update p v m) \<subseteq> insert v (snd ` set m)"
  by (induction m) auto

lemma delete_values: "snd ` set (AList.delete p m) \<subseteq> snd ` set m"
  by (auto simp: AList.delete_eq)

lemma event_active:
  "length (night_runs st) \<le> length (night_runs (night_event_step cfg st ev))
    \<and> snd ` set (active_runs (night_event_step cfg st ev))
        \<subseteq> snd ` set (active_runs st) \<union> {length (night_runs st)..<length (night_runs (night_event_step cfg st ev))}"
proof (cases ev)
  case (Run_Opened p ncfg i sd now)
  with update_values [of p "length (night_runs st)" "active_runs st"] show ?thesis
    by (auto simp: open_nightshift_def Let_def)
next
  case (Segment k w)
  with delete_values [of _ "active_runs st"] show ?thesis by (auto simp: night_step_at_def Let_def split: prod.split)
qed (auto simp: enumerate_eq_zip)

lemma event_orphaned: "orphaned k st \<Longrightarrow> orphaned k (night_event_step cfg st ev)"
  using event_active [of st cfg ev] by (auto simp: orphaned_def)

lemma event_in_range: "active_in_range st \<Longrightarrow> active_in_range (night_event_step cfg st ev)"
  using event_active [of st cfg ev] by (fastforce simp: active_in_range_def list_all_iff)

lemma run_orphaned: "orphaned k st \<Longrightarrow> orphaned k (night_after cfg events st)"
  unfolding night_after_def by (induction events arbitrary: st) (simp_all add: event_orphaned)

lemma run_in_range: "active_in_range st \<Longrightarrow> active_in_range (night_after cfg events st)"
  unfolding night_after_def by (induction events arbitrary: st) (simp_all add: event_in_range)

text \<open>
  C39: two starts of one project that overlap orphan a run. The check for an active run and the entry of
  the run are on either side of the questions to the sentinel, so when both starts pass the check before
  either opens, both open a run on the board; the project holds the second, and the first, its cards
  pending, is never again an active run, whatever comes after.
\<close>

theorem starts_that_overlap_orphan_a_run:
  assumes "st = night_after cfg events (night_start cfg now convs)" "map_of (active_runs st) p = None"
    and "tasks1 = snd (scan_nightshift i1 (d1\<lparr>night_total := snd (resolve_caps (config_caps n1))\<rparr>))" "tasks1 \<noteq> []"
    and "tasks2 = snd (scan_nightshift i2 (d2\<lparr>night_total := snd (resolve_caps (config_caps n2))\<rparr>))" "tasks2 \<noteq> []"
    and "st2 = night_after cfg [Start_Checked p, Start_Checked p, Run_Opened p n1 i1 d1 t1, Run_Opened p n2 i2 d2 t2] st"
  shows "let k = length (night_runs st)
    in length (night_runs st2) = k + 2 \<and> map_of (active_runs st2) p = Some (k + 1)
      \<and> run_project (night_runs st2 ! k) = p \<and> pending (night_runs st2 ! k) = tasks1 \<and> run_project (night_runs st2 ! (k + 1)) = p
      \<and> k \<notin> set (map snd (active_runs (night_after cfg onward st2)))"
proof -
  let ?k = "length (night_runs st)"
  have "active_in_range st" unfolding assms(1) by (rule run_in_range) (simp add: night_start_def active_in_range_def)
  then have range: "?k \<notin> snd ` set (active_runs st)" by (auto simp: active_in_range_def list_all_iff)
  have fresh: "AList.update p ?k (active_runs st) = active_runs st @ [(p, ?k)]"
    using assms(2) by (intro update_new) (simp add: map_of_eq_None_iff)
  have again: "AList.update p v (m @ [(p, u)]) = m @ [(p, v)]" if "map_of m p = None" for v u :: nat and m
    using that by (induction m) (auto split: if_splits)
  have st2: "night_runs st2 = night_runs st @ [open_run p n1 tasks1 t1, open_run p n2 tasks2 t2]"
    "active_runs st2 = active_runs st @ [(p, ?k + 1)]"
    using assms(4,6) unfolding assms(7) night_after_def
    by (simp_all add: assms(2) open_nightshift_def Let_def assms(3,5) [symmetric] fresh again remove1_append)
  have "orphaned ?k st2" using range by (simp add: orphaned_def st2)
  then have "orphaned ?k (night_after cfg onward st2)" by (rule run_orphaned)
  then show ?thesis using assms(2) by (simp add: orphaned_def st2 open_run_def map_add_def nth_append Let_def)
qed

text \<open>A board of one card for the night, and a profile with all its room.\<close>

definition sample_night :: night_scan_deps where
  "sample_night =
     \<lparr>night_cards = [(hd sample_board)\<lparr>card_status := Open, tags := [NIGHTSHIFT_TAG]\<rparr>], night_convs = [], night_live = (\<lambda>_. False),
      night_read = (\<lambda>s. Some \<lparr>read_slug = s, read_title = s, read_body = []\<rparr>), night_project = ''p'', night_total = 8, night_now = 0\<rparr>"

definition sample_night_config :: night_config where
  "sample_night_config = \<lparr>config_caps = (None, None), profiles_allowed = [], config_window = None\<rparr>"

lemma sample_scan: "length (snd (scan_nightshift i sample_night)) = 1"
  by (simp add: scan_nightshift_def tagged_cards_def sample_night_def night_step_def live_card_ids_def sample_board_def)

theorem starts_that_overlap_orphan_a_run_witness:
  "0 \<notin> set (map snd (active_runs (night_after DEFAULT_CAPACITY_CONFIG
     [Start_Checked ''p'', Start_Checked ''p'', Run_Opened ''p'' sample_night_config \<lparr>locale_compare = \<lambda>_ _. 0, relative_format = \<lambda>_ s. s\<rparr> sample_night 0,
      Run_Opened ''p'' sample_night_config \<lparr>locale_compare = \<lambda>_ _. 0, relative_format = \<lambda>_ s. s\<rparr> sample_night 0]
     (night_start DEFAULT_CAPACITY_CONFIG 0 []))))"
proof -
  let ?i = "\<lparr>locale_compare = \<lambda>_ _. 0, relative_format = \<lambda>_ s. s\<rparr> :: intl"
  have total: "sample_night\<lparr>night_total := snd (resolve_caps (config_caps sample_night_config))\<rparr> = sample_night"
    by (simp add: sample_night_def sample_night_config_def resolve_caps_def)
  have tasks: "snd (scan_nightshift ?i sample_night) \<noteq> []" using sample_scan [of ?i] by auto
  have none: "map_of (active_runs (night_start DEFAULT_CAPACITY_CONFIG 0 [])) ''p'' = None" by (simp add: night_start_def)
  have runs: "night_runs (night_start DEFAULT_CAPACITY_CONFIG 0 []) = []" by (simp add: night_start_def)
  show ?thesis
    using starts_that_overlap_orphan_a_run [where st = "night_start DEFAULT_CAPACITY_CONFIG 0 []" and cfg = DEFAULT_CAPACITY_CONFIG
        and events = "[]" and now = 0 and convs = "[]" and p = "''p''" and ?i1.0 = ?i and ?d1.0 = sample_night and ?n1.0 = sample_night_config
        and ?i2.0 = ?i and ?d2.0 = sample_night and ?n2.0 = sample_night_config and ?t1.0 = 0 and ?t2.0 = 0 and onward = "[]", OF _ none refl _ refl _ refl]
    by (simp add: night_after_def total tasks runs Let_def)
qed

text \<open>A profile with all its room, for both projects.\<close>

definition sample_oracle :: headroom_oracle where
  "sample_oracle p = (if p = ''default'' then Some \<lparr>oracle_pct = Some 0, reset_at_ms = None\<rparr> else None)"

lemma sample_admitted:
  assumes "outstanding_tokens l ''default'' \<le> 50000"
  shows "admitted_on (fst (admit_best DEFAULT_CAPACITY_CONFIG sample_oracle ctx [''default''] 50000 ref 0 None l)) = Some ''default''"
  using assms
  by (simp add: admit_best_def best_for_def pick_best_def or_default_def available_eq floor_tokens_def time_aware_floor_fraction_def clamp_fraction_def
      DEFAULT_CAPACITY_CONFIG_def DEFAULT_CAPACITY_FLOOR_def headroom_tokens_def sample_oracle_def clamp_pct_def GATE_FIVE_HOUR_PCT_def Let_def split: prod.split)

theorem two_projects_share_a_reservation_witness:
  "let r = open_run ''p'' sample_night_config (snd (scan_nightshift \<lparr>locale_compare = \<lambda>_ _. 0, relative_format = \<lambda>_ s. s\<rparr> sample_night)) 0;
       s = open_run ''q'' sample_night_config (snd (scan_nightshift \<lparr>locale_compare = \<lambda>_ _. 0, relative_format = \<lambda>_ s. s\<rparr> sample_night)) 0;
       admit = (\<lambda>r l. snd (admit_best DEFAULT_CAPACITY_CONFIG sample_oracle (item_ctx r (pending r ! 0)) (candidate_profiles r) 50000
         (task_ref_of (run_id r) (item_id (pending r ! 0))) 0 (window_end_ms r) l))
   in reservations (settle (task_ref_of (run_id s) (item_id (pending s ! 0))) None 0 (admit s (admit r empty_ledger))) = []"
proof -
  let ?i = "\<lparr>locale_compare = \<lambda>_ _. 0, relative_format = \<lambda>_ s. s\<rparr> :: intl"
  define r s where "r = open_run ''p'' sample_night_config (snd (scan_nightshift ?i sample_night)) 0"
    and "s = open_run ''q'' sample_night_config (snd (scan_nightshift ?i sample_night)) 0"
  define ref where "ref x = task_ref_of (run_id x) (item_id (pending x ! 0))" for x :: night_run
  define admit where "admit x l = admit_best DEFAULT_CAPACITY_CONFIG sample_oracle (item_ctx x (pending x ! 0)) (candidate_profiles x) 50000 (ref x) 0 (window_end_ms x) l" for x :: night_run and l
  have run: "candidate_profiles r = [''default'']" "window_end_ms r = None" "candidate_profiles s = [''default'']" "window_end_ms s = None"
    by (simp_all add: r_def s_def open_run_def sample_night_config_def compute_window_end_ms_def truthy_def)
  have first: "admitted_on (fst (admit r empty_ledger)) = Some ''default''"
    unfolding admit_def run by (rule sample_admitted) (simp add: empty_ledger_def outstanding_tokens_def)
  then have "reservations (snd (admit r empty_ledger)) = [(ref r, \<lparr>res_profile = ''default'', res_tokens = 50000, res_at = 0, res_ctx = item_ctx r (pending r ! 0)\<rparr>)]"
    using admit_best_cases [OF prod.collapse [symmetric], of DEFAULT_CAPACITY_CONFIG sample_oracle "item_ctx r (pending r ! 0)" "candidate_profiles r" 50000 "ref r" 0 "window_end_ms r" empty_ledger]
    by (simp add: admit_def empty_ledger_def)
  then have second: "admitted_on (fst (admit s (snd (admit r empty_ledger)))) = Some ''default''"
    unfolding admit_def [of s] run by (intro sample_admitted) (simp add: outstanding_tokens_def)
  have tasks: "0 < length (snd (scan_nightshift ?i sample_night))" by (simp add: sample_scan)
  have "reservations (settle (ref s) None 0 (snd (admit s (snd (admit r empty_ledger))))) = reservations (settle (ref r) None 0 empty_ledger)"
    using two_projects_share_a_reservation [OF refl tasks tasks r_def s_def ref_def ref_def prod.collapse [symmetric] prod.collapse [symmetric] first [unfolded admit_def]
        second [unfolded admit_def]]
    by (simp add: admit_def)
  then show ?thesis by (simp add: Let_def r_def s_def ref_def admit_def empty_ledger_def AList.delete_eq)
qed

end
