(* ===== verification/Spec2Isabelle.thy ===== *)
theory Spec2Isabelle
  imports EpicReady EpicLease EpicWriteback EpicSweep Permissions ScheduleRaces Selection Nightshift
begin

text \<open>
  A verification development of the unattended half of claudewerk: the epic engine, which runs a board
  of task cards with a fleet of agents, and the scheduler, which launches agents by the clock, with the
  gates both launch through. Paths are under \<open>src/src/\<close>.

  An epic is a card whose children are worked by agents. A run of an epic is armed once and then
  beats: every 45 seconds the broker reads the board, the run record and the lease on the epic card,
  folds the board into a plan (who may be dispatched, verified, or is held and why), decides one
  beat from the plan and the run (dispatch, wake the supervisor, park, complete), writes the scalars
  the beat asks for into the run record, and performs the actions. Supervisors and workers take
  their seats by a compare-and-swap on card frontmatter. A user sees of all this what their grants
  resolve to.

  A schedule is a cron expression or one moment, in a time zone. Every minute the engine decides which
  schedules fire, marks the minute on each, and fires it: the owner is asked again, a seat order is
  looked up, a slot is taken, the request is composed from the launch profile, the schedule and the
  order, the deny floor is folded into its settings, and it is dispatched. What happened is a row; five
  failures in a row disarm the schedule; a walk over the outage at start writes what was missed and may
  run it late.

  A night run works the cards of a project that carry a tag. A scanner takes them from the board, refusing
  each one it leaves into a named bucket; the run dispatches them within its concurrency and, where
  capacity admission is on, within a ledger in which every dispatch reserves its estimate on the profile
  with the most headroom. Which profile a spawn then runs on the sentinel picks for itself.

  The theories, in the order the code depends on them:

  \<^item> \<open>JsPrelude\<close>, \<open>JsDouble\<close>, \<open>JsDate\<close>, \<open>JsIntl\<close>, \<open>JsValue\<close>: what the source uses of its language.
    Stable sort with an arbitrary comparator, sets in insertion order, decimal strings, rounding of
    quotients to doubles, \<open>Number\<close> on strings, \<open>Date.parse\<close> and \<open>toISOString\<close> with their round trip,
    frontmatter values.
  \<^item> \<open>EpicCards\<close> (\<open>shared/epic-cards.ts\<close>): card metadata, lanes as buckets, children of an epic and
    its rollup.
  \<^item> \<open>EpicLanding\<close> (\<open>shared/epic-landing.ts\<close>, \<open>shared/deployed-capabilities.ts\<close>): whether finished
    work reached main, the escalation ledger and its text form.
  \<^item> \<open>EpicReadyOrder\<close> (\<open>shared/epic-ready-order.ts\<close>): the order of ready cards by how many live
    cards each unblocks. \<open>EpicReady\<close> (\<open>shared/epic-ready.ts\<close>): the fold of the board into a plan,
    for the children of an epic and for the cards of a tag.
  \<^item> \<open>EpicLease\<close> (\<open>shared/epic-lease.ts\<close>, \<open>shared/epic-seat-lease.ts\<close>, \<open>sentinel/epic-card-meta.ts\<close>,
    \<open>sentinel/epic-seat-handlers.ts\<close>): the compare-and-swap and the three seat handlers.
  \<^item> \<open>EpicWhen\<close> (\<open>shared/epic-when.ts\<close>): the gates a run waits for, in every spelling a caller may
    send. \<open>EpicRun\<close> (\<open>shared/epic-run-types.ts\<close>, \<open>shared/epic-run-caps.ts\<close>): the run record and its
    ceilings as shown.
  \<^item> \<open>EpicHeadroom\<close>, \<open>EpicQueue\<close> (\<open>broker/epic-headroom.ts\<close>, \<open>broker/epic-queue.ts\<close>): the two
    verdicts computed across a whole project before its epics beat, and the one holder of the runner the
    second keeps over time, as long as every run of the project is read at every beat.
  \<^item> \<open>EpicBeat\<close> (\<open>broker/epic-beat.ts\<close>): the decision. \<open>EpicBeatSafety\<close>: what it does and never does.
  \<^item> \<open>SectionLog\<close> (\<open>shared/md-section-log.ts\<close>, \<open>shared/atomic-write.ts\<close>): append-only logs of headed
    sections as text. \<open>EpicLog\<close> (\<open>shared/epic-log.ts\<close>, \<open>shared/epic-log-tag.ts\<close>,
    \<open>shared/epic-pending-seats.ts\<close>): the baton of a run in such a file and what is folded out of it.
  \<^item> \<open>Frontmatter\<close>, \<open>JsDecimal\<close> (\<open>shared/frontmatter.ts\<close>): the flat codec of cards and runs, and amounts
    as text. \<open>EpicCadence\<close>: the gate list through that codec.
  \<^item> \<open>EpicStore\<close> (\<open>shared/epic-run-store.ts\<close>): the three files of a run. \<open>EpicHandlers\<close>
    (\<open>sentinel/epic-handlers.ts\<close>): the operations of the sentinel over files, tombstones and cards.
    \<open>CasRegister\<close> is the contract of a numbered lease, \<open>EpicSentinel\<close> interprets it on the wake and on
    the seats; \<open>EpicRecord\<close> shows what is never lost, \<open>EpicStable\<close> the invariant of the reachable
    stores, \<open>EpicRuns\<close> the status machine the files implement and what a torn file does to it.
  \<^item> \<open>EpicWriteback\<close> joins the two halves: what a beat asks to be written is what the next one reads.
  \<^item> \<open>ProjectUri\<close>, \<open>Permissions\<close> (\<open>shared/project-uri.ts\<close>, \<open>broker/permissions.ts\<close>): project
    addresses and the grants scoped by them.
  \<^item> \<open>EpicRegistry\<close> (\<open>broker/epic-registry.ts\<close>): the armed and the deleted epics and the store they are
    written to. \<open>EpicSweep\<close> (\<open>broker/epic-sweep.ts\<close>, \<open>broker/epic-vitality.ts\<close>): the fold of every
    conversation into what each epic has running, settled, failed and lost, and which epics are watched.
  \<^item> \<open>CronParse\<close>, \<open>CronNext\<close>, \<open>CronExact\<close> (\<open>shared/cron-parse.ts\<close>, \<open>shared/cron-time.ts\<close>,
    \<open>shared/cron-next.ts\<close>): expressions, wall clocks, and the search for the next fires with the walk
    over every minute it is equal to.
  \<^item> \<open>SchedulePolicy\<close>, \<open>ScheduleOutage\<close> (\<open>broker/scheduled-tasks/policy.ts\<close>,
    \<open>broker/scheduled-tasks/catch-up.ts\<close>, \<open>shared/schedule-next-fire.ts\<close>): the decisions as functions
    of a schedule and a moment, and what they amount to over days and outages.
  \<^item> \<open>JsRegex\<close>, \<open>JsJson\<close>: the regular expressions and the JSON values the next theories use.
    \<open>DenyFloor\<close> (\<open>shared/unattended-permissions.ts\<close>): what no unattended agent may do. \<open>WorkOrder\<close>
    (\<open>shared/order.ts\<close>): orders read from files. \<open>SpawnGate\<close> (\<open>shared/spawn-permissions.ts\<close>,
    \<open>shared/order-caps.ts\<close>): who may launch what, and caps that only narrow.
  \<^item> \<open>ScheduleFire\<close> (\<open>broker/scheduled-tasks/fire.ts\<close>, \<open>broker/scheduled-tasks/seat-reservation.ts\<close>,
    \<open>shared/werk-refiner-order.ts\<close>): what a fire does. \<open>ScheduleEngine\<close>
    (\<open>broker/scheduled-tasks/engine.ts\<close>, \<open>broker/store/memory/scheduled-tasks.ts\<close>): the engine as events,
    a dispatch being in flight between the event that starts it and the one that settles it, so that
    every interleaving is a list of events. \<open>ScheduleRaces\<close>: what holds of all of them, and two that
    go wrong.
  \<^item> \<open>Scanners\<close> (\<open>broker/scanners/scanner.ts\<close> and the scanners of the night run, the refiner and the work
    orders beside it): the contract of a scanner as a locale, and three scanners that keep it.
  \<^item> \<open>Capacity\<close> (\<open>broker/capacity-*.ts\<close>): floor, headroom, and the ledger of reservations, rebuilt after a
    restart. \<open>Nightshift\<close> (\<open>broker/nightshift-orchestrator.ts\<close>, \<open>broker/capacity-admission.ts\<close>,
    \<open>broker/nightshift-window.ts\<close>): the run as a coroutine that is suspended at every \<open>await\<close>, so that runs
    and starts interleave there and nowhere else; what is kept by all of them, and three races and
    restarts that go wrong.
  \<^item> \<open>Selection\<close> (\<open>sentinel/selection.ts\<close>): the profile a spawn runs on, with the bands of what is known of
    its usage.

  How the model corresponds to the code. A TypeScript interface is a record with the same fields, an
  absent field is \<open>None\<close>; a string union is a datatype; a \<open>Map\<close> whose order shows is an association
  list in insertion order; a thrown error is the \<open>Err\<close> branch of a result. A card file is its parsed
  frontmatter, a function from keys to values. Every function is named after its source in lower
  case; a name taken by the library or by another component carries a suffix or a prefix. The
  theorems are stated over those functions; predicates such as \<open>clear_to_build\<close>, \<open>may_work\<close> or
  \<open>counts_for\<close> restate, without the order in which the code asks, what the theorem says the code
  decides.

  Bounds and parameters. Counters and stamps are integers below the range where a double loses them;
  money and percentages are the rationals their doubles denote, and sums of money are not formed in
  the modelled code; sums of tokens and the ranks of profiles are, and are taken exactly. \<open>Date\<close> has its documented range of 8.64e15 milliseconds, \<open>Date.parse\<close> only the
  ECMAScript format (three fraction digits), and the host zone is UTC. Strings are sequences of
  characters below 256. \<open>localeCompare\<close> and \<open>Intl.RelativeTimeFormat\<close> are the fields of a parameter
  \<open>intl\<close>, the \<open>URL\<close> parser and \<open>decodeURIComponent\<close> those of a parameter \<open>url_runtime\<close>; the properties hold for
  every such parameter, or name what they need of it, and \<open>plain_intl\<close> and \<open>plain_runtime\<close> are
  concrete instances. A time zone database is a parameter \<open>tz_database\<close>, the offset of a zone at an
  instant; \<open>fixed_zone\<close> and \<open>berlin_2026\<close> are instances, and a theorem about one offset says so. The
  search for the next fires looks at 1464 days, the bound of the code. Every loop of the modelled code is a fold over a list or a recursion with a decreasing
  measure; the one fuel is the search for the leading digit of an amount in \<open>JsDecimal\<close>, 400 steps for
  the 309 decades of a double on either side.

  A file is its text, a directory three optional files; a file that exists and cannot be read for
  reasons of the file system, and the temporary file and rename of a write, are left out. A frontmatter
  object is an association list, so keys that name members of \<open>Object.prototype\<close> are outside the model.

  Not modelled: the calls the executor makes to the sentinel and the spawn gate around a beat, prompts
  and rendering, the tree of board files, the watchdog and the guardian of night workers, quests, message
  routing, agent hosts, authentication and the control panel, as listed beside this development: they are sockets, processes, files and text around
  the decisions modelled here.
\<close>

end
